(* ===== verification/Prelude.thy ===== *)
theory Prelude
  imports Main "HOL-Library.Word" "HOL-Library.Code_Target_Nat"
begin

text \<open>
  Shared vocabulary of the development: Python exceptions as values of \<open>py_error\<close> in a sum,
  byte strings, the big-endian packing and reading functions of
  \<open>pox/pox/openflow/libopenflow_01.py\<close> (\<open>struct.pack\<close>, \<open>_read\<close>, \<open>_unpack\<close>, \<open>_skip\<close>, \<open>_readzs\<close>,
  \<open>_packzs\<close>), Python dictionaries as association lists in insertion order, and a state and
  exception monad for the stateful components.  A read position (an offset into a buffer) is
  represented by the bytes that are still unread.
\<close>

unbundle bit_operations_syntax

section \<open>Exceptions as values\<close>

datatype py_error =
    UnderrunError | AssertionError | StructError | TypeError | ValueError | KeyError
  | RuntimeError | AttributeError | NameError | IndexError | RecursionError | ReventError

type_synonym 'a result = "py_error + 'a"

definition rbind :: "'a result \<Rightarrow> ('a \<Rightarrow> 'b result) \<Rightarrow> 'b result" where
  "rbind m f = (case m of Inl e \<Rightarrow> Inl e | Inr x \<Rightarrow> f x)"

definition py_assert :: "bool \<Rightarrow> unit result" where
  "py_assert b = (if b then Inr () else Inl AssertionError)"

lemma rbind_simps [simp]:
  "rbind (Inl e) f = Inl e"
  "rbind (Inr x) f = f x"
  by (simp_all add: rbind_def)

lemma rbind_eq_Inr [simp]: "rbind m f = Inr y \<longleftrightarrow> (\<exists>x. m = Inr x \<and> f x = Inr y)"
  by (cases m) auto

lemma rbind_cong [fundef_cong]:
  "m = m' \<Longrightarrow> (\<And>x. m' = Inr x \<Longrightarrow> f x = g x) \<Longrightarrow> rbind m f = rbind m' g"
  by (cases m') auto

lemma rbind_assoc: "rbind (rbind m f) g = rbind m (\<lambda>x. rbind (f x) g)"
  by (cases m) auto

lemma py_assert_simps [simp]:
  "py_assert True = Inr ()"
  "py_assert False = Inl AssertionError"
  "py_assert b = Inr u \<longleftrightarrow> b"
  by (simp_all add: py_assert_def)

section \<open>Bytes, \<open>struct\<close> packing and reading\<close>

type_synonym byte = "8 word"
type_synonym bytes = "byte list"
type_synonym 'a reader = "bytes \<Rightarrow> ('a \<times> bytes) result"

text \<open>\<open>struct.pack\<close> with the formats \<open>!B\<close>, \<open>!H\<close>, \<open>!L\<close>, \<open>!Q\<close>: the \<open>n\<close> low bytes, most significant first.\<close>

fun to_be :: "nat \<Rightarrow> 'a::len word \<Rightarrow> bytes" where
  "to_be 0 w = []"
| "to_be (Suc n) w = to_be n (drop_bit 8 w) @ [ucast w]"

definition of_be :: "bytes \<Rightarrow> 'a::len word" where
  "of_be bs = foldl (\<lambda>a b. push_bit 8 a OR ucast b) 0 bs"

abbreviation (input) pack_B :: "byte \<Rightarrow> bytes" where "pack_B b \<equiv> [b]"
definition pack_H :: "16 word \<Rightarrow> bytes" where "pack_H w = to_be 2 w"
definition pack_L :: "32 word \<Rightarrow> bytes" where "pack_L w = to_be 4 w"
definition pack_Q :: "64 word \<Rightarrow> bytes" where "pack_Q w = to_be 8 w"

definition pad :: "nat \<Rightarrow> bytes" where "pad n = replicate n 0"

lemma length_to_be [simp]: "length (to_be n w) = n"
  by (induction n w rule: to_be.induct) auto

lemma length_pack [simp]:
  "length (pack_H h) = 2" "length (pack_L l) = 4" "length (pack_Q q) = 8" "length (pad n) = n"
  by (simp_all add: pack_H_def pack_L_def pack_Q_def pad_def)

lemma unat_byte [simp]: "unat (b :: byte) < 256"
  by (rule order_less_le_trans [OF unsigned_less]) simp

lemma unat_byte_hi [simp]: "unat (b :: byte) div 16 < 16"
  by (rule less_mult_imp_div_less) simp

lemma of_be_snoc: "of_be (bs @ [b]) = push_bit 8 (of_be bs) OR ucast b"
  by (simp add: of_be_def)

lemma of_be_to_be: "of_be (to_be n (w :: 'a::len word)) = take_bit (8 * n) w"
proof (induction n arbitrary: w)
  case 0
  then show ?case by (simp add: of_be_def)
next
  case (Suc n)
  have "push_bit 8 (take_bit (8 * n) (drop_bit 8 w)) OR ucast (ucast w :: byte)
      = take_bit (8 * Suc n) w"
    by (rule bit_eqI) (auto simp: bit_simps)
  with Suc show ?case by (simp add: of_be_snoc)
qed

lemma of_be_pack [simp]:
  "of_be (pack_H h) = h" "of_be (pack_L l) = l" "of_be (pack_Q q) = q"
  by (simp_all add: pack_H_def pack_L_def pack_Q_def of_be_to_be)
     (rule bit_eqI, auto simp: bit_simps dest: bit_imp_le_length)+

lemma to_be_take_bit [simp]: "to_be n (take_bit (8 * n) w) = to_be n w"
proof (induction n arbitrary: w)
  case 0
  then show ?case by simp
next
  case (Suc n)
  have "to_be n (drop_bit 8 (take_bit (8 * Suc n) w)) = to_be n (drop_bit 8 w)"
    using Suc.IH [of "drop_bit 8 w"] by (simp add: drop_bit_take_bit)
  moreover have "ucast (take_bit (8 * Suc n) w) = (ucast w :: byte)"
    by (rule bit_eqI) (auto simp: bit_simps)
  ultimately show ?case by simp
qed

lemma to_be_of_be:
  assumes "8 * length bs \<le> LENGTH('a::len)"
  shows "to_be (length bs) (of_be bs :: 'a word) = bs"
  using assms
proof (induction bs rule: rev_induct)
  case Nil
  then show ?case by simp
next
  case (snoc b bs)
  let ?w = "of_be bs :: 'a word" and ?v = "push_bit 8 (of_be bs :: 'a word) OR ucast b"
  have bnd: "8 * length bs + 8 \<le> LENGTH('a)"
    using snoc.prems by simp
  have "take_bit (8 * length bs) (drop_bit 8 ?v) = take_bit (8 * length bs) ?w"
    by (rule bit_eqI) (use bnd in \<open>auto simp: bit_simps dest: bit_imp_le_length\<close>)
  then have "to_be (length bs) (drop_bit 8 ?v) = to_be (length bs) ?w"
    by (metis to_be_take_bit)
  moreover have "ucast ?v = b"
    by (rule bit_eqI) (use bnd in \<open>auto simp: bit_simps dest: bit_imp_le_length\<close>)
  ultimately show ?case
    using snoc.IH bnd by (simp add: of_be_snoc)
qed

lemma pack_of_be:
  "length bs = 2 \<Longrightarrow> pack_H (of_be bs) = bs"
  "length bs = 4 \<Longrightarrow> pack_L (of_be bs) = bs"
  "length bs = 8 \<Longrightarrow> pack_Q (of_be bs) = bs"
  using to_be_of_be [where 'a=16, of bs] to_be_of_be [where 'a=32, of bs] to_be_of_be [where 'a=64, of bs]
  by (simp_all add: pack_H_def pack_L_def pack_Q_def)

text \<open>Readers: \<open>_read\<close>, \<open>_unpack\<close> for the four formats, \<open>_skip\<close> and \<open>_unpad\<close>.\<close>

definition rd_bytes :: "nat \<Rightarrow> bytes reader" where
  "rd_bytes n bs = (if length bs < n then Inl UnderrunError else Inr (take n bs, drop n bs))"

definition rd_word :: "nat \<Rightarrow> ('a::len word) reader" where
  "rd_word n bs = rbind (rd_bytes n bs) (\<lambda>(xs, r). Inr (of_be xs, r))"

definition rd_B :: "byte reader" where
  "rd_B bs = (case bs of [] \<Rightarrow> Inl UnderrunError | b # r \<Rightarrow> Inr (b, r))"

definition rd_H :: "16 word reader" where "rd_H = rd_word 2"
definition rd_L :: "32 word reader" where "rd_L = rd_word 4"
definition rd_Q :: "64 word reader" where "rd_Q = rd_word 8"

definition rd_skip :: "nat \<Rightarrow> unit reader" where
  "rd_skip n bs = rbind (rd_bytes n bs) (\<lambda>(_, r). Inr ((), r))"

definition rd_unpad :: "nat \<Rightarrow> unit reader" where
  "rd_unpad n bs = rbind (rd_bytes n bs) (\<lambda>(xs, r).
     rbind (py_assert (list_all (\<lambda>b. b = 0) xs)) (\<lambda>_. Inr ((), r)))"

text \<open>
  \<open>_readzs\<close>: a latin-1 string (one byte per character) up to the first zero byte; the rest of the
  field has to be zero.  \<open>_packzs\<close> pads on the right and never truncates.
\<close>

definition rd_zs :: "nat \<Rightarrow> bytes reader" where
  "rd_zs n bs = rbind (rd_bytes n bs) (\<lambda>(xs, r).
     rbind (py_assert (list_all (\<lambda>b. b = 0) (dropWhile (\<lambda>b. b \<noteq> 0) xs)))
       (\<lambda>_. Inr (takeWhile (\<lambda>b. b \<noteq> 0) xs, r)))"

definition packzs :: "bytes \<Rightarrow> nat \<Rightarrow> bytes" where
  "packzs s n = s @ replicate (n - length s) 0"

named_theorems codec "reading back what was packed"

lemma rd_bytes_append [codec]: "length xs = n \<Longrightarrow> rd_bytes n (xs @ r) = Inr (xs, r)"
  by (simp add: rd_bytes_def)

lemma rd_pack [codec]:
  "rd_B (b # r) = Inr (b, r)"
  "rd_H (pack_H h @ r) = Inr (h, r)"
  "rd_L (pack_L l @ r) = Inr (l, r)"
  "rd_Q (pack_Q q @ r) = Inr (q, r)"
  by (simp_all add: rd_B_def rd_H_def rd_L_def rd_Q_def rd_word_def rd_bytes_append)

lemma rd_skip_pad [codec]:
  "rd_skip n (pad n @ r) = Inr ((), r)"
  "rd_unpad n (pad n @ r) = Inr ((), r)"
  by (simp_all add: rd_skip_def rd_unpad_def rd_bytes_append list_all_iff pad_def)

lemma rd_zs_packzs [codec]:
  assumes "0 \<notin> set s" "length s \<le> n"
  shows "rd_zs n (packzs s n @ r) = Inr (s, r)"
proof -
  have nz: "\<forall>b \<in> set s. b \<noteq> 0"
    using assms(1) by auto
  have "takeWhile (\<lambda>b. b \<noteq> 0) (packzs s n) = s"
    using nz by (cases "n - length s") (auto simp: packzs_def takeWhile_append2)
  moreover have "dropWhile (\<lambda>b. b \<noteq> 0) (packzs s n) = replicate (n - length s) 0"
    using nz by (cases "n - length s") (auto simp: packzs_def dropWhile_append2)
  moreover have "length (packzs s n) = n"
    using assms(2) by (simp add: packzs_def)
  ultimately show ?thesis
    by (simp add: rd_zs_def rd_bytes_append list_all_iff)
qed

lemma length_packzs [simp]: "length s \<le> n \<Longrightarrow> length (packzs s n) = n"
  by (simp add: packzs_def)

lemma rd_bytes_Inr: "rd_bytes n bs = Inr (xs, r) \<longleftrightarrow> n \<le> length bs \<and> xs = take n bs \<and> r = drop n bs"
  by (auto simp: rd_bytes_def)

section \<open>Wire formats\<close>

text \<open>Several objects one after the other: packed by a loop that appends, read back a given number of times.\<close>

fun enc_all :: "('a \<Rightarrow> bytes result) \<Rightarrow> 'a list \<Rightarrow> bytes result" where
  "enc_all enc [] = Inr []"
| "enc_all enc (x # xs) = rbind (enc x) (\<lambda>b. rbind (enc_all enc xs) (\<lambda>bs. Inr (b @ bs)))"

fun rd_many :: "'a reader \<Rightarrow> nat \<Rightarrow> 'a list reader" where
  "rd_many dec 0 bs = Inr ([], bs)"
| "rd_many dec (Suc n) bs = rbind (dec bs) (\<lambda>(x, r). rbind (rd_many dec n r) (\<lambda>(xs, r'). Inr (x # xs, r')))"

text \<open>
  The contract of a packer and a reader: what the reader makes of packed bytes, whatever follows
  them, is the object as it was sent (packing may normalise some fields), and it stops at their end.
\<close>

locale wire_format =
  fixes enc :: "'a \<Rightarrow> bytes result"
    and dec :: "bytes \<Rightarrow> ('a \<times> bytes) result"
    and ok :: "'a \<Rightarrow> bool"
    and sent :: "'a \<Rightarrow> 'a"
  assumes dec_enc: "ok a \<Longrightarrow> enc a = Inr bs \<Longrightarrow> dec (bs @ r) = Inr (sent a, r)"
begin

lemma uniquely_decodable:
  "ok a \<Longrightarrow> ok b \<Longrightarrow> enc a = Inr x \<Longrightarrow> enc b = Inr y \<Longrightarrow> x @ r = y @ s \<Longrightarrow> sent a = sent b \<and> r = s"
  using dec_enc [of a x r] dec_enc [of b y s] by simp

lemma dec_enc_nil: "ok a \<Longrightarrow> enc a = Inr bs \<Longrightarrow> dec bs = Inr (sent a, [])"
  using dec_enc [of a bs "[]"] by simp

lemma dec_many:
  "list_all ok xs \<Longrightarrow> enc_all enc xs = Inr bs \<Longrightarrow> rd_many dec (length xs) (bs @ r) = Inr (map sent xs, r)"
proof (induction xs arbitrary: bs)
  case (Cons x xs)
  then obtain b bs' where "enc x = Inr b" "enc_all enc xs = Inr bs'" "bs = b @ bs'" by auto
  with Cons dec_enc [of x b "bs' @ r"] show ?case by simp
qed simp

end

section \<open>Dictionaries\<close>

text \<open>
  A Python dictionary keeps insertion order and assignment to a present key keeps its position.
  It is an association list with distinct keys; \<open>map_of\<close> is the lookup.
\<close>

type_synonym ('k, 'v) dict = "('k \<times> 'v) list"

fun d_set :: "'k \<Rightarrow> 'v \<Rightarrow> ('k, 'v) dict \<Rightarrow> ('k, 'v) dict" where
  "d_set k v [] = [(k, v)]"
| "d_set k v ((k', v') # d) = (if k' = k then (k, v) # d else (k', v') # d_set k v d)"

definition d_del :: "'k \<Rightarrow> ('k, 'v) dict \<Rightarrow> ('k, 'v) dict" where
  "d_del k d = filter (\<lambda>(k', v). k' \<noteq> k) d"

definition d_ok :: "('k, 'v) dict \<Rightarrow> bool" where
  "d_ok d \<longleftrightarrow> distinct (map fst d)"

locale py_dict =
  fixes get :: "'d \<Rightarrow> 'k \<Rightarrow> 'v option"
    and set_item :: "'k \<Rightarrow> 'v \<Rightarrow> 'd \<Rightarrow> 'd"
    and del_item :: "'k \<Rightarrow> 'd \<Rightarrow> 'd"
    and emp :: 'd
    and ok :: "'d \<Rightarrow> bool"
  assumes get_emp: "get emp k = None"
    and get_set: "get (set_item k v d) = (get d)(k \<mapsto> v)"
    and get_del: "get (del_item k d) = (get d)(k := None)"
    and ok_emp: "ok emp"
    and ok_set: "ok d \<Longrightarrow> ok (set_item k v d)"
    and ok_del: "ok d \<Longrightarrow> ok (del_item k d)"
begin

lemma dom_set: "dom (get (set_item k v d)) = insert k (dom (get d))"
  by (auto simp: get_set)

lemma dom_del: "dom (get (del_item k d)) = dom (get d) - {k}"
  by (auto simp: get_del)

lemma set_same: "get d k = Some v \<Longrightarrow> get (set_item k v d) = get d"
  by (auto simp: get_set)

end

lemma map_of_d_set: "map_of (d_set k v d) = (map_of d)(k \<mapsto> v)"
  by (induction k v d rule: d_set.induct) auto

lemma map_of_d_del: "map_of (d_del k d) = (map_of d)(k := None)"
  by (induction d) (auto simp: d_del_def)

lemma d_set_nonempty [simp]: "d_set c q d \<noteq> []"
  by (cases "(c, q, d)" rule: d_set.cases) auto

lemma keys_d_set [simp]: "set (map fst (d_set k v d)) = insert k (set (map fst d))"
  by (induction k v d rule: d_set.induct) auto

lemma d_ok_d_set: "d_ok d \<Longrightarrow> d_ok (d_set k v d)"
  unfolding d_ok_def
proof (induction k v d rule: d_set.induct)
  case (2 k v k' v' d)
  then show ?case using keys_d_set [of k v d] by (auto simp del: set_map keys_d_set)
qed simp

lemma d_ok_d_del: "d_ok d \<Longrightarrow> d_ok (d_del k d)"
  by (induction d) (auto simp: d_ok_def d_del_def)

interpretation pyd: py_dict map_of d_set d_del "[]" d_ok
  by unfold_locales (simp_all add: map_of_d_set map_of_d_del d_ok_d_set d_ok_d_del, simp add: d_ok_def)

section \<open>A state and exception monad\<close>

text \<open>
  A handler of a Python object runs to completion or raises; what it changed before the raise
  stays changed.  \<open>('s, 'a) sm\<close> returns the result or the exception together with the state.
\<close>

type_synonym ('s, 'a) sm = "'s \<Rightarrow> 'a result \<times> 's"

definition sret :: "'a \<Rightarrow> ('s, 'a) sm" where "sret x s = (Inr x, s)"
definition sraise :: "py_error \<Rightarrow> ('s, 'a) sm" where "sraise e s = (Inl e, s)"
definition sget :: "('s \<Rightarrow> 'a) \<Rightarrow> ('s, 'a) sm" where "sget f s = (Inr (f s), s)"
definition smod :: "('s \<Rightarrow> 's) \<Rightarrow> ('s, unit) sm" where "smod f s = (Inr (), f s)"
definition sbind :: "('s, 'a) sm \<Rightarrow> ('a \<Rightarrow> ('s, 'b) sm) \<Rightarrow> ('s, 'b) sm" where
  "sbind m f s = (case m s of (Inl e, s') \<Rightarrow> (Inl e, s') | (Inr x, s') \<Rightarrow> f x s')"
definition sthen :: "('s, 'a) sm \<Rightarrow> ('s, 'b) sm \<Rightarrow> ('s, 'b) sm" where
  "sthen m n = sbind m (\<lambda>_. n)"
definition slift :: "'a result \<Rightarrow> ('s, 'a) sm" where "slift r s = (r, s)"

fun sfor :: "'a list \<Rightarrow> ('a \<Rightarrow> ('s, unit) sm) \<Rightarrow> ('s, unit) sm" where
  "sfor [] f = sret ()"
| "sfor (x # xs) f = sthen (f x) (sfor xs f)"

named_theorems sm_run "running the state and exception monad"

lemma sm_run_simps [sm_run]:
  "sret x s = (Inr x, s)"
  "sraise e s = (Inl e, s)"
  "sget g s = (Inr (g s), s)"
  "smod h s = (Inr (), h s)"
  "slift r s = (r, s)"
  by (simp_all add: sret_def sraise_def sget_def smod_def slift_def)

lemma sbind_Inr [sm_run]: "m s = (Inr x, s') \<Longrightarrow> sbind m f s = f x s'"
  by (simp add: sbind_def)

lemma sbind_Inl [sm_run]: "m s = (Inl e, s') \<Longrightarrow> sbind m f s = (Inl e, s')"
  by (simp add: sbind_def)

lemma sm_seq [sm_run]:
  "sbind (sget g) f s = f (g s) s"
  "sbind (sret x) f s = f x s"
  "sbind (sraise e) f s = (Inl e, s)"
  "sthen (smod h) m s = m (h s)"
  "sthen (sret x) m s = m s"
  "sthen (sraise e) m s = (Inl e, s)"
  "sthen (slift (Inr x)) m s = m s"
  "sbind (slift (Inr x)) f s = f x s"
  "sthen (slift (Inl e)) m s = (Inl e, s)"
  "sbind (slift (Inl e)) f s = (Inl e, s)"
  by (simp_all add: sthen_def sbind_def sm_run_simps)

lemma sthen_Inr [sm_run]: "m s = (Inr x, s') \<Longrightarrow> sthen m n s = n s'"
  by (simp add: sthen_def sbind_def)

lemma sthen_Inl [sm_run]: "m s = (Inl e, s') \<Longrightarrow> sthen m n s = (Inl e, s')"
  by (simp add: sthen_def sbind_def)

lemma sthen_assoc: "sthen (sthen m n) k s = sthen m (sthen n k) s"
  by (auto simp: sthen_def sbind_def split: prod.splits sum.splits)

lemma sthen_regroup: "sthen m (sthen n k) = sthen (sthen m n) k"
  by (rule ext) (simp add: sthen_assoc)

text \<open>\<open>keeps P m\<close>: whether \<open>m\<close> returns or raises, it leaves a state with \<open>P\<close> in one with \<open>P\<close>.\<close>

definition keeps :: "('s \<Rightarrow> bool) \<Rightarrow> ('s, 'a) sm \<Rightarrow> bool" where
  "keeps P m \<longleftrightarrow> (\<forall>s. P s \<longrightarrow> P (snd (m s)))"

named_theorems keep "operations that keep an invariant"

lemma keepsD: "keeps P m \<Longrightarrow> P s \<Longrightarrow> m s = (r, s') \<Longrightarrow> P s'"
  by (force simp: keeps_def)

lemma keeps_basic [keep]:
  "keeps P (sret x)" "keeps P (sraise e)" "keeps P (sget g)" "keeps P (slift r)"
  by (simp_all add: keeps_def sm_run)

lemma keeps_smod: "(\<And>s. P s \<Longrightarrow> P (f s)) \<Longrightarrow> keeps P (smod f)"
  by (simp add: keeps_def sm_run)

lemma keeps_sbind [keep]: "keeps P m \<Longrightarrow> (\<And>x. keeps P (f x)) \<Longrightarrow> keeps P (sbind m f)"
  by (auto simp: keeps_def sbind_def split: prod.splits sum.splits)

lemma keeps_sthen [keep]: "keeps P m \<Longrightarrow> keeps P n \<Longrightarrow> keeps P (sthen m n)"
  by (simp add: sthen_def keeps_sbind)

lemma keeps_sfor [keep]: "(\<And>x. x \<in> set xs \<Longrightarrow> keeps P (f x)) \<Longrightarrow> keeps P (sfor xs f)"
  by (induction xs) (auto intro: keep)

lemma keeps_if [keep]: "(c \<Longrightarrow> keeps P m) \<Longrightarrow> (\<not> c \<Longrightarrow> keeps P n) \<Longrightarrow> keeps P (if c then m else n)"
  by simp

lemma keeps_option [keep]:
  "(x = None \<Longrightarrow> keeps P m) \<Longrightarrow> (\<And>y. x = Some y \<Longrightarrow> keeps P (f y)) \<Longrightarrow> keeps P (case x of None \<Rightarrow> m | Some y \<Rightarrow> f y)"
  by (cases x) simp_all

lemma keeps_prod [keep]: "(\<And>a b. p = (a, b) \<Longrightarrow> keeps P (f a b)) \<Longrightarrow> keeps P (case p of (a, b) \<Rightarrow> f a b)"
  by (cases p) simp

lemma keeps_Let [keep]: "keeps P (f x) \<Longrightarrow> keeps P (Let x f)"
  by simp

lemma keeps_get: "(\<And>s. P s \<Longrightarrow> P (snd (f (g s) s))) \<Longrightarrow> keeps P (sbind (sget g) f)"
  by (simp add: keeps_def sbind_def sget_def)

lemma keeps_at: "keeps P m \<Longrightarrow> P s \<Longrightarrow> P (snd (m s))"
  by (simp add: keeps_def)

lemma keeps_seq: "P s \<Longrightarrow> keeps P m \<Longrightarrow> (\<And>x s'. P s' \<Longrightarrow> Q (snd (f x s'))) \<Longrightarrow> (\<And>s'. P s' \<Longrightarrow> Q s') \<Longrightarrow> Q (snd (sbind m f s))"
  by (auto simp: keeps_def sbind_def split: prod.splits sum.splits)

end
