(* ===== verification/Addresses.thy ===== *)
theory Addresses
  imports Prelude
begin

text \<open>
  \<open>pox/pox/lib/addresses.py\<close>: Ethernet and IPv4 addresses and the CIDR functions.  An \<open>EthAddr\<close> is
  the byte string it stores in \<open>_value\<close>.  An \<open>IPAddr\<close> stores a 32-bit integer whose meaning depends
  on the byte order of the host; the functions take the byte order as the argument \<open>little\<close>, and the
  lemmas show that what a client sees (\<open>raw\<close>, \<open>toUnsigned()\<close>) does not depend on it.  The other
  theories represent an \<open>IPAddr\<close> by that observable value, the host-order \<open>32 word\<close>.  Text is ASCII,
  one byte per character.
\<close>

section \<open>Python text helpers\<close>

text \<open>\<open>int(s, 16)\<close> and \<open>int(s)\<close>: blanks around, a sign, \<open>0x\<close> for base 16, single underscores between digits.\<close>

definition ascii :: "string \<Rightarrow> bytes" where "ascii s = map of_char s"

definition is_blank :: "byte \<Rightarrow> bool" where
  "is_blank c \<longleftrightarrow> c = 32 \<or> (9 \<le> c \<and> c \<le> 13)"

definition digit_val :: "byte \<Rightarrow> nat option" where
  "digit_val c =
     (if 48 \<le> c \<and> c \<le> 57 then Some (unat c - 48)
      else if 97 \<le> c \<and> c \<le> 122 then Some (unat c - 87)
      else if 65 \<le> c \<and> c \<le> 90 then Some (unat c - 55)
      else None)"

fun scan_digits :: "nat \<Rightarrow> nat \<Rightarrow> bool \<Rightarrow> bytes \<Rightarrow> nat option" where
  "scan_digits base acc prev [] = (if prev then Some acc else None)"
| "scan_digits base acc prev (c # cs) =
     (if c = 95 then (if prev then scan_digits base acc False cs else None)
      else case digit_val c of
        None \<Rightarrow> None
      | Some d \<Rightarrow> if d < base then scan_digits base (acc * base + d) True cs else None)"

definition strip :: "bytes \<Rightarrow> bytes" where
  "strip s = rev (dropWhile is_blank (rev (dropWhile is_blank s)))"

definition py_int :: "nat \<Rightarrow> bytes \<Rightarrow> int result" where
  "py_int base s0 =
     (let s = strip s0;
          neg = (take 1 s = [45]);
          u = (if take 1 s = [45] \<or> take 1 s = [43] then drop 1 s else s);
          r = (if base = 16 \<and> 2 < length u \<and> take 1 u = [48] \<and> u ! 1 \<in> {120, 88}
               then scan_digits base 0 True (drop 2 u) else scan_digits base 0 False u)
      in case r of None \<Rightarrow> Inl ValueError | Some n \<Rightarrow> Inr (if neg then - int n else int n))"

text \<open>\<open>s.split(sep)\<close> for a one-character separator, and \<open>sep.join(parts)\<close>.\<close>

fun split_on :: "byte \<Rightarrow> bytes \<Rightarrow> bytes list" where
  "split_on sep [] = [[]]"
| "split_on sep (c # cs) =
     (if c = sep then [] # split_on sep cs
      else case split_on sep cs of [] \<Rightarrow> [[c]] | p # ps \<Rightarrow> (c # p) # ps)"

fun join_with :: "bytes \<Rightarrow> bytes list \<Rightarrow> bytes" where
  "join_with sep [] = []"
| "join_with sep [p] = p"
| "join_with sep (p # q # ps) = p @ sep @ join_with sep (q # ps)"

lemma split_on_noteq: "sep \<notin> set p \<Longrightarrow> split_on sep p = [p]"
  by (induction p) auto

lemma split_on_append: "sep \<notin> set p \<Longrightarrow> split_on sep (p @ sep # r) = p # split_on sep r"
  by (induction p) auto

lemma split_join:
  "ps \<noteq> [] \<Longrightarrow> \<forall>p \<in> set ps. sep \<notin> set p \<Longrightarrow> split_on sep (join_with [sep] ps) = ps"
  by (induction "[sep]" ps rule: join_with.induct) (auto simp: split_on_noteq split_on_append)

text \<open>The \<open>%x\<close> and \<open>%d\<close> formats, without padding, and \<open>%02x\<close>.\<close>

definition digit_char :: "nat \<Rightarrow> byte" where
  "digit_char d = (if d < 10 then word_of_nat (48 + d) else word_of_nat (87 + d))"

fun digits_of :: "nat \<Rightarrow> nat \<Rightarrow> bytes" where
  "digits_of base n =
     (if base < 2 \<or> n < base then [digit_char n] else digits_of base (n div base) @ [digit_char (n mod base)])"

declare digits_of.simps [simp del]

definition zfill :: "nat \<Rightarrow> bytes \<Rightarrow> bytes" where
  "zfill k s = replicate (k - length s) 48 @ s"

definition fmt_02x :: "int \<Rightarrow> bytes" where
  "fmt_02x n = (if n < 0 then 45 # zfill 1 (digits_of 16 (nat (- n))) else zfill 2 (digits_of 16 (nat n)))"

section \<open>\<open>EthAddr\<close>\<close>

type_synonym eth_addr = bytes

datatype eth_arg = EBytes bytes | EEth eth_addr | ESeq "int list" | ENone | EOther

definition py_bytes :: "int list \<Rightarrow> bytes result" where
  "py_bytes xs = (if list_all (\<lambda>x. 0 \<le> x \<and> x < 256) xs then Inr (map word_of_int xs) else Inl ValueError)"

fun rmap :: "('a \<Rightarrow> 'b result) \<Rightarrow> 'a list \<Rightarrow> 'b list result" where
  "rmap f [] = Inr []"
| "rmap f (x # xs) = rbind (f x) (\<lambda>y. rbind (rmap f xs) (\<lambda>ys. Inr (y # ys)))"

text \<open>\<open>addr[2::3]\<close> for a text of 17 characters.\<close>

definition every_third :: "bytes \<Rightarrow> bytes" where
  "every_third a = map (\<lambda>i. a ! (2 + 3 * i)) [0..<5]"

definition eth_hex_digits :: "bytes \<Rightarrow> bytes result" where
  "eth_hex_digits addr =
     (if length addr = 17 then
        (if every_third addr \<noteq> replicate 5 58 \<and> every_third addr \<noteq> replicate 5 45 then Inl RuntimeError
         else Inr (concat (map (\<lambda>x. take 2 (drop (x * 3) addr)) [0..<6])))
      else if length addr = 12 then Inr addr
      else rbind (rmap (\<lambda>x. rbind (py_int 16 x) (\<lambda>n. Inr (fmt_02x n))) (split_on 58 addr))
             (\<lambda>ps. Inr (concat ps)))"

fun EthAddr_init :: "eth_arg \<Rightarrow> eth_addr result" where
  "EthAddr_init (EBytes addr) =
     (if length addr = 6 then Inr addr
      else if length addr = 17 \<or> length addr = 12 \<or> count_list addr 58 = 5 then
        rbind (eth_hex_digits addr) (\<lambda>h.
          rbind (rmap (\<lambda>x. py_int 16 (take 2 (drop (x * 2) h))) [0..<6]) py_bytes)
      else Inl RuntimeError)"
| "EthAddr_init (EEth a) = Inr a"
| "EthAddr_init (ESeq xs) = py_bytes xs"
| "EthAddr_init ENone = Inr (replicate 6 0)"
| "EthAddr_init EOther = Inl RuntimeError"

definition EMPTY_ETH :: eth_addr where "EMPTY_ETH = replicate 6 0"
definition ETH_BROADCAST :: eth_addr where "ETH_BROADCAST = replicate 6 255"

definition isBridgeFiltered :: "eth_addr \<Rightarrow> bool" where
  "isBridgeFiltered v \<longleftrightarrow> v ! 0 = 0x01 \<and> v ! 1 = 0x80 \<and> v ! 2 = 0xC2 \<and> v ! 3 = 0x00 \<and> v ! 4 = 0x00 \<and> v ! 5 \<le> 0x0F"

definition isLocal :: "eth_addr \<Rightarrow> bool" where "isLocal v \<longleftrightarrow> (v ! 0) AND 2 \<noteq> 0"
definition isGlobal :: "eth_addr \<Rightarrow> bool" where "isGlobal v \<longleftrightarrow> \<not> isLocal v"
definition isMulticast :: "eth_addr \<Rightarrow> bool" where "isMulticast v \<longleftrightarrow> (v ! 0) AND 1 \<noteq> 0"
definition is_broadcast :: "eth_addr \<Rightarrow> bool" where "is_broadcast v \<longleftrightarrow> v = ETH_BROADCAST"

text \<open>\<open>to_str\<close>; \<open>names\<close> is the table of vendor names, used when \<open>resolve_names\<close> is set.\<close>

definition eth_to_str :: "bytes \<Rightarrow> bool \<Rightarrow> (bytes \<rightharpoonup> bytes) \<Rightarrow> eth_addr \<Rightarrow> bytes" where
  "eth_to_str separator resolve_names names v =
     (let plain = join_with separator (map (\<lambda>x. fmt_02x (uint x)) v) in
      if resolve_names \<and> isGlobal v then
        (case names (take 3 v) of
           Some name \<Rightarrow>
             if name \<noteq> [] then name @ separator @ join_with separator (map (\<lambda>x. fmt_02x (uint x)) (drop 3 v))
             else plain
         | None \<Rightarrow> plain)
      else plain)"

text \<open>A 48-bit Ethernet address has six bytes; \<open>EthAddr\<close> checks this for text and raw bytes only.\<close>

definition eth_ok :: "eth_addr \<Rightarrow> bool" where "eth_ok a \<longleftrightarrow> length a = 6"

lemma digit_char_props:
  assumes "d < 16"
  shows "digit_val (digit_char d) = Some d" "\<not> is_blank (digit_char d)"
    "digit_char d \<notin> {43, 45, 46, 47, 58, 95, 120, 88}"
proof -
  have "list_all (\<lambda>d. digit_val (digit_char d) = Some d \<and> \<not> is_blank (digit_char d) \<and>
      digit_char d \<notin> {43, 45, 46, 47, 58, 95, 120, 88}) [0..<16]"
    by code_simp
  with assms show "digit_val (digit_char d) = Some d" "\<not> is_blank (digit_char d)"
    "digit_char d \<notin> {43, 45, 46, 47, 58, 95, 120, 88}"
    by (simp_all add: list_all_iff)
qed

lemma fmt_02x_byte:
  "fmt_02x (uint (b :: byte)) = [digit_char (unat b div 16), digit_char (unat b mod 16)]"
proof -
  have "unat b < 256" by (rule unat_byte)
  then have "zfill 2 (digits_of 16 (unat b)) = [digit_char (unat b div 16), digit_char (unat b mod 16)]"
  proof (cases "unat b < 16")
    case True
    then show ?thesis by (simp add: digits_of.simps [of 16 "unat b"] zfill_def digit_char_def)
  next
    case False
    then show ?thesis
      by (simp add: digits_of.simps [of 16 "unat b"] digits_of.simps [of 16 "unat b div 16"] zfill_def)
  qed
  then show ?thesis by (simp add: fmt_02x_def)
qed

lemma py_int_two_digits:
  assumes "i < 16" "j < 16"
  shows "py_int 16 [digit_char i, digit_char j] = Inr (int (i * 16 + j))"
  using digit_char_props [OF assms(1)] digit_char_props [OF assms(2)] assms
  by (simp add: py_int_def strip_def Let_def)

lemma py_int_fmt_02x [simp]: "py_int 16 (fmt_02x (uint (b :: byte))) = Inr (uint b)"
proof -
  have "unat b < 256" by (rule unat_byte)
  then have "py_int 16 [digit_char (unat b div 16), digit_char (unat b mod 16)] = Inr (int (unat b))"
    by (subst py_int_two_digits) auto
  then show ?thesis by (simp add: fmt_02x_byte)
qed

lemma fmt_02x_chars: "set (fmt_02x (uint (b :: byte))) \<inter> {43, 45, 46, 47, 58, 95, 120, 88} = {}"
proof -
  have "unat b < 256" by (rule unat_byte)
  then show ?thesis using digit_char_props(3) by (simp add: fmt_02x_byte)
qed

lemma six_bytes:
  assumes "length a = 6"
  obtains a0 a1 a2 a3 a4 a5 where "a = [a0, a1, a2, a3, a4, a5]"
proof -
  have "a = [a ! 0, a ! 1, a ! 2, a ! 3, a ! 4, a ! 5]"
    using assms by (auto simp: list_eq_iff_nth_eq numeral_eq_Suc less_Suc_eq)
  then show thesis by (rule that)
qed

text \<open>The slices of the six groups that \<open>EthAddr\<close> takes from the digits are the bytes' digits.\<close>

lemma eth_of_digits:
  assumes "length a = 6"
  shows "rbind (rmap (\<lambda>x. py_int 16 (take 2 (drop (x * 2) (concat (map (\<lambda>x. fmt_02x (uint x)) a))))) [0..<6]) py_bytes
    = Inr a"
proof -
  from assms obtain a0 a1 a2 a3 a4 a5 where a: "a = [a0, a1, a2, a3, a4, a5]" by (rule six_bytes)
  have l: "length (fmt_02x (uint b)) = 2" for b :: byte by (simp add: fmt_02x_byte)
  have "[0..<6] = [0, 1, 2, 3, 4, 5::nat]" by (simp add: upt_rec)
  then have "rmap (\<lambda>x. py_int 16 (take 2 (drop (x * 2) (concat (map (\<lambda>x. fmt_02x (uint x)) a))))) [0..<6]
      = Inr (map uint a)"
    by (simp add: a l)
  moreover have "py_bytes (map uint a) = Inr a"
    using uint_lt2p [where 'a=8] by (simp add: py_bytes_def list_all_iff a)
  ultimately show ?thesis by simp
qed

lemma eth_to_str_shape:
  assumes "length a = 6"
  shows "length (eth_to_str [58] False names a) = 17"
    "every_third (eth_to_str [58] False names a) = replicate 5 58"
    "concat (map (\<lambda>x. take 2 (drop (x * 3) (eth_to_str [58] False names a))) [0..<6])
      = concat (map (\<lambda>x. fmt_02x (uint x)) a)"
proof -
  from assms obtain a0 a1 a2 a3 a4 a5 where a: "a = [a0, a1, a2, a3, a4, a5]" by (rule six_bytes)
  have u6: "[0..<6] = [0, 1, 2, 3, 4, 5::nat]" and u5: "[0..<5] = [0, 1, 2, 3, 4::nat]"
    by (simp_all add: upt_rec)
  have r5: "replicate 5 (58 :: byte) = [58, 58, 58, 58, 58]" by code_simp
  show "length (eth_to_str [58] False names a) = 17"
    "every_third (eth_to_str [58] False names a) = replicate 5 58"
    "concat (map (\<lambda>x. take 2 (drop (x * 3) (eth_to_str [58] False names a))) [0..<6])
      = concat (map (\<lambda>x. fmt_02x (uint x)) a)"
    by (simp_all add: eth_to_str_def every_third_def fmt_02x_byte a u5 u6 r5)
qed

text \<open>
  Reading back the text of a six-byte Ethernet address gives the address: \<open>EthAddr(str(a)) == a\<close>.
\<close>

theorem eth_text_roundtrip:
  assumes "eth_ok a"
  shows "EthAddr_init (EBytes (eth_to_str [58] False names a)) = Inr a"
proof -
  have l: "length a = 6" using assms by (simp add: eth_ok_def)
  show ?thesis
    using eth_of_digits [OF l] by (simp add: eth_hex_digits_def eth_to_str_shape [OF l])
qed

theorem eth_text_roundtrip_witness:
  "eth_ok [2, 0, 0, 255, 16, 9] \<and>
   EthAddr_init (EBytes (eth_to_str [58] False Map.empty [2, 0, 0, 255, 16, 9])) = Inr [2, 0, 0, 255, 16, 9]"
proof -
  have "eth_ok [2, 0, 0, 255, 16, 9]" by (simp add: eth_ok_def)
  then show ?thesis using eth_text_roundtrip [of "[2, 0, 0, 255, 16, 9]" Map.empty] by blast
qed

text \<open>What the constructor yields from text or nothing is always six bytes long.\<close>

lemma rmap_length: "rmap f xs = Inr ys \<Longrightarrow> length ys = length xs"
  by (induction xs arbitrary: ys) auto

lemma EthAddr_init_ok:
  assumes "EthAddr_init arg = Inr a" "\<forall>xs. arg \<noteq> ESeq xs" "\<forall>b. arg = EEth b \<longrightarrow> eth_ok b"
  shows "eth_ok a"
  using assms by (cases arg) (auto simp: eth_ok_def py_bytes_def split: if_splits dest: rmap_length)

text \<open>A group of more than two digits shifts the digits: the address read is not the one written.\<close>

lemma eth_long_group:
  "EthAddr_init (EBytes (ascii ''100:0:0:0:0:0'')) = Inr [16, 0, 0, 0, 0, 0]"
  by code_simp

section \<open>\<open>IPAddr\<close>\<close>

type_synonym ip_value = "32 word"
type_synonym ip_addr = "32 word"

definition bswap32 :: "32 word \<Rightarrow> 32 word" where "bswap32 w = of_be (rev (to_be 4 w))"

text \<open>\<open>struct.pack\<close>/\<open>unpack\<close> with the native formats \<open>I\<close>, \<open>i\<close>, and \<open>socket.htonl\<close>.\<close>

definition native_pack :: "bool \<Rightarrow> 32 word \<Rightarrow> bytes" where
  "native_pack little w = (if little then rev (to_be 4 w) else to_be 4 w)"
definition native_unpack :: "bool \<Rightarrow> bytes \<Rightarrow> 32 word" where
  "native_unpack little bs = (if little then of_be (rev bs) else of_be bs)"
definition htonl :: "bool \<Rightarrow> 32 word \<Rightarrow> 32 word" where
  "htonl little w = (if little then bswap32 w else w)"

definition IPAddr_of_raw :: "bool \<Rightarrow> bytes \<Rightarrow> ip_value" where
  "IPAddr_of_raw little bs = native_unpack little bs"

definition IPAddr_of_int :: "bool \<Rightarrow> int \<Rightarrow> bool \<Rightarrow> ip_value" where
  "IPAddr_of_int little addr networkOrder =
     of_be (if networkOrder then to_be 4 (word_of_int addr :: 32 word)
            else native_pack little (word_of_int addr))"

definition ip_raw :: "bool \<Rightarrow> ip_value \<Rightarrow> bytes" where
  "ip_raw little v = native_pack little v"

definition toUnsigned :: "bool \<Rightarrow> bool \<Rightarrow> ip_value \<Rightarrow> 32 word" where
  "toUnsigned little networkOrder v = (if networkOrder then v else htonl little v)"

definition toSigned :: "bool \<Rightarrow> bool \<Rightarrow> ip_value \<Rightarrow> int" where
  "toSigned little networkOrder v = (if networkOrder then sint v else sint (htonl little v))"

lemma bswap32_bswap32 [simp]: "bswap32 (bswap32 w) = w"
  using to_be_of_be [where 'a=32, of "rev (to_be 4 w)"]
  by (simp add: bswap32_def of_be_to_be) (rule bit_eqI, auto simp: bit_simps dest: bit_imp_le_length)

lemma of_be_to_be4 [simp]: "of_be (to_be 4 (w :: 32 word)) = w"
  using of_be_pack(2) [of w] by (simp add: pack_L_def)

lemma to_be4_of_be: "length bs = 4 \<Longrightarrow> to_be 4 (of_be bs :: 32 word) = bs"
  using pack_of_be(2) [of bs] by (simp add: pack_L_def)

text \<open>
  The stored integer depends on the byte order of the host, what a client sees does not: an
  address made from four raw bytes, or from a host-order integer, has the same \<open>raw\<close> bytes and the
  same \<open>toUnsigned()\<close> on either host, and these determine each other.
\<close>

theorem ip_host_independent:
  assumes "length bs = 4"
  shows "ip_raw little (IPAddr_of_raw little bs) = bs \<and>
    toUnsigned little False (IPAddr_of_raw little bs) = of_be bs \<and>
    toUnsigned little False (IPAddr_of_int little n False) = word_of_int n \<and>
    ip_raw little (IPAddr_of_int little n False) = to_be 4 (word_of_int n :: 32 word)"
proof (cases little)
  case True
  have "to_be 4 (of_be (rev bs) :: 32 word) = rev bs" using assms by (simp add: to_be4_of_be)
  with True show ?thesis
    by (simp add: ip_raw_def IPAddr_of_raw_def IPAddr_of_int_def native_pack_def native_unpack_def
        toUnsigned_def htonl_def bswap32_def to_be4_of_be)
next
  case False
  with assms show ?thesis
    by (simp add: ip_raw_def IPAddr_of_raw_def IPAddr_of_int_def native_pack_def native_unpack_def
        toUnsigned_def htonl_def to_be4_of_be)
qed

theorem ip_host_independent_witness:
  "length [10, 0, 0, 1 :: byte] = 4 \<and> ip_raw True (IPAddr_of_raw True [10, 0, 0, 1]) = [10, 0, 0, 1]"
  using ip_host_independent [of "[10, 0, 0, 1]" True 0] by simp

text \<open>The host-order value of an address and the stored one are in bijection, so equality is the same on both.\<close>

lemma toUnsigned_inj: "toUnsigned little False v = toUnsigned little False w \<longleftrightarrow> v = w"
  by (simp add: toUnsigned_def htonl_def) (metis bswap32_bswap32)

lemma toSigned_toUnsigned: "toSigned little no v = sint (toUnsigned little no v)"
  by (simp add: toSigned_def toUnsigned_def)

text \<open>
  From here on an address is its host-order value: \<open>toUnsigned()\<close> is the identity and \<open>raw\<close> is
  \<open>to_be 4\<close>.  Text: \<open>socket.inet_ntoa\<close> and \<open>socket.inet_aton\<close> (one to four numbers, decimal, octal
  or hexadecimal, the last one filling the remaining bytes).
\<close>

fun c_digits :: "nat \<Rightarrow> nat \<Rightarrow> bytes \<Rightarrow> nat option" where
  "c_digits base acc [] = Some acc"
| "c_digits base acc (c # cs) =
     (case digit_val c of None \<Rightarrow> None
      | Some d \<Rightarrow> if d < base then c_digits base (acc * base + d) cs else None)"

definition c_number :: "bytes \<Rightarrow> nat option" where
  "c_number s =
     (if s = [] then None
      else if 2 < length s \<and> s ! 0 = 48 \<and> s ! 1 \<in> {120, 88} then c_digits 16 0 (drop 2 s)
      else if s ! 0 = 48 then c_digits 8 0 s
      else c_digits 10 0 s)"

fun aton_parts :: "nat \<Rightarrow> nat list \<Rightarrow> nat option" where
  "aton_parts k [] = None"
| "aton_parts k [x] = (if x < 256 ^ k then Some x else None)"
| "aton_parts k (x # y # xs) =
     (if k < 2 \<or> 256 \<le> x then None
      else map_option (\<lambda>r. x * 256 ^ (k - 1) + r) (aton_parts (k - 1) (y # xs)))"

fun omap :: "('a \<Rightarrow> 'b option) \<Rightarrow> 'a list \<Rightarrow> 'b list option" where
  "omap f [] = Some []"
| "omap f (x # xs) = (case f x of None \<Rightarrow> None | Some y \<Rightarrow> map_option (\<lambda>ys. y # ys) (omap f xs))"

definition inet_aton :: "bytes \<Rightarrow> ip_addr option" where
  "inet_aton s =
     (case omap c_number (split_on 46 s) of
        None \<Rightarrow> None
      | Some ns \<Rightarrow> map_option word_of_nat (aton_parts 4 ns))"

definition IPAddr_of_text :: "bytes \<Rightarrow> ip_addr result" where
  "IPAddr_of_text s = (case inet_aton s of None \<Rightarrow> Inl ValueError | Some w \<Rightarrow> Inr w)"

definition inet_ntoa :: "ip_addr \<Rightarrow> bytes" where
  "inet_ntoa w = join_with [46] (map (\<lambda>b. digits_of 10 (unat b)) (to_be 4 w))"

lemma c_digits_append:
  "c_digits base acc (xs @ ys) = (case c_digits base acc xs of None \<Rightarrow> None | Some a \<Rightarrow> c_digits base a ys)"
  by (induction base acc xs rule: c_digits.induct) (auto split: option.splits)

lemma mod_lt_16: "2 \<le> base \<Longrightarrow> base \<le> 16 \<Longrightarrow> n mod base < (16 :: nat)"
  by (rule less_le_trans [of _ base]) auto

lemma c_digits_digits_of:
  "2 \<le> base \<Longrightarrow> base \<le> 16 \<Longrightarrow> c_digits base 0 (digits_of base n) = Some n"
proof (induction base n rule: digits_of.induct)
  case (1 base n)
  show ?case
  proof (cases "n < base")
    case True
    with "1.prems" show ?thesis by (simp add: digits_of.simps [of base n] digit_char_props)
  next
    case False
    with 1 have IH: "c_digits base 0 (digits_of base (n div base)) = Some (n div base)" by simp
    have "n mod base < base" using "1.prems" by simp
    then have "digit_val (digit_char (n mod base)) = Some (n mod base)"
      using mod_lt_16 [OF "1.prems", of n] by (rule_tac digit_char_props(1))
    then show ?thesis
      using False IH "1.prems" \<open>n mod base < base\<close>
      by (simp add: digits_of.simps [of base n] c_digits_append)
  qed
qed

lemma digits_of_nonempty [simp]: "digits_of base n \<noteq> []"
  by (subst digits_of.simps) simp

lemma digits_of_hd:
  "2 \<le> base \<Longrightarrow> base \<le> 16 \<Longrightarrow> 0 < n \<Longrightarrow> hd (digits_of base n) \<noteq> 48"
proof (induction base n rule: digits_of.induct)
  case (1 base n)
  have nz: "digit_char d \<noteq> 48" if "0 < d" "d < 16" for d
    using that digit_char_props(1) [of d] by (auto simp: digit_val_def)
  show ?case
  proof (cases "n < base")
    case True
    with "1.prems" show ?thesis by (simp add: digits_of.simps [of base n] nz)
  next
    case False
    then have "0 < n div base" using "1.prems" by (simp add: div_greater_zero_iff)
    with 1 False have "hd (digits_of base (n div base)) \<noteq> 48" by simp
    with False "1.prems" show ?thesis by (simp add: digits_of.simps [of base n])
  qed
qed

lemma digits_of_chars:
  "2 \<le> base \<Longrightarrow> base \<le> 16 \<Longrightarrow> set (digits_of base n) \<inter> {43, 45, 46, 47, 58, 95, 120, 88} = {}"
proof (induction base n rule: digits_of.induct)
  case (1 base n)
  have "n mod base < 16" by (rule mod_lt_16 [OF "1.prems"])
  with 1 show ?case
    using digit_char_props(3) [of n] digit_char_props(3) [of "n mod base"]
    by (subst digits_of.simps) auto
qed

lemma c_number_digits_of: "c_number (digits_of 10 n) = Some n"
proof (cases "n = 0")
  case True
  then show ?thesis by (simp add: digits_of.simps [of 10 0]) code_simp
next
  case False
  then have "digits_of 10 n ! 0 \<noteq> 48"
    using digits_of_hd [of 10 n] by (simp add: hd_conv_nth)
  then show ?thesis by (simp add: c_number_def c_digits_digits_of)
qed

lemma omap_map: "(\<And>x. x \<in> set xs \<Longrightarrow> f (g x) = Some x) \<Longrightarrow> omap f (map g xs) = Some xs"
  by (induction xs) auto

lemma to_be4_explicit:
  "to_be 4 w = [ucast (drop_bit 24 w), ucast (drop_bit 16 w), ucast (drop_bit 8 w), ucast (w :: 32 word)]"
  by (simp add: numeral_eq_Suc drop_bit_drop_bit)

lemma four_bytes_value:
  "word_of_nat (unat (a :: byte) * 256 ^ 3 + (unat b * 256 ^ 2 + (unat c * 256 ^ 1 + unat d))) = (of_be [a, b, c, d] :: 32 word)"
proof -
  have or_add: "push_bit 8 x OR ucast y = push_bit 8 x + (ucast (y :: byte) :: 32 word)" for x y
    by (rule disjunctive_add_eq_or [symmetric]) (rule bit_eqI, auto simp: bit_simps dest: bit_imp_le_length)
  have "(of_be [a, b, c, d] :: 32 word) = ((ucast a * 256 + ucast b) * 256 + ucast c) * 256 + ucast d"
    unfolding of_be_def foldl.simps or_add by (simp add: push_bit_eq_mult mult.commute)
  also have "\<dots> = word_of_nat (unat a * 256 ^ 3 + (unat b * 256 ^ 2 + (unat c * 256 ^ 1 + unat d)))"
    by (simp add: algebra_simps)
  finally show ?thesis by simp
qed

text \<open>
  Printing an IPv4 address as a dotted quad and reading it back gives the address:
  \<open>IPAddr(str(a)) == a\<close>.
\<close>

theorem ip_text_roundtrip: "IPAddr_of_text (inet_ntoa w) = Inr w"
proof -
  obtain a b c d where bs: "to_be 4 w = [a, b, c, d]" using to_be4_explicit by blast
  have nodot: "\<forall>p \<in> set (map (\<lambda>b. digits_of 10 (unat b)) [a, b, c, d]). 46 \<notin> set p"
    using digits_of_chars [of 10] by auto
  have "split_on 46 (inet_ntoa w) = map (\<lambda>b. digits_of 10 (unat b)) [a, b, c, d]"
    unfolding inet_ntoa_def bs by (rule split_join) (use nodot in auto)
  then have "omap c_number (split_on 46 (inet_ntoa w)) = Some (map unat [a, b, c, d])"
    by (simp add: c_number_digits_of)
  moreover have "aton_parts 4 (map unat [a, b, c, d])
      = Some (unat a * 256 ^ 3 + (unat b * 256 ^ 2 + (unat c * 256 ^ 1 + unat d)))"
    by (simp add: not_le)
  ultimately have "inet_aton (inet_ntoa w) = Some (of_be [a, b, c, d])"
    using four_bytes_value [of a b c d] by (simp only: inet_aton_def option.case option.map)
  then show ?thesis by (simp add: IPAddr_of_text_def flip: bs)
qed

section \<open>CIDR prefixes and network membership\<close>

text \<open>\<open>(1 << bits) - 1\<close> shifted left by \<open>32 - bits\<close>: a negative shift count raises.\<close>

definition cidr_to_netmask :: "int \<Rightarrow> ip_addr result" where
  "cidr_to_netmask bits =
     (if bits < 0 \<or> 32 < bits then Inl ValueError
      else Inr (word_of_int (push_bit (nat (32 - bits)) (push_bit (nat bits) 1 - 1))))"

text \<open>The loop \<open>while v & 0x80000000: c += 1; v <<= 1\<close>, on an unbounded integer.\<close>

function mask_loop :: "int \<Rightarrow> nat \<Rightarrow> int \<times> nat" where
  "mask_loop v c = (if v AND 0x80000000 \<noteq> 0 then mask_loop (push_bit 1 v) (Suc c) else (v, c))"
  by pat_completeness auto

lemma and_bit31: "(v :: int) AND 0x80000000 \<noteq> 0 \<longleftrightarrow> bit v 31"
proof -
  have b: "bit (0x80000000 :: int) n \<longleftrightarrow> n = 31" for n
    using bit_exp_iff [of 31 n, where 'a=int] by simp
  have "v AND 0x80000000 \<noteq> 0 \<longleftrightarrow> (\<exists>n. bit (v AND 0x80000000) n)"
    by (metis bit_eqI bit_0_eq bot_apply bot_bool_def)
  also have "\<dots> \<longleftrightarrow> bit v 31"
    by (simp add: bit_and_iff b)
  finally show ?thesis .
qed

lemma mask_loop_decr:
  assumes "bit (v :: int) 31"
  shows "nat (take_bit 32 (push_bit 1 v)) < nat (take_bit 32 v)"
proof -
  have split: "take_bit 32 v = take_bit 31 v + 2 ^ 31"
    using assms take_bit_Suc_from_most [of 31 v] by simp
  have "take_bit 32 (push_bit 1 v) = push_bit 1 (take_bit 31 v)"
    using take_bit_push_bit [of 32 1 v] by simp
  moreover have "0 \<le> take_bit 31 v" "take_bit 31 v < 2 ^ 31"
    by (rule take_bit_nonnegative take_bit_int_less_exp)+
  ultimately show ?thesis
    using split by (simp add: push_bit_eq_mult) (use take_bit_nonnegative [of 31 v] in linarith)
qed

termination mask_loop
  by (relation "measure (\<lambda>(v, c). nat (take_bit 32 v))") (use mask_loop_decr and_bit31 in auto)

declare mask_loop.simps [simp del]

definition netmask_to_cidr :: "ip_addr \<Rightarrow> nat result" where
  "netmask_to_cidr dq =
     (let (v, c) = mask_loop (uint dq) 0 in
      if v AND 0xffffffff \<noteq> 0 then Inl RuntimeError else Inr c)"

text \<open>The mask of \<open>b\<close> network bits, as a word.\<close>

definition net_mask :: "nat \<Rightarrow> ip_addr" where "net_mask b = push_bit (32 - b) (mask b)"

lemma bit_net_mask: "b \<le> 32 \<Longrightarrow> bit (net_mask b) i \<longleftrightarrow> 32 - b \<le> i \<and> i < 32"
  by (auto simp: net_mask_def bit_simps)

lemma cidr_to_netmask_eq: "0 \<le> bits \<Longrightarrow> bits \<le> 32 \<Longrightarrow> cidr_to_netmask bits = Inr (net_mask (nat bits))"
  by (auto simp: cidr_to_netmask_def net_mask_def mask_eq_exp_minus_1 bit_eq_iff bit_simps nat_diff_distrib
      push_bit_eq_mult)

lemma mask_loop_run:
  assumes "\<And>i. i < k \<Longrightarrow> bit v (31 - i)" "k \<le> 32"
  shows "mask_loop v c = mask_loop (push_bit k v) (c + k)"
  using assms
proof (induction k)
  case 0
  then show ?case by simp
next
  case (Suc k)
  have "bit (push_bit k v) 31"
    using Suc.prems(1) [of k] Suc.prems(2) by (simp add: bit_simps)
  then have "mask_loop (push_bit k v) (c + k) = mask_loop (push_bit (Suc k) v) (c + Suc k)"
    by (subst mask_loop.simps) (simp add: and_bit31)
  with Suc show ?case by simp
qed

lemma mask_loop_result:
  "mask_loop v c = (v', c') \<Longrightarrow>
   \<exists>k. c' = c + k \<and> v' = push_bit k v \<and> (\<forall>i < k. bit v' (31 + (k - i)) ) \<and> \<not> bit v' 31"
proof (induction v c rule: mask_loop.induct)
  case (1 v c)
  show ?case
  proof (cases "bit v 31")
    case True
    with "1.prems" have "mask_loop (push_bit 1 v) (Suc c) = (v', c')"
      by (subst (asm) mask_loop.simps) (simp add: and_bit31)
    with 1 True obtain k where k: "c' = Suc c + k" "v' = push_bit k (push_bit 1 v)"
      "\<forall>i < k. bit v' (31 + (k - i))" "\<not> bit v' 31"
      by (auto simp: and_bit31)
    have v': "v' = push_bit (Suc k) v"
      using k(2) by (simp only: push_bit_Suc One_nat_def push_bit_0_id id_apply)
    have top: "bit v' (31 + Suc k)" using True unfolding v' by (simp only: bit_push_bit_iff) simp
    have "bit v' (31 + (Suc k - i))" if "i < Suc k" for i
      using that k(3) top by (cases i) auto
    with k(1,4) v' show ?thesis by (intro exI [of _ "Suc k"]) simp
  next
    case False
    with "1.prems" show ?thesis
      by (subst (asm) mask_loop.simps) (auto simp: and_bit31)
  qed
qed

lemma netmask_to_cidr_mask:
  assumes c: "c \<le> 32"
  shows "netmask_to_cidr (net_mask c) = Inr c"
proof -
  define m where "m = net_mask c"
  have ubit: "bit (uint m) i \<longleftrightarrow> 32 - c \<le> i \<and> i < 32" for i
    using c by (auto simp: m_def bit_net_mask bit_uint_iff)
  have "bit (uint m) (31 - i)" if "i < c" for i
    unfolding ubit using that c by arith
  then have "mask_loop (uint m) 0 = mask_loop (push_bit c (uint m)) (0 + c)"
    by (rule mask_loop_run) (use c in simp_all)
  also have "\<dots> = (push_bit c (uint m), c)"
  proof -
    have "\<not> bit (push_bit c (uint m)) 31"
      unfolding bit_push_bit_iff ubit using c by arith
    then show ?thesis by (subst mask_loop.simps) (simp add: and_bit31)
  qed
  finally have run: "mask_loop (uint m) 0 = (push_bit c (uint m), c)" .
  have "push_bit c (uint m) AND 0xffffffff = 0"
  proof (rule bit_eqI)
    fix i
    have "bit (0xffffffff :: int) i \<longleftrightarrow> i < 32"
      using bit_mask_iff [of 32 i, where 'a=int] by (simp add: mask_eq_exp_minus_1)
    then show "bit (push_bit c (uint m) AND 0xffffffff) i = bit (0 :: int) i"
      unfolding bit_and_iff bit_push_bit_iff ubit using c by auto
  qed
  with run show ?thesis by (simp add: netmask_to_cidr_def m_def)
qed

lemma netmask_to_cidr_only:
  assumes "netmask_to_cidr m = Inr c"
  shows "c \<le> 32 \<and> m = net_mask c"
proof -
  from assms obtain v' where run: "mask_loop (uint m) 0 = (v', c)" and z: "v' AND 0xffffffff = 0"
    by (auto simp: netmask_to_cidr_def split: prod.splits if_splits)
  from mask_loop_result [OF run] obtain k where k: "c = k" "v' = push_bit k (uint m)"
    "\<forall>i < k. bit v' (31 + (k - i))" "\<not> bit v' 31"
    by auto
  have ones: "bit (uint m) (31 - i)" "i < 32" if "i < k" for i
  proof -
    have "bit v' (31 + (k - i))" using that k(3) by simp
    then have "bit (uint m) (31 + (k - i) - k)" "k \<le> 31 + (k - i)"
      by (simp_all add: k(2) bit_push_bit_iff)
    moreover have "31 + (k - i) - k = 31 - i" using that by simp
    ultimately show "bit (uint m) (31 - i)" "i < 32" using that by simp_all
  qed
  have k32: "k \<le> 32"
    using ones(2) [of "k - 1"] by (cases k) auto
  have low: "\<not> bit (uint m) i" if "i < 32 - k" for i
  proof
    assume "bit (uint m) i"
    moreover have "bit (0xffffffff :: int) (i + k)"
      using bit_mask_iff [of 32 "i + k", where 'a=int] that by (simp add: mask_eq_exp_minus_1)
    ultimately have "bit (v' AND 0xffffffff) (i + k)"
      by (simp add: k(2) bit_and_iff bit_push_bit_iff)
    with z show False by simp
  qed
  have "m = net_mask k"
  proof (rule bit_eqI)
    fix i assume "possible_bit TYPE(32 word) i"
    then have i: "i < 32" by simp
    have "bit m i \<longleftrightarrow> 32 - k \<le> i"
    proof (cases "32 - k \<le> i")
      case True
      then have "31 - i < k" "31 - (31 - i) = i" using i k32 by arith+
      with ones(1) [of "31 - i"] True show ?thesis by (simp add: bit_uint_iff)
    next
      case False
      with low [of i] i show ?thesis by (simp add: bit_uint_iff)
    qed
    with i k32 show "bit m i = bit (net_mask k) i" by (simp add: bit_net_mask)
  qed
  with k(1) k32 show ?thesis by simp
qed

text \<open>
  The mask of \<open>b\<close> network bits, for \<open>0 \<le> b \<le> 32\<close>, is recognised as exactly that many bits, and
  whatever mask \<open>netmask_to_cidr\<close> accepts is the mask of the number it returns: the two functions are
  inverse to each other, and no other mask is accepted.
\<close>

theorem netmask_cidr_inverse:
  "netmask_to_cidr m = Inr c \<longleftrightarrow> c \<le> 32 \<and> cidr_to_netmask (int c) = Inr m"
  using netmask_to_cidr_mask [of c] netmask_to_cidr_only [of m c] by (auto simp: cidr_to_netmask_eq)

text \<open>The second definition of the same loop, in \<open>parse_cidr\<close>: it tests bit 31 of \<open>m & 0x7fffffff\<close> at the end.\<close>

definition netmask_bits :: "ip_addr \<Rightarrow> nat result" where
  "netmask_bits m0 =
     (let (m, b) = mask_loop (uint m0) 0 in
      if m AND 0x7fffffff \<noteq> 0 then Inl RuntimeError
      else rbind (py_assert (b \<le> 32)) (\<lambda>_. Inr b))"

definition infer_netmask :: "ip_addr \<Rightarrow> nat" where
  "infer_netmask addr =
     (if addr = 0 then 32 - 32
      else if addr AND push_bit 31 1 = 0 then 32 - 24
      else if addr AND push_bit 30 3 = push_bit 30 2 then 32 - 16
      else if addr AND push_bit 29 7 = push_bit 29 6 then 32 - 8
      else if addr AND push_bit 28 15 = push_bit 28 14 then 32 - 0
      else 32 - 0)"

text \<open>\<open>check\<close> of \<open>parse_cidr\<close>: \<open>wild\<close> is the number of host bits.\<close>

definition cidr_check :: "bool \<Rightarrow> ip_addr \<Rightarrow> nat \<Rightarrow> (ip_addr \<times> nat) result" where
  "cidr_check allow_host r0 wild =
     (if \<not> allow_host \<and> r0 AND mask wild \<noteq> 0 then Inl RuntimeError else Inr (r0, 32 - wild))"

definition parse_cidr :: "bool \<Rightarrow> bool \<Rightarrow> bytes \<Rightarrow> (ip_addr \<times> nat) result" where
  "parse_cidr infer allow_host text =
     (case split_on 47 text of
        [] \<Rightarrow> Inl IndexError
      | [a] \<Rightarrow> rbind (IPAddr_of_text a) (\<lambda>addr.
          if \<not> infer then cidr_check allow_host addr 0
          else let b = 32 - infer_netmask addr in
            if addr AND mask b = 0 then cidr_check allow_host addr b
            else cidr_check allow_host addr 0)
      | a # n # _ \<Rightarrow>
          (case py_int 10 n of
             Inr bits \<Rightarrow>
               rbind (py_assert (0 \<le> 32 - bits \<and> 32 - bits \<le> 32)) (\<lambda>_.
               rbind (IPAddr_of_text a) (\<lambda>addr. cidr_check allow_host addr (nat (32 - bits))))
           | Inl _ \<Rightarrow>
               rbind (IPAddr_of_text n) (\<lambda>m. rbind (netmask_bits m) (\<lambda>b.
               rbind (IPAddr_of_text a) (\<lambda>addr. cidr_check allow_host addr (32 - b))))))"

text \<open>\<open>inNetwork\<close> for a pair of an address and a number of network bits; \<open>get_network\<close>.\<close>

definition inNetwork :: "ip_addr \<Rightarrow> ip_addr \<times> nat \<Rightarrow> bool" where
  "inNetwork self net = (case net of (n, b) \<Rightarrow> self AND NOT (mask (32 - b)) = n)"

definition get_network :: "ip_addr \<Rightarrow> bytes \<Rightarrow> (ip_addr \<times> nat) result" where
  "get_network self netmask_or_bits =
     rbind (parse_cidr True True (ascii ''255.255.255.255/'' @ netmask_or_bits)) (\<lambda>(_, prefix).
     rbind (cidr_to_netmask (int prefix)) (\<lambda>netmask. Inr (self AND netmask, prefix)))"

text \<open>\<open>is_multicast\<close> shifts the signed value and tests three bits of the first byte.\<close>

definition ip_is_multicast :: "ip_addr \<Rightarrow> bool" where
  "ip_is_multicast self \<longleftrightarrow> drop_bit 24 (sint self) AND 0xe0 = 0xe0"

definition fmt_06x :: "nat \<Rightarrow> bytes" where "fmt_06x n = zfill 6 (digits_of 16 n)"

definition multicast_ethernet_address :: "ip_addr \<Rightarrow> eth_addr result" where
  "multicast_ethernet_address self =
     (if \<not> ip_is_multicast self then Inl RuntimeError
      else EthAddr_init (EBytes (ascii ''01005e'' @ fmt_06x (unat (self AND 0x7fffff)))))"

lemma not_mask_net_mask: "b \<le> 32 \<Longrightarrow> NOT (mask (32 - b)) = net_mask b"
  by (rule bit_eqI) (auto simp: bit_net_mask bit_not_iff bit_mask_iff)

lemma inNetwork_iff: "b \<le> 32 \<Longrightarrow> inNetwork a (n, b) \<longleftrightarrow> a AND net_mask b = n"
  by (simp add: inNetwork_def not_mask_net_mask)

lemma net_mask_and: "a \<le> b \<Longrightarrow> b \<le> 32 \<Longrightarrow> net_mask b AND net_mask a = net_mask a"
  by (rule bit_eqI) (auto simp: bit_net_mask bit_and_iff)

text \<open>A network inside a network: membership in the narrower one gives membership in the wider one.\<close>

lemma inNetwork_trans:
  assumes "a \<le> b" "b \<le> 32" "inNetwork n2 (n1, a)" "inNetwork x (n2, b)"
  shows "inNetwork x (n1, a)"
proof -
  have "x AND net_mask b = n2" "n2 AND net_mask a = n1"
    using assms by (simp_all add: inNetwork_iff)
  moreover have "x AND (net_mask b AND net_mask a) = (x AND net_mask b) AND net_mask a"
    by (simp only: and.assoc)
  ultimately have "x AND (net_mask b AND net_mask a) = n1" by (simp only:)
  then show ?thesis using assms by (simp add: inNetwork_iff net_mask_and)
qed

lemma cidr_check_network:
  assumes "cidr_check False addr wild = Inr (n, b)" "wild \<le> 32"
  shows "n = addr \<and> b = 32 - wild \<and> inNetwork n (n, b)"
proof -
  from assms have n: "n = addr" "b = 32 - wild" and z: "addr AND mask wild = 0"
    by (auto simp: cidr_check_def split: if_splits)
  have w: "32 - b = wild" using n assms(2) by simp
  have "addr AND NOT (mask wild) = addr"
  proof (rule bit_eqI)
    fix i assume "possible_bit TYPE(32 word) i"
    have "\<not> bit (addr AND mask wild) i" by (simp add: z)
    then show "bit (addr AND NOT (mask wild)) i = bit addr i"
      using \<open>possible_bit TYPE(32 word) i\<close> by (auto simp: bit_and_iff bit_not_iff)
  qed
  with n w show ?thesis by (simp add: inNetwork_def)
qed

lemma infer_netmask_le: "infer_netmask a \<le> 32"
  by (simp add: infer_netmask_def)

text \<open>
  What \<open>parse_cidr\<close> returns without \<open>allow_host\<close> is a network: at most 32 prefix bits, no host bit
  set, and the network address lies in its own network, so \<open>inNetwork\<close> on it can succeed.
\<close>

theorem parse_cidr_network:
  assumes "parse_cidr infer False text = Inr (n, b)"
  shows "b \<le> 32 \<and> inNetwork n (n, b)"
proof -
  have chk: "b \<le> 32 \<and> inNetwork n (n, b)" if "cidr_check False addr wild = Inr (n, b)" "wild \<le> 32" for addr wild
    using cidr_check_network [OF that] by auto
  have nb: "w \<le> 32" if "netmask_bits m = Inr w" for m w
    using that by (auto simp: netmask_bits_def split: prod.splits if_splits)
  show ?thesis
    using assms
    by (auto simp: parse_cidr_def Let_def infer_netmask_le dest!: chk nb split: list.splits sum.splits if_splits)
qed

theorem parse_cidr_network_witness:
  "parse_cidr False False (ascii ''10.1.0.0/16'') = Inr (0x0a010000, 16) \<and> inNetwork 0x0a010000 (0x0a010000, 16)"
proof -
  have "parse_cidr False False (ascii ''10.1.0.0/16'') = Inr (0x0a010000, 16)" by code_simp
  with parse_cidr_network [OF this] show ?thesis by simp
qed

lemma e0_bits:
  "bit (0xe0 :: int) n \<longleftrightarrow> 5 \<le> n \<and> n < 8" "bit (0xe0 :: byte) n \<longleftrightarrow> 5 \<le> n \<and> n < 8"
proof -
  have "(0xe0 :: int) = push_bit 5 (mask 3)" "(0xe0 :: byte) = push_bit 5 (mask 3)" by code_simp+
  then show "bit (0xe0 :: int) n \<longleftrightarrow> 5 \<le> n \<and> n < 8" "bit (0xe0 :: byte) n \<longleftrightarrow> 5 \<le> n \<and> n < 8"
    by (auto simp only: bit_push_bit_iff bit_mask_iff possible_bit_int possible_bit_word) auto
qed

lemma top_three: "((b :: byte) AND 0xe0 = 0xe0) \<longleftrightarrow> 224 \<le> b"
proof -
  have "b AND 0xe0 = push_bit 5 (drop_bit 5 b)"
  proof (rule bit_eqI)
    fix n :: nat
    have "5 \<le> n \<Longrightarrow> 5 + (n - 5) = n" by simp
    then show "bit (b AND 0xe0) n = bit (push_bit 5 (drop_bit 5 b)) n"
      unfolding bit_and_iff bit_push_bit_iff bit_drop_bit_eq e0_bits comp_def
      by (auto dest: bit_imp_le_length)
  qed
  moreover have "(0xe0 :: byte) = push_bit 5 7" by code_simp
  ultimately have "b AND 0xe0 = 0xe0 \<longleftrightarrow> push_bit 5 (drop_bit 5 b) = push_bit 5 (7 :: byte)" by (simp only:)
  also have "\<dots> \<longleftrightarrow> drop_bit 5 b = 7"
  proof
    assume eq: "push_bit 5 (drop_bit 5 b) = push_bit 5 (7 :: byte)"
    have seven: "(7 :: byte) = mask 3" by code_simp
    show "drop_bit 5 b = 7"
    proof (rule bit_word_eqI)
      fix n assume "n < LENGTH(8)"
      then have n: "n < 8" by simp
      show "bit (drop_bit 5 b) n = bit (7 :: byte) n"
      proof (cases "n < 3")
        case True
        with eq have "bit (push_bit 5 (drop_bit 5 b)) (n + 5) = bit (push_bit 5 (7 :: byte)) (n + 5)" by simp
        with True show ?thesis unfolding bit_push_bit_iff by simp
      next
        case False
        then have "\<not> bit b (5 + n)" using bit_imp_le_length [of b "5 + n"] by auto
        with False show ?thesis unfolding seven bit_drop_bit_eq comp_def bit_mask_iff by simp
      qed
    qed
  qed simp
  also have "\<dots> \<longleftrightarrow> unat b div 32 = 7"
    by (simp only: word_unat_eq_iff unat_drop_bit_eq) (simp add: drop_bit_eq_div)
  also have "\<dots> \<longleftrightarrow> 224 \<le> unat b"
    using unat_byte_hi [of b] by linarith
  finally show ?thesis by (simp add: word_le_nat_alt)
qed

text \<open>
  \<open>is_multicast\<close> accepts every address whose first byte is at least 224: class D, but also all of
  240.0.0.0/4 and the broadcast address, which are not multicast addresses.
\<close>

theorem ip_is_multicast_iff: "ip_is_multicast a \<longleftrightarrow> 224 \<le> (ucast (drop_bit 24 a) :: byte)"
proof -
  let ?t = "ucast (drop_bit 24 a) :: byte"
  have "drop_bit 24 (sint a) AND 0xe0 = uint (?t AND 0xe0)"
    by (rule bit_eqI) (auto simp: bit_and_iff bit_drop_bit_eq bit_sint_iff bit_uint_iff bit_ucast_iff e0_bits)
  moreover have "uint (?t AND 0xe0) = 0xe0 \<longleftrightarrow> ?t AND 0xe0 = 0xe0"
    by (simp add: word_uint_eq_iff [of "?t AND 0xe0"])
  ultimately show ?thesis
    by (simp add: ip_is_multicast_def top_three)
qed

end
