(* ===== verification/Util.thy ===== *)
theory Util
  imports Addresses
begin

text \<open>
  Functions of \<open>pox/pox/lib/util.py\<close>: the text of a datapath identifier and back, truth values from text, and
  \<open>set_extend\<close>.  Numbers of Python are unbounded, so \<open>str_to_dpid\<close> gives an \<open>int\<close>.
\<close>

section \<open>Datapath identifiers\<close>

definition dpid_to_str :: "64 word \<Rightarrow> bool \<Rightarrow> bytes" where
  "dpid_to_str dpid alwaysLong =
     (let d = to_be 8 dpid; r = join_with [45] (map (\<lambda>x. fmt_02x (uint x)) (drop 2 d)) in
      if alwaysLong \<or> take 2 d \<noteq> [0, 0] then r @ [124] @ digits_of 10 (unat (of_be (take 2 d) :: 16 word)) else r)"

text \<open>ASCII letters in lower case, and \<open>s.split("|", 2)\<close>: at most two cuts.\<close>

definition lower :: "bytes \<Rightarrow> bytes" where
  "lower = map (\<lambda>c. if 65 \<le> c \<and> c \<le> 90 then c + 32 else c)"

fun split_max :: "nat \<Rightarrow> byte \<Rightarrow> bytes \<Rightarrow> bytes list" where
  "split_max 0 sep s = [s]"
| "split_max (Suc n) sep s =
     (if sep \<in> set s then takeWhile (\<lambda>c. c \<noteq> sep) s # split_max n sep (tl (dropWhile (\<lambda>c. c \<noteq> sep) s)) else [s])"

definition without_0x :: "bytes \<Rightarrow> bytes" where
  "without_0x s = (if take 2 (lower s) = ascii ''0x'' then drop 2 s else s)"

definition str_to_dpid :: "bytes \<Rightarrow> int result" where
  "str_to_dpid text =
     (let s = split_max 2 124 (filter (\<lambda>c. c \<noteq> 45) (without_0x text)) in
      rbind (py_int 16 (hd s)) (\<lambda>a.
      let b = (if 0xffFFffFFffFF < a then a div 2 ^ 48 else 0);
          a' = (if 0xffFFffFFffFF < a then a mod 2 ^ 48 else a) in
      rbind (if length s = 2 then py_int 10 (s ! 1) else Inr b) (\<lambda>b. Inr (a' OR (b * 2 ^ 48)))))"

text \<open>Reading digits that a \<open>%\<close> format wrote.\<close>

definition number :: "nat \<Rightarrow> nat \<Rightarrow> nat list \<Rightarrow> nat" where "number base = foldl (\<lambda>a d. a * base + d)"

lemma scan_digit_chars:
  "base \<le> 16 \<Longrightarrow> list_all (\<lambda>d. d < base) ds \<Longrightarrow> prev \<or> ds \<noteq> [] \<Longrightarrow>
   scan_digits base acc prev (map digit_char ds) = Some (number base acc ds)"
proof (induction ds arbitrary: acc prev)
  case (Cons d ds)
  then show ?case using digit_char_props(1,3) [of d] by (simp add: number_def)
qed (simp add: number_def)

lemma strip_plain: "\<forall>c \<in> set s. \<not> is_blank c \<Longrightarrow> strip s = s"
proof (cases "s = []")
  case False
  assume a: "\<forall>c \<in> set s. \<not> is_blank c"
  have "dropWhile is_blank s = s" using a False by (simp add: dropWhile_eq_self_iff)
  moreover have "dropWhile is_blank (rev s) = rev s" using a False by (simp add: dropWhile_eq_self_iff hd_rev)
  ultimately show ?thesis by (simp add: strip_def)
qed (simp add: strip_def)

lemma strip_digit_chars: "list_all (\<lambda>d. d < 16) ds \<Longrightarrow> strip (map digit_char ds) = map digit_char ds"
  by (rule strip_plain) (auto simp: list_all_iff digit_char_props(2))

lemma py_int_digit_chars:
  assumes "base \<le> 16" "list_all (\<lambda>d. d < base) ds" "ds \<noteq> []"
  shows "py_int base (map digit_char ds) = Inr (int (number base 0 ds))"
proof -
  have l: "list_all (\<lambda>d. d < 16) ds" using assms by (auto simp: list_all_iff)
  obtain d ds' where d: "ds = d # ds'" using assms(3) by (cases ds) auto
  have x: "digit_char d \<notin> {43, 45}" "\<forall>e ds''. ds' = e # ds'' \<longrightarrow> digit_char e \<notin> {120, 88}"
    using l d digit_char_props(3) by auto
  then have "\<not> (2 < length (map digit_char ds) \<and> map digit_char ds ! 1 \<in> {120, 88})" using d by (cases ds') auto
  then show ?thesis
    using strip_digit_chars [OF l] scan_digit_chars [OF assms(1,2), of False 0] assms(3) x(1)
    by (auto simp: py_int_def Let_def d)
qed

lemma digits_of_map: "2 \<le> base \<Longrightarrow> \<exists>ds. digits_of base n = map digit_char ds \<and> ds \<noteq> [] \<and> list_all (\<lambda>d. d < base) ds \<and> number base 0 ds = n"
proof (induction base n rule: digits_of.induct)
  case (1 base n)
  show ?case
  proof (cases "n < base")
    case True
    then show ?thesis by (intro exI [of _ "[n]"]) (simp add: digits_of.simps [of base n] number_def)
  next
    case False
    with 1 obtain ds where ds: "digits_of base (n div base) = map digit_char ds" "ds \<noteq> []" "list_all (\<lambda>d. d < base) ds"
      "number base 0 ds = n div base" by auto
    moreover have "n mod base < base" using 1 by simp
    ultimately show ?thesis
      using False 1(2) by (intro exI [of _ "ds @ [n mod base]"]) (simp add: digits_of.simps [of base n] number_def)
  qed
qed

lemma py_int_digits_of: "2 \<le> base \<Longrightarrow> base \<le> 16 \<Longrightarrow> py_int base (digits_of base n) = Inr (int n)"
  using digits_of_map [of base n] py_int_digit_chars by fastforce

lemma digit_char_not_bar: "d < 16 \<Longrightarrow> digit_char d \<noteq> 124"
proof -
  have "list_all (\<lambda>d. digit_char d \<noteq> 124) [0..<16]" by code_simp
  then show "d < 16 \<Longrightarrow> digit_char d \<noteq> 124" by (simp add: list_all_iff)
qed

lemma digits_bar: "124 \<notin> set (digits_of 10 n)"
proof -
  obtain ds where "digits_of 10 n = map digit_char ds" "list_all (\<lambda>d. d < 10) ds" using digits_of_map [of 10 n] by auto
  then show ?thesis using digit_char_not_bar by (fastforce simp: list_all_iff)
qed

text \<open>The number that the bytes of a word stand for.\<close>

definition bytes_number :: "bytes \<Rightarrow> nat" where "bytes_number = foldl (\<lambda>a b. a * 256 + unat b) 0"

lemma bytes_number_snoc: "bytes_number (bs @ [b]) = bytes_number bs * 256 + unat b"
  by (simp add: bytes_number_def)

lemma bytes_number_append: "bytes_number (xs @ ys) = bytes_number xs * 256 ^ length ys + bytes_number ys"
proof (induction ys rule: rev_induct)
  case (snoc y ys)
  then show ?case using bytes_number_snoc [of "xs @ ys" y] bytes_number_snoc [of ys y] by (simp add: algebra_simps)
qed (simp add: bytes_number_def)

lemma bytes_number_less: "bytes_number bs < 256 ^ length bs"
proof (induction bs rule: rev_induct)
  case (snoc b bs)
  have "unat b < 256" by (rule unat_byte)
  with snoc show ?case by (simp add: bytes_number_snoc del: unat_byte)
qed (simp add: bytes_number_def)

lemma unat_of_be: "8 * length bs \<le> LENGTH('a::len) \<Longrightarrow> unat (of_be bs :: 'a word) = bytes_number bs"
proof (induction bs rule: rev_induct)
  case Nil
  then show ?case by (simp add: of_be_def bytes_number_def)
next
  case (snoc b bs)
  let ?w = "of_be bs :: 'a word"
  have w: "unat ?w = bytes_number bs" using snoc by simp
  have "unat (push_bit 8 ?w) = bytes_number bs * 256"
  proof -
    have "bytes_number bs * 256 < 256 ^ Suc (length bs)" using bytes_number_less [of bs] by simp
    also have "256 ^ Suc (length bs) = (2 :: nat) ^ (8 * Suc (length bs))" by (simp only: power_mult) simp
    also have "\<dots> \<le> 2 ^ LENGTH('a)" using snoc.prems by (intro power_increasing) auto
    finally have "bytes_number bs * 256 < 2 ^ LENGTH('a)" .
    moreover have "push_bit 8 (bytes_number bs) = bytes_number bs * 256" by (simp add: push_bit_eq_mult)
    ultimately show ?thesis by (simp add: unsigned_push_bit_eq w take_bit_nat_eq_self)
  qed
  moreover have "unat (ucast b :: 'a word) = unat b"
    using snoc.prems by (simp add: unsigned_ucast_eq take_bit_nat_eq_self_iff) (rule order_less_le_trans [OF unat_byte], rule order_trans [of _ "2 ^ 8"], simp, rule power_increasing, auto)
  moreover have "push_bit 8 ?w AND ucast b = 0" by (rule bit_eqI) (auto simp: bit_simps dest: bit_imp_le_length)
  then have "unat (push_bit 8 ?w) AND unat (ucast b :: 'a word) = 0" by (metis unsigned_0 unsigned_and_eq)
  ultimately show ?case
    by (simp add: of_be_snoc bytes_number_snoc unsigned_or_eq disjunctive_add_eq_or)
qed

lemma py_int_bytes:
  assumes "bs \<noteq> []"
  shows "py_int 16 (concat (map (\<lambda>x. fmt_02x (uint x)) bs)) = Inr (int (bytes_number bs))"
proof -
  let ?ds = "concat (map (\<lambda>b. [unat b div 16, unat b mod 16]) bs)"
  have c: "concat (map (\<lambda>x. fmt_02x (uint x)) bs) = map digit_char ?ds"
    by (simp add: fmt_02x_byte map_concat o_def)
  have n: "number 16 a ?ds = foldl (\<lambda>a b. a * 256 + unat b) a bs" for a
  proof (induction bs arbitrary: a)
    case (Cons b bs)
    have "(a * 16 + unat b div 16) * 16 + unat b mod 16 = a * 256 + unat b" by (simp add: algebra_simps)
    then have "number 16 a (concat (map (\<lambda>b. [unat b div 16, unat b mod 16]) (b # bs))) =
        number 16 (a * 256 + unat b) (concat (map (\<lambda>b. [unat b div 16, unat b mod 16]) bs))"
      by (simp only: number_def list.map concat.simps append_Cons append_Nil foldl_Cons)
    with Cons.IH show ?case by simp
  qed (simp add: number_def)
  have "py_int 16 (map digit_char ?ds) = Inr (int (number 16 0 ?ds))"
    using assms by (intro py_int_digit_chars) (auto simp: list_all_iff)
  then show ?thesis by (simp add: c n bytes_number_def)
qed

lemma filter_join: "\<forall>p \<in> set ps. sep \<notin> set p \<Longrightarrow> filter (\<lambda>c. c \<noteq> sep) (join_with [sep] ps) = concat ps"
proof (induction "[sep]" ps rule: join_with.induct)
  case (3 p q ps)
  then show ?case by (auto simp: filter_id_conv)
qed (auto simp: filter_id_conv)

lemma fmt_02x_other: "c \<in> set (fmt_02x (uint (b :: byte))) \<Longrightarrow> c \<notin> {43, 45, 46, 47, 58, 95, 120, 88} \<and> c \<noteq> 124"
  using fmt_02x_chars [of b] unat_byte [of b] digit_char_not_bar by (auto simp: fmt_02x_byte)

lemma dpid_value: "bytes_number (take 2 (to_be 8 dpid)) * 2 ^ 48 + bytes_number (drop 2 (to_be 8 dpid)) = unat (dpid :: 64 word)"
proof -
  have "unat dpid = bytes_number (take 2 (to_be 8 dpid) @ drop 2 (to_be 8 dpid))"
    using unat_of_be [of "to_be 8 dpid", where 'a=64] of_be_pack(3) [of dpid] by (simp add: pack_Q_def)
  also have "\<dots> = bytes_number (take 2 (to_be 8 dpid)) * 2 ^ 48 + bytes_number (drop 2 (to_be 8 dpid))"
    by (subst bytes_number_append) simp
  finally show ?thesis by simp
qed

lemma split_two:
  assumes "sep \<notin> set s"
  shows "split_max 2 sep s = [s]" "sep \<notin> set r \<Longrightarrow> split_max 2 sep (s @ sep # r) = [s, r]"
proof -
  have "takeWhile (\<lambda>c. c \<noteq> sep) (s @ sep # r) = s" "dropWhile (\<lambda>c. c \<noteq> sep) (s @ sep # r) = sep # r"
    using assms by (auto simp: takeWhile_append dropWhile_append)
  then show "split_max 2 sep s = [s]" "sep \<notin> set r \<Longrightarrow> split_max 2 sep (s @ sep # r) = [s, r]"
    using assms by (simp_all add: numeral_2_eq_2)
qed

lemma or_high: "a < 2 ^ 48 \<Longrightarrow> (int a OR int t * 2 ^ 48) = int (t * 2 ^ 48 + a)"
  using concat_bit_eq [of 48 "int a" "int t"]
  by (simp add: concat_bit_def take_bit_int_eq_self push_bit_eq_mult)

text \<open>
  Reading back the text of a datapath identifier, in the short or the long form, gives the identifier.
\<close>

theorem dpid_text_roundtrip: "str_to_dpid (dpid_to_str dpid long) = Inr (uint dpid)"
proof -
  define top bs where "top = take 2 (to_be 8 dpid)" and "bs = drop 2 (to_be 8 dpid)"
  define hex where "hex = concat (map (\<lambda>x. fmt_02x (uint x)) bs)"
  let ?ps = "map (\<lambda>x. fmt_02x (uint x)) bs"
  have l: "length bs = 6" "length top = 2" by (simp_all add: bs_def top_def)
  then obtain c cs where c: "bs = c # cs" "cs \<noteq> []" by (cases bs; cases "tl bs") auto
  have pre: "without_0x (join_with [45] ?ps @ r) = join_with [45] ?ps @ r" for r
  proof -
    have "digit_char (unat c mod 16) \<notin> {88, 120}" using digit_char_props(3) [of "unat c mod 16"] by simp
    then have "lower [digit_char (unat c mod 16)] \<noteq> [120]" by (auto simp: lower_def split: if_splits)
    then show ?thesis using c by (cases cs) (auto simp: without_0x_def lower_def fmt_02x_byte ascii_def)
  qed
  have no: "45 \<notin> set hex" "124 \<notin> set hex" unfolding hex_def using fmt_02x_other by fastforce+
  have fil: "filter (\<lambda>c. c \<noteq> 45) (join_with [45] ?ps) = hex"
    unfolding hex_def by (rule filter_join) (use fmt_02x_other in fastforce)
  have dig: "filter (\<lambda>c. c \<noteq> 45) (digits_of 10 n) = digits_of 10 n" for n
    using digits_of_chars [of 10 n, simplified] by (intro filter_True) blast
  have hv: "py_int 16 hex = Inr (int (bytes_number bs))" unfolding hex_def by (rule py_int_bytes) (simp add: c)
  have lt: "bytes_number bs < 2 ^ 48" using bytes_number_less [of bs] l by simp
  have top: "unat (of_be top :: 16 word) = bytes_number top" using unat_of_be [of top, where 'a=16] l by simp
  have val: "bytes_number top * 2 ^ 48 + bytes_number bs = unat dpid" unfolding top_def bs_def by (rule dpid_value)
  show ?thesis
  proof (cases "long \<or> top \<noteq> [0, 0]")
    case True
    then have "dpid_to_str dpid long = join_with [45] ?ps @ 124 # digits_of 10 (bytes_number top)"
      using top by (simp add: dpid_to_str_def Let_def top_def [symmetric] bs_def [symmetric])
    then have "split_max 2 124 (filter (\<lambda>c. c \<noteq> 45) (without_0x (dpid_to_str dpid long))) = [hex, digits_of 10 (bytes_number top)]"
      using split_two(2) [OF no(2) digits_bar] dig by (simp add: pre fil)
    then have "str_to_dpid (dpid_to_str dpid long) = Inr (int (bytes_number bs) OR int (bytes_number top) * 2 ^ 48)"
      using hv lt by (simp add: str_to_dpid_def Let_def py_int_digits_of)
    then show ?thesis by (simp only: or_high [OF lt] val uint_nat)
  next
    case False
    then have "dpid_to_str dpid long = join_with [45] ?ps @ []" "bytes_number top = 0"
      by (simp_all add: dpid_to_str_def Let_def top_def [symmetric] bs_def [symmetric] bytes_number_def)
    then have "split_max 2 124 (filter (\<lambda>c. c \<noteq> 45) (without_0x (dpid_to_str dpid long))) = [hex]"
      using split_two(1) [OF no(2)] pre [of "[]"] fil by simp
    then have "str_to_dpid (dpid_to_str dpid long) = Inr (int (bytes_number top * 2 ^ 48 + bytes_number bs))"
      using hv lt \<open>bytes_number top = 0\<close> by (simp add: str_to_dpid_def Let_def)
    then show ?thesis by (simp only: val uint_nat)
  qed
qed

end
