(* ===== verification/Packet.thy ===== *)
theory Packet
  imports Addresses
begin

text \<open>
  \<open>pox/pox/lib/packet/\<close>: the internet checksum (\<open>packet_utils.py\<close>), packet objects
  (\<open>packet_base.py\<close>), and the formats \<open>ethernet\<close>, \<open>vlan\<close>, \<open>arp\<close>, \<open>ipv4\<close>, \<open>udp\<close>, \<open>tcp\<close> and
  \<open>icmp\<close>, with parsing and packing.  A packet object is a header record, its \<open>parsed\<close> flag, its
  \<open>raw\<close> bytes and its payload; \<open>prev\<close> is the enclosing object and is passed down when packing.
  The classes of the package that are not modelled here (IPv6, LLDP, EAPOL, MPLS, LLC, IGMP, GRE,
  DHCP, DNS, RIP, VXLAN, the bodies of ICMP messages and the TCP options) are parameters: a
  \<open>packet_lib\<close> says what their parsers make of the bytes, as an object that is not changed by the
  code modelled here: whether it is parsed, the bytes it packs to (or what it raises), and the
  first IPv4 object inside it.  Header fields that the code never
  shifts or adds have their wire width; the others are natural numbers and \<open>struct.pack\<close> is checked.
\<close>

section \<open>Objects\<close>

datatype oproto = OIpv6 | OLldp | OEapol | OMpls | OLlc | OIgmp | OGre | ODhcp | ODns | ORip | OVxlan
  | OEcho | OUnreach | OTimeExceeded

record meta =
  m_parsed :: bool
  m_raw :: "bytes option"

record vlan =
  vlan_pcp :: nat
  vlan_cfi :: nat
  vlan_id :: nat
  vlan_eth_type :: "16 word"

record ipv4 =
  ip_v :: nat
  ip_hl :: nat
  ip_tos :: byte
  ip_iplen :: nat
  ip_id :: "16 word"
  ip_flags :: nat
  ip_frag :: nat
  ip_ttl :: byte
  ip_protocol :: byte
  ip_csum :: nat
  ip_srcip :: ip_addr
  ip_dstip :: ip_addr
  ip_raw_options :: bytes

record arp =
  arp_hwtype :: "16 word"
  arp_prototype :: "16 word"
  arp_hwsrc :: eth_addr
  arp_hwdst :: eth_addr
  arp_hwlen :: byte
  arp_opcode :: "16 word"
  arp_protolen :: byte
  arp_protosrc :: ip_addr
  arp_protodst :: ip_addr

record udp =
  udp_srcport :: "16 word"
  udp_dstport :: "16 word"
  udp_len :: nat
  udp_csum :: nat

record tcp =
  tcp_srcport :: "16 word"
  tcp_dstport :: "16 word"
  tcp_seq :: "32 word"
  tcp_ack :: "32 word"
  tcp_off :: nat
  tcp_res :: nat
  tcp_flags :: byte
  tcp_win :: "16 word"
  tcp_csum :: nat
  tcp_urg :: "16 word"
  tcp_options :: bytes

record icmp =
  icmp_type :: byte
  icmp_code :: byte
  icmp_csum :: nat

datatype payload =
    PNone
  | PBytes bytes
  | PVlan meta vlan payload
  | PIpv4 meta ipv4 payload
  | PArp meta arp payload
  | PUdp meta udp payload
  | PTcp meta tcp payload
  | PIcmp meta icmp payload
  | POther oproto bool "bytes result" "ipv4 option"

record ethernet =
  eth_meta :: meta
  eth_dst :: eth_addr
  eth_src :: eth_addr
  eth_type :: "16 word"
  eth_next :: payload

record packet_lib =
  lib_little :: bool
  lib_other :: "oproto \<Rightarrow> bytes \<Rightarrow> bool \<times> bytes result \<times> ipv4 option"
  lib_tcp_options :: "bytes \<Rightarrow> bytes option"

section \<open>The internet checksum\<close>

fun words16 :: "bool \<Rightarrow> bytes \<Rightarrow> nat list" where
  "words16 little (a # b # r) =
     (if little then unat a + 256 * unat b else 256 * unat a + unat b) # words16 little r"
| "words16 little _ = []"

definition sum_skip :: "nat option \<Rightarrow> nat list \<Rightarrow> nat" where
  "sum_skip skip_word arr =
     (case skip_word of None \<Rightarrow> sum_list arr
      | Some k \<Rightarrow> sum_list (map (\<lambda>i. if i = k then 0 else arr ! i) [0..<length arr]))"

definition swap16 :: "nat \<Rightarrow> nat" where "swap16 n = 256 * (n mod 256) + n div 256"

definition ntohs :: "bool \<Rightarrow> nat \<Rightarrow> nat" where
  "ntohs little n = (if little then swap16 n else n)"

text \<open>An odd number of bytes makes \<open>data[-1] + '\0'\<close> add an integer and a string, which raises.\<close>

definition checksum :: "bool \<Rightarrow> bytes \<Rightarrow> nat \<Rightarrow> nat option \<Rightarrow> nat result" where
  "checksum little data start skip_word =
     (let s0 = start + sum_skip skip_word (words16 little data) in
      if odd (length data) then Inl TypeError
      else let s1 = s0 div 65536 + s0 mod 65536; s2 = s1 + s1 div 65536
        in Inr (ntohs little (65535 - s2 mod 65536)))"

definition pack_nat_H :: "nat \<Rightarrow> bytes result" where
  "pack_nat_H n = (if n < 65536 then Inr (pack_H (word_of_nat n)) else Inl StructError)"

definition pack_nat_B :: "nat \<Rightarrow> bytes result" where
  "pack_nat_B n = (if n < 256 then Inr [word_of_nat n] else Inl StructError)"

section \<open>Packing\<close>

definition vlan_hdr :: "vlan \<Rightarrow> bytes result" where
  "vlan_hdr h =
     (let pcpid = push_bit 13 (vlan_pcp h) OR push_bit 12 (vlan_cfi h) OR vlan_id h in
      rbind (pack_nat_H pcpid) (\<lambda>p. Inr (p @ pack_H (vlan_eth_type h))))"

definition arp_hdr :: "arp \<Rightarrow> bytes" where
  "arp_hdr h =
     pack_H (arp_hwtype h) @ pack_H (arp_prototype h) @ [arp_hwlen h, arp_protolen h] @
     pack_H (arp_opcode h) @ arp_hwsrc h @ pack_L (arp_protosrc h) @ arp_hwdst h @ pack_L (arp_protodst h)"

definition ipv4_fields :: "ipv4 \<Rightarrow> nat \<Rightarrow> bytes result" where
  "ipv4_fields h csum =
     rbind (pack_nat_B (push_bit 4 (ip_v h) + ip_hl h)) (\<lambda>vhl.
     rbind (pack_nat_H (ip_iplen h)) (\<lambda>iplen.
     rbind (pack_nat_H (push_bit 13 (ip_flags h) OR ip_frag h)) (\<lambda>frag.
     rbind (pack_nat_H csum) (\<lambda>cs.
       Inr (vhl @ [ip_tos h] @ iplen @ pack_H (ip_id h) @ frag @ [ip_ttl h, ip_protocol h] @ cs @
            pack_L (ip_srcip h) @ pack_L (ip_dstip h) @ ip_raw_options h)))))"

definition ipv4_checksum :: "bool \<Rightarrow> ipv4 \<Rightarrow> nat result" where
  "ipv4_checksum little h = rbind (ipv4_fields h 0) (\<lambda>data. checksum little data 0 None)"

text \<open>\<open>hdr\<close> stores the length and the checksum in the object; the header it used is returned too.\<close>

definition ipv4_hdr :: "bool \<Rightarrow> ipv4 \<Rightarrow> bytes \<Rightarrow> (bytes \<times> ipv4) result" where
  "ipv4_hdr little h0 payload =
     (let h1 = h0\<lparr>ip_iplen := ip_hl h0 * 4 + length payload\<rparr> in
      rbind (ipv4_checksum little h1) (\<lambda>cs.
        let h2 = h1\<lparr>ip_csum := cs\<rparr> in rbind (ipv4_fields h2 cs) (\<lambda>bs. Inr (bs, h2))))"

definition pseudo_header :: "ipv4 \<Rightarrow> nat \<Rightarrow> bytes result" where
  "pseudo_header ip payload_len =
     rbind (pack_nat_H payload_len) (\<lambda>l.
       Inr (pack_L (ip_srcip ip) @ pack_L (ip_dstip ip) @ [0, ip_protocol ip] @ l))"

definition udp_fields :: "udp \<Rightarrow> nat \<Rightarrow> nat \<Rightarrow> bytes result" where
  "udp_fields h len csum =
     rbind (pack_nat_H len) (\<lambda>l. rbind (pack_nat_H csum) (\<lambda>c.
       Inr (pack_H (udp_srcport h) @ pack_H (udp_dstport h) @ l @ c)))"

definition udp_checksum :: "bool \<Rightarrow> ipv4 option \<Rightarrow> udp \<Rightarrow> bytes \<Rightarrow> nat result" where
  "udp_checksum little prev h payload =
     (case prev of
        None \<Rightarrow> Inr 0
      | Some ip \<Rightarrow>
          (let payload_len = 8 + length payload in
           rbind (udp_fields h payload_len 0) (\<lambda>myhdr.
           rbind (pseudo_header ip payload_len) (\<lambda>ph.
           rbind (checksum little (ph @ myhdr @ payload) 0 (Some 9)) (\<lambda>r.
             Inr (if r = 0 then 65535 else r))))))"

definition udp_hdr :: "bool \<Rightarrow> ipv4 option \<Rightarrow> udp \<Rightarrow> bytes \<Rightarrow> (bytes \<times> udp) result" where
  "udp_hdr little prev h payload =
     (let h1 = h\<lparr>udp_len := length payload + 8\<rparr> in
      rbind (udp_checksum little prev h1 payload) (\<lambda>cs.
        let h2 = h1\<lparr>udp_csum := cs\<rparr> in
        rbind (udp_fields h2 (udp_len h2) cs) (\<lambda>bs. Inr (bs, h2))))"

definition tcp_fields :: "tcp \<Rightarrow> nat \<Rightarrow> (bytes \<times> tcp) result" where
  "tcp_fields h csum =
     (let opts = tcp_options h;
          hdr_len = 20 + length opts;
          padn = (if hdr_len mod 4 \<noteq> 0 then 4 - hdr_len mod 4 else 0);
          h1 = h\<lparr>tcp_off := (hdr_len + padn) div 4\<rparr> in
      rbind (pack_nat_B (push_bit 4 (tcp_off h1) OR tcp_res h1)) (\<lambda>offres.
      rbind (pack_nat_H csum) (\<lambda>c.
        Inr (pack_H (tcp_srcport h1) @ pack_H (tcp_dstport h1) @ pack_L (tcp_seq h1) @ pack_L (tcp_ack h1) @
             offres @ [tcp_flags h1] @ pack_H (tcp_win h1) @ c @ pack_H (tcp_urg h1) @ opts @ pad padn, h1))))"

definition tcp_checksum :: "bool \<Rightarrow> ipv4 option \<Rightarrow> tcp \<Rightarrow> bytes \<Rightarrow> nat result" where
  "tcp_checksum little prev h payload =
     (case prev of
        None \<Rightarrow> Inr 0
      | Some ip \<Rightarrow>
          rbind (tcp_fields h 0) (\<lambda>(hd, _).
          rbind (pseudo_header ip (length (hd @ payload))) (\<lambda>ph.
            checksum little (ph @ hd @ payload) 0 (Some 14))))"

definition tcp_hdr :: "bool \<Rightarrow> ipv4 option \<Rightarrow> tcp \<Rightarrow> bytes \<Rightarrow> (bytes \<times> tcp) result" where
  "tcp_hdr little prev h payload =
     rbind (tcp_checksum little prev h payload) (\<lambda>cs. tcp_fields (h\<lparr>tcp_csum := cs\<rparr>) cs)"

definition icmp_hdr :: "bool \<Rightarrow> icmp \<Rightarrow> bytes \<Rightarrow> (bytes \<times> icmp) result" where
  "icmp_hdr little h payload =
     rbind (checksum little ([icmp_type h, icmp_code h, 0, 0] @ payload) 0 None) (\<lambda>cs.
     rbind (pack_nat_H cs) (\<lambda>c. Inr ([icmp_type h, icmp_code h] @ c, h\<lparr>icmp_csum := cs\<rparr>)))"

text \<open>
  \<open>packet_base.pack\<close>: an object that was not parsed, has raw bytes and no payload packs to the raw
  bytes; any other one packs its payload and then its header.  Packing also writes the computed
  lengths and checksums into the objects; nothing in the code modelled here reads those fields
  before they are computed again, and the model does not record the writes.
\<close>

definition unparsed_raw :: "meta \<Rightarrow> payload \<Rightarrow> bytes option" where
  "unparsed_raw m n = (if \<not> m_parsed m \<and> n = PNone then m_raw m else None)"

fun pack_payload :: "bool \<Rightarrow> ipv4 option \<Rightarrow> payload \<Rightarrow> bytes result" where
  "pack_payload le prev PNone = Inr []"
| "pack_payload le prev (PBytes b) = Inr b"
| "pack_payload le prev (POther p d r f) = r"
| "pack_payload le prev (PVlan m h n) =
     (case unparsed_raw m n of Some raw \<Rightarrow> Inr raw | None \<Rightarrow>
       rbind (pack_payload le None n) (\<lambda>rest. rbind (vlan_hdr h) (\<lambda>hd. Inr (hd @ rest))))"
| "pack_payload le prev (PIpv4 m h n) =
     (case unparsed_raw m n of Some raw \<Rightarrow> Inr raw | None \<Rightarrow>
       rbind (pack_payload le (Some h) n) (\<lambda>rest. rbind (ipv4_hdr le h rest) (\<lambda>(hd, _). Inr (hd @ rest))))"
| "pack_payload le prev (PArp m h n) =
     (case unparsed_raw m n of Some raw \<Rightarrow> Inr raw | None \<Rightarrow>
       rbind (pack_payload le None n) (\<lambda>rest. Inr (arp_hdr h @ rest)))"
| "pack_payload le prev (PUdp m h n) =
     (case unparsed_raw m n of Some raw \<Rightarrow> Inr raw | None \<Rightarrow>
       rbind (pack_payload le None n) (\<lambda>rest. rbind (udp_hdr le prev h rest) (\<lambda>(hd, _). Inr (hd @ rest))))"
| "pack_payload le prev (PTcp m h n) =
     (case unparsed_raw m n of Some raw \<Rightarrow> Inr raw | None \<Rightarrow>
       rbind (pack_payload le None n) (\<lambda>rest. rbind (tcp_hdr le prev h rest) (\<lambda>(hd, _). Inr (hd @ rest))))"
| "pack_payload le prev (PIcmp m h n) =
     (case unparsed_raw m n of Some raw \<Rightarrow> Inr raw | None \<Rightarrow>
       rbind (pack_payload le None n) (\<lambda>rest. rbind (icmp_hdr le h rest) (\<lambda>(hd, _). Inr (hd @ rest))))"

text \<open>The format \<open>6s\<close> pads or cuts a byte string to six bytes.\<close>

definition fmt_6s :: "bytes \<Rightarrow> bytes" where "fmt_6s b = take 6 (b @ pad 6)"

definition eth_hdr :: "ethernet \<Rightarrow> bytes" where
  "eth_hdr e = fmt_6s (eth_dst e) @ fmt_6s (eth_src e) @ pack_H (eth_type e)"

definition eth_pack :: "bool \<Rightarrow> ethernet \<Rightarrow> bytes result" where
  "eth_pack le e =
     (case unparsed_raw (eth_meta e) (eth_next e) of Some raw \<Rightarrow> Inr raw | None \<Rightarrow>
       rbind (pack_payload le None (eth_next e)) (\<lambda>rest. Inr (eth_hdr e @ rest)))"

section \<open>Parsing\<close>

definition py_slice :: "nat \<Rightarrow> nat \<Rightarrow> bytes \<Rightarrow> bytes" where "py_slice i j bs = take (j - i) (drop i bs)"

definition u16_at :: "bytes \<Rightarrow> nat \<Rightarrow> 16 word" where "u16_at bs i = of_be (py_slice i (i + 2) bs)"
definition u32_at :: "bytes \<Rightarrow> nat \<Rightarrow> 32 word" where "u32_at bs i = of_be (py_slice i (i + 4) bs)"

definition other_obj :: "packet_lib \<Rightarrow> oproto \<Rightarrow> bytes \<Rightarrow> payload" where
  "other_obj L p raw = (case lib_other L p raw of (parsed, r, found) \<Rightarrow> POther p parsed r found)"

definition default_arp :: arp where
  "default_arp = \<lparr>arp_hwtype = 1, arp_prototype = 0x0800, arp_hwsrc = EMPTY_ETH, arp_hwdst = EMPTY_ETH,
     arp_hwlen = 6, arp_opcode = 0, arp_protolen = 4, arp_protosrc = 0, arp_protodst = 0\<rparr>"

definition arp_parse :: "bytes \<Rightarrow> payload" where
  "arp_parse raw =
     (if length raw < 28 then PArp \<lparr>m_parsed = False, m_raw = Some raw\<rparr> default_arp PNone
      else
        let a0 = default_arp\<lparr>arp_hwtype := u16_at raw 0, arp_prototype := u16_at raw 2, arp_hwlen := raw ! 4,
                   arp_protolen := raw ! 5, arp_opcode := u16_at raw 6\<rparr>;
            bad = \<lparr>m_parsed = False, m_raw = Some raw\<rparr>
        in
          if arp_hwtype a0 \<noteq> 1 then PArp bad a0 PNone
          else if arp_hwlen a0 \<noteq> 6 then PArp bad a0 PNone
          else let a1 = a0\<lparr>arp_hwsrc := py_slice 8 14 raw, arp_hwdst := py_slice 18 24 raw\<rparr> in
            if arp_prototype a1 \<noteq> 0x0800 then PArp bad a1 PNone
            else if arp_protolen a1 \<noteq> 4 then PArp bad a1 PNone
            else PArp \<lparr>m_parsed = True, m_raw = Some raw\<rparr>
                   (a1\<lparr>arp_protosrc := u32_at raw 14, arp_protodst := u32_at raw 24\<rparr>) (PBytes (drop 28 raw)))"

definition icmp_parse :: "packet_lib \<Rightarrow> bytes \<Rightarrow> payload" where
  "icmp_parse L raw =
     (if length raw < 4 then
        PIcmp \<lparr>m_parsed = False, m_raw = None\<rparr> \<lparr>icmp_type = 0, icmp_code = 0, icmp_csum = 0\<rparr> PNone
      else
        let h = \<lparr>icmp_type = raw ! 0, icmp_code = raw ! 1, icmp_csum = unat (u16_at raw 2)\<rparr>;
            body = drop 4 raw in
        PIcmp \<lparr>m_parsed = True, m_raw = None\<rparr> h
          (if icmp_type h = 8 \<or> icmp_type h = 0 then other_obj L OEcho body
           else if icmp_type h = 3 then other_obj L OUnreach body
           else if icmp_type h = 11 then other_obj L OTimeExceeded body
           else PBytes body))"

definition udp_parse :: "packet_lib \<Rightarrow> bytes \<Rightarrow> payload" where
  "udp_parse L raw =
     (if length raw < 8 then
        PUdp \<lparr>m_parsed = False, m_raw = Some raw\<rparr>
          \<lparr>udp_srcport = 0, udp_dstport = 0, udp_len = 8, udp_csum = 0\<rparr> PNone
      else
        let h = \<lparr>udp_srcport = u16_at raw 0, udp_dstport = u16_at raw 2, udp_len = unat (u16_at raw 4),
                 udp_csum = unat (u16_at raw 6)\<rparr>;
            body = drop 8 raw; s = udp_srcport h; d = udp_dstport h in
        PUdp \<lparr>m_parsed = True, m_raw = Some raw\<rparr> h
          (if udp_len h < 8 then PNone
           else if d = 67 \<or> d = 68 then other_obj L ODhcp body
           else if d = 53 \<or> s = 53 then other_obj L ODns body
           else if d = 5353 \<or> s = 5353 then other_obj L ODns body
           else if d = 520 \<or> s = 520 then other_obj L ORip body
           else if d = 4789 \<or> s = 4789 then other_obj L OVxlan body
           else if length raw < udp_len h then PNone
           else PBytes body))"

definition default_tcp :: tcp where
  "default_tcp = \<lparr>tcp_srcport = 0, tcp_dstport = 0, tcp_seq = 0, tcp_ack = 0, tcp_off = 0, tcp_res = 0,
     tcp_flags = 0, tcp_win = 0, tcp_csum = 0, tcp_urg = 0, tcp_options = []\<rparr>"

definition tcp_parse :: "packet_lib \<Rightarrow> bytes \<Rightarrow> payload" where
  "tcp_parse L raw =
     (let bad = \<lparr>m_parsed = False, m_raw = Some raw\<rparr> in
      if length raw < 20 then PTcp bad default_tcp PNone
      else
        let offres = raw ! 12;
            h = default_tcp\<lparr>tcp_srcport := u16_at raw 0, tcp_dstport := u16_at raw 2, tcp_seq := u32_at raw 4,
                 tcp_ack := u32_at raw 8, tcp_off := unat (drop_bit 4 offres), tcp_res := unat (offres AND 0x0f),
                 tcp_flags := raw ! 13, tcp_win := u16_at raw 14, tcp_csum := unat (u16_at raw 16),
                 tcp_urg := u16_at raw 18\<rparr>
        in
          if tcp_off h * 4 < 20 \<or> length raw < tcp_off h * 4 then PTcp bad h PNone
          else case lib_tcp_options L raw of
            None \<Rightarrow> PTcp bad h PNone
          | Some opts \<Rightarrow>
              PTcp \<lparr>m_parsed = True, m_raw = Some raw\<rparr> (h\<lparr>tcp_options := opts\<rparr>) (PBytes (drop (tcp_off h * 4) raw)))"

definition payload_parsed :: "payload \<Rightarrow> bool" where
  "payload_parsed p =
     (case p of PNone \<Rightarrow> True | PBytes _ \<Rightarrow> True | PVlan m _ _ \<Rightarrow> m_parsed m | PIpv4 m _ _ \<Rightarrow> m_parsed m
      | PArp m _ _ \<Rightarrow> m_parsed m | PUdp m _ _ \<Rightarrow> m_parsed m | PTcp m _ _ \<Rightarrow> m_parsed m
      | PIcmp m _ _ \<Rightarrow> m_parsed m | POther _ d _ _ \<Rightarrow> d)"

definition default_ipv4 :: "16 word \<Rightarrow> ipv4" where
  "default_ipv4 ident = \<lparr>ip_v = 4, ip_hl = 5, ip_tos = 0, ip_iplen = 20, ip_id = ident, ip_flags = 0, ip_frag = 0,
     ip_ttl = 64, ip_protocol = 0, ip_csum = 0, ip_srcip = 0, ip_dstip = 0, ip_raw_options = []\<rparr>"

text \<open>
  The identification a new \<open>ipv4\<close> object takes from the class counter is visible only in an object
  whose header could not be read, which packs to its raw bytes; the model uses 0 there.
\<close>

definition ipv4_parse :: "packet_lib \<Rightarrow> bytes \<Rightarrow> payload" where
  "ipv4_parse L raw =
     (let bad = \<lparr>m_parsed = False, m_raw = Some raw\<rparr>; dlen = length raw in
      if dlen < 20 then PIpv4 bad (default_ipv4 0) PNone
      else
        let vhl = raw ! 0;
            h = \<lparr>ip_v = unat (drop_bit 4 vhl), ip_hl = unat (vhl AND 0x0f), ip_tos = raw ! 1,
                 ip_iplen = unat (u16_at raw 2), ip_id = u16_at raw 4,
                 ip_flags = unat (drop_bit 13 (u16_at raw 6)), ip_frag = unat (u16_at raw 6 AND 0x1fff),
                 ip_ttl = raw ! 8, ip_protocol = raw ! 9, ip_csum = unat (u16_at raw 10),
                 ip_srcip = u32_at raw 12, ip_dstip = u32_at raw 16, ip_raw_options = []\<rparr>
        in
          if ip_v h \<noteq> 4 then PIpv4 bad h PNone
          else if ip_hl h < 5 then PIpv4 bad h PNone
          else if ip_iplen h < 20 then PIpv4 bad h PNone
          else if ip_iplen h < ip_hl h * 4 then PIpv4 bad h PNone
          else if dlen < ip_hl h * 4 then PIpv4 bad h PNone
          else
            let h' = h\<lparr>ip_raw_options := py_slice 20 (ip_hl h * 4) raw\<rparr>;
                len = min (ip_iplen h) dlen;
                body = py_slice (ip_hl h * 4) len raw;
                next = (if ip_frag h \<noteq> 0 then PBytes body
                  else if ip_protocol h = 17 then udp_parse L body
                  else if ip_protocol h = 6 then tcp_parse L body
                  else if ip_protocol h = 1 then icmp_parse L body
                  else if ip_protocol h = 2 then other_obj L OIgmp body
                  else if ip_protocol h = 47 then other_obj L OGre body
                  else if dlen < ip_iplen h then PNone
                  else PBytes body)
            in PIpv4 \<lparr>m_parsed = True, m_raw = Some raw\<rparr> h' (if payload_parsed next then next else PBytes body))"

function parse_next :: "packet_lib \<Rightarrow> 16 word \<Rightarrow> bytes \<Rightarrow> bool \<Rightarrow> payload" where
  "parse_next L typelen raw allow_llc =
     (if typelen = 0x8100 then
        (if length raw < 4 then
           PVlan \<lparr>m_parsed = False, m_raw = Some raw\<rparr> \<lparr>vlan_pcp = 0, vlan_cfi = 0, vlan_id = 0, vlan_eth_type = 0\<rparr> PNone
         else
           let pcpid = u16_at raw 0; t = u16_at raw 2 in
           PVlan \<lparr>m_parsed = True, m_raw = Some raw\<rparr>
             \<lparr>vlan_pcp = unat (drop_bit 13 pcpid), vlan_cfi = unat (pcpid AND 0x1000),
              vlan_id = unat (pcpid AND 0x0fff), vlan_eth_type = t\<rparr>
             (parse_next L t (drop 4 raw) True))
      else if typelen = 0x0806 \<or> typelen = 0x8035 then arp_parse raw
      else if typelen = 0x0800 then ipv4_parse L raw
      else if typelen = 0x86dd then other_obj L OIpv6 raw
      else if typelen = 0x88cc then other_obj L OLldp raw
      else if typelen = 0x888e then other_obj L OEapol raw
      else if typelen = 0x8847 \<or> typelen = 0x8848 then other_obj L OMpls raw
      else if typelen < 1536 \<and> allow_llc then other_obj L OLlc raw
      else PBytes raw)"
  by pat_completeness auto
termination
  by (relation "measure (\<lambda>(L, t, raw, a). length raw)") auto

declare parse_next.simps [simp del]

definition eth_parse :: "packet_lib \<Rightarrow> bytes \<Rightarrow> ethernet" where
  "eth_parse L raw =
     (if length raw < 14 then
        \<lparr>eth_meta = \<lparr>m_parsed = False, m_raw = Some raw\<rparr>, eth_dst = EMPTY_ETH, eth_src = EMPTY_ETH,
         eth_type = 0, eth_next = PNone\<rparr>
      else
        \<lparr>eth_meta = \<lparr>m_parsed = True, m_raw = Some raw\<rparr>, eth_dst = py_slice 0 6 raw, eth_src = py_slice 6 12 raw,
         eth_type = u16_at raw 12, eth_next = parse_next L (u16_at raw 12) (drop 14 raw) True\<rparr>)"

text \<open>
  \<open>packet.find(ipv4)\<close>: the first parsed IPv4 object on the chain of payloads.  The search goes on
  only through objects that are true, which for a packet object means parsed.
\<close>

fun find_ipv4 :: "payload \<Rightarrow> ipv4 option" where
  "find_ipv4 (PIpv4 m h n) = (if m_parsed m then Some h else if payload_parsed n then find_ipv4 n else None)"
| "find_ipv4 (PVlan m h n) = (if payload_parsed n then find_ipv4 n else None)"
| "find_ipv4 (PArp m h n) = (if payload_parsed n then find_ipv4 n else None)"
| "find_ipv4 (PUdp m h n) = (if payload_parsed n then find_ipv4 n else None)"
| "find_ipv4 (PTcp m h n) = (if payload_parsed n then find_ipv4 n else None)"
| "find_ipv4 (PIcmp m h n) = (if payload_parsed n then find_ipv4 n else None)"
| "find_ipv4 (POther p d r found) = found"
| "find_ipv4 _ = None"

definition eth_find_ipv4 :: "ethernet \<Rightarrow> ipv4 option" where
  "eth_find_ipv4 e = (if payload_parsed (eth_next e) then find_ipv4 (eth_next e) else None)"

section \<open>The checksum is the internet checksum\<close>

text \<open>RFC 1071: the sum of the big-endian 16-bit words with end-around carry.\<close>

definition oc_add :: "nat \<Rightarrow> nat \<Rightarrow> nat" where
  "oc_add a b = (if a + b < 65536 then a + b else a + b - 65535)"

definition rfc1071_sum :: "bytes \<Rightarrow> nat" where
  "rfc1071_sum data = foldl oc_add 0 (words16 False data)"

definition fold16 :: "nat \<Rightarrow> nat" where
  "fold16 s = (let s1 = s div 65536 + s mod 65536 in (s1 + s1 div 65536) mod 65536)"

lemma fold16_lt [simp]: "fold16 s < 65536"
  by (simp add: fold16_def Let_def)

text \<open>A folded sum is the representative of \<open>s\<close> modulo 65535 in 1..65535, or 0 for 0.\<close>

definition oc_rep :: "nat \<Rightarrow> nat" where
  "oc_rep s = (if s = 0 then 0 else if s mod 65535 = 0 then 65535 else s mod 65535)"

lemma oc_rep_unique:
  assumes "r \<le> 65535" "r mod 65535 = s mod 65535" "r = 0 \<longleftrightarrow> s = 0"
  shows "oc_rep s = r"
proof (cases "r = 65535")
  case True
  then show ?thesis using assms by (auto simp: oc_rep_def)
next
  case False
  then have "r mod 65535 = r" using assms(1) by (intro mod_less) simp
  then show ?thesis using assms by (auto simp: oc_rep_def)
qed

lemma mod_65535_le: "s mod 65535 \<le> (65535 :: nat)"
  by (rule less_imp_le, rule mod_less_divisor) simp

lemma oc_rep_props: "oc_rep s \<le> 65535" "oc_rep s mod 65535 = s mod 65535" "oc_rep s = 0 \<longleftrightarrow> s = 0"
  by (auto simp: oc_rep_def mod_65535_le)

lemma fold16_rep:
  assumes "s < 65536 * 65536"
  shows "fold16 s = oc_rep s"
proof -
  define q r where "q = s div 65536" and "r = s mod 65536"
  have q: "q < 65536" and r: "r < 65536" using assms by (simp_all add: q_def r_def less_mult_imp_div_less)
  have s: "s = 65535 * q + (q + r)"
    using div_mult_mod_eq [of s 65536] by (simp add: q_def r_def)
  have m: "s mod 65535 = (q + r) mod 65535" by (simp only: s mod_mult_self4)
  have f: "fold16 s = (if q + r < 65536 then q + r else q + r - 65535)"
  proof (cases "q + r < 65536")
    case False
    then have "(q + r) div 65536 = 1" using q r by (intro div_nat_eqI) simp_all
    moreover have "q + r - 65535 < 65536" using q r by simp
    moreover have "q + r + 1 = 65536 + (q + r - 65535)" using False by simp
    ultimately have "(q + r + 1) mod 65536 = q + r - 65535" by (simp only: mod_add_self1 mod_less)
    with \<open>(q + r) div 65536 = 1\<close> False show ?thesis
      by (simp add: fold16_def Let_def q_def [symmetric] r_def [symmetric])
  qed (simp add: fold16_def Let_def q_def [symmetric] r_def [symmetric])
  have "(q + r - 65535) mod 65535 = (q + r) mod 65535" if "\<not> q + r < 65536"
    using that le_mod_geq [of 65535 "q + r"] by simp
  then show ?thesis
    by (intro oc_rep_unique [symmetric]) (use f m s q r in \<open>auto split: if_splits\<close>)
qed

lemma oc_add_rep: "oc_add (oc_rep a) (oc_rep b) = oc_rep (a + b)"
proof (rule oc_rep_unique [symmetric])
  have a: "oc_rep a \<le> 65535" and b: "oc_rep b \<le> 65535" by (rule oc_rep_props)+
  show "oc_add (oc_rep a) (oc_rep b) \<le> 65535"
    using a b by (auto simp: oc_add_def)
  have "oc_add (oc_rep a) (oc_rep b) mod 65535 = (oc_rep a + oc_rep b) mod 65535"
    by (simp add: oc_add_def le_mod_geq)
  also have "\<dots> = (a + b) mod 65535"
    by (metis mod_add_eq oc_rep_props(2))
  finally show "oc_add (oc_rep a) (oc_rep b) mod 65535 = (a + b) mod 65535" .
  show "oc_add (oc_rep a) (oc_rep b) = 0 \<longleftrightarrow> a + b = 0"
    using oc_rep_props(3) [of a] oc_rep_props(3) [of b] by (auto simp: oc_add_def)
qed

lemma oc_rep_small: "s \<le> 65535 \<Longrightarrow> oc_rep s = s"
  by (rule oc_rep_unique) auto

lemma words16_lt: "w \<in> set (words16 le data) \<Longrightarrow> w < 65536"
proof (induction le data rule: words16.induct)
  case (1 little a b r)
  show ?case
  proof -
    have "unat a < 256" "unat b < 256" by (rule unat_byte)+
    then have "unat a + 256 * unat b < 65536" "256 * unat a + unat b < 65536" by linarith+
    then show ?thesis using 1 by (cases little) (auto simp del: unat_byte)
  qed
qed auto

lemma foldl_oc: "\<forall>w \<in> set ws. w \<le> 65535 \<Longrightarrow> foldl oc_add (oc_rep a) ws = oc_rep (a + sum_list ws)"
proof (induction ws arbitrary: a)
  case (Cons w ws)
  have "oc_add (oc_rep a) w = oc_rep (a + w)"
    using oc_add_rep [of a w] Cons.prems by (simp add: oc_rep_small)
  with Cons show ?case by (simp add: add.assoc)
qed simp

lemma rfc1071_sum_rep: "rfc1071_sum data = oc_rep (sum_list (words16 False data))"
proof -
  have "w \<le> 65535" if "w \<in> set (words16 False data)" for w
    using words16_lt [OF that] by simp
  moreover have "oc_rep 0 = 0" by (simp add: oc_rep_def)
  ultimately show ?thesis
    using foldl_oc [of "words16 False data" 0] by (simp add: rfc1071_sum_def)
qed

text \<open>The two byte orders give sums that differ by a factor of 256 modulo 65535.\<close>

lemma swap16_props:
  assumes "n < 65536"
  shows "swap16 n < 65536" "swap16 n mod 65535 = (256 * n) mod 65535" "swap16 n = 0 \<longleftrightarrow> n = 0"
    "swap16 (65535 - n) = 65535 - swap16 n"
proof -
  define h l where "h = n div 256" and "l = n mod 256"
  have l: "l < 256" by (simp add: l_def)
  have h: "h < 256" using assms by (simp add: h_def less_mult_imp_div_less)
  have n: "n = 256 * h + l" by (simp add: h_def l_def)
  have sw: "swap16 n = 256 * l + h" by (simp add: swap16_def h_def l_def)
  show "swap16 n < 65536" using l h sw by simp
  have "256 * n = 65535 * h + (256 * l + h)" by (simp add: n)
  then show "swap16 n mod 65535 = (256 * n) mod 65535" by (simp only: sw mod_mult_self4)
  show "swap16 n = 0 \<longleftrightarrow> n = 0" by (simp only: sw, simp add: n conj_commute)
  have c: "65535 - n = 256 * (255 - h) + (255 - l)" using l h by (simp add: n)
  have d: "(65535 - n) div 256 = 255 - h" by (rule div_nat_eqI) (use c l in simp_all)
  have "(65535 - n) mod 256 = 255 - l" using c d by (simp add: modulo_nat_def)
  with d have "swap16 (65535 - n) = 256 * (255 - l) + (255 - h)" by (simp add: swap16_def)
  then show "swap16 (65535 - n) = 65535 - swap16 n" using l h by (simp add: sw)
qed

lemma words16_swap: "words16 True data = map swap16 (words16 False data)"
proof (induction "True" data rule: words16.induct)
  case (1 a b r)
  have "unat b < 256" by (rule unat_byte)
  then have "swap16 (256 * unat a + unat b) = unat a + 256 * unat b" by (simp add: swap16_def)
  with 1 show ?case by simp
qed auto

lemma sum_swap16:
  assumes "\<forall>w \<in> set ws. w < 65536"
  shows "sum_list (map swap16 ws) mod 65535 = (256 * sum_list ws) mod 65535"
    "sum_list (map swap16 ws) = 0 \<longleftrightarrow> sum_list ws = 0"
proof -
  show "sum_list (map swap16 ws) mod 65535 = (256 * sum_list ws) mod 65535" using assms
  proof (induction ws)
    case (Cons w ws)
    then have "swap16 w mod 65535 = (256 * w) mod 65535" by (intro swap16_props) simp
    with Cons show ?case
      by (simp only: list.map sum_list.Cons distrib_left) (rule mod_add_cong, simp_all)
  qed simp
  show "sum_list (map swap16 ws) = 0 \<longleftrightarrow> sum_list ws = 0"
    using assms by (induction ws) (auto simp: swap16_props)
qed

lemma sum_list_lt:
  assumes "\<forall>w \<in> set ws. w < 65536" "length ws \<le> n"
  shows "sum_list ws \<le> 65535 * n"
proof -
  have "sum_list ws \<le> 65535 * length ws" using assms(1) by (induction ws) auto
  also have "\<dots> \<le> 65535 * n" using assms(2) by simp
  finally show ?thesis .
qed

lemma length_words16: "length (words16 le data) = length data div 2"
  by (induction le data rule: words16.induct) auto

lemma ntohs_fold16:
  assumes "length data < 131072"
  shows "ntohs le (fold16 (sum_list (words16 le data))) = rfc1071_sum data"
proof -
  let ?ws = "words16 False data"
  have b: "\<forall>w \<in> set (words16 x data). w < 65536" for x using words16_lt by blast
  have lt: "sum_list (words16 x data) < 65536 * 65536" for x
  proof -
    have "length (words16 x data) \<le> 65535" using assms by (simp add: length_words16)
    from sum_list_lt [OF b this] show ?thesis by simp
  qed
  show ?thesis
  proof (cases le)
    case False
    then show ?thesis by (simp add: ntohs_def fold16_rep [OF lt] rfc1071_sum_rep)
  next
    case True
    let ?s = "sum_list (map swap16 ?ws)"
    have r: "fold16 ?s = oc_rep ?s" using lt [of True] by (intro fold16_rep) (simp add: words16_swap)
    have o: "oc_rep ?s \<le> 65535" by (rule oc_rep_props)
    then have sw: "swap16 (oc_rep ?s) < 65536" "swap16 (oc_rep ?s) mod 65535 = (256 * oc_rep ?s) mod 65535"
      "swap16 (oc_rep ?s) = 0 \<longleftrightarrow> oc_rep ?s = 0"
      by (intro swap16_props; simp)+
    have "(256 * oc_rep ?s) mod 65535 = (256 * ?s) mod 65535"
      by (metis mod_mult_right_eq oc_rep_props(2))
    also have "\<dots> = (256 * (256 * sum_list ?ws)) mod 65535"
      using sum_swap16(1) [OF b] by (metis mod_mult_right_eq)
    also have "\<dots> = (65535 * sum_list ?ws + sum_list ?ws) mod 65535" by simp
    also have "\<dots> = sum_list ?ws mod 65535" by (simp only: mod_mult_self4)
    finally have "oc_rep (sum_list ?ws) = swap16 (oc_rep ?s)"
      using sw sum_swap16(2) [OF b, of False] oc_rep_props(3) [of ?s]
      by (intro oc_rep_unique) simp_all
    then show ?thesis using True r by (simp add: ntohs_def words16_swap rfc1071_sum_rep)
  qed
qed

text \<open>
  C40. Over fewer than 131072 bytes, the checksum the code computes with native words, a fold in two
  steps and a final \<open>ntohs\<close> is the complement of the RFC 1071 sum of the big-endian words with
  end-around carry, on hosts of either byte order; an odd number of bytes makes it raise.
\<close>

theorem checksum_rfc1071:
  assumes "length data < 131072"
  shows "checksum le data 0 None =
    (if even (length data) then Inr (65535 - rfc1071_sum data) else Inl TypeError)"
proof -
  let ?f = "fold16 (sum_list (words16 le data))"
  have "ntohs le (65535 - ?f) = 65535 - ntohs le ?f"
    by (simp add: ntohs_def swap16_props(4) [OF fold16_lt])
  then show ?thesis
    using ntohs_fold16 [OF assms, of le]
    by (simp add: checksum_def Let_def sum_skip_def fold16_def)
qed

theorem checksum_rfc1071_witness:
  "checksum True [0x45, 0, 0, 20] 0 None = Inr (65535 - rfc1071_sum [0x45, 0, 0, 20])"
  using checksum_rfc1071 [of "[0x45, 0, 0, 20]" True] by simp

lemma words16_append: "even (length a) \<Longrightarrow> words16 le (a @ b) = words16 le a @ words16 le b"
  by (induction le a rule: words16.induct) auto

lemma words16_pack: "n < 65536 \<Longrightarrow> words16 False (pack_H (word_of_nat n)) = [n]"
proof -
  assume n: "n < 65536"
  have "pack_H w = [ucast (drop_bit 8 w), ucast w]" for w
    by (simp add: pack_H_def numeral_2_eq_2)
  moreover have "256 * unat (ucast (drop_bit 8 (w :: 16 word)) :: byte) + unat (ucast w :: byte) = unat w" for w
  proof -
    have u: "unat w < (65536 :: nat)" using unsigned_less [of w] by simp
    have "unat (ucast w :: byte) = unat w mod 256" by (simp add: unsigned_ucast_eq take_bit_eq_mod)
    moreover have "unat (ucast (drop_bit 8 w) :: byte) = unat w div 256 mod 256"
      by (simp add: unsigned_ucast_eq unsigned_drop_bit_eq take_bit_eq_mod drop_bit_eq_div [where 'a=nat] u less_mult_imp_div_less)
    moreover have "unat w div 256 < 256" using u by (simp add: less_mult_imp_div_less)
    ultimately show ?thesis by simp
  qed
  moreover have "unat (word_of_nat n :: 16 word) = n" using n by (simp add: unat_of_nat)
  ultimately show ?thesis by simp
qed

text \<open>A checksum field in the middle of the data that was zero when the checksum was computed.\<close>

lemma checksum_verifies:
  assumes "even (length a)" "length (a @ b) < 130000"
    and cs: "checksum le (a @ pack_H 0 @ b) 0 None = Inr cs"
  shows "cs < 65536" "checksum le (a @ pack_H (word_of_nat cs) @ b) 0 None = Inr 0"
proof -
  let ?r = "rfc1071_sum (a @ pack_H 0 @ b)"
  define S where "S = sum_list (words16 False a) + sum_list (words16 False b)"
  have ev: "even (length (a @ b))" and "cs = 65535 - ?r"
    using cs assms(2) by (simp_all add: checksum_rfc1071 split: if_splits)
  have r: "?r = oc_rep S"
    using words16_pack [of 0] assms(1) by (simp add: rfc1071_sum_rep words16_append S_def)
  have le: "oc_rep S \<le> 65535" by (rule oc_rep_props)
  show lt: "cs < 65536" using \<open>cs = _\<close> by simp
  have "oc_rep (S + cs) = 65535"
  proof (rule oc_rep_unique)
    have "(S + cs) mod 65535 = (oc_rep S + cs) mod 65535"
      by (metis mod_add_left_eq oc_rep_props(2))
    also have "oc_rep S + cs = 65535" using le \<open>cs = _\<close> r by simp
    finally show "65535 mod 65535 = (S + cs) mod 65535" by simp
    show "65535 = (0::nat) \<longleftrightarrow> S + cs = 0"
      using le \<open>cs = _\<close> r oc_rep_props(3) [of S] by auto
  qed simp
  then have "rfc1071_sum (a @ pack_H (word_of_nat cs) @ b) = 65535"
    using words16_pack [OF lt] assms(1) by (simp add: rfc1071_sum_rep words16_append S_def algebra_simps)
  then show "checksum le (a @ pack_H (word_of_nat cs) @ b) 0 None = Inr 0"
    using assms(2) ev by (simp add: checksum_rfc1071)
qed

text \<open>
  The header that \<open>ipv4.hdr\<close> produces, with the checksum it stores, sums to zero under the same
  checksum; it is 20 bytes and the options long, and its total length counts header and payload.
\<close>

theorem ipv4_header_verifies:
  assumes "ipv4_hdr le h payload = Inr (bs, h')" "length (ip_raw_options h) \<le> 40"
  shows "checksum le bs 0 None = Inr 0 \<and> length bs = 20 + length (ip_raw_options h) \<and>
    ip_iplen h' = ip_hl h * 4 + length payload"
proof -
  define h1 where "h1 = h\<lparr>ip_iplen := ip_hl h * 4 + length payload\<rparr>"
  obtain cs where cs: "ipv4_checksum le h1 = Inr cs" and bs: "ipv4_fields h1 cs = Inr bs" and h': "h' = h1\<lparr>ip_csum := cs\<rparr>"
    using assms(1) by (auto simp: ipv4_hdr_def Let_def h1_def ipv4_fields_def)
  obtain a b where f: "\<And>c x. ipv4_fields h1 c = Inr x \<longleftrightarrow> c < 65536 \<and> x = a @ pack_H (word_of_nat c) @ b"
    and len: "length a = 10" "length b = 8 + length (ip_raw_options h1)"
  proof -
    let ?a = "[word_of_nat (push_bit 4 (ip_v h1) + ip_hl h1)] @ [ip_tos h1] @ pack_H (word_of_nat (ip_iplen h1)) @
      pack_H (ip_id h1) @ pack_H (word_of_nat (push_bit 13 (ip_flags h1) OR ip_frag h1)) @ [ip_ttl h1, ip_protocol h1]"
    let ?b = "pack_L (ip_srcip h1) @ pack_L (ip_dstip h1) @ ip_raw_options h1"
    have "ipv4_fields h1 c = Inr x \<longleftrightarrow> c < 65536 \<and> x = ?a @ pack_H (word_of_nat c) @ ?b" for c x
      using bs by (auto simp: ipv4_fields_def pack_nat_B_def pack_nat_H_def split: if_splits)
    then show ?thesis by (rule that) simp_all
  qed
  have zero: "ipv4_fields h1 0 = Inr (a @ pack_H 0 @ b)" by (simp add: f)
  have "checksum le (a @ pack_H 0 @ b) 0 None = Inr cs"
    using cs zero by (simp add: ipv4_checksum_def)
  from checksum_verifies [OF _ _ this] have "checksum le bs 0 None = Inr 0"
    using bs f len assms(2) by (simp add: h1_def)
  then show ?thesis using bs f len h' by (simp add: h1_def)
qed



theorem ipv4_header_verifies_witness:
  "\<exists>bs h'. ipv4_hdr True ((default_ipv4 7)\<lparr>ip_srcip := 0x0a000001\<rparr>) [1, 2, 3] = Inr (bs, h') \<and> checksum True bs 0 None = Inr 0"
proof -
  obtain bs h' where r: "ipv4_hdr True ((default_ipv4 7)\<lparr>ip_srcip := 0x0a000001\<rparr>) [1, 2, 3] = Inr (bs, h')"
  proof -
    have "case ipv4_hdr True ((default_ipv4 7)\<lparr>ip_srcip := 0x0a000001\<rparr>) [1, 2, 3] of Inl e \<Rightarrow> False | Inr p \<Rightarrow> True"
      by code_simp
    then show ?thesis using that by (auto split: sum.splits)
  qed
  moreover have "length (ip_raw_options ((default_ipv4 7)\<lparr>ip_srcip := 0x0a000001\<rparr>)) \<le> 40"
    by (simp add: default_ipv4_def)
  ultimately show ?thesis using ipv4_header_verifies [OF r] by blast
qed

text \<open>A library that parses nothing, to evaluate on.\<close>

definition no_lib :: packet_lib where
  "no_lib = \<lparr>lib_little = True, lib_other = \<lambda>p b. (False, Inl RuntimeError, None), lib_tcp_options = \<lambda>b. None\<rparr>"

section \<open>Parsing what was packed, and packing what was parsed\<close>

lemma pack_H_u16_at: "i + 2 \<le> length raw \<Longrightarrow> pack_H (u16_at raw i) = py_slice i (i + 2) raw"
  by (simp add: u16_at_def py_slice_def pack_of_be del: add_2_eq_Suc')

lemma pack_L_u32_at: "i + 4 \<le> length raw \<Longrightarrow> pack_L (u32_at raw i) = py_slice i (i + 4) raw"
  by (simp add: u32_at_def py_slice_def pack_of_be)

lemma vlan_pcpid:
  fixes p :: "16 word"
  defines "q \<equiv> push_bit 13 (unat (drop_bit 13 p)) OR push_bit 12 (unat (p AND 0x1000)) OR unat (p AND 0x0fff)"
  shows "bit p 12 \<Longrightarrow> 65536 \<le> q" "\<not> bit p 12 \<Longrightarrow> q = unat p"
proof -
  define A B :: "16 word" where "A = 0x1000" and "B = 0x0fff"
  have "A = push_bit 12 1" by (simp add: A_def)
  then have A: "bit A n \<longleftrightarrow> n = 12" for n
    by (simp only: bit_push_bit_iff bit_1_iff) auto
  have "B = mask 12" by (simp add: B_def mask_eq_exp_minus_1)
  then have B: "bit B n \<longleftrightarrow> n < 12" for n
    by (simp only: bit_mask_iff) auto
  have q: "q = push_bit 13 (unat (drop_bit 13 p)) OR push_bit 12 (unat (p AND A)) OR unat (p AND B)"
    by (simp add: q_def A_def B_def)
  have b: "bit q n \<longleftrightarrow> bit p n \<and> n \<noteq> 12 \<or> n = 24 \<and> bit p 12" for n
    by (cases "n < 12"; cases "n = 12"; cases "n = 24")
       (auto simp: q bit_simps A B dest: bit_imp_le_length)
  show "\<not> bit p 12 \<Longrightarrow> q = unat p"
    by (rule bit_eqI) (auto simp: b bit_simps dest: bit_imp_le_length)
  show "65536 \<le> q" if "bit p 12"
  proof (rule ccontr)
    assume "\<not> 65536 \<le> q"
    then have "take_bit 16 q = q" by (simp add: take_bit_nat_eq_self_iff)
    moreover have "bit q 24" using that b by simp
    ultimately show False by (metis bit_take_bit_iff less_not_refl numeral_less_iff not_less_iff_gr_or_eq semiring_norm(76,78,80,81))
  qed
qed

lemma slices_join: "i \<le> j \<Longrightarrow> j \<le> k \<Longrightarrow> py_slice i j raw @ py_slice j k raw = py_slice i k raw"
proof -
  assume "i \<le> j" "j \<le> k"
  then obtain a b where "j = i + a" "k = i + a + b" by (metis le_iff_add)
  then show ?thesis by (simp add: py_slice_def take_add drop_drop add.commute)
qed

definition parsed_vlan :: "bytes \<Rightarrow> vlan" where
  "parsed_vlan raw = \<lparr>vlan_pcp = unat (drop_bit 13 (u16_at raw 0)), vlan_cfi = unat (u16_at raw 0 AND 0x1000),
     vlan_id = unat (u16_at raw 0 AND 0x0fff), vlan_eth_type = u16_at raw 2\<rparr>"

lemma parse_next_vlan:
  "4 \<le> length raw \<Longrightarrow> parse_next L 0x8100 raw llc =
    PVlan \<lparr>m_parsed = True, m_raw = Some raw\<rparr> (parsed_vlan raw) (parse_next L (u16_at raw 2) (drop 4 raw) True)"
  by (subst parse_next.simps) (simp add: Let_def parsed_vlan_def)

lemma vlan_hdr_parsed:
  assumes "4 \<le> length raw"
  shows "vlan_hdr (parsed_vlan raw) = (if bit (u16_at raw 0) 12 then Inl StructError else Inr (take 4 raw))"
proof -
  let ?p = "u16_at raw 0"
  have "py_slice 0 2 raw @ py_slice 2 4 raw = take 4 raw"
    using slices_join [of 0 2 4 raw] by (simp add: py_slice_def)
  moreover have "unat ?p < (65536 :: nat)" using unsigned_less [of ?p] by simp
  ultimately show ?thesis
    using vlan_pcpid [of ?p] assms
    by (cases "bit ?p 12")
       (simp_all add: vlan_hdr_def parsed_vlan_def pack_nat_H_def pack_H_u16_at Let_def flip: numeral_2_eq_2)
qed

lemma parsed_vlan_cfi: "vlan_cfi (parsed_vlan raw) = 0 \<longleftrightarrow> \<not> bit (u16_at raw 0) 12"
proof -
  have "u16_at raw 0 AND push_bit 12 1 = 0 \<longleftrightarrow> \<not> bit (u16_at raw 0) 12"
    using and_exp_eq_0_iff_not_bit [of "u16_at raw 0" 12] by (simp add: push_bit_eq_mult)
  then show ?thesis by (simp add: parsed_vlan_def unat_eq_0)
qed

text \<open>
  Packing the VLAN header that was parsed from a frame gives its four bytes back exactly when the
  CFI bit is clear; with the bit set the parser stores the mask and packing raises.
\<close>

theorem vlan_cfi_roundtrip:
  assumes "4 \<le> length raw" "parse_next L 0x8100 raw llc = PVlan m h n"
  shows "vlan_hdr h = (if bit (u16_at raw 0) 12 then Inl StructError else Inr (take 4 raw))"
  using assms by (auto simp: parse_next_vlan vlan_hdr_parsed)

theorem vlan_cfi_roundtrip_witness:
  "\<exists>m h n. parse_next no_lib 0x8100 [0x30, 1, 0x12, 0x34] True = PVlan m h n \<and> vlan_hdr h = Inl StructError"
proof -
  have p: "parse_next no_lib 0x8100 [0x30, 1, 0x12, 0x34] True = PVlan \<lparr>m_parsed = True, m_raw = Some [0x30, 1, 0x12, 0x34]\<rparr>
    (parsed_vlan [0x30, 1, 0x12, 0x34]) (parse_next no_lib (u16_at [0x30, 1, 0x12, 0x34] 2) [] True)"
    by (simp add: parse_next_vlan)
  moreover have "bit (u16_at [0x30, 1, 0x12, 0x34] 0) 12" by code_simp
  ultimately show ?thesis
    using vlan_cfi_roundtrip [OF _ p] by auto
qed
lemma slice_skip: "length a \<le> i \<Longrightarrow> py_slice i j (a @ b) = py_slice (i - length a) (j - length a) b"
  by (simp add: py_slice_def)

lemma slice_here: "j = length b \<Longrightarrow> py_slice 0 j (b @ c) = b"
  by (simp add: py_slice_def)

lemma field_at:
  "length a = i \<Longrightarrow> u16_at (a @ pack_H h @ c) i = h"
  "length a = i \<Longrightarrow> u32_at (a @ pack_L l @ c) i = l"
  by (simp_all add: u16_at_def u32_at_def py_slice_def)

lemma arp_parse_hdr:
  assumes "arp_hwtype a = 1" "arp_prototype a = 0x0800" "arp_hwlen a = 6" "arp_protolen a = 4"
    and "length (arp_hwsrc a) = 6" "length (arp_hwdst a) = 6"
  shows "arp_parse (arp_hdr a @ rest) = PArp \<lparr>m_parsed = True, m_raw = Some (arp_hdr a @ rest)\<rparr> a (PBytes rest)"
proof -
  let ?r = "arp_hdr a @ rest"
  have hdr: "?r = pack_H 1 @ pack_H 0x0800 @ [6, 4] @ pack_H (arp_opcode a) @ arp_hwsrc a @
      pack_L (arp_protosrc a) @ arp_hwdst a @ pack_L (arp_protodst a) @ rest"
    using assms by (simp add: arp_hdr_def)
  have sl: "py_slice 8 14 ?r = arp_hwsrc a" "py_slice 18 24 ?r = arp_hwdst a"
    unfolding hdr using assms by (simp_all add: slice_skip slice_here numeral_eq_Suc py_slice_def)
  have w: "u16_at ?r 0 = 1" "u16_at ?r 2 = 0x0800" "u16_at ?r 6 = arp_opcode a"
      "u32_at ?r 14 = arp_protosrc a" "u32_at ?r 24 = arp_protodst a"
    unfolding hdr u16_at_def u32_at_def using assms
    by (simp_all add: py_slice_def)
  have nth: "?r ! 4 = 6" "?r ! 5 = 4"
    unfolding hdr by (simp_all add: nth_append)
  have len: "28 \<le> length ?r" "drop 28 ?r = rest"
    unfolding hdr using assms by simp_all
  show ?thesis
    using assms len by (simp add: arp_parse_def Let_def w sl nth default_arp_def)
qed

text \<open>
  An Ethernet frame with an IPv4-over-Ethernet ARP body packs, and parsing the bytes gives the same
  addresses, the same ARP object and the same trailing bytes.
\<close>

theorem arp_frame_roundtrip:
  assumes "length (eth_dst e) = 6" "length (eth_src e) = 6" "eth_type e = 0x0806"
    and "eth_next e = PArp m a (PBytes rest)"
    and "arp_hwtype a = 1" "arp_prototype a = 0x0800" "arp_hwlen a = 6" "arp_protolen a = 4"
    and "length (arp_hwsrc a) = 6" "length (arp_hwdst a) = 6"
  shows "\<exists>bs. eth_pack le e = Inr bs \<and> eth_parse L bs =
    \<lparr>eth_meta = \<lparr>m_parsed = True, m_raw = Some bs\<rparr>, eth_dst = eth_dst e, eth_src = eth_src e,
     eth_type = 0x0806, eth_next = PArp \<lparr>m_parsed = True, m_raw = Some (drop 14 bs)\<rparr> a (PBytes rest)\<rparr>"
proof -
  let ?b = "eth_dst e @ eth_src e @ pack_H 0x0806 @ arp_hdr a @ rest"
  have p: "eth_pack le e = Inr ?b"
    using assms by (simp add: eth_pack_def unparsed_raw_def eth_hdr_def fmt_6s_def)
  have d: "drop 14 ?b = arp_hdr a @ rest" "py_slice 0 6 ?b = eth_dst e" "py_slice 6 12 ?b = eth_src e"
     "u16_at ?b 12 = 0x0806"
    using assms by (simp_all add: py_slice_def u16_at_def arp_hdr_def)
  have len: "14 \<le> length ?b" using assms(1,2) by simp
  have n: "parse_next L 0x0806 (arp_hdr a @ rest) True =
      PArp \<lparr>m_parsed = True, m_raw = Some (arp_hdr a @ rest)\<rparr> a (PBytes rest)"
    using assms by (simp add: parse_next.simps [of L "0x0806"] arp_parse_hdr)
  have "eth_parse L ?b = \<lparr>eth_meta = \<lparr>m_parsed = True, m_raw = Some ?b\<rparr>, eth_dst = eth_dst e, eth_src = eth_src e,
     eth_type = 0x0806, eth_next = PArp \<lparr>m_parsed = True, m_raw = Some (drop 14 ?b)\<rparr> a (PBytes rest)\<rparr>"
    using len by (simp only: eth_parse_def d n) simp
  with p show ?thesis by blast
qed

text \<open>VLAN tags with CFI clear, then ARP or bytes.\<close>

fun plain_chain :: "payload \<Rightarrow> bool" where
  "plain_chain (PBytes b) = True"
| "plain_chain (PArp m h n) = True"
| "plain_chain (PVlan m h n) = (vlan_cfi h = 0 \<and> plain_chain n)"
| "plain_chain _ = False"

lemma slice_drop: "i \<le> length raw \<Longrightarrow> py_slice 0 i raw @ drop i raw = raw"
  by (simp add: py_slice_def)

lemma arp_parse_pack: "pack_payload le prev (arp_parse raw) = Inr raw"
proof (cases "m_parsed (case arp_parse raw of PArp m h n \<Rightarrow> m)")
  case False
  then show ?thesis
    by (auto simp: arp_parse_def Let_def unparsed_raw_def split: if_splits)
next
  case True
  then have len: "28 \<le> length raw"
    by (auto simp: arp_parse_def Let_def split: if_splits)
  define s where "s = (\<lambda>i j. py_slice i j raw)"
  have two: "[raw ! 4, raw ! 5] = s 4 6"
    using len by (auto simp: s_def py_slice_def list_eq_iff_nth_eq less_Suc_eq numeral_eq_Suc)
  have "(s 0 2 @ s 2 4 @ s 4 6 @ s 6 8 @ s 8 14 @ s 14 18 @ s 18 24 @ s 24 28) @ drop 28 raw = raw"
    using len slice_drop [of 28 raw] by (simp add: s_def slices_join)
  moreover let ?a = "\<lparr>arp_hwtype = u16_at raw 0, arp_prototype = u16_at raw 2, arp_hwsrc = s 8 14, arp_hwdst = s 18 24,
      arp_hwlen = raw ! 4, arp_opcode = u16_at raw 6, arp_protolen = raw ! 5,
      arp_protosrc = u32_at raw 14, arp_protodst = u32_at raw 24\<rparr>"
  have "arp_parse raw = PArp \<lparr>m_parsed = True, m_raw = Some raw\<rparr> ?a (PBytes (drop 28 raw))"
    using True len by (simp add: arp_parse_def Let_def s_def default_arp_def split: if_splits)
  moreover have "arp_hdr ?a = s 0 2 @ s 2 4 @ s 4 6 @ s 6 8 @ s 8 14 @ s 14 18 @ s 18 24 @ s 24 28"
    using len two by (simp add: arp_hdr_def s_def pack_H_u16_at pack_L_u32_at flip: numeral_2_eq_2)
  ultimately show ?thesis by (simp add: unparsed_raw_def)
qed


lemma parse_next_plain:
  "plain_chain (parse_next L t raw llc) \<Longrightarrow> pack_payload le prev (parse_next L t raw llc) = Inr raw"
proof (induction L t raw llc arbitrary: prev rule: parse_next.induct)
  case (1 L t raw llc)
  consider (short) "t = 0x8100" "length raw < 4" | (vlan) "t = 0x8100" "4 \<le> length raw" | (arp) "t = 0x0806 \<or> t = 0x8035"
    | (other) "t \<noteq> 0x8100" "t \<noteq> 0x0806" "t \<noteq> 0x8035" by linarith
  then show ?case
  proof cases
    case short
    then show ?thesis by (subst parse_next.simps) (simp add: unparsed_raw_def)
  next
    case vlan
    let ?p = "u16_at raw 0" let ?n = "parse_next L (u16_at raw 2) (drop 4 raw) True"
    have n: "plain_chain ?n" and c: "vlan_cfi (parsed_vlan raw) = 0"
      using 1(2) vlan by (simp_all add: parse_next_vlan)
    have "pack_payload le None ?n = Inr (drop 4 raw)"
      by (rule 1(1) [OF _ _ refl refl n]) (use vlan in simp_all)
    then show ?thesis
      using vlan c by (simp add: parse_next_vlan unparsed_raw_def vlan_hdr_parsed parsed_vlan_cfi)
  next
    case arp
    then show ?thesis by (subst parse_next.simps) (auto simp: arp_parse_pack)
  next
    case other
    have "\<not> plain_chain (ipv4_parse L raw)" "\<not> plain_chain (other_obj L p raw)" for p
      by (auto simp: ipv4_parse_def other_obj_def Let_def split: if_splits prod.splits)
    then show ?thesis using other 1(2) by (subst parse_next.simps, subst (asm) parse_next.simps) (auto split: if_splits)
  qed
qed

text \<open>
  A frame that parses as Ethernet, any number of VLAN tags with CFI clear, and then ARP or a payload
  without a parser (or that is too short for a header) packs back to the very bytes received.
\<close>

theorem forward_unchanged:
  assumes "length raw < 14 \<or> plain_chain (eth_next (eth_parse L raw))"
  shows "eth_pack le (eth_parse L raw) = Inr raw"
proof (cases "length raw < 14")
  case True
  then show ?thesis by (simp add: eth_parse_def eth_pack_def unparsed_raw_def)
next
  case False
  then have "pack_payload le None (eth_next (eth_parse L raw)) = Inr (drop 14 raw)"
    using parse_next_plain assms by (simp add: eth_parse_def)
  moreover have "eth_hdr (eth_parse L raw) = py_slice 0 14 raw"
  proof -
    have "fmt_6s (py_slice 0 6 raw) = py_slice 0 6 raw" "fmt_6s (py_slice 6 12 raw) = py_slice 6 12 raw"
      using False by (simp_all add: fmt_6s_def py_slice_def)
    then show ?thesis
      using False by (simp add: eth_parse_def eth_hdr_def pack_H_u16_at slices_join)
  qed
  moreover have "unparsed_raw (eth_meta (eth_parse L raw)) n = None" for n
    using False by (simp add: eth_parse_def unparsed_raw_def)
  ultimately show ?thesis using False by (simp add: eth_pack_def py_slice_def)
qed

text \<open>
  Packing a UDP datagram inside IPv4 with an odd number of payload bytes raises \<open>TypeError\<close>,
  because the checksum adds a string to the last byte.
\<close>

theorem odd_udp_payload_raises:
  assumes "odd (length data)" "length data < 65527"
  shows "pack_payload le prev (PIpv4 m' h (PUdp m u (PBytes data))) = Inl TypeError"
  using assms
  by (simp add: unparsed_raw_def udp_hdr_def udp_checksum_def Let_def udp_fields_def pseudo_header_def
      pack_nat_H_def checksum_def)

theorem odd_udp_payload_raises_witness:
  "pack_payload True None (PIpv4 \<lparr>m_parsed = False, m_raw = None\<rparr> (default_ipv4 0)
     (PUdp \<lparr>m_parsed = False, m_raw = None\<rparr>
        \<lparr>udp_srcport = 1000, udp_dstport = 2000, udp_len = 8, udp_csum = 0\<rparr> (PBytes [65]))) = Inl TypeError"
  by (rule odd_udp_payload_raises) simp_all

theorem forward_unchanged_witness:
  "eth_pack True (eth_parse no_lib (replicate 12 7 @ [0x81, 0, 0, 5, 0x12, 0x34, 1, 2, 3]))
    = Inr (replicate 12 7 @ [0x81, 0, 0, 5, 0x12, 0x34, 1, 2, 3])"
  by (rule forward_unchanged, rule disjI2) code_simp

theorem arp_frame_roundtrip_witness:
  "\<exists>bs. eth_pack True \<lparr>eth_meta = \<lparr>m_parsed = False, m_raw = None\<rparr>, eth_dst = ETH_BROADCAST, eth_src = replicate 6 2,
        eth_type = 0x0806, eth_next = PArp \<lparr>m_parsed = False, m_raw = None\<rparr>
          (default_arp\<lparr>arp_opcode := 1, arp_protodst := 0x0a000001\<rparr>) (PBytes [])\<rparr> = Inr bs \<and>
     eth_dst (eth_parse no_lib bs) = ETH_BROADCAST"
proof -
  define e where "e = \<lparr>eth_meta = \<lparr>m_parsed = False, m_raw = None\<rparr>, eth_dst = ETH_BROADCAST, eth_src = replicate 6 2,
        eth_type = 0x0806, eth_next = PArp \<lparr>m_parsed = False, m_raw = None\<rparr>
          (default_arp\<lparr>arp_opcode := 1, arp_protodst := 0x0a000001\<rparr>) (PBytes [])\<rparr>"
  have "\<exists>bs. eth_pack True e = Inr bs \<and> eth_parse no_lib bs =
    \<lparr>eth_meta = \<lparr>m_parsed = True, m_raw = Some bs\<rparr>, eth_dst = eth_dst e, eth_src = eth_src e,
     eth_type = 0x0806, eth_next = PArp \<lparr>m_parsed = True, m_raw = Some (drop 14 bs)\<rparr>
       (default_arp\<lparr>arp_opcode := 1, arp_protodst := 0x0a000001\<rparr>) (PBytes [])\<rparr>"
    by (rule arp_frame_roundtrip) (simp_all add: e_def default_arp_def EMPTY_ETH_def ETH_BROADCAST_def)
  then show ?thesis by (auto simp: e_def)
qed

end
