(* ===== verification/Match.thy ===== *)
theory Match
  imports Packet
begin

text \<open>
  \<open>class ofp_match\<close> of \<open>pox/pox/openflow/libopenflow_01.py\<close>: the twelve fields of an OpenFlow 1.0
  match, each with a wildcard bit (the two network addresses with a six-bit count of wildcarded
  low bits).  The fields of the record starting with \<open>h_\<close> are the attributes \<open>_in_port\<close> and so on that
  hold a value whether or not it is wildcarded; the functions starting with \<open>mt_\<close> are the attributes a
  client reads, which are \<open>None\<close> when the field is wildcarded.  An address attribute that was never set
  is the integer 0 in the code and the address 0.0.0.0 here.  Wildcards are kept at their wire width.
\<close>

section \<open>Constants\<close>

definition OFPFW_IN_PORT :: "32 word" where "OFPFW_IN_PORT = 1"
definition OFPFW_DL_VLAN :: "32 word" where "OFPFW_DL_VLAN = 2"
definition OFPFW_DL_SRC :: "32 word" where "OFPFW_DL_SRC = 4"
definition OFPFW_DL_DST :: "32 word" where "OFPFW_DL_DST = 8"
definition OFPFW_DL_TYPE :: "32 word" where "OFPFW_DL_TYPE = 16"
definition OFPFW_NW_PROTO :: "32 word" where "OFPFW_NW_PROTO = 32"
definition OFPFW_TP_SRC :: "32 word" where "OFPFW_TP_SRC = 64"
definition OFPFW_TP_DST :: "32 word" where "OFPFW_TP_DST = 128"
definition OFPFW_DL_VLAN_PCP :: "32 word" where "OFPFW_DL_VLAN_PCP = 1048576"
definition OFPFW_NW_TOS :: "32 word" where "OFPFW_NW_TOS = 2097152"
definition OFPFW_NW_SRC_ALL :: "32 word" where "OFPFW_NW_SRC_ALL = 8192"
definition OFPFW_NW_SRC_MASK :: "32 word" where "OFPFW_NW_SRC_MASK = 16128"
definition OFPFW_NW_DST_ALL :: "32 word" where "OFPFW_NW_DST_ALL = 524288"
definition OFPFW_NW_DST_MASK :: "32 word" where "OFPFW_NW_DST_MASK = 1032192"
definition OFPFW_ALL :: "32 word" where "OFPFW_ALL = 4194303"

definition OFP_VLAN_NONE :: "16 word" where "OFP_VLAN_NONE = 0xffff"
definition OFP_DL_TYPE_NOT_ETH_TYPE :: "16 word" where "OFP_DL_TYPE_NOT_ETH_TYPE = 0x05ff"

section \<open>The object and its attributes\<close>

record ofp_match =
  mt_locked :: bool
  mt_wildcards :: "32 word"
  h_in_port :: "16 word"
  h_dl_src :: eth_addr
  h_dl_dst :: eth_addr
  h_dl_vlan :: "16 word"
  h_dl_vlan_pcp :: byte
  h_dl_type :: "16 word"
  h_nw_tos :: byte
  h_nw_proto :: byte
  h_nw_src :: ip_addr
  h_nw_dst :: ip_addr
  h_tp_src :: "16 word"
  h_tp_dst :: "16 word"

definition nw_bits_src :: "32 word \<Rightarrow> nat" where
  "nw_bits_src w = unat (drop_bit 8 (w AND OFPFW_NW_SRC_MASK))"

definition nw_bits_dst :: "32 word \<Rightarrow> nat" where
  "nw_bits_dst w = unat (drop_bit 14 (w AND OFPFW_NW_DST_MASK))"

definition normalize_wildcards :: "32 word \<Rightarrow> 32 word" where
  "normalize_wildcards w =
     (let w1 = (if 32 < nw_bits_src w then (w AND NOT OFPFW_NW_SRC_MASK) OR push_bit 8 32 else w)
      in if 32 < nw_bits_dst w1 then (w1 AND NOT OFPFW_NW_DST_MASK) OR push_bit 14 32 else w1)"

definition match_init :: ofp_match where
  "match_init = \<lparr>mt_locked = False, mt_wildcards = normalize_wildcards OFPFW_ALL, h_in_port = 0,
     h_dl_src = EMPTY_ETH, h_dl_dst = EMPTY_ETH, h_dl_vlan = 0, h_dl_vlan_pcp = 0, h_dl_type = 0,
     h_nw_tos = 0, h_nw_proto = 0, h_nw_src = 0, h_nw_dst = 0, h_tp_src = 0, h_tp_dst = 0\<rparr>"

definition wild :: "ofp_match \<Rightarrow> 32 word \<Rightarrow> bool" where
  "wild m bits \<longleftrightarrow> mt_wildcards m AND bits = bits"

definition attr :: "32 word \<Rightarrow> (ofp_match \<Rightarrow> 'a) \<Rightarrow> ofp_match \<Rightarrow> 'a option" where
  "attr bits h m = (if wild m bits then None else Some (h m))"

definition mt_in_port :: "ofp_match \<Rightarrow> 16 word option" where
  "mt_in_port = attr OFPFW_IN_PORT h_in_port"
definition mt_dl_src :: "ofp_match \<Rightarrow> eth_addr option" where
  "mt_dl_src = attr OFPFW_DL_SRC h_dl_src"
definition mt_dl_dst :: "ofp_match \<Rightarrow> eth_addr option" where
  "mt_dl_dst = attr OFPFW_DL_DST h_dl_dst"
definition mt_dl_vlan :: "ofp_match \<Rightarrow> 16 word option" where
  "mt_dl_vlan = attr OFPFW_DL_VLAN h_dl_vlan"
definition mt_dl_vlan_pcp :: "ofp_match \<Rightarrow> byte option" where
  "mt_dl_vlan_pcp = attr OFPFW_DL_VLAN_PCP h_dl_vlan_pcp"
definition mt_dl_type :: "ofp_match \<Rightarrow> 16 word option" where
  "mt_dl_type = attr OFPFW_DL_TYPE h_dl_type"
definition mt_nw_tos :: "ofp_match \<Rightarrow> byte option" where
  "mt_nw_tos = attr OFPFW_NW_TOS h_nw_tos"
definition mt_nw_proto :: "ofp_match \<Rightarrow> byte option" where
  "mt_nw_proto = attr OFPFW_NW_PROTO h_nw_proto"
definition mt_tp_src :: "ofp_match \<Rightarrow> 16 word option" where
  "mt_tp_src = attr OFPFW_TP_SRC h_tp_src"
definition mt_tp_dst :: "ofp_match \<Rightarrow> 16 word option" where
  "mt_tp_dst = attr OFPFW_TP_DST h_tp_dst"

definition get_nw_src :: "ofp_match \<Rightarrow> ip_addr option \<times> nat" where
  "get_nw_src m =
     (if wild m OFPFW_NW_SRC_ALL then (None, 0)
      else let w = nw_bits_src (mt_wildcards m) in (Some (h_nw_src m), if w \<le> 32 then 32 - w else 0))"

definition get_nw_dst :: "ofp_match \<Rightarrow> ip_addr option \<times> nat" where
  "get_nw_dst m =
     (if wild m OFPFW_NW_DST_ALL then (None, 0)
      else let w = nw_bits_dst (mt_wildcards m) in (Some (h_nw_dst m), if w \<le> 32 then 32 - w else 0))"

definition mt_nw_src :: "ofp_match \<Rightarrow> ip_addr option" where "mt_nw_src m = fst (get_nw_src m)"
definition mt_nw_dst :: "ofp_match \<Rightarrow> ip_addr option" where "mt_nw_dst m = fst (get_nw_dst m)"

lemmas mt_attrs = mt_in_port_def mt_dl_src_def mt_dl_dst_def mt_dl_vlan_def mt_dl_vlan_pcp_def
  mt_dl_type_def mt_nw_tos_def mt_nw_proto_def mt_tp_src_def mt_tp_dst_def

text \<open>
  Assigning an attribute: \<open>None\<close> resets the value and sets the wildcard bits, a value is stored and
  clears them.  A match that was hashed is locked and refuses every assignment.
\<close>

definition set_attr :: "32 word \<Rightarrow> 'a \<Rightarrow> ('a \<Rightarrow> ofp_match \<Rightarrow> ofp_match) \<Rightarrow> 'a option \<Rightarrow> ofp_match \<Rightarrow> ofp_match" where
  "set_attr bits dflt put v m =
     (case v of None \<Rightarrow> (put dflt m)\<lparr>mt_wildcards := mt_wildcards m OR bits\<rparr>
      | Some x \<Rightarrow> (put x m)\<lparr>mt_wildcards := mt_wildcards m AND NOT bits\<rparr>)"

definition set_in_port :: "16 word option \<Rightarrow> ofp_match \<Rightarrow> ofp_match" where
  "set_in_port = set_attr OFPFW_IN_PORT 0 (\<lambda>x m. m\<lparr>h_in_port := x\<rparr>)"
definition set_dl_src :: "eth_addr option \<Rightarrow> ofp_match \<Rightarrow> ofp_match" where
  "set_dl_src = set_attr OFPFW_DL_SRC EMPTY_ETH (\<lambda>x m. m\<lparr>h_dl_src := x\<rparr>)"
definition set_dl_dst :: "eth_addr option \<Rightarrow> ofp_match \<Rightarrow> ofp_match" where
  "set_dl_dst = set_attr OFPFW_DL_DST EMPTY_ETH (\<lambda>x m. m\<lparr>h_dl_dst := x\<rparr>)"
definition set_dl_vlan :: "16 word option \<Rightarrow> ofp_match \<Rightarrow> ofp_match" where
  "set_dl_vlan = set_attr OFPFW_DL_VLAN 0 (\<lambda>x m. m\<lparr>h_dl_vlan := x\<rparr>)"
definition set_dl_vlan_pcp :: "byte option \<Rightarrow> ofp_match \<Rightarrow> ofp_match" where
  "set_dl_vlan_pcp = set_attr OFPFW_DL_VLAN_PCP 0 (\<lambda>x m. m\<lparr>h_dl_vlan_pcp := x\<rparr>)"
definition set_dl_type :: "16 word option \<Rightarrow> ofp_match \<Rightarrow> ofp_match" where
  "set_dl_type = set_attr OFPFW_DL_TYPE 0 (\<lambda>x m. m\<lparr>h_dl_type := x\<rparr>)"
definition set_nw_tos :: "byte option \<Rightarrow> ofp_match \<Rightarrow> ofp_match" where
  "set_nw_tos = set_attr OFPFW_NW_TOS 0 (\<lambda>x m. m\<lparr>h_nw_tos := x\<rparr>)"
definition set_nw_proto :: "byte option \<Rightarrow> ofp_match \<Rightarrow> ofp_match" where
  "set_nw_proto = set_attr OFPFW_NW_PROTO 0 (\<lambda>x m. m\<lparr>h_nw_proto := x\<rparr>)"
definition set_tp_src :: "16 word option \<Rightarrow> ofp_match \<Rightarrow> ofp_match" where
  "set_tp_src = set_attr OFPFW_TP_SRC 0 (\<lambda>x m. m\<lparr>h_tp_src := x\<rparr>)"
definition set_tp_dst :: "16 word option \<Rightarrow> ofp_match \<Rightarrow> ofp_match" where
  "set_tp_dst = set_attr OFPFW_TP_DST 0 (\<lambda>x m. m\<lparr>h_tp_dst := x\<rparr>)"

lemmas mt_setters = set_in_port_def set_dl_src_def set_dl_dst_def set_dl_vlan_def set_dl_vlan_pcp_def
  set_dl_type_def set_nw_tos_def set_nw_proto_def set_tp_src_def set_tp_dst_def

definition match_setattr :: "(ofp_match \<Rightarrow> ofp_match) \<Rightarrow> ofp_match \<Rightarrow> ofp_match result" where
  "match_setattr f m = (if mt_locked m then Inl AttributeError else Inr (f m))"

text \<open>\<open>_make_addr\<close> takes an address, a text, a text with a prefix length, or a pair.\<close>

datatype ip_arg = IpAddr ip_addr | IpText bytes
datatype nw_arg = NwNone | NwPair ip_arg "int option" | NwPlain ip_arg

definition ip_of_arg :: "ip_arg \<Rightarrow> ip_addr result" where
  "ip_of_arg a = (case a of IpAddr i \<Rightarrow> Inr i | IpText s \<Rightarrow> IPAddr_of_text s)"

definition clamp_bits :: "int \<Rightarrow> nat" where
  "clamp_bits b = (if 32 < b then 32 else if b < 0 then 0 else nat b)"

definition make_addr :: "nw_arg \<Rightarrow> int option \<Rightarrow> (ip_addr \<times> nat) option result" where
  "make_addr arg bits =
     (case arg of
        NwNone \<Rightarrow> Inr None
      | NwPair ip b \<Rightarrow>
          rbind (ip_of_arg ip) (\<lambda>i.
            Inr (Some (i, clamp_bits (case bits of Some x \<Rightarrow> x | None \<Rightarrow> (case b of None \<Rightarrow> 32 | Some x \<Rightarrow> x)))))
      | NwPlain (IpText s) \<Rightarrow>
          if length s \<noteq> 4 \<and> of_char (CHR ''/'') \<in> set s then
            rbind (parse_cidr False False s) (\<lambda>(i, b).
              Inr (Some (i, clamp_bits (case bits of Some x \<Rightarrow> x | None \<Rightarrow> int b))))
          else rbind (IPAddr_of_text s) (\<lambda>i.
              Inr (Some (i, clamp_bits (case bits of Some x \<Rightarrow> x | None \<Rightarrow> 32))))
      | NwPlain (IpAddr i) \<Rightarrow> Inr (Some (i, clamp_bits (case bits of Some x \<Rightarrow> x | None \<Rightarrow> 32))))"

definition put_nw_src :: "(ip_addr \<times> nat) option \<Rightarrow> ofp_match \<Rightarrow> ofp_match" where
  "put_nw_src a m =
     (case a of
        None \<Rightarrow> m\<lparr>h_nw_src := 0, mt_wildcards := (mt_wildcards m AND NOT OFPFW_NW_SRC_MASK) OR OFPFW_NW_SRC_ALL\<rparr>
      | Some (i, b) \<Rightarrow> m\<lparr>h_nw_src := i,
          mt_wildcards := (mt_wildcards m AND NOT OFPFW_NW_SRC_MASK) OR push_bit 8 (word_of_nat (32 - b))\<rparr>)"

definition put_nw_dst :: "(ip_addr \<times> nat) option \<Rightarrow> ofp_match \<Rightarrow> ofp_match" where
  "put_nw_dst a m =
     (case a of
        None \<Rightarrow> m\<lparr>h_nw_dst := 0, mt_wildcards := (mt_wildcards m AND NOT OFPFW_NW_DST_MASK) OR OFPFW_NW_DST_ALL\<rparr>
      | Some (i, b) \<Rightarrow> m\<lparr>h_nw_dst := i,
          mt_wildcards := (mt_wildcards m AND NOT OFPFW_NW_DST_MASK) OR push_bit 14 (word_of_nat (32 - b))\<rparr>)"

definition set_nw_src :: "nw_arg \<Rightarrow> int option \<Rightarrow> ofp_match \<Rightarrow> ofp_match result" where
  "set_nw_src arg bits m = rbind (make_addr arg bits) (\<lambda>a. match_setattr (put_nw_src a) m)"

definition set_nw_dst :: "nw_arg \<Rightarrow> int option \<Rightarrow> ofp_match \<Rightarrow> ofp_match result" where
  "set_nw_dst arg bits m = rbind (make_addr arg bits) (\<lambda>a. match_setattr (put_nw_dst a) m)"

section \<open>Matches of packets, copies and comparison\<close>

text \<open>
  \<open>from_packet\<close>.  The test for an LLC header with SNAP compares the bytes of the OUI with a text and
  is never true, so that branch is not taken.
\<close>

definition MF_FLAG :: nat where "MF_FLAG = 1"

definition match_l4 :: "payload \<Rightarrow> ofp_match \<Rightarrow> ofp_match" where
  "match_l4 p m =
     (case p of
        PUdp _ u _ \<Rightarrow> set_tp_dst (Some (udp_dstport u)) (set_tp_src (Some (udp_srcport u)) m)
      | PTcp _ u _ \<Rightarrow> set_tp_dst (Some (tcp_dstport u)) (set_tp_src (Some (tcp_srcport u)) m)
      | PIcmp _ c _ \<Rightarrow> set_tp_dst (Some (ucast (icmp_code c))) (set_tp_src (Some (ucast (icmp_type c))) m)
      | _ \<Rightarrow> m)"

definition match_l3 :: "bool \<Rightarrow> payload \<Rightarrow> ofp_match \<Rightarrow> ofp_match" where
  "match_l3 spec_frags p m =
     (case p of
        PIpv4 _ ip n \<Rightarrow>
          (let m1 = set_nw_tos (Some (ip_tos ip)) (set_nw_proto (Some (ip_protocol ip))
                (put_nw_dst (Some (ip_dstip ip, 32)) (put_nw_src (Some (ip_srcip ip, 32)) m)))
           in if spec_frags \<and> (ip_flags ip AND MF_FLAG \<noteq> 0 \<or> ip_frag ip \<noteq> 0)
              then set_tp_dst (Some 0) (set_tp_src (Some 0) m1)
              else match_l4 n m1)
      | PArp _ a _ \<Rightarrow>
          (if arp_opcode a \<le> 255
           then put_nw_dst (Some (arp_protodst a, 32)) (put_nw_src (Some (arp_protosrc a, 32))
                  (set_nw_proto (Some (ucast (arp_opcode a))) m))
           else m)
      | _ \<Rightarrow> m)"

definition match_from_packet :: "ethernet \<Rightarrow> 16 word option \<Rightarrow> bool \<Rightarrow> ofp_match" where
  "match_from_packet packet in_port spec_frags =
     (let m0 = (case in_port of None \<Rightarrow> match_init | Some _ \<Rightarrow> set_in_port in_port match_init);
          m1 = set_dl_type (Some (eth_type packet)) (set_dl_dst (Some (eth_dst packet))
                 (set_dl_src (Some (eth_src packet)) m0));
          m2 = (if eth_type packet < 1536 then set_dl_type (Some OFP_DL_TYPE_NOT_ETH_TYPE) m1 else m1)
      in case eth_next packet of
           PVlan _ v n \<Rightarrow>
             match_l3 spec_frags n
               (set_dl_vlan_pcp (Some (word_of_nat (vlan_pcp v))) (set_dl_vlan (Some (word_of_nat (vlan_id v)))
                 (set_dl_type (Some (vlan_eth_type v)) m2)))
         | p \<Rightarrow> match_l3 spec_frags p (set_dl_vlan_pcp (Some 0) (set_dl_vlan (Some OFP_VLAN_NONE) m2)))"

definition match_clone :: "ofp_match \<Rightarrow> ofp_match" where
  "match_clone m = m\<lparr>mt_locked := False\<rparr>"

text \<open>\<open>flip\<close>: \<open>in_port\<close> is kept (\<open>None\<close> here), or set to a given value or to nothing.\<close>

definition match_flip :: "ofp_match \<Rightarrow> 16 word option option \<Rightarrow> ofp_match" where
  "match_flip m in_port =
     (let full = map_option (\<lambda>i. (i, 32));
          r1 = set_dl_dst (mt_dl_src m) (set_dl_src (mt_dl_dst m) (match_clone m));
          r2 = put_nw_dst (full (mt_nw_src m)) (put_nw_src (full (mt_nw_dst m)) r1);
          r3 = set_tp_dst (mt_tp_src m) (set_tp_src (mt_tp_dst m) r2)
      in case in_port of None \<Rightarrow> r3 | Some p \<Rightarrow> set_in_port p r3)"

definition match_eq :: "ofp_match \<Rightarrow> ofp_match \<Rightarrow> bool" where
  "match_eq a b \<longleftrightarrow>
     mt_wildcards a = mt_wildcards b \<and> mt_in_port a = mt_in_port b \<and> mt_dl_src a = mt_dl_src b \<and>
     mt_dl_dst a = mt_dl_dst b \<and> mt_dl_vlan a = mt_dl_vlan b \<and> mt_dl_vlan_pcp a = mt_dl_vlan_pcp b \<and>
     mt_dl_type a = mt_dl_type b \<and> mt_nw_tos a = mt_nw_tos b \<and> mt_nw_proto a = mt_nw_proto b \<and>
     mt_nw_src a = mt_nw_src b \<and> mt_nw_dst a = mt_nw_dst b \<and> mt_tp_src a = mt_tp_src b \<and>
     mt_tp_dst a = mt_tp_dst b"

definition is_wildcarded :: "ofp_match \<Rightarrow> bool" where
  "is_wildcarded m \<longleftrightarrow> mt_wildcards m AND OFPFW_ALL \<noteq> 0"

definition match_fail :: "'a option \<Rightarrow> 'a option \<Rightarrow> bool" where
  "match_fail mine others = (case mine of None \<Rightarrow> False | Some _ \<Rightarrow> mine \<noteq> others)"

text \<open>\<open>IPAddr(None)\<close> raises.\<close>

definition nw_within :: "ip_addr option \<times> nat \<Rightarrow> ip_addr option \<times> nat \<Rightarrow> bool result" where
  "nw_within self other =
     (case fst self of None \<Rightarrow> Inr True
      | Some n \<Rightarrow>
          if snd other < snd self then Inr False
          else (case fst other of None \<Rightarrow> Inl RuntimeError | Some a \<Rightarrow> Inr (inNetwork a (n, snd self))))"

definition narrow_bits :: "ofp_match \<Rightarrow> 32 word" where
  "narrow_bits m = mt_wildcards m AND NOT (OFPFW_NW_SRC_MASK OR OFPFW_NW_DST_MASK)"

definition matches_with_wildcards :: "ofp_match \<Rightarrow> ofp_match \<Rightarrow> bool \<Rightarrow> bool result" where
  "matches_with_wildcards self other consider_other =
     (if match_eq self other then Inr True
      else if consider_other \<and> narrow_bits self OR narrow_bits other \<noteq> narrow_bits self then Inr False
      else if match_fail (mt_in_port self) (mt_in_port other) then Inr False
      else if match_fail (mt_dl_vlan self) (mt_dl_vlan other) then Inr False
      else if match_fail (mt_dl_src self) (mt_dl_src other) then Inr False
      else if match_fail (mt_dl_dst self) (mt_dl_dst other) then Inr False
      else if match_fail (mt_dl_type self) (mt_dl_type other) then Inr False
      else if match_fail (mt_nw_proto self) (mt_nw_proto other) then Inr False
      else if match_fail (mt_tp_src self) (mt_tp_src other) then Inr False
      else if match_fail (mt_tp_dst self) (mt_tp_dst other) then Inr False
      else if match_fail (mt_dl_vlan_pcp self) (mt_dl_vlan_pcp other) then Inr False
      else if match_fail (mt_nw_tos self) (mt_nw_tos other) then Inr False
      else rbind (nw_within (get_nw_src self) (get_nw_src other)) (\<lambda>src.
        if \<not> src then Inr False else nw_within (get_nw_dst self) (get_nw_dst other)))"

section \<open>The wire format\<close>

definition is_tp_proto :: "byte option \<Rightarrow> bool" where
  "is_tp_proto p \<longleftrightarrow> p = Some 1 \<or> p = Some 6 \<or> p = Some 17"

definition TP_BITS :: "32 word" where "TP_BITS = OFPFW_TP_SRC OR OFPFW_TP_DST"
definition NW_MASKS :: "32 word" where "NW_MASKS = OFPFW_NW_SRC_MASK OR OFPFW_NW_DST_MASK"

definition wire_wildcards :: "ofp_match \<Rightarrow> 32 word \<Rightarrow> 32 word" where
  "wire_wildcards m w =
     (if mt_dl_type m = Some 0x0800 then
        (if \<not> is_tp_proto (mt_nw_proto m) then w AND NOT TP_BITS else w)
      else if mt_dl_type m = Some 0x0806 then w AND NOT (OFPFW_NW_TOS OR TP_BITS)
      else if mt_dl_type m = Some 0x86dd then w AND NOT (NW_MASKS OR TP_BITS)
      else w AND NOT (OFPFW_NW_TOS OR OFPFW_NW_PROTO OR NW_MASKS OR TP_BITS))"

definition match_fix :: "ofp_match \<Rightarrow> ofp_match" where
  "match_fix m =
     (if mt_dl_type m = Some 0x0800 then
        (if \<not> is_tp_proto (mt_nw_proto m) then set_tp_dst None (set_tp_src None m) else m)
      else if mt_dl_type m = Some 0x0806 then set_nw_tos None (set_tp_dst None (set_tp_src None m))
      else set_tp_dst None (set_tp_src None (put_nw_dst None (put_nw_src None
             (set_nw_proto None (set_nw_tos None m))))))"

text \<open>\<open>_unwire_wildcards\<close> reads the stored values, wildcarded or not.\<close>

definition unwire_wildcards :: "ofp_match \<Rightarrow> 32 word \<Rightarrow> 32 word" where
  "unwire_wildcards m w =
     (if h_dl_type m = 0x0800 then
        (if h_nw_proto m \<notin> {1, 6, 17} then w OR TP_BITS else w)
      else if h_dl_type m = 0x0806 then w OR (OFPFW_NW_TOS OR TP_BITS)
      else w OR (OFPFW_NW_TOS OR OFPFW_NW_PROTO OR NW_MASKS OR TP_BITS))"

definition or0 :: "'a::zero option \<Rightarrow> 'a" where
  "or0 v = (case v of None \<Rightarrow> 0 | Some x \<Rightarrow> x)"

definition check_ip :: "ofp_match \<Rightarrow> 'a::zero option \<Rightarrow> 'a" where
  "check_ip m v = (if mt_dl_type m = Some 0x0800 then or0 v else 0)"
definition check_ip_or_arp :: "ofp_match \<Rightarrow> 'a::zero option \<Rightarrow> 'a" where
  "check_ip_or_arp m v = (if mt_dl_type m = Some 0x0800 \<or> mt_dl_type m = Some 0x0806 then or0 v else 0)"
definition check_tp :: "ofp_match \<Rightarrow> 'a::zero option \<Rightarrow> 'a" where
  "check_tp m v = (if mt_dl_type m = Some 0x0800 \<and> is_tp_proto (mt_nw_proto m) then or0 v else 0)"

definition eth_or_empty :: "eth_addr option \<Rightarrow> bytes" where
  "eth_or_empty v = (case v of None \<Rightarrow> EMPTY_ETH | Some a \<Rightarrow> a)"

definition match_pack :: "bool \<Rightarrow> ofp_match \<Rightarrow> bytes" where
  "match_pack flow_mod m =
     pack_L (if flow_mod then wire_wildcards m (mt_wildcards m) else mt_wildcards m) @
     pack_H (or0 (mt_in_port m)) @ eth_or_empty (mt_dl_src m) @ eth_or_empty (mt_dl_dst m) @
     pack_H (or0 (mt_dl_vlan m)) @ pack_B (or0 (mt_dl_vlan_pcp m)) @ pad 1 @
     pack_H (or0 (mt_dl_type m)) @ pack_B (check_ip m (mt_nw_tos m)) @
     pack_B (check_ip_or_arp m (mt_nw_proto m)) @ pad 2 @
     pack_L (check_ip_or_arp m (mt_nw_src m)) @ pack_L (check_ip_or_arp m (mt_nw_dst m)) @
     pack_H (check_tp m (mt_tp_src m)) @ pack_H (check_tp m (mt_tp_dst m))"

definition match_unpack :: "bool \<Rightarrow> ofp_match reader" where
  "match_unpack flow_mod bs =
     rbind (rd_L bs) (\<lambda>(wc, bs). rbind (rd_H bs) (\<lambda>(inp, bs).
     rbind (rd_bytes 6 bs) (\<lambda>(src, bs). rbind (rd_bytes 6 bs) (\<lambda>(dst, bs).
     rbind (rd_H bs) (\<lambda>(vlan, bs). rbind (rd_B bs) (\<lambda>(pcp, bs). rbind (rd_skip 1 bs) (\<lambda>(_, bs).
     rbind (rd_H bs) (\<lambda>(typ, bs). rbind (rd_B bs) (\<lambda>(tos, bs). rbind (rd_B bs) (\<lambda>(proto, bs).
     rbind (rd_skip 2 bs) (\<lambda>(_, bs). rbind (rd_L bs) (\<lambda>(nsrc, bs). rbind (rd_L bs) (\<lambda>(ndst, bs).
     rbind (rd_H bs) (\<lambda>(tsrc, bs). rbind (rd_H bs) (\<lambda>(tdst, bs).
       let m = \<lparr>mt_locked = False, mt_wildcards = mt_wildcards match_init, h_in_port = inp, h_dl_src = src,
             h_dl_dst = dst, h_dl_vlan = vlan, h_dl_vlan_pcp = pcp, h_dl_type = typ, h_nw_tos = tos,
             h_nw_proto = proto, h_nw_src = nsrc, h_nw_dst = ndst, h_tp_src = tsrc, h_tp_dst = tdst\<rparr>
       in Inr (m\<lparr>mt_wildcards := normalize_wildcards (if flow_mod then unwire_wildcards m wc else wc)\<rparr>, bs))))))))))))))))"

section \<open>Wildcard bits\<close>

lemma bit_pow2_word: "k < 32 \<Longrightarrow> bit (push_bit k 1 :: 32 word) n \<longleftrightarrow> n = k"
  by (simp only: bit_push_bit_iff bit_1_iff) auto

lemma and_pow2_word: "k < 32 \<Longrightarrow> w AND push_bit k 1 = (push_bit k 1 :: 32 word) \<longleftrightarrow> bit w k"
proof
  assume k: "k < 32" and "w AND push_bit k 1 = (push_bit k 1 :: 32 word)"
  then have "bit (w AND push_bit k 1) k" by (simp only: bit_pow2_word)
  then show "bit w k" by (simp only: bit_and_iff)
next
  assume k: "k < 32" "bit w k"
  then show "w AND push_bit k 1 = (push_bit k 1 :: 32 word)"
    by (intro bit_eqI) (auto simp only: bit_and_iff bit_pow2_word)
qed

lemma OFPFW_pow2:
  "OFPFW_IN_PORT = push_bit 0 1" "OFPFW_DL_VLAN = push_bit 1 1" "OFPFW_DL_SRC = push_bit 2 1"
  "OFPFW_DL_DST = push_bit 3 1" "OFPFW_DL_TYPE = push_bit 4 1" "OFPFW_NW_PROTO = push_bit 5 1"
  "OFPFW_TP_SRC = push_bit 6 1" "OFPFW_TP_DST = push_bit 7 1" "OFPFW_DL_VLAN_PCP = push_bit 20 1"
  "OFPFW_NW_TOS = push_bit 21 1" "OFPFW_NW_SRC_ALL = push_bit 13 1" "OFPFW_NW_DST_ALL = push_bit 19 1"
  by (simp_all add: OFPFW_IN_PORT_def OFPFW_DL_VLAN_def OFPFW_DL_SRC_def OFPFW_DL_DST_def OFPFW_DL_TYPE_def
      OFPFW_NW_PROTO_def OFPFW_TP_SRC_def OFPFW_TP_DST_def OFPFW_DL_VLAN_PCP_def OFPFW_NW_TOS_def
      OFPFW_NW_SRC_ALL_def OFPFW_NW_DST_ALL_def)

lemma bit_OFPFW [simp]:
  "bit OFPFW_IN_PORT n \<longleftrightarrow> n = 0" "bit OFPFW_DL_VLAN n \<longleftrightarrow> n = 1" "bit OFPFW_DL_SRC n \<longleftrightarrow> n = 2"
  "bit OFPFW_DL_DST n \<longleftrightarrow> n = 3" "bit OFPFW_DL_TYPE n \<longleftrightarrow> n = 4" "bit OFPFW_NW_PROTO n \<longleftrightarrow> n = 5"
  "bit OFPFW_TP_SRC n \<longleftrightarrow> n = 6" "bit OFPFW_TP_DST n \<longleftrightarrow> n = 7" "bit OFPFW_DL_VLAN_PCP n \<longleftrightarrow> n = 20"
  "bit OFPFW_NW_TOS n \<longleftrightarrow> n = 21" "bit OFPFW_NW_SRC_ALL n \<longleftrightarrow> n = 13" "bit OFPFW_NW_DST_ALL n \<longleftrightarrow> n = 19"
  unfolding OFPFW_pow2 by (rule bit_pow2_word, simp)+

lemma bit_field_mask: "bit (push_bit k (mask 6) :: 32 word) n \<longleftrightarrow> k \<le> n \<and> n < k + 6 \<and> n < 32"
  by (auto simp: bit_push_bit_iff bit_mask_iff)

lemma OFPFW_mask:
  "OFPFW_NW_SRC_MASK = push_bit 8 (mask 6)" "OFPFW_NW_DST_MASK = push_bit 14 (mask 6)" "OFPFW_ALL = mask 22"
  by (simp_all add: OFPFW_NW_SRC_MASK_def OFPFW_NW_DST_MASK_def OFPFW_ALL_def mask_eq_exp_minus_1)

lemma bit_OFPFW_masks [simp]:
  "bit OFPFW_NW_SRC_MASK n \<longleftrightarrow> 8 \<le> n \<and> n < 14"
  "bit OFPFW_NW_DST_MASK n \<longleftrightarrow> 14 \<le> n \<and> n < 20"
  "bit OFPFW_ALL n \<longleftrightarrow> n < 22"
  unfolding OFPFW_mask bit_field_mask bit_mask_iff by auto

lemma wild_iff [simp]:
  "wild m OFPFW_IN_PORT \<longleftrightarrow> bit (mt_wildcards m) 0" "wild m OFPFW_DL_VLAN \<longleftrightarrow> bit (mt_wildcards m) 1"
  "wild m OFPFW_DL_SRC \<longleftrightarrow> bit (mt_wildcards m) 2" "wild m OFPFW_DL_DST \<longleftrightarrow> bit (mt_wildcards m) 3"
  "wild m OFPFW_DL_TYPE \<longleftrightarrow> bit (mt_wildcards m) 4" "wild m OFPFW_NW_PROTO \<longleftrightarrow> bit (mt_wildcards m) 5"
  "wild m OFPFW_TP_SRC \<longleftrightarrow> bit (mt_wildcards m) 6" "wild m OFPFW_TP_DST \<longleftrightarrow> bit (mt_wildcards m) 7"
  "wild m OFPFW_DL_VLAN_PCP \<longleftrightarrow> bit (mt_wildcards m) 20" "wild m OFPFW_NW_TOS \<longleftrightarrow> bit (mt_wildcards m) 21"
  "wild m OFPFW_NW_SRC_ALL \<longleftrightarrow> bit (mt_wildcards m) 13" "wild m OFPFW_NW_DST_ALL \<longleftrightarrow> bit (mt_wildcards m) 19"
  unfolding wild_def OFPFW_pow2 by (rule and_pow2_word, simp)+

text \<open>The six-bit fields.\<close>

lemma nw_bits_bit:
  "bit (nw_bits_src w) i \<longleftrightarrow> i < 6 \<and> bit w (8 + i)"
  "bit (nw_bits_dst w) i \<longleftrightarrow> i < 6 \<and> bit w (14 + i)"
  by (auto simp: nw_bits_src_def nw_bits_dst_def bit_simps dest: bit_imp_le_length)

lemma nat_bit_less: "(\<And>i. bit n i \<Longrightarrow> i < k) \<Longrightarrow> n < 2 ^ k" for n :: nat
proof -
  assume "\<And>i. bit n i \<Longrightarrow> i < k"
  then have "take_bit k n = n" by (intro bit_eqI) (auto simp: bit_take_bit_iff)
  then show ?thesis by (metis take_bit_nat_less_exp)
qed

lemma nw_bits_lt: "nw_bits_src w < 64" "nw_bits_dst w < 64"
  using nat_bit_less [of "nw_bits_src w" 6] nat_bit_less [of "nw_bits_dst w" 6] by (simp_all add: nw_bits_bit)

lemma nw_bits_lt_32: "\<not> bit w 13 \<Longrightarrow> nw_bits_src w < 32" "\<not> bit w 19 \<Longrightarrow> nw_bits_dst w < 32"
proof -
  have less6: "i < 5" if "i < 6" "i \<noteq> 5" for i :: nat using that by simp
  show "nw_bits_src w < 32" if "\<not> bit w 13"
    using nat_bit_less [of "nw_bits_src w" 5] that less6 by (fastforce simp: nw_bits_bit)
  show "nw_bits_dst w < 32" if "\<not> bit w 19"
    using nat_bit_less [of "nw_bits_dst w" 5] that less6 by (fastforce simp: nw_bits_bit)
qed

lemma nw_bits_ge_32: "bit w 13 \<Longrightarrow> 32 \<le> nw_bits_src w" "bit w 19 \<Longrightarrow> 32 \<le> nw_bits_dst w"
proof -
  have ge: "32 \<le> n" if "bit n 5" for n :: nat
  proof (rule ccontr)
    assume "\<not> 32 \<le> n"
    then have "take_bit 5 n = n" by (simp add: take_bit_nat_eq_self_iff)
    with that have "bit (take_bit 5 n) 5" by simp
    then show False by (simp only: bit_take_bit_iff) simp
  qed
  show "bit w 13 \<Longrightarrow> 32 \<le> nw_bits_src w" "bit w 19 \<Longrightarrow> 32 \<le> nw_bits_dst w"
    by (rule ge; simp add: nw_bits_bit)+
qed

section \<open>Covering is a preorder\<close>

definition nw_ok :: "ip_addr option \<times> nat \<Rightarrow> bool" where
  "nw_ok p \<longleftrightarrow> (if fst p = None then snd p = 0 else 1 \<le> snd p \<and> snd p \<le> 32)"

lemma nw_ok_get [simp]: "nw_ok (get_nw_src m)" "nw_ok (get_nw_dst m)"
proof -
  show "nw_ok (get_nw_src m)"
    by (cases "bit (mt_wildcards m) 13") (use nw_bits_lt_32(1) [of "mt_wildcards m"] in \<open>simp_all add: nw_ok_def get_nw_src_def Let_def\<close>)
  show "nw_ok (get_nw_dst m)"
    by (cases "bit (mt_wildcards m) 19") (use nw_bits_lt_32(2) [of "mt_wildcards m"] in \<open>simp_all add: nw_ok_def get_nw_dst_def Let_def\<close>)
qed

definition nw_within_ok :: "ip_addr option \<times> nat \<Rightarrow> ip_addr option \<times> nat \<Rightarrow> bool" where
  "nw_within_ok a b \<longleftrightarrow> (case fst a of None \<Rightarrow> True
     | Some n \<Rightarrow> snd a \<le> snd b \<and> (case fst b of None \<Rightarrow> False | Some x \<Rightarrow> inNetwork x (n, snd a)))"

lemma nw_within_total: "nw_ok a \<Longrightarrow> nw_ok b \<Longrightarrow> nw_within a b = Inr (nw_within_ok a b)"
  by (auto simp: nw_within_def nw_within_ok_def nw_ok_def split: option.splits if_splits)

lemma nw_within_ok_trans:
  "nw_ok a \<Longrightarrow> nw_ok b \<Longrightarrow> nw_ok c \<Longrightarrow> nw_within_ok a b \<Longrightarrow> nw_within_ok b c \<Longrightarrow> nw_within_ok a c"
  by (auto simp: nw_within_ok_def nw_ok_def split: option.splits if_splits intro: inNetwork_trans)

text \<open>What the comparison decides when the two matches are not equal.\<close>

definition attrs_cover :: "ofp_match \<Rightarrow> ofp_match \<Rightarrow> bool" where
  "attrs_cover a b \<longleftrightarrow>
     \<not> match_fail (mt_in_port a) (mt_in_port b) \<and> \<not> match_fail (mt_dl_vlan a) (mt_dl_vlan b) \<and>
     \<not> match_fail (mt_dl_src a) (mt_dl_src b) \<and> \<not> match_fail (mt_dl_dst a) (mt_dl_dst b) \<and>
     \<not> match_fail (mt_dl_type a) (mt_dl_type b) \<and> \<not> match_fail (mt_nw_proto a) (mt_nw_proto b) \<and>
     \<not> match_fail (mt_tp_src a) (mt_tp_src b) \<and> \<not> match_fail (mt_tp_dst a) (mt_tp_dst b) \<and>
     \<not> match_fail (mt_dl_vlan_pcp a) (mt_dl_vlan_pcp b) \<and> \<not> match_fail (mt_nw_tos a) (mt_nw_tos b) \<and>
     nw_within_ok (get_nw_src a) (get_nw_src b) \<and> nw_within_ok (get_nw_dst a) (get_nw_dst b)"

definition narrower :: "ofp_match \<Rightarrow> ofp_match \<Rightarrow> bool" where
  "narrower a b \<longleftrightarrow> narrow_bits a OR narrow_bits b = narrow_bits a"

lemma matches_decides:
  "matches_with_wildcards a b c = Inr (match_eq a b \<or> (c \<longrightarrow> narrower a b) \<and> attrs_cover a b)"
  by (simp add: matches_with_wildcards_def nw_within_total attrs_cover_def narrower_def)

lemma match_fail_trans: "\<not> match_fail x y \<Longrightarrow> \<not> match_fail y z \<Longrightarrow> \<not> match_fail x z"
  by (auto simp: match_fail_def split: option.splits)

lemma attrs_cover_trans: "attrs_cover a b \<Longrightarrow> attrs_cover b c \<Longrightarrow> attrs_cover a c"
  unfolding attrs_cover_def by (meson match_fail_trans nw_within_ok_trans nw_ok_get)

lemma narrower_trans: "narrower a b \<Longrightarrow> narrower b c \<Longrightarrow> narrower a c"
  by (simp add: narrower_def) (metis or.assoc)

lemma match_eq_refl [simp]: "match_eq a a"
  by (simp add: match_eq_def)

lemma match_eq_sym: "match_eq a b \<Longrightarrow> match_eq b a"
  by (auto simp: match_eq_def)

lemma match_eq_trans: "match_eq a b \<Longrightarrow> match_eq b c \<Longrightarrow> match_eq a c"
  by (auto simp: match_eq_def)

lemma match_eq_nw: "match_eq a b \<Longrightarrow> get_nw_src a = get_nw_src b \<and> get_nw_dst a = get_nw_dst b"
  by (auto simp: match_eq_def mt_nw_src_def mt_nw_dst_def get_nw_src_def get_nw_dst_def Let_def split: if_splits)

lemma match_eq_cover:
  assumes "match_eq a b"
  shows "attrs_cover a c = attrs_cover b c" "attrs_cover c a = attrs_cover c b"
    "narrower a c = narrower b c" "narrower c a = narrower c b"
  using assms match_eq_nw [OF assms]
  by (simp_all add: attrs_cover_def narrower_def narrow_bits_def match_eq_def)

definition covers :: "bool \<Rightarrow> ofp_match \<Rightarrow> ofp_match \<Rightarrow> bool" where
  "covers consider_other a b \<longleftrightarrow> matches_with_wildcards a b consider_other = Inr True"

text \<open>Evaluates comparisons of concrete matches.\<close>

lemmas match_run = covers_def matches_with_wildcards_def match_eq_def mt_attrs attr_def wild_def match_fail_def narrow_bits_def
  mt_nw_src_def mt_nw_dst_def get_nw_src_def get_nw_dst_def nw_bits_src_def nw_bits_dst_def Let_def nw_within_def
  mt_setters set_attr_def match_init_def normalize_wildcards_def
  OFPFW_IN_PORT_def OFPFW_DL_VLAN_def OFPFW_DL_SRC_def OFPFW_DL_DST_def OFPFW_DL_TYPE_def OFPFW_NW_PROTO_def
  OFPFW_TP_SRC_def OFPFW_TP_DST_def OFPFW_DL_VLAN_PCP_def OFPFW_NW_TOS_def OFPFW_NW_SRC_ALL_def
  OFPFW_NW_SRC_MASK_def OFPFW_NW_DST_ALL_def OFPFW_NW_DST_MASK_def OFPFW_ALL_def

locale covering =
  fixes cov :: "'m \<Rightarrow> 'm \<Rightarrow> bool"
  assumes cov_refl: "cov a a"
    and cov_trans: "cov a b \<Longrightarrow> cov b c \<Longrightarrow> cov a c"
begin

lemma covered_subset: "cov a b \<Longrightarrow> filter (cov b) xs = filter (cov b) (filter (cov a) xs)"
  by (induction xs) (auto intro: cov_trans)

lemma uncovered_subset: "cov a b \<Longrightarrow> filter (\<lambda>x. \<not> cov a x) (filter (\<lambda>x. \<not> cov b x) xs) = filter (\<lambda>x. \<not> cov a x) xs"
  by (induction xs) (auto intro: cov_trans)

end

interpretation wide: covering "covers c"
proof
  show "covers c a a" for a by (simp add: covers_def matches_decides)
  show "covers c x z" if xy: "covers c x y" and yz: "covers c y z" for x y z
  proof -
    have c: "covers c a b \<longleftrightarrow> match_eq a b \<or> (c \<longrightarrow> narrower a b) \<and> attrs_cover a b" for a b
      by (simp add: covers_def matches_decides)
    consider "match_eq x y" | "match_eq y z"
      | "(c \<longrightarrow> narrower x y) \<and> attrs_cover x y" "(c \<longrightarrow> narrower y z) \<and> attrs_cover y z"
      using xy yz unfolding c by blast
    then show ?thesis
    proof cases
      case 1
      then show ?thesis using yz match_eq_cover(1,3) [OF 1, of z] match_eq_trans [OF 1, of z] unfolding c by blast
    next
      case 2
      then show ?thesis using xy match_eq_cover(2,4) [OF 2, of x] match_eq_trans [OF _ 2, of x] unfolding c by blast
    next
      case 3
      then show ?thesis unfolding c using attrs_cover_trans narrower_trans by blast
    qed
  qed
qed

text \<open>
  \<open>matches_with_wildcards\<close> never raises, and the relation it decides is reflexive and transitive: a
  match that covers a second one covers everything the second one covers.
\<close>

theorem covers_preorder:
  "(\<exists>r. matches_with_wildcards a b c = Inr r) \<and> matches_with_wildcards a a c = Inr True \<and>
   (matches_with_wildcards a b c = Inr True \<and> matches_with_wildcards b d c = Inr True \<longrightarrow>
    matches_with_wildcards a d c = Inr True)"
  using wide.cov_trans [of c a b d] wide.cov_refl [of c a] by (auto simp: covers_def matches_decides)

theorem covers_preorder_witness:
  "matches_with_wildcards match_init (set_nw_proto (Some 6) (set_dl_type (Some 0x0800) match_init)) False = Inr True"
proof -
  have "matches_with_wildcards match_init (set_dl_type (Some 0x0800) match_init) False = Inr True"
    "matches_with_wildcards (set_dl_type (Some 0x0800) match_init)
       (set_nw_proto (Some 6) (set_dl_type (Some 0x0800) match_init)) False = Inr True"
    by (simp_all add: match_run)
  then show ?thesis
    using covers_preorder [of match_init "set_dl_type (Some 0x0800) match_init" False
        "set_nw_proto (Some 6) (set_dl_type (Some 0x0800) match_init)"] by blast
qed

lemma match_fail_wild: "\<not> match_fail (attr x h a) (attr x h b) \<Longrightarrow> wild b x \<longrightarrow> wild a x"
  by (auto simp: match_fail_def attr_def split: if_splits)

lemma attrs_cover_narrower:
  assumes "attrs_cover a b" "mt_wildcards b AND NOT OFPFW_ALL = 0"
  shows "narrower a b"
proof -
  have hi: "\<not> bit (mt_wildcards b) n" if "22 \<le> n" "n < 32" for n
  proof
    assume "bit (mt_wildcards b) n"
    then have "bit (mt_wildcards b AND NOT OFPFW_ALL) n" using that by (simp add: bit_and_iff bit_not_iff)
    with assms(2) show False by simp
  qed
  note c = assms(1) [unfolded attrs_cover_def mt_attrs]
  have "(wild b OFPFW_IN_PORT \<longrightarrow> wild a OFPFW_IN_PORT) \<and> (wild b OFPFW_DL_VLAN \<longrightarrow> wild a OFPFW_DL_VLAN) \<and>
    (wild b OFPFW_DL_SRC \<longrightarrow> wild a OFPFW_DL_SRC) \<and> (wild b OFPFW_DL_DST \<longrightarrow> wild a OFPFW_DL_DST) \<and>
    (wild b OFPFW_DL_TYPE \<longrightarrow> wild a OFPFW_DL_TYPE) \<and> (wild b OFPFW_NW_PROTO \<longrightarrow> wild a OFPFW_NW_PROTO) \<and>
    (wild b OFPFW_TP_SRC \<longrightarrow> wild a OFPFW_TP_SRC) \<and> (wild b OFPFW_TP_DST \<longrightarrow> wild a OFPFW_TP_DST) \<and>
    (wild b OFPFW_DL_VLAN_PCP \<longrightarrow> wild a OFPFW_DL_VLAN_PCP) \<and> (wild b OFPFW_NW_TOS \<longrightarrow> wild a OFPFW_NW_TOS)"
    by (intro conjI; rule match_fail_wild; insert c; elim conjE; assumption)
  then have sub: "bit (mt_wildcards a) k" if "k \<in> {0, 1, 2, 3, 4, 5, 6, 7, 20, 21}" "bit (mt_wildcards b) k" for k
    using that by auto
  show ?thesis
    unfolding narrower_def narrow_bits_def
  proof (rule bit_eqI)
    fix n assume "possible_bit TYPE(32 word) n"
    then have n: "n < 32" by simp
    have "n \<in> {0, 1, 2, 3, 4, 5, 6, 7, 20, 21} \<or> 8 \<le> n \<and> n < 20 \<or> 22 \<le> n" by auto
    then show "bit (mt_wildcards a AND NOT (OFPFW_NW_SRC_MASK OR OFPFW_NW_DST_MASK) OR
         mt_wildcards b AND NOT (OFPFW_NW_SRC_MASK OR OFPFW_NW_DST_MASK)) n
      = bit (mt_wildcards a AND NOT (OFPFW_NW_SRC_MASK OR OFPFW_NW_DST_MASK)) n"
      using sub [of n] hi [of n] n by (auto simp: bit_and_iff bit_or_iff bit_not_iff)
  qed
qed

text \<open>
  When the other match has no unknown wildcard bit, the parameter \<open>consider_other_wildcards\<close> does not
  change the answer: a field that only the other match leaves open already fails the comparison.
\<close>

theorem consider_other_irrelevant:
  assumes "mt_wildcards b AND NOT OFPFW_ALL = 0"
  shows "matches_with_wildcards a b True = matches_with_wildcards a b False"
  using attrs_cover_narrower [OF _ assms] by (auto simp: matches_decides)

theorem consider_other_irrelevant_witness:
  "matches_with_wildcards (set_dl_type (Some 0x0800) match_init) match_init True
    = matches_with_wildcards (set_dl_type (Some 0x0800) match_init) match_init False"
  by (rule consider_other_irrelevant) code_simp

section \<open>Packing and reading a match\<close>

lemma normalize_id: "nw_bits_src w \<le> 32 \<Longrightarrow> nw_bits_dst w \<le> 32 \<Longrightarrow> normalize_wildcards w = w"
  by (simp add: normalize_wildcards_def)

lemma bit_32_shifted: "bit (push_bit k 32 :: 32 word) n \<longleftrightarrow> n = k + 5 \<and> n < 32"
proof -
  have c: "(32 :: 32 word) = push_bit 5 1" by simp
  have "push_bit k 32 = (push_bit (k + 5) 1 :: 32 word)"
    unfolding c push_bit_push_bit by (simp only: add.commute)
  then show ?thesis by (simp only: bit_push_bit_iff bit_1_iff) auto
qed

lemma nw_bits_cong:
  "(\<And>i. i < 6 \<Longrightarrow> bit w (8 + i) \<longleftrightarrow> bit v (8 + i)) \<Longrightarrow> nw_bits_src w = nw_bits_src v"
  "(\<And>i. i < 6 \<Longrightarrow> bit w (14 + i) \<longleftrightarrow> bit v (14 + i)) \<Longrightarrow> nw_bits_dst w = nw_bits_dst v"
  by (rule bit_eqI, auto simp: nw_bits_bit)+

text \<open>When a six-bit count is at most 32, either its top bit alone is set or it is clear.\<close>

lemma le_32_iff:
  assumes "n < (64 :: nat)"
  shows "n \<le> 32 \<longleftrightarrow> (bit n 5 \<longrightarrow> (\<forall>i < 5. \<not> bit n i))"
proof -
  have q: "n div 32 = 0 \<or> n div 32 = 1" using assms by linarith
  have "take_bit 5 n = 0 \<longleftrightarrow> (\<forall>i < 5. \<not> bit n i)"
    by (auto simp: bit_eq_iff bit_take_bit_iff)
  moreover have "take_bit 5 n = n mod 32" by (simp add: take_bit_eq_mod)
  moreover have "bit n 5 \<longleftrightarrow> n div 32 = 1" using q by (auto simp: bit_iff_odd)
  moreover have "n \<le> 32 \<longleftrightarrow> (n div 32 = 1 \<longrightarrow> n mod 32 = 0)"
    using q
  proof
    assume "n div 32 = 1"
    then have "n = 32 + n mod 32" using div_mult_mod_eq [of n 32] by simp
    with \<open>n div 32 = 1\<close> show ?thesis by linarith
  qed (simp add: div_eq_0_iff)
  ultimately show ?thesis by simp
qed

lemma nw_bits_le_32:
  "nw_bits_src w \<le> 32 \<longleftrightarrow> (bit w 13 \<longrightarrow> (\<forall>i < 5. \<not> bit w (8 + i)))"
  "nw_bits_dst w \<le> 32 \<longleftrightarrow> (bit w 19 \<longrightarrow> (\<forall>i < 5. \<not> bit w (14 + i)))"
  by (simp_all add: le_32_iff nw_bits_lt nw_bits_bit)

lemma bit_put_32:
  assumes "k + 6 \<le> 32"
  shows "bit ((w AND NOT (push_bit k (mask 6))) OR push_bit k 32 :: 32 word) n \<longleftrightarrow>
    (if k \<le> n \<and> n < k + 6 then n = k + 5 else bit w n)"
proof -
  have p: "possible_bit TYPE(32 word) n \<longleftrightarrow> n < 32" by simp
  show ?thesis
    unfolding bit_or_iff bit_and_iff bit_not_iff bit_32_shifted bit_field_mask p
    using assms by (auto dest: bit_imp_le_length)
qed

lemma clear_field:
  assumes "\<And>i. i < 5 \<Longrightarrow> \<not> bit w (k + i)"
  shows "k \<le> n \<Longrightarrow> n < k + 5 \<Longrightarrow> \<not> bit w n"
  using assms [of "n - k"] by simp

lemma bit_normalize_src:
  "bit (if 32 < nw_bits_src w then (w AND NOT OFPFW_NW_SRC_MASK) OR push_bit 8 32 else w) n \<longleftrightarrow>
    (if 8 \<le> n \<and> n < 14 \<and> bit w 13 then n = 13 else bit w n)"
proof (cases "32 < nw_bits_src w")
  case True
  then have "bit w 13" using nw_bits_le_32(1) [of w] by auto
  then show ?thesis using True by (simp only: OFPFW_mask if_True bit_put_32) auto
next
  case False
  then have "bit w 13 \<Longrightarrow> 8 \<le> n \<Longrightarrow> n < 13 \<Longrightarrow> \<not> bit w n"
    using nw_bits_le_32(1) [of w] clear_field [of w 8 n] by auto
  with False show ?thesis by (cases "n = 13") auto
qed

lemma bit_normalize_dst:
  "bit (if 32 < nw_bits_dst w then (w AND NOT OFPFW_NW_DST_MASK) OR push_bit 14 32 else w) n \<longleftrightarrow>
    (if 14 \<le> n \<and> n < 20 \<and> bit w 19 then n = 19 else bit w n)"
proof (cases "32 < nw_bits_dst w")
  case True
  then have "bit w 19" using nw_bits_le_32(2) [of w] by auto
  then show ?thesis using True by (simp only: OFPFW_mask if_True bit_put_32) auto
next
  case False
  then have "bit w 19 \<Longrightarrow> 14 \<le> n \<Longrightarrow> n < 19 \<Longrightarrow> \<not> bit w n"
    using nw_bits_le_32(2) [of w] clear_field [of w 14 n] by auto
  with False show ?thesis by (cases "n = 19") auto
qed

lemma bit_normalize:
  "bit (normalize_wildcards w) n \<longleftrightarrow>
    (if 8 \<le> n \<and> n < 14 \<and> bit w 13 then n = 13 else if 14 \<le> n \<and> n < 20 \<and> bit w 19 then n = 19 else bit w n)"
  unfolding normalize_wildcards_def Let_def bit_normalize_dst bit_normalize_src by auto

lemma normalize_idem: "normalize_wildcards (normalize_wildcards w) = normalize_wildcards w"
  by (rule bit_eqI) (auto simp: bit_normalize)

text \<open>The prerequisites of OpenFlow 1.0: fields of a protocol are open when the match does not ask for it.\<close>

definition prereqs_ok :: "ofp_match \<Rightarrow> bool" where
  "prereqs_ok m \<longleftrightarrow>
     (mt_dl_type m \<notin> {Some 0x0800, Some 0x0806} \<longrightarrow>
        mt_nw_proto m = None \<and> mt_nw_src m = None \<and> mt_nw_dst m = None) \<and>
     (mt_dl_type m \<noteq> Some 0x0800 \<longrightarrow> mt_nw_tos m = None) \<and>
     (\<not> (mt_dl_type m = Some 0x0800 \<and> is_tp_proto (mt_nw_proto m)) \<longrightarrow> mt_tp_src m = None \<and> mt_tp_dst m = None)"

definition macs_ok :: "ofp_match \<Rightarrow> bool" where
  "macs_ok m \<longleftrightarrow> length (h_dl_src m) = 6 \<and> length (h_dl_dst m) = 6"

lemma match_pack_read:
  assumes "macs_ok m"
  shows "match_unpack fr (match_pack fm m @ r) =
    (let u = \<lparr>mt_locked = False, mt_wildcards = mt_wildcards match_init, h_in_port = or0 (mt_in_port m),
           h_dl_src = eth_or_empty (mt_dl_src m), h_dl_dst = eth_or_empty (mt_dl_dst m),
           h_dl_vlan = or0 (mt_dl_vlan m), h_dl_vlan_pcp = or0 (mt_dl_vlan_pcp m), h_dl_type = or0 (mt_dl_type m),
           h_nw_tos = check_ip m (mt_nw_tos m), h_nw_proto = check_ip_or_arp m (mt_nw_proto m),
           h_nw_src = check_ip_or_arp m (mt_nw_src m), h_nw_dst = check_ip_or_arp m (mt_nw_dst m),
           h_tp_src = check_tp m (mt_tp_src m), h_tp_dst = check_tp m (mt_tp_dst m)\<rparr>;
         wc = (if fm then wire_wildcards m (mt_wildcards m) else mt_wildcards m)
     in Inr (u\<lparr>mt_wildcards := normalize_wildcards (if fr then unwire_wildcards u wc else wc)\<rparr>, r))"
proof -
  have "length (eth_or_empty (mt_dl_src m)) = 6" "length (eth_or_empty (mt_dl_dst m)) = 6"
    using assms by (auto simp: macs_ok_def eth_or_empty_def mt_attrs attr_def EMPTY_ETH_def split: option.splits if_splits)
  then show ?thesis
    by (simp add: match_unpack_def match_pack_def codec Let_def)
qed

lemma or0_attr: "attr b h m = Some x \<Longrightarrow> or0 (attr b h m) = h m"
  by (auto simp: or0_def attr_def split: if_splits)

lemma unwire_wire:
  assumes w: "w = mt_wildcards m" and "prereqs_ok m" and d: "h_dl_type u = or0 (mt_dl_type m)" and p: "h_nw_proto u = check_ip_or_arp m (mt_nw_proto m)"
  shows "normalize_wildcards (unwire_wildcards u (wire_wildcards m w)) = normalize_wildcards w"
proof -
  have b: "(mt_nw_proto m = None \<longleftrightarrow> bit w 5)" "(mt_nw_tos m = None \<longleftrightarrow> bit w 21)" "(mt_tp_src m = None \<longleftrightarrow> bit w 6)"
    "(mt_tp_dst m = None \<longleftrightarrow> bit w 7)" "(mt_nw_src m = None \<longleftrightarrow> bit w 13)" "(mt_nw_dst m = None \<longleftrightarrow> bit w 19)"
    by (auto simp: w mt_attrs attr_def mt_nw_src_def mt_nw_dst_def get_nw_src_def get_nw_dst_def Let_def)
  have tp: "is_tp_proto (mt_nw_proto m) \<longleftrightarrow> or0 (mt_nw_proto m) \<in> {1, 6, 17}"
    by (auto simp: is_tp_proto_def or0_def split: option.splits)
  have dl: "mt_dl_type m = Some x \<longleftrightarrow> or0 (mt_dl_type m) = x" if "x \<noteq> 0" for x
    using that by (auto simp: or0_def split: option.splits)
  note [simp] = bit_and_iff bit_or_iff bit_not_iff NW_MASKS_def TP_BITS_def
  consider (ip) "mt_dl_type m = Some 0x0800" | (arp) "mt_dl_type m = Some 0x0806" | (other) "mt_dl_type m \<notin> {Some 0x0800, Some 0x0806}"
    by blast
  then show ?thesis
  proof cases
    case ip
    then show ?thesis using assms b tp
      by (intro bit_eqI) (auto simp: bit_normalize wire_wildcards_def unwire_wildcards_def prereqs_ok_def or0_def check_ip_or_arp_def)
  next
    case arp
    then show ?thesis using assms b
      by (intro bit_eqI) (auto simp: bit_normalize wire_wildcards_def unwire_wildcards_def prereqs_ok_def or0_def)
  next
    case other
    then have "h_dl_type u \<noteq> 0x0800" "h_dl_type u \<noteq> 0x0806" using dl d by auto
    with other show ?thesis using assms(2) b
      by (intro bit_eqI) (auto simp: bit_normalize wire_wildcards_def unwire_wildcards_def prereqs_ok_def)
  qed
qed

lemma mt_nw_attr: "mt_nw_src = attr OFPFW_NW_SRC_ALL h_nw_src" "mt_nw_dst = attr OFPFW_NW_DST_ALL h_nw_dst"
  by (rule ext, simp add: mt_nw_src_def mt_nw_dst_def get_nw_src_def get_nw_dst_def attr_def Let_def)+

lemma attr_same:
  "wild u b = wild m b \<Longrightarrow> attr b h m \<noteq> None \<longrightarrow> h u = or0 (attr b h m) \<Longrightarrow> attr b h u = attr b h m"
  by (auto simp: attr_def or0_def)

lemma match_read_back:
  assumes "macs_ok m" "prereqs_ok m" "normalize_wildcards (mt_wildcards m) = mt_wildcards m"
  shows "\<exists>m'. match_unpack fm (match_pack fm m @ r) = Inr (m', r) \<and> match_eq m' m"
proof -
  define u where "u = \<lparr>mt_locked = False, mt_wildcards = mt_wildcards match_init, h_in_port = or0 (mt_in_port m),
           h_dl_src = eth_or_empty (mt_dl_src m), h_dl_dst = eth_or_empty (mt_dl_dst m),
           h_dl_vlan = or0 (mt_dl_vlan m), h_dl_vlan_pcp = or0 (mt_dl_vlan_pcp m), h_dl_type = or0 (mt_dl_type m),
           h_nw_tos = check_ip m (mt_nw_tos m), h_nw_proto = check_ip_or_arp m (mt_nw_proto m),
           h_nw_src = check_ip_or_arp m (mt_nw_src m), h_nw_dst = check_ip_or_arp m (mt_nw_dst m),
           h_tp_src = check_tp m (mt_tp_src m), h_tp_dst = check_tp m (mt_tp_dst m)\<rparr>"
  let ?m = "u\<lparr>mt_wildcards := mt_wildcards m\<rparr>"
  have "normalize_wildcards (unwire_wildcards u (wire_wildcards m (mt_wildcards m))) = mt_wildcards m"
    using unwire_wire [OF refl assms(2), of u] assms(3) by (simp add: u_def)
  then have rd: "match_unpack fm (match_pack fm m @ r) = Inr (?m, r)"
    using assms(3) by (simp add: match_pack_read [OF assms(1)] Let_def flip: u_def)
  have w: "wild ?m b = wild m b" for b by (simp add: wild_def)
  have nw: "mt_nw_tos m \<noteq> None \<longrightarrow> check_ip m (mt_nw_tos m) = or0 (mt_nw_tos m)"
    "mt_nw_proto m \<noteq> None \<longrightarrow> check_ip_or_arp m (mt_nw_proto m) = or0 (mt_nw_proto m)"
    "mt_nw_src m \<noteq> None \<longrightarrow> check_ip_or_arp m (mt_nw_src m) = or0 (mt_nw_src m)"
    "mt_nw_dst m \<noteq> None \<longrightarrow> check_ip_or_arp m (mt_nw_dst m) = or0 (mt_nw_dst m)"
    "mt_tp_src m \<noteq> None \<longrightarrow> check_tp m (mt_tp_src m) = or0 (mt_tp_src m)"
    "mt_tp_dst m \<noteq> None \<longrightarrow> check_tp m (mt_tp_dst m) = or0 (mt_tp_dst m)"
    using assms(2) by (auto simp: prereqs_ok_def check_ip_def check_ip_or_arp_def check_tp_def)
  have plain: "mt_in_port ?m = mt_in_port m \<and> mt_dl_src ?m = mt_dl_src m \<and> mt_dl_dst ?m = mt_dl_dst m \<and>
     mt_dl_vlan ?m = mt_dl_vlan m \<and> mt_dl_vlan_pcp ?m = mt_dl_vlan_pcp m \<and> mt_dl_type ?m = mt_dl_type m"
    by (simp add: mt_attrs attr_def w u_def or0_def eth_or_empty_def)
  have "mt_nw_tos ?m = mt_nw_tos m" unfolding mt_nw_tos_def
    by (rule attr_same) (use nw(1) in \<open>simp_all add: w u_def mt_nw_tos_def\<close>)
  moreover have "mt_nw_proto ?m = mt_nw_proto m" unfolding mt_nw_proto_def
    by (rule attr_same) (use nw(2) in \<open>simp_all add: w u_def mt_nw_proto_def\<close>)
  moreover have "mt_tp_src ?m = mt_tp_src m" unfolding mt_tp_src_def
    by (rule attr_same) (use nw(5) in \<open>simp_all add: w u_def mt_tp_src_def\<close>)
  moreover have "mt_tp_dst ?m = mt_tp_dst m" unfolding mt_tp_dst_def
    by (rule attr_same) (use nw(6) in \<open>simp_all add: w u_def mt_tp_dst_def\<close>)
  moreover have "mt_nw_src ?m = mt_nw_src m" unfolding mt_nw_attr
    by (rule attr_same) (use nw(3) in \<open>simp_all add: w u_def mt_nw_attr\<close>)
  moreover have "mt_nw_dst ?m = mt_nw_dst m" unfolding mt_nw_attr
    by (rule attr_same) (use nw(4) in \<open>simp_all add: w u_def mt_nw_attr\<close>)
  ultimately have "match_eq ?m m" using plain by (simp add: match_eq_def)
  with rd show ?thesis by blast
qed

text \<open>
  What the other side gets, written without the wire: an unlocked match with the values that are not wildcarded and
  zeros in place of the others.  A value of the network layer is there only for an Ethernet type that has it, and the
  ports of the transport layer only for a protocol that has them; a flow modification wildcards those that are not.
\<close>

definition is_ip :: "ofp_match \<Rightarrow> bool" where "is_ip m \<longleftrightarrow> mt_dl_type m = Some 0x0800"
definition is_arp :: "ofp_match \<Rightarrow> bool" where "is_arp m \<longleftrightarrow> mt_dl_type m = Some 0x0806"
definition is_transport :: "ofp_match \<Rightarrow> bool" where "is_transport m \<longleftrightarrow> is_ip m \<and> mt_nw_proto m \<in> {Some 1, Some 6, Some 17}"

definition absent_fields :: "ofp_match \<Rightarrow> 32 word" where
  "absent_fields m =
     (if is_ip m then 0 else OFPFW_NW_TOS) OR
     (if is_ip m \<or> is_arp m then 0 else OFPFW_NW_PROTO OR OFPFW_NW_SRC_MASK OR OFPFW_NW_DST_MASK) OR
     (if is_transport m then 0 else OFPFW_TP_SRC OR OFPFW_TP_DST)"

abbreviation value_or :: "'a \<Rightarrow> 'a option \<Rightarrow> 'a" where "value_or d \<equiv> case_option d (\<lambda>x. x)"

definition match_sent :: "bool \<Rightarrow> ofp_match \<Rightarrow> ofp_match" where
  "match_sent fm m =
     \<lparr>mt_locked = False,
      mt_wildcards = normalize_wildcards (if fm then mt_wildcards m OR absent_fields m else mt_wildcards m),
      h_in_port = value_or 0 (mt_in_port m),
      h_dl_src = value_or EMPTY_ETH (mt_dl_src m),
      h_dl_dst = value_or EMPTY_ETH (mt_dl_dst m),
      h_dl_vlan = value_or 0 (mt_dl_vlan m),
      h_dl_vlan_pcp = value_or 0 (mt_dl_vlan_pcp m),
      h_dl_type = value_or 0 (mt_dl_type m),
      h_nw_tos = (if is_ip m then value_or 0 (mt_nw_tos m) else 0),
      h_nw_proto = (if is_ip m \<or> is_arp m then value_or 0 (mt_nw_proto m) else 0),
      h_nw_src = (if is_ip m \<or> is_arp m then value_or 0 (mt_nw_src m) else 0),
      h_nw_dst = (if is_ip m \<or> is_arp m then value_or 0 (mt_nw_dst m) else 0),
      h_tp_src = (if is_transport m then value_or 0 (mt_tp_src m) else 0),
      h_tp_dst = (if is_transport m then value_or 0 (mt_tp_dst m) else 0)\<rparr>"

lemma or0_value: "or0 v = value_or 0 v" "eth_or_empty x = value_or EMPTY_ETH x"
  by (simp_all add: or0_def eth_or_empty_def split: option.splits)

lemma checked_value:
  "check_ip m v = (if is_ip m then value_or 0 v else 0)"
  "check_ip_or_arp m v = (if is_ip m \<or> is_arp m then value_or 0 v else 0)"
  "check_tp m v = (if is_transport m then value_or 0 v else 0)"
  by (auto simp: check_ip_def check_ip_or_arp_def check_tp_def is_ip_def is_arp_def is_transport_def is_tp_proto_def or0_value)

lemma unwire_wire_absent:
  assumes "h_dl_type u = value_or 0 (mt_dl_type m)" "h_nw_proto u = (if is_ip m \<or> is_arp m then value_or 0 (mt_nw_proto m) else 0)"
  shows "unwire_wildcards u (wire_wildcards m w) = w OR absent_fields m"
proof -
  have ty: "h_dl_type u = x \<longleftrightarrow> mt_dl_type m = Some x" if "x \<noteq> 0" for x
    using that assms(1) by (cases "mt_dl_type m") auto
  note [simp] = bit_and_iff bit_or_iff bit_not_iff NW_MASKS_def TP_BITS_def
  show ?thesis
  proof (cases "is_ip m")
    case True
    then have "h_nw_proto u \<in> {1, 6, 17} \<longleftrightarrow> mt_nw_proto m \<in> {Some 1, Some 6, Some 17}" using assms(2) by (cases "mt_nw_proto m") auto
    then show ?thesis using True ty
      by (intro bit_eqI) (auto simp: absent_fields_def wire_wildcards_def unwire_wildcards_def is_ip_def is_transport_def is_tp_proto_def)
  next
    case False
    then show ?thesis using ty
      by (intro bit_eqI) (auto simp: absent_fields_def wire_wildcards_def unwire_wildcards_def is_ip_def is_arp_def is_transport_def)
  qed
qed

lemma match_pack_sent:
  assumes "macs_ok m"
  shows "match_unpack fm (match_pack fm m @ r) = Inr (match_sent fm m, r)"
  by (cases fm) (simp_all add: match_pack_read [OF assms] Let_def match_sent_def or0_value checked_value unwire_wire_absent)

interpretation match_wire: wire_format "\<lambda>m. Inr (match_pack fm m)" "match_unpack fm" macs_ok "match_sent fm"
  by unfold_locales (use match_pack_sent in auto)

lemma match_read [codec]: "macs_ok m \<Longrightarrow> match_unpack fm (match_pack fm m @ r) = Inr (match_sent fm m, r)"
  by (rule match_wire.dec_enc) simp_all

lemma length_match_pack: "macs_ok m \<Longrightarrow> length (match_pack fm m) = 40"
  by (auto simp: match_pack_def macs_ok_def eth_or_empty_def mt_attrs attr_def EMPTY_ETH_def split: option.splits if_splits)

lemma match_sent_eq:
  "macs_ok m \<Longrightarrow> prereqs_ok m \<Longrightarrow> normalize_wildcards (mt_wildcards m) = mt_wildcards m \<Longrightarrow> match_eq (match_sent fm m) m"
  using match_read_back [of m fm "[]"] match_read [of m fm "[]"] by auto

text \<open>
  A match whose protocol fields have their prerequisites and whose address wildcards are in normal
  form survives the wire, in a flow modification and elsewhere: what is read back is equal to it.
\<close>

theorem match_wire_roundtrip:
  assumes "macs_ok m" "prereqs_ok m" "normalize_wildcards (mt_wildcards m) = mt_wildcards m"
  shows "\<exists>m'. match_unpack fm (match_pack fm m @ r) = Inr (m', r) \<and> match_eq m' m"
  using assms by (rule match_read_back)

theorem match_wire_roundtrip_witness:
  "\<exists>m'. match_unpack True (match_pack True (set_nw_proto (Some 6) (set_dl_type (Some 0x0800) match_init)) @ [1, 2]) = Inr (m', [1, 2])
     \<and> match_eq m' (set_nw_proto (Some 6) (set_dl_type (Some 0x0800) match_init))"
  by (rule match_wire_roundtrip) code_simp+

section \<open>\<open>fix\<close> and the wire wildcards\<close>

lemma bit_ones [simp]: "bit (- 1 :: 32 word) n \<longleftrightarrow> n < 32"
  by simp

lemma normalize_or:
  assumes "\<And>i. bit x i \<Longrightarrow> i < 8 \<or> 20 \<le> i"
  shows "normalize_wildcards (w OR x) = normalize_wildcards w OR x"
proof (rule bit_eqI)
  fix i
  have "\<not> bit x 13" "\<not> bit x 19" "8 \<le> i \<Longrightarrow> i < 20 \<Longrightarrow> \<not> bit x i"
    using assms [of 13] assms [of 19] assms [of i] by auto
  then show "bit (normalize_wildcards (w OR x)) i = bit (normalize_wildcards w OR x) i"
    by (auto simp: bit_normalize bit_or_iff)
qed

lemma or_not_and: "w OR NOT (- 1 AND NOT x) = w OR (x :: 32 word)"
  by simp

text \<open>
  For every Ethernet type but IPv6, \<open>fix\<close> opens exactly the fields whose wildcard bits
  \<open>_wire_wildcards\<close> clears whatever they are, as its comment asks.
\<close>

theorem fix_agrees_with_wire:
  assumes "mt_dl_type m \<noteq> Some 0x86dd" "normalize_wildcards (mt_wildcards m) = mt_wildcards m"
  shows "mt_wildcards (match_fix m) = normalize_wildcards (mt_wildcards m OR NOT (wire_wildcards m (- 1)))"
proof -
  consider (tp) "mt_dl_type m = Some 0x0800" "is_tp_proto (mt_nw_proto m)"
    | (ip) "mt_dl_type m = Some 0x0800" "\<not> is_tp_proto (mt_nw_proto m)" | (arp) "mt_dl_type m = Some 0x0806"
    | (other) "mt_dl_type m \<notin> {Some 0x0800, Some 0x0806}" by blast
  then show ?thesis
  proof cases
    case tp
    then show ?thesis using assms(2) by (simp add: match_fix_def wire_wildcards_def)
  next
    case ip
    then have "mt_wildcards (match_fix m) = mt_wildcards m OR TP_BITS"
      by (simp add: match_fix_def mt_setters set_attr_def TP_BITS_def or.assoc)
    moreover have "normalize_wildcards (mt_wildcards m OR TP_BITS) = mt_wildcards m OR TP_BITS"
      using assms(2) by (subst normalize_or) (auto simp: TP_BITS_def bit_or_iff)
    ultimately show ?thesis using ip by (simp add: wire_wildcards_def)
  next
    case arp
    then have n: "mt_dl_type m \<noteq> Some 0x0800" by simp
    then have "mt_wildcards (match_fix m) = mt_wildcards m OR (OFPFW_NW_TOS OR TP_BITS)"
      using arp by (simp add: match_fix_def mt_setters set_attr_def TP_BITS_def or.commute or.left_commute del: One_nat_def)
    moreover have "normalize_wildcards (mt_wildcards m OR (OFPFW_NW_TOS OR TP_BITS)) = mt_wildcards m OR (OFPFW_NW_TOS OR TP_BITS)"
      using assms(2) by (subst normalize_or) (auto simp: TP_BITS_def bit_or_iff)
    ultimately show ?thesis using arp by (simp add: wire_wildcards_def)
  next
    case other
    then have "mt_wildcards (match_fix m) =
        (((mt_wildcards m OR OFPFW_NW_TOS OR OFPFW_NW_PROTO) AND NOT OFPFW_NW_SRC_MASK OR OFPFW_NW_SRC_ALL)
          AND NOT OFPFW_NW_DST_MASK OR OFPFW_NW_DST_ALL) OR OFPFW_TP_SRC OR OFPFW_TP_DST"
      by (simp add: match_fix_def mt_setters set_attr_def put_nw_src_def put_nw_dst_def ac_simps)
    also have "\<dots> = normalize_wildcards (mt_wildcards m OR (OFPFW_NW_TOS OR OFPFW_NW_PROTO OR NW_MASKS OR TP_BITS))"
      by (rule bit_eqI) (auto simp: bit_normalize bit_and_iff bit_or_iff bit_not_iff NW_MASKS_def TP_BITS_def)
    finally show ?thesis using other assms(1) by (simp add: wire_wildcards_def)
  qed
qed

theorem fix_agrees_with_wire_witness:
  "mt_wildcards (match_fix (set_tp_src (Some 80) (set_dl_type (Some 0x0806) match_init))) =
    normalize_wildcards (mt_wildcards (set_tp_src (Some 80) (set_dl_type (Some 0x0806) match_init)) OR
      NOT (wire_wildcards (set_tp_src (Some 80) (set_dl_type (Some 0x0806) match_init)) (- 1)))"
  by (rule fix_agrees_with_wire) code_simp+

text \<open>
  For IPv6 the two differ: \<open>fix\<close> opens the protocol field, on the wire it stays closed, and the
  protocol written there is 0 whatever the match asked for.
\<close>

theorem ipv6_protocol_lost:
  assumes "mt_dl_type m = Some 0x86dd" "mt_nw_proto m = Some p" "macs_ok m"
  shows "mt_nw_proto (match_fix m) = None \<and>
    (\<exists>m'. match_unpack False (match_pack True m) = Inr (m', []) \<and> mt_nw_proto m' = Some 0)"
proof
  show "mt_nw_proto (match_fix m) = None"
    using assms(1) by (simp add: match_fix_def mt_setters set_attr_def put_nw_src_def put_nw_dst_def
        mt_nw_proto_def attr_def bit_and_iff bit_or_iff bit_not_iff)
  have "\<not> bit (mt_wildcards m) 5"
    using assms(2) by (simp add: mt_nw_proto_def attr_def split: if_splits)
  then have "\<not> bit (wire_wildcards m (mt_wildcards m)) 5"
    using assms(1) by (simp add: wire_wildcards_def bit_and_iff)
  then have "\<not> bit (normalize_wildcards (wire_wildcards m (mt_wildcards m))) 5"
    by (simp add: bit_normalize)
  moreover have "check_ip_or_arp m (mt_nw_proto m) = 0"
    using assms(1) by (simp add: check_ip_or_arp_def)
  ultimately show "\<exists>m'. match_unpack False (match_pack True m) = Inr (m', []) \<and> mt_nw_proto m' = Some 0"
    using match_pack_read [OF assms(3), of False True "[]"] by (simp add: Let_def mt_nw_proto_def attr_def)
qed

theorem ipv6_protocol_lost_witness:
  "mt_nw_proto (match_fix (set_nw_proto (Some 58) (set_dl_type (Some 0x86dd) match_init))) = None \<and>
    (\<exists>m'. match_unpack False (match_pack True (set_nw_proto (Some 58) (set_dl_type (Some 0x86dd) match_init)))
       = Inr (m', []) \<and> mt_nw_proto m' = Some 0)"
  by (rule ipv6_protocol_lost [where p = 58]) code_simp+

section \<open>Matches of packets\<close>

text \<open>What OpenFlow 1.0 calls the transport ports of a packet, and its VLAN tag.\<close>

definition l4_ports :: "payload \<Rightarrow> (16 word \<times> 16 word) option" where
  "l4_ports p = (case p of PTcp _ t _ \<Rightarrow> Some (tcp_srcport t, tcp_dstport t)
     | PUdp _ u _ \<Rightarrow> Some (udp_srcport u, udp_dstport u)
     | PIcmp _ c _ \<Rightarrow> Some (ucast (icmp_type c), ucast (icmp_code c)) | _ \<Rightarrow> None)"

definition l2_view :: "ethernet \<Rightarrow> 16 word \<times> 16 word \<times> byte \<times> payload" where
  "l2_view e = (case eth_next e of
       PVlan _ v n \<Rightarrow> (vlan_eth_type v, word_of_nat (vlan_id v), word_of_nat (vlan_pcp v), n)
     | n \<Rightarrow> (if eth_type e < 1536 then OFP_DL_TYPE_NOT_ETH_TYPE else eth_type e, OFP_VLAN_NONE, 0, n))"

lemma match_init_bits: "bit (mt_wildcards match_init) n \<Longrightarrow> n < 22"
  by (auto simp: match_init_def bit_normalize split: if_splits)

lemma from_packet_l2:
  "match_from_packet e ip sf = (case l2_view e of (typ, vid, pcp, n) \<Rightarrow>
     match_l3 sf n (set_dl_vlan_pcp (Some pcp) (set_dl_vlan (Some vid) (set_dl_type (Some typ)
       (set_dl_dst (Some (eth_dst e)) (set_dl_src (Some (eth_src e))
         (case ip of None \<Rightarrow> match_init | Some _ \<Rightarrow> set_in_port ip match_init)))))))"
  by (simp add: match_from_packet_def l2_view_def Let_def mt_setters set_attr_def and.assoc split: payload.split)

text \<open>
  The match of a TCP, UDP or ICMP packet over IPv4, tagged or not, that is not treated as a fragment has
  no wildcard, and each of its twelve attributes is the field of the packet.
\<close>

theorem from_packet_exact:
  assumes "l2_view e = (ty, vid, pcp, PIpv4 mi ip n)" "l4_ports n = Some (sport, dport)"
    and "\<not> (sf \<and> (ip_flags ip AND MF_FLAG \<noteq> 0 \<or> ip_frag ip \<noteq> 0))"
  shows "match_from_packet e (Some p) sf =
    \<lparr>mt_locked = False, mt_wildcards = 0, h_in_port = p, h_dl_src = eth_src e, h_dl_dst = eth_dst e, h_dl_vlan = vid,
     h_dl_vlan_pcp = pcp, h_dl_type = ty, h_nw_tos = ip_tos ip, h_nw_proto = ip_protocol ip,
     h_nw_src = ip_srcip ip, h_nw_dst = ip_dstip ip, h_tp_src = sport, h_tp_dst = dport\<rparr>"
proof -
  define C where "C = mt_wildcards match_init"
  have "((((((((((((C AND NOT OFPFW_IN_PORT) AND NOT OFPFW_DL_SRC) AND NOT OFPFW_DL_DST) AND NOT OFPFW_DL_TYPE)
     AND NOT OFPFW_DL_VLAN) AND NOT OFPFW_DL_VLAN_PCP) AND NOT OFPFW_NW_SRC_MASK) AND NOT OFPFW_NW_DST_MASK)
     AND NOT OFPFW_NW_PROTO) AND NOT OFPFW_NW_TOS) AND NOT OFPFW_TP_SRC) AND NOT OFPFW_TP_DST) = 0"
  proof (rule bit_eqI)
    fix i
    have "bit C i \<longrightarrow> i < 8 \<or> 8 \<le> i \<and> i < 20 \<or> i = 20 \<or> i = 21"
      using match_init_bits [of i] by (auto simp: C_def)
    moreover have "i < 8 \<longleftrightarrow> i = 0 \<or> i = 1 \<or> i = 2 \<or> i = 3 \<or> i = 4 \<or> i = 5 \<or> i = 6 \<or> i = 7" by auto
    ultimately show "bit ((((((((((((C AND NOT OFPFW_IN_PORT) AND NOT OFPFW_DL_SRC) AND NOT OFPFW_DL_DST) AND NOT OFPFW_DL_TYPE)
     AND NOT OFPFW_DL_VLAN) AND NOT OFPFW_DL_VLAN_PCP) AND NOT OFPFW_NW_SRC_MASK) AND NOT OFPFW_NW_DST_MASK)
     AND NOT OFPFW_NW_PROTO) AND NOT OFPFW_NW_TOS) AND NOT OFPFW_TP_SRC) AND NOT OFPFW_TP_DST) i = bit (0 :: 32 word) i"
      by (auto simp: bit_and_iff bit_not_iff)
  qed
  then show ?thesis
    using assms
    by (auto simp: from_packet_l2 match_l3_def match_l4_def l4_ports_def mt_setters set_attr_def put_nw_src_def
        put_nw_dst_def match_init_def C_def split: payload.splits)
qed

theorem from_packet_exact_witness:
  "match_from_packet \<lparr>eth_meta = \<lparr>m_parsed = True, m_raw = None\<rparr>, eth_dst = replicate 6 1, eth_src = replicate 6 2,
      eth_type = 0x0800, eth_next = PIpv4 \<lparr>m_parsed = True, m_raw = None\<rparr> ((default_ipv4 9)\<lparr>ip_protocol := 17\<rparr>)
        (PUdp \<lparr>m_parsed = True, m_raw = None\<rparr> \<lparr>udp_srcport = 53, udp_dstport = 99, udp_len = 8, udp_csum = 0\<rparr> PNone)\<rparr> (Some 4) True =
    \<lparr>mt_locked = False, mt_wildcards = 0, h_in_port = 4, h_dl_src = replicate 6 2, h_dl_dst = replicate 6 1,
     h_dl_vlan = 0xffff, h_dl_vlan_pcp = 0, h_dl_type = 0x0800, h_nw_tos = 0, h_nw_proto = 17,
     h_nw_src = 0, h_nw_dst = 0, h_tp_src = 53, h_tp_dst = 99\<rparr>"
  by (subst from_packet_exact [where ty = "0x0800" and vid = "0xffff" and pcp = 0 and sport = 53 and dport = 99
        and ip = "(default_ipv4 9)\<lparr>ip_protocol := 17\<rparr>" and mi = "\<lparr>m_parsed = True, m_raw = None\<rparr>"
        and n = "PUdp \<lparr>m_parsed = True, m_raw = None\<rparr> \<lparr>udp_srcport = 53, udp_dstport = 99, udp_len = 8, udp_csum = 0\<rparr> PNone"])
     (simp_all add: l2_view_def l4_ports_def default_ipv4_def OFP_VLAN_NONE_def MF_FLAG_def)

section \<open>\<open>flip\<close>\<close>

lemma bit_set_attr: "bit (mt_wildcards (set_attr b d put v m)) n \<longleftrightarrow> (if bit b n then v = None else bit (mt_wildcards m) n)"
  by (auto simp: set_attr_def bit_or_iff bit_and_iff bit_not_iff dest: bit_imp_le_length split: option.split)

lemma bit_put_nw:
  "bit (mt_wildcards (put_nw_src (map_option (\<lambda>i. (i, 32)) a) m)) n \<longleftrightarrow>
     (if 8 \<le> n \<and> n < 14 then a = None \<and> n = 13 else bit (mt_wildcards m) n)"
  "bit (mt_wildcards (put_nw_dst (map_option (\<lambda>i. (i, 32)) a) m)) n \<longleftrightarrow>
     (if 14 \<le> n \<and> n < 20 then a = None \<and> n = 19 else bit (mt_wildcards m) n)"
  by (auto simp: put_nw_src_def put_nw_dst_def bit_or_iff bit_and_iff bit_not_iff dest: bit_imp_le_length split: option.split)

lemma put_keeps:
  "h_dl_src (put_nw_src a m) = h_dl_src m" "h_dl_src (put_nw_dst a m) = h_dl_src m"
  "h_dl_dst (put_nw_src a m) = h_dl_dst m" "h_dl_dst (put_nw_dst a m) = h_dl_dst m"
  "h_nw_src (put_nw_dst a m) = h_nw_src m"
  "h_nw_src (put_nw_src (map_option (\<lambda>i. (i, 32)) b) m) = or0 b" "h_nw_dst (put_nw_dst (map_option (\<lambda>i. (i, 32)) b) m) = or0 b"
  by (auto simp: put_nw_src_def put_nw_dst_def or0_def split: option.split)

text \<open>
  \<open>flip\<close> swaps the Ethernet addresses, the network addresses and the ports, wildcarded or not, and
  keeps the other fields; but a network address always comes out with a prefix of 32 bits, whatever
  prefix it had.
\<close>

theorem flip_swaps:
  "mt_dl_src (match_flip m None) = mt_dl_dst m \<and> mt_dl_dst (match_flip m None) = mt_dl_src m \<and>
   mt_tp_src (match_flip m None) = mt_tp_dst m \<and> mt_tp_dst (match_flip m None) = mt_tp_src m \<and>
   get_nw_src (match_flip m None) = (mt_nw_dst m, if mt_nw_dst m = None then 0 else 32) \<and>
   get_nw_dst (match_flip m None) = (mt_nw_src m, if mt_nw_src m = None then 0 else 32) \<and>
   mt_in_port (match_flip m None) = mt_in_port m \<and> mt_dl_type (match_flip m None) = mt_dl_type m"
proof -
  let ?f = "match_flip m None"
  have b: "bit (mt_wildcards ?f) n \<longleftrightarrow>
      (if n = 2 then mt_dl_dst m = None else if n = 3 then mt_dl_src m = None
       else if n = 6 then mt_tp_dst m = None else if n = 7 then mt_tp_src m = None
       else if 8 \<le> n \<and> n < 14 then mt_nw_dst m = None \<and> n = 13
       else if 14 \<le> n \<and> n < 20 then mt_nw_src m = None \<and> n = 19 else bit (mt_wildcards m) n)" for n
    by (simp add: match_flip_def Let_def set_dl_src_def set_dl_dst_def set_tp_src_def set_tp_dst_def bit_set_attr
        bit_put_nw match_clone_def)
  note defs = match_flip_def Let_def set_dl_src_def set_dl_dst_def set_tp_src_def set_tp_dst_def set_attr_def put_nw_src_def
    put_nw_dst_def match_clone_def
  have v: "mt_dl_dst m = Some a \<Longrightarrow> h_dl_src ?f = a" "mt_dl_src m = Some a \<Longrightarrow> h_dl_dst ?f = a"
    "mt_tp_dst m = Some s \<Longrightarrow> h_tp_src ?f = s" "mt_tp_src m = Some s \<Longrightarrow> h_tp_dst ?f = s"
    "mt_nw_dst m = Some i \<Longrightarrow> h_nw_src ?f = i" "mt_nw_src m = Some i \<Longrightarrow> h_nw_dst ?f = i"
    "h_in_port ?f = h_in_port m" "h_dl_type ?f = h_dl_type m" for a s i
    by (simp_all add: defs split: option.split)
  have nwb: "mt_nw_dst m \<noteq> None \<Longrightarrow> nw_bits_src (mt_wildcards ?f) = 0" "mt_nw_src m \<noteq> None \<Longrightarrow> nw_bits_dst (mt_wildcards ?f) = 0"
    by (rule bit_eqI, simp add: nw_bits_bit b)+
  have "mt_dl_src ?f = mt_dl_dst m" "mt_dl_dst ?f = mt_dl_src m" "mt_tp_src ?f = mt_tp_dst m" "mt_tp_dst ?f = mt_tp_src m"
    using v(1-4) by (cases "mt_dl_dst m"; cases "mt_dl_src m"; cases "mt_tp_dst m"; cases "mt_tp_src m";
       simp add: mt_dl_src_def mt_dl_dst_def mt_tp_src_def mt_tp_dst_def attr_def b split: if_splits)+
  moreover have "get_nw_src ?f = (mt_nw_dst m, if mt_nw_dst m = None then 0 else 32)"
    "get_nw_dst ?f = (mt_nw_src m, if mt_nw_src m = None then 0 else 32)"
    using v(5,6) nwb by (cases "mt_nw_dst m"; cases "mt_nw_src m"; simp add: get_nw_src_def get_nw_dst_def b Let_def)+
  moreover have "mt_in_port ?f = mt_in_port m" "mt_dl_type ?f = mt_dl_type m"
    by (simp_all add: mt_in_port_def mt_dl_type_def attr_def b v)
  ultimately show ?thesis by simp
qed

end
