(* ===== verification/Actions.thy ===== *)
theory Actions
  imports Match
begin

text \<open>
  The actions of \<open>libopenflow_01.py\<close> (\<open>ofp_action_output\<close> to \<open>ofp_action_vendor_generic\<close>, and
  \<open>ofp_action_generic\<close> for types without a class), their packing and reading, and \<open>_unpack_actions\<close>.
  The \<open>type\<close> attribute of a class is part of its constructor; the classes that serve two types carry
  which of the two they are.
\<close>

section \<open>Constants\<close>

definition OFPP_MAX :: "16 word" where "OFPP_MAX = 65280"
definition OFPP_IN_PORT :: "16 word" where "OFPP_IN_PORT = 65528"
definition OFPP_TABLE :: "16 word" where "OFPP_TABLE = 65529"
definition OFPP_NORMAL :: "16 word" where "OFPP_NORMAL = 65530"
definition OFPP_FLOOD :: "16 word" where "OFPP_FLOOD = 65531"
definition OFPP_ALL :: "16 word" where "OFPP_ALL = 65532"
definition OFPP_CONTROLLER :: "16 word" where "OFPP_CONTROLLER = 65533"
definition OFPP_LOCAL :: "16 word" where "OFPP_LOCAL = 65534"
definition OFPP_NONE :: "16 word" where "OFPP_NONE = 65535"

lemmas OFPP_defs = OFPP_MAX_def OFPP_IN_PORT_def OFPP_TABLE_def OFPP_NORMAL_def OFPP_FLOOD_def OFPP_ALL_def
  OFPP_CONTROLLER_def OFPP_LOCAL_def OFPP_NONE_def

section \<open>Actions and their wire format\<close>

datatype side = SetSrc | SetDst

datatype action =
    ActOutput "16 word" "16 word"
  | ActVlanVid "16 word"
  | ActVlanPcp byte
  | ActStripVlan
  | ActDlAddr side eth_addr
  | ActNwAddr side ip_addr
  | ActNwTos byte
  | ActTpPort side "16 word"
  | ActEnqueue "16 word" "32 word"
  | ActVendor "32 word" bytes
  | ActGeneric "16 word" bytes

fun act_type :: "action \<Rightarrow> 16 word" where
  "act_type (ActOutput _ _) = 0"
| "act_type (ActVlanVid _) = 1"
| "act_type (ActVlanPcp _) = 2"
| "act_type ActStripVlan = 3"
| "act_type (ActDlAddr s _) = (case s of SetSrc \<Rightarrow> 4 | SetDst \<Rightarrow> 5)"
| "act_type (ActNwAddr s _) = (case s of SetSrc \<Rightarrow> 6 | SetDst \<Rightarrow> 7)"
| "act_type (ActNwTos _) = 8"
| "act_type (ActTpPort s _) = (case s of SetSrc \<Rightarrow> 9 | SetDst \<Rightarrow> 10)"
| "act_type (ActEnqueue _ _) = 11"
| "act_type (ActVendor _ _) = 65535"
| "act_type (ActGeneric t _) = t"

fun act_len :: "action \<Rightarrow> nat" where
  "act_len (ActDlAddr _ _) = 16"
| "act_len (ActEnqueue _ _) = 16"
| "act_len (ActVendor _ b) = 8 + length b"
| "act_len (ActGeneric _ d) = 4 + length d"
| "act_len _ = 8"

text \<open>Packing an output action clears \<open>max_len\<close> in the object unless it goes to the controller.\<close>

fun act_sent :: "action \<Rightarrow> action" where
  "act_sent (ActOutput p m) = (if p \<noteq> OFPP_CONTROLLER then ActOutput p 0 else ActOutput p m)"
| "act_sent a = a"

text \<open>What \<open>pack\<close> of each class writes behind type and length.\<close>

definition output_body :: "16 word \<Rightarrow> 16 word \<Rightarrow> bytes" where [simp]: "output_body p m = pack_H p @ pack_H m"
definition vlan_vid_body :: "16 word \<Rightarrow> bytes" where [simp]: "vlan_vid_body v = pack_H v @ pad 2"
definition vlan_pcp_body :: "byte \<Rightarrow> bytes" where [simp]: "vlan_pcp_body p = pack_B p @ pad 3"
definition strip_vlan_body :: bytes where [simp]: "strip_vlan_body = pack_L 0"
definition dl_addr_body :: "eth_addr \<Rightarrow> bytes" where [simp]: "dl_addr_body a = a @ pad 6"
definition nw_addr_body :: "ip_addr \<Rightarrow> bytes" where [simp]: "nw_addr_body a = pack_L a"
definition nw_tos_body :: "byte \<Rightarrow> bytes" where [simp]: "nw_tos_body t = pack_B t @ pad 3"
definition tp_port_body :: "16 word \<Rightarrow> bytes" where [simp]: "tp_port_body p = pack_H p @ pad 2"
definition enqueue_body :: "16 word \<Rightarrow> 32 word \<Rightarrow> bytes" where [simp]: "enqueue_body p q = pack_H p @ pad 6 @ pack_L q"
definition act_vendor_body :: "32 word \<Rightarrow> bytes \<Rightarrow> bytes" where [simp]: "act_vendor_body v b = pack_L v @ b"
definition act_generic_body :: "bytes \<Rightarrow> bytes" where [simp]: "act_generic_body d = d"

fun act_body :: "action \<Rightarrow> bytes" where
  "act_body (ActOutput p m) = output_body p m"
| "act_body (ActVlanVid v) = vlan_vid_body v"
| "act_body (ActVlanPcp p) = vlan_pcp_body p"
| "act_body ActStripVlan = strip_vlan_body"
| "act_body (ActDlAddr _ a) = dl_addr_body a"
| "act_body (ActNwAddr _ a) = nw_addr_body a"
| "act_body (ActNwTos t) = nw_tos_body t"
| "act_body (ActTpPort _ p) = tp_port_body p"
| "act_body (ActEnqueue p q) = enqueue_body p q"
| "act_body (ActVendor v b) = act_vendor_body v b"
| "act_body (ActGeneric _ d) = act_generic_body d"

definition act_pack :: "action \<Rightarrow> bytes result" where
  "act_pack a0 =
     (let a = act_sent a0 in
      rbind (pack_nat_H (act_len a)) (\<lambda>l. Inr (pack_H (act_type a) @ l @ act_body a)))"

text \<open>\<open>unpack\<close> of each class, on the bytes after type and length; the result is the object and the rest.\<close>

definition output_read :: "action reader" where [simp]:
  "output_read bs =
     rbind (rd_H bs) (\<lambda>(p, bs). rbind (rd_H bs) (\<lambda>(m, bs). Inr (ActOutput p m, bs)))"

definition vlan_vid_read :: "action reader" where [simp]:
  "vlan_vid_read bs =
     rbind (rd_H bs) (\<lambda>(v, bs). rbind (rd_skip 2 bs) (\<lambda>(_, bs). Inr (ActVlanVid v, bs)))"

definition vlan_pcp_read :: "action reader" where [simp]:
  "vlan_pcp_read bs =
     rbind (rd_B bs) (\<lambda>(p, bs). rbind (rd_skip 3 bs) (\<lambda>(_, bs). Inr (ActVlanPcp p, bs)))"

definition strip_vlan_read :: "action reader" where [simp]:
  "strip_vlan_read bs =
     rbind (rd_skip 4 bs) (\<lambda>(_, bs). Inr (ActStripVlan, bs))"

definition dl_addr_read :: "16 word \<Rightarrow> action reader" where [simp]:
  "dl_addr_read t bs =
     rbind (rd_bytes 6 bs) (\<lambda>(a, bs). rbind (rd_skip 6 bs) (\<lambda>(_, bs).
             Inr (ActDlAddr (if t = 4 then SetSrc else SetDst) a, bs)))"

definition nw_addr_read :: "16 word \<Rightarrow> action reader" where [simp]:
  "nw_addr_read t bs =
     rbind (rd_L bs) (\<lambda>(a, bs). Inr (ActNwAddr (if t = 6 then SetSrc else SetDst) a, bs))"

definition nw_tos_read :: "action reader" where [simp]:
  "nw_tos_read bs =
     rbind (rd_B bs) (\<lambda>(p, bs). rbind (rd_skip 3 bs) (\<lambda>(_, bs). Inr (ActNwTos p, bs)))"

definition tp_port_read :: "16 word \<Rightarrow> action reader" where [simp]:
  "tp_port_read t bs =
     rbind (rd_H bs) (\<lambda>(p, bs). rbind (rd_skip 2 bs) (\<lambda>(_, bs).
             Inr (ActTpPort (if t = 9 then SetSrc else SetDst) p, bs)))"

definition enqueue_read :: "action reader" where [simp]:
  "enqueue_read bs =
     rbind (rd_H bs) (\<lambda>(p, bs). rbind (rd_skip 6 bs) (\<lambda>(_, bs). rbind (rd_L bs) (\<lambda>(q, bs).
             Inr (ActEnqueue p q, bs))))"

definition act_vendor_read :: "nat \<Rightarrow> action reader" where [simp]:
  "act_vendor_read len bs =
     rbind (rd_L bs) (\<lambda>(v, bs). rbind (rd_bytes (len - 8) bs) (\<lambda>(b, bs). Inr (ActVendor v b, bs)))"

definition act_generic_read :: "16 word \<Rightarrow> nat \<Rightarrow> action reader" where [simp]:
  "act_generic_read t len bs = rbind (rd_bytes (len - 4) bs) (\<lambda>(d, bs). Inr (ActGeneric t d, bs))"

definition act_body_unpack :: "16 word \<Rightarrow> nat \<Rightarrow> action reader" where
  "act_body_unpack t len bs =
     (if t = 0 then output_read bs
      else if t = 1 then vlan_vid_read bs
      else if t = 2 then vlan_pcp_read bs
      else if t = 3 then strip_vlan_read bs
      else if t = 4 \<or> t = 5 then dl_addr_read t bs
      else if t = 6 \<or> t = 7 then nw_addr_read t bs
      else if t = 8 then nw_tos_read bs
      else if t = 9 \<or> t = 10 then tp_port_read t bs
      else if t = 11 then enqueue_read bs
      else if t = 65535 then act_vendor_read len bs
      else act_generic_read t len bs)"

text \<open>
  \<open>a.unpack(b[offset:offset+l])\<close> on the slice of the action.  A negative number of bytes to read
  (a length below 4, or below 8 for a vendor action) is met only after the header was found missing.
\<close>

definition act_unpack :: "action reader" where
  "act_unpack bs =
     rbind (rd_H bs) (\<lambda>(t, bs1). rbind (rd_H bs1) (\<lambda>(l, bs2). act_body_unpack t (unat l) bs2))"

text \<open>One round of the loop in \<open>_unpack_actions\<close>; \<open>struct.unpack_from\<close> raises on a short buffer.\<close>

definition act_next :: "action reader" where
  "act_next bs =
     (if length bs < 4 then Inl StructError
      else let l = unat (u16_at bs 2) in
        if length bs < l then Inl UnderrunError
        else rbind (act_unpack (take l bs)) (\<lambda>(a, _).
          rbind (py_assert (act_len a = l)) (\<lambda>_. Inr (a, drop l bs))))"

lemma act_len_pos: "4 \<le> act_len a"
  by (cases a) auto

lemma act_len_gt0: "0 < act_len a"
  using act_len_pos [of a] by simp

lemma act_next_shrinks: "act_next bs = Inr (a, r) \<Longrightarrow> length r + act_len a = length bs"
  by (auto simp: act_next_def Let_def split: if_splits)

function act_loop :: "nat \<Rightarrow> action list reader" where
  "act_loop left bs =
     (if left = 0 then Inr ([], bs)
      else rbind (act_next bs) (\<lambda>p. rbind (act_loop (left - act_len (fst p)) (snd p)) (\<lambda>(as, r). Inr (fst p # as, r))))"
  by pat_completeness auto
termination
  by (relation "measure fst") (simp_all add: act_len_gt0)

declare act_loop.simps [simp del]

definition unpack_actions :: "nat \<Rightarrow> action list reader" where
  "unpack_actions len bs = (if length bs < len then Inl UnderrunError else act_loop len bs)"

definition pack_actions :: "action list \<Rightarrow> bytes result" where
  "pack_actions = enc_all act_pack"

section \<open>Reading back what was packed\<close>

text \<open>Actions that have the six bytes of an address, and generic actions whose type has no class.\<close>

definition act_ok :: "action \<Rightarrow> bool" where
  "act_ok a = (case a of ActDlAddr _ x \<Rightarrow> length x = 6 | ActGeneric t _ \<Rightarrow> t \<notin> {0, 1, 2, 3, 4, 5, 6, 7, 8, 9, 10, 11, 65535} | _ \<Rightarrow> True)"

lemma act_len_sent [simp]: "act_len (act_sent a) = act_len a"
  by (cases a) auto

lemma act_type_sent [simp]: "act_type (act_sent a) = act_type a"
  by (cases a) auto

lemma act_sent_sent [simp]: "act_sent (act_sent a) = act_sent a"
  by (cases a) auto

lemma length_act_body: "act_ok a \<Longrightarrow> length (act_body a) + 4 = act_len a"
  by (cases a) (auto simp: act_ok_def)

lemma rd_zeros [codec]: "rd_skip 4 (pack_L 0 @ r) = Inr ((), r)"
  by (simp add: rd_skip_def rd_bytes_append)

lemma rd_ends [codec]:
  "rd_H (pack_H h) = Inr (h, [])" "rd_L (pack_L l) = Inr (l, [])" "rd_skip n (pad n) = Inr ((), [])"
  "rd_bytes (length b) b = Inr (b, [])" "rd_skip 4 (pack_L 0) = Inr ((), [])"
  using rd_pack(2) [of h "[]"] rd_pack(3) [of l "[]"] rd_skip_pad(1) [of n "[]"] rd_bytes_append [of b _ "[]"] rd_zeros [of "[]"]
  by simp_all

lemma act_body_roundtrip:
  assumes "act_ok a"
  shows "act_body_unpack (act_type a) (act_len a) (act_body a) = Inr (a, [])"
proof (cases a)
  case (ActDlAddr s x)
  then show ?thesis using assms by (cases s) (simp_all add: act_body_unpack_def codec act_ok_def)
next
  case (ActNwAddr s x)
  then show ?thesis by (cases s) (simp_all add: act_body_unpack_def codec)
next
  case (ActTpPort s x)
  then show ?thesis by (cases s) (simp_all add: act_body_unpack_def codec)
next
  case (ActGeneric t d)
  then show ?thesis using assms by (simp add: act_body_unpack_def codec act_ok_def)
qed (simp_all add: act_body_unpack_def codec)

lemma act_next_pack:
  assumes "act_ok a" "act_pack a = Inr bs"
  shows "act_next (bs @ r) = Inr (act_sent a, r)" "length bs = act_len a"
proof -
  let ?a = "act_sent a"
  have ok: "act_ok ?a" using assms(1) by (cases a) (auto simp: act_ok_def)
  from assms(2) have l: "act_len a < 65536"
    and bs: "bs = pack_H (act_type a) @ pack_H (word_of_nat (act_len a)) @ act_body ?a"
    by (auto simp: act_pack_def Let_def pack_nat_H_def split: if_splits)
  show len: "length bs = act_len a"
    using length_act_body [OF ok] by (simp add: bs)
  have "unat (u16_at (bs @ r) 2) = act_len a"
    using l by (simp add: bs u16_at_def py_slice_def unat_of_nat)
  moreover have "act_unpack bs = Inr (?a, [])"
    using l act_body_roundtrip [OF ok] by (simp add: act_unpack_def bs codec unat_of_nat)
  ultimately show "act_next (bs @ r) = Inr (?a, r)"
    using len act_len_pos [of a] by (simp add: act_next_def Let_def)
qed

interpretation act_wire: wire_format act_pack act_next act_ok act_sent
  by unfold_locales (rule act_next_pack)

lemma act_loop_pack:
  "list_all act_ok as \<Longrightarrow> pack_actions as = Inr bs \<Longrightarrow> act_loop (length bs) (bs @ r) = Inr (map act_sent as, r)"
  "list_all act_ok as \<Longrightarrow> pack_actions as = Inr bs \<Longrightarrow> length bs = sum_list (map act_len as)"
proof (induction as arbitrary: bs)
  case Nil
  {
    case 1
    then show ?case by (simp add: pack_actions_def act_loop.simps)
  next
    case 2
    then show ?case by (simp add: pack_actions_def)
  }
next
  case (Cons a as)
  have split: "\<exists>b bs'. act_pack a = Inr b \<and> pack_actions as = Inr bs' \<and> bs = b @ bs'" if "pack_actions (a # as) = Inr bs" for bs
    using that by (auto simp: pack_actions_def)
  {
    case 1
    then obtain b bs' where b: "act_pack a = Inr b" "pack_actions as = Inr bs'" "bs = b @ bs'" using split by blast
    with 1 have "length b = act_len a" "act_next (b @ bs' @ r) = Inr (act_sent a, bs' @ r)"
      using act_next_pack by auto
    then show ?case using b 1 Cons.IH(1) [of bs'] act_len_gt0 [of a] by (subst act_loop.simps) simp
  next
    case 2
    then obtain b bs' where "act_pack a = Inr b" "pack_actions as = Inr bs'" "bs = b @ bs'" using split by blast
    then show ?case using 2 Cons.IH(2) [of bs'] act_next_pack(2) [of a b] by simp
  }
qed

text \<open>
  Reading back a packed list of actions gives the same actions in order, except that an output that
  does not go to the controller has lost its \<open>max_len\<close>, and stops at the first byte after them.
\<close>

theorem actions_roundtrip:
  assumes "list_all act_ok as" "pack_actions as = Inr bs"
  shows "unpack_actions (sum_list (map act_len as)) (bs @ r) = Inr (map act_sent as, r)"
  using act_loop_pack [OF assms] by (simp add: unpack_actions_def)

theorem actions_roundtrip_witness:
  "unpack_actions 32 (pack_H 4 @ pack_H 16 @ replicate 6 7 @ pad 6 @ pack_H 0 @ pack_H 8 @ pack_H 3 @ pack_H 0 @
      pack_H 3 @ pack_H 8 @ pack_L 0 @ [1, 2])
    = Inr ([ActDlAddr SetSrc (replicate 6 7), ActOutput 3 0, ActStripVlan], [1, 2])"
proof -
  have p: "pack_actions [ActDlAddr SetSrc (replicate 6 7), ActOutput 3 100, ActStripVlan] =
    Inr (pack_H 4 @ pack_H 16 @ replicate 6 7 @ pad 6 @ pack_H 0 @ pack_H 8 @ pack_H 3 @ pack_H 0 @ pack_H 3 @ pack_H 8 @ pack_L 0)"
    by code_simp
  have "list_all act_ok [ActDlAddr SetSrc (replicate 6 7), ActOutput 3 100, ActStripVlan]" by (simp add: act_ok_def)
  from actions_roundtrip [OF this p, of "[1, 2]"] show ?thesis by (simp add: OFPP_CONTROLLER_def)
qed

lemma act_body_unpack_props:
  assumes "act_body_unpack t len bs = Inr (a, r)"
  shows "act_type a = t \<and> act_ok a"
  using assms unfolding act_body_unpack_def
  by (auto simp: act_ok_def rd_bytes_Inr split: if_splits)

lemma act_next_props: "act_next bs = Inr (a, r) \<Longrightarrow> act_ok a \<and> r = drop (act_len a) bs \<and> act_len a \<le> length bs"
  using act_body_unpack_props
  by (fastforce simp: act_next_def act_unpack_def Let_def split: if_splits)

lemma act_loop_props:
  "act_loop left bs = Inr (as, r) \<Longrightarrow> list_all act_ok as \<and> left \<le> sum_list (map act_len as) \<and>
     sum_list (map act_len as) \<le> length bs \<and> r = drop (sum_list (map act_len as)) bs"
proof (induction left bs arbitrary: as r rule: act_loop.induct)
  case (1 left bs)
  show ?case
  proof (cases "left = 0")
    case True
    then show ?thesis using 1 by (simp add: act_loop.simps)
  next
    case False
    with 1(2) obtain a b as' where n: "act_next bs = Inr (a, b)" and l: "act_loop (left - act_len a) b = Inr (as', r)"
      and as: "as = a # as'"
      by (subst (asm) act_loop.simps) auto
    have "list_all act_ok as' \<and> left - act_len a \<le> sum_list (map act_len as') \<and>
       sum_list (map act_len as') \<le> length b \<and> r = drop (sum_list (map act_len as')) b"
      using 1(1) [OF False n] l by simp
    with act_next_props [OF n] as show ?thesis by (auto simp: add.commute)
  qed
qed

text \<open>
  \<open>_unpack_actions\<close> ends on every input.  When it does not raise, the actions it returns are well
  formed, cover at least the length asked for (the last one may go beyond it), and what is left is the
  buffer after their lengths.
\<close>

theorem unpack_actions_consumes:
  assumes "unpack_actions n bs = Inr (as, r)"
  shows "list_all act_ok as \<and> n \<le> sum_list (map act_len as) \<and> bs = take (sum_list (map act_len as)) bs @ r"
  using assms act_loop_props [of n bs as r] by (auto simp: unpack_actions_def split: if_splits)

theorem unpack_actions_consumes_witness:
  "list_all act_ok [ActOutput 3 0] \<and> 5 \<le> sum_list (map act_len [ActOutput 3 0])"
proof -
  have "unpack_actions 5 [0, 0, 0, 8, 0, 3, 0, 0, 9] = Inr ([ActOutput 3 0], [9])" by code_simp
  from unpack_actions_consumes [OF this] show ?thesis by simp
qed

end
