(* ===== verification/Stats.thy ===== *)
theory Stats
  imports Actions
begin

text \<open>
  The bodies of statistics requests and replies of \<open>libopenflow_01.py\<close> (\<open>ofp_desc_stats\<close> to
  \<open>ofp_generic_stats_body\<close>), with packing and reading, and the statistics request object with its cache
  of the packed body.  Counters and durations are Python integers, which \<open>struct.pack\<close> refuses when they
  do not fit; the texts are latin-1, one byte per character.  The assertions at the end of the readers
  that compare the number of bytes read with the length of the object hold by construction.
\<close>

section \<open>Counters\<close>

definition pack_nat_L :: "nat \<Rightarrow> bytes result" where
  "pack_nat_L n = (if n < 2 ^ 32 then Inr (pack_L (word_of_nat n)) else Inl StructError)"

definition pack_nat_Q :: "nat \<Rightarrow> bytes result" where
  "pack_nat_Q n = (if n < 2 ^ 64 then Inr (pack_Q (word_of_nat n)) else Inl StructError)"

definition rd_nat_L :: "nat reader" where
  "rd_nat_L bs = rbind (rd_L bs) (\<lambda>(w, r). Inr (unat w, r))"

definition rd_nat_Q :: "nat reader" where
  "rd_nat_Q bs = rbind (rd_Q bs) (\<lambda>(w, r). Inr (unat w, r))"

lemma pack_nat_L_Inr: "pack_nat_L n = Inr bs \<Longrightarrow> length bs = 4 \<and> rd_nat_L (bs @ r) = Inr (n, r)"
  by (auto simp: pack_nat_L_def rd_nat_L_def codec unat_of_nat split: if_splits)

lemma pack_nat_Q_Inr: "pack_nat_Q n = Inr bs \<Longrightarrow> length bs = 8 \<and> rd_nat_Q (bs @ r) = Inr (n, r)"
  by (auto simp: pack_nat_Q_def rd_nat_Q_def codec unat_of_nat split: if_splits)

section \<open>\<open>OFPST_DESC\<close>\<close>

definition DESC_STR_LEN :: nat where "DESC_STR_LEN = 256"
definition SERIAL_NUM_LEN :: nat where "SERIAL_NUM_LEN = 32"

record desc_stats =
  ds_mfr_desc :: bytes
  ds_hw_desc :: bytes
  ds_sw_desc :: bytes
  ds_serial_num :: bytes
  ds_dp_desc :: bytes

definition desc_valid :: "desc_stats \<Rightarrow> bool" where
  "desc_valid d \<longleftrightarrow> length (ds_mfr_desc d) \<le> DESC_STR_LEN \<and> length (ds_hw_desc d) \<le> DESC_STR_LEN \<and>
     length (ds_sw_desc d) \<le> DESC_STR_LEN \<and> length (ds_serial_num d) \<le> SERIAL_NUM_LEN \<and>
     length (ds_dp_desc d) \<le> DESC_STR_LEN"

definition desc_pack :: "desc_stats \<Rightarrow> bytes result" where
  "desc_pack d =
     (if \<not> desc_valid d then Inl RuntimeError
      else Inr (packzs (ds_mfr_desc d) DESC_STR_LEN @ packzs (ds_hw_desc d) DESC_STR_LEN @
        packzs (ds_sw_desc d) DESC_STR_LEN @ packzs (ds_serial_num d) SERIAL_NUM_LEN @
        packzs (ds_dp_desc d) DESC_STR_LEN))"

definition desc_unpack :: "desc_stats reader" where
  "desc_unpack bs =
     rbind (rd_zs DESC_STR_LEN bs) (\<lambda>(m, bs). rbind (rd_zs DESC_STR_LEN bs) (\<lambda>(h, bs).
     rbind (rd_zs DESC_STR_LEN bs) (\<lambda>(s, bs). rbind (rd_zs SERIAL_NUM_LEN bs) (\<lambda>(n, bs).
     rbind (rd_zs DESC_STR_LEN bs) (\<lambda>(d, bs).
       Inr (\<lparr>ds_mfr_desc = m, ds_hw_desc = h, ds_sw_desc = s, ds_serial_num = n, ds_dp_desc = d\<rparr>, bs))))))"

definition desc_ok :: "desc_stats \<Rightarrow> bool" where
  "desc_ok d \<longleftrightarrow> 0 \<notin> set (ds_mfr_desc d) \<and> 0 \<notin> set (ds_hw_desc d) \<and> 0 \<notin> set (ds_sw_desc d) \<and>
     0 \<notin> set (ds_serial_num d) \<and> 0 \<notin> set (ds_dp_desc d)"

interpretation desc_wire: wire_format desc_pack desc_unpack desc_ok id
  by unfold_locales
     (auto simp: desc_pack_def desc_unpack_def desc_ok_def desc_valid_def codec split: if_splits)

section \<open>\<open>OFPST_FLOW\<close> and \<open>OFPST_AGGREGATE\<close>\<close>

text \<open>The two request bodies have the same fields and the same format.\<close>

record flow_stats_request =
  fq_match :: ofp_match
  fq_table_id :: byte
  fq_out_port :: "16 word"

definition flow_stats_request_pack :: "flow_stats_request \<Rightarrow> bytes" where
  "flow_stats_request_pack q =
     match_pack False (fq_match q) @ [fq_table_id q, 0] @ pack_H (fq_out_port q)"

definition flow_stats_request_unpack :: "flow_stats_request reader" where
  "flow_stats_request_unpack bs =
     rbind (match_unpack False bs) (\<lambda>(m, bs). rbind (rd_B bs) (\<lambda>(t, bs). rbind (rd_B bs) (\<lambda>(pad, bs).
     rbind (rd_H bs) (\<lambda>(p, bs). rbind (py_assert (pad = 0)) (\<lambda>_.
       Inr (\<lparr>fq_match = m, fq_table_id = t, fq_out_port = p\<rparr>, bs))))))"

record flow_stats =
  fs_table_id :: byte
  fs_match :: ofp_match
  fs_duration_sec :: nat
  fs_duration_nsec :: nat
  fs_priority :: "16 word"
  fs_idle_timeout :: "16 word"
  fs_hard_timeout :: "16 word"
  fs_cookie :: "64 word"
  fs_packet_count :: nat
  fs_byte_count :: nat
  fs_actions :: "action list"

definition flow_stats_len :: "flow_stats \<Rightarrow> nat" where
  "flow_stats_len f = 88 + sum_list (map act_len (fs_actions f))"

definition flow_stats_pack :: "flow_stats \<Rightarrow> bytes result" where
  "flow_stats_pack f =
     rbind (pack_nat_H (flow_stats_len f)) (\<lambda>l. rbind (pack_nat_L (fs_duration_sec f)) (\<lambda>ds.
     rbind (pack_nat_L (fs_duration_nsec f)) (\<lambda>dn. rbind (pack_nat_Q (fs_packet_count f)) (\<lambda>pc.
     rbind (pack_nat_Q (fs_byte_count f)) (\<lambda>bc. rbind (pack_actions (fs_actions f)) (\<lambda>acts.
       Inr (l @ [fs_table_id f, 0] @ match_pack False (fs_match f) @ ds @ dn @ pack_H (fs_priority f) @
            pack_H (fs_idle_timeout f) @ pack_H (fs_hard_timeout f) @ pad 6 @ pack_Q (fs_cookie f) @ pc @ bc @ acts)))))))"

definition flow_stats_unpack :: "flow_stats reader" where
  "flow_stats_unpack bs =
     rbind (rd_H bs) (\<lambda>(len, bs). rbind (rd_B bs) (\<lambda>(t, bs). rbind (rd_B bs) (\<lambda>(pad, bs).
     rbind (py_assert (pad = 0)) (\<lambda>_. rbind (match_unpack False bs) (\<lambda>(m, bs).
     rbind (rd_nat_L bs) (\<lambda>(ds, bs). rbind (rd_nat_L bs) (\<lambda>(dn, bs). rbind (rd_H bs) (\<lambda>(prio, bs).
     rbind (rd_H bs) (\<lambda>(idle, bs). rbind (rd_H bs) (\<lambda>(hard, bs). rbind (rd_skip 6 bs) (\<lambda>(_, bs).
     rbind (rd_Q bs) (\<lambda>(cookie, bs). rbind (rd_nat_Q bs) (\<lambda>(pc, bs). rbind (rd_nat_Q bs) (\<lambda>(bc, bs).
     rbind (unpack_actions (unat len - 88) bs) (\<lambda>(acts, bs).
       Inr (\<lparr>fs_table_id = t, fs_match = m, fs_duration_sec = ds, fs_duration_nsec = dn, fs_priority = prio,
             fs_idle_timeout = idle, fs_hard_timeout = hard, fs_cookie = cookie, fs_packet_count = pc,
             fs_byte_count = bc, fs_actions = acts\<rparr>, bs))))))))))))))))"

record aggregate_stats =
  as_packet_count :: nat
  as_byte_count :: nat
  as_flow_count :: nat

definition aggregate_pack :: "aggregate_stats \<Rightarrow> bytes result" where
  "aggregate_pack a =
     rbind (pack_nat_Q (as_packet_count a)) (\<lambda>p. rbind (pack_nat_Q (as_byte_count a)) (\<lambda>b.
     rbind (pack_nat_L (as_flow_count a)) (\<lambda>f. Inr (p @ b @ f @ pad 4))))"

definition aggregate_unpack :: "aggregate_stats reader" where
  "aggregate_unpack bs =
     rbind (rd_nat_Q bs) (\<lambda>(p, bs). rbind (rd_nat_Q bs) (\<lambda>(b, bs). rbind (rd_nat_L bs) (\<lambda>(f, bs).
     rbind (rd_skip 4 bs) (\<lambda>(_, bs).
       Inr (\<lparr>as_packet_count = p, as_byte_count = b, as_flow_count = f\<rparr>, bs)))))"

interpretation aggregate_wire: wire_format aggregate_pack aggregate_unpack "\<lambda>_. True" id
proof
  fix a bs r assume "aggregate_pack a = Inr bs"
  then obtain p b f where "pack_nat_Q (as_packet_count a) = Inr p" "pack_nat_Q (as_byte_count a) = Inr b"
    "pack_nat_L (as_flow_count a) = Inr f" "bs = p @ b @ f @ pad 4"
    by (auto simp: aggregate_pack_def)
  then show "aggregate_unpack (bs @ r) = Inr (id a, r)"
    by (simp add: aggregate_unpack_def pack_nat_Q_Inr pack_nat_L_Inr codec)
qed

section \<open>\<open>OFPST_TABLE\<close>, \<open>OFPST_PORT\<close> and \<open>OFPST_QUEUE\<close>\<close>

record table_stats =
  ts_table_id :: byte
  ts_name :: bytes
  ts_wildcards :: "32 word"
  ts_max_entries :: "32 word"
  ts_active_count :: nat
  ts_lookup_count :: nat
  ts_matched_count :: nat

text \<open>Packing adds the text of the name to bytes, which raises; before that, a long name is refused.\<close>

definition table_stats_pack :: "table_stats \<Rightarrow> bytes result" where
  "table_stats_pack t = (if 32 < length (ts_name t) then Inl RuntimeError else Inl TypeError)"

definition table_stats_unpack :: "table_stats reader" where
  "table_stats_unpack bs =
     rbind (rd_B bs) (\<lambda>(t, bs). rbind (rd_skip 3 bs) (\<lambda>(_, bs). rbind (rd_zs 32 bs) (\<lambda>(n, bs).
     rbind (rd_L bs) (\<lambda>(w, bs). rbind (rd_L bs) (\<lambda>(m, bs). rbind (rd_nat_L bs) (\<lambda>(a, bs).
     rbind (rd_nat_Q bs) (\<lambda>(l, bs). rbind (rd_nat_Q bs) (\<lambda>(c, bs).
       Inr (\<lparr>ts_table_id = t, ts_name = n, ts_wildcards = w, ts_max_entries = m, ts_active_count = a,
             ts_lookup_count = l, ts_matched_count = c\<rparr>, bs)))))))))"

record port_stats =
  ps_port_no :: "16 word"
  ps_rx_packets :: nat
  ps_tx_packets :: nat
  ps_rx_bytes :: nat
  ps_tx_bytes :: nat
  ps_rx_dropped :: nat
  ps_tx_dropped :: nat
  ps_rx_errors :: nat
  ps_tx_errors :: nat
  ps_rx_frame_err :: nat
  ps_rx_over_err :: nat
  ps_rx_crc_err :: nat
  ps_collisions :: nat

definition port_stats_new :: "16 word \<Rightarrow> port_stats" where
  "port_stats_new p = \<lparr>ps_port_no = p, ps_rx_packets = 0, ps_tx_packets = 0, ps_rx_bytes = 0, ps_tx_bytes = 0,
     ps_rx_dropped = 0, ps_tx_dropped = 0, ps_rx_errors = 0, ps_tx_errors = 0, ps_rx_frame_err = 0,
     ps_rx_over_err = 0, ps_rx_crc_err = 0, ps_collisions = 0\<rparr>"

definition port_counters :: "port_stats \<Rightarrow> nat list" where
  "port_counters s = [ps_rx_packets s, ps_tx_packets s, ps_rx_bytes s, ps_tx_bytes s, ps_rx_dropped s, ps_tx_dropped s,
     ps_rx_errors s, ps_tx_errors s, ps_rx_frame_err s, ps_rx_over_err s, ps_rx_crc_err s, ps_collisions s]"

definition port_stats_pack :: "port_stats \<Rightarrow> bytes result" where
  "port_stats_pack s =
     rbind (enc_all pack_nat_Q (port_counters s)) (\<lambda>cs. Inr (pack_H (ps_port_no s) @ pad 6 @ cs))"

definition port_stats_unpack :: "port_stats reader" where
  "port_stats_unpack bs =
     rbind (rd_H bs) (\<lambda>(p, bs). rbind (rd_skip 6 bs) (\<lambda>(_, bs). rbind (rd_many rd_nat_Q 12 bs) (\<lambda>(c, bs).
       Inr (\<lparr>ps_port_no = p, ps_rx_packets = c ! 0, ps_tx_packets = c ! 1, ps_rx_bytes = c ! 2, ps_tx_bytes = c ! 3,
             ps_rx_dropped = c ! 4, ps_tx_dropped = c ! 5, ps_rx_errors = c ! 6, ps_tx_errors = c ! 7,
             ps_rx_frame_err = c ! 8, ps_rx_over_err = c ! 9, ps_rx_crc_err = c ! 10, ps_collisions = c ! 11\<rparr>, bs))))"

definition port_stats_add :: "port_stats \<Rightarrow> port_stats \<Rightarrow> port_stats" where
  "port_stats_add a b = \<lparr>ps_port_no = (if ps_port_no a = ps_port_no b then ps_port_no a else OFPP_NONE),
     ps_rx_packets = ps_rx_packets a + ps_rx_packets b, ps_tx_packets = ps_tx_packets a + ps_tx_packets b,
     ps_rx_bytes = ps_rx_bytes a + ps_rx_bytes b, ps_tx_bytes = ps_tx_bytes a + ps_tx_bytes b,
     ps_rx_dropped = ps_rx_dropped a + ps_rx_dropped b, ps_tx_dropped = ps_tx_dropped a + ps_tx_dropped b,
     ps_rx_errors = ps_rx_errors a + ps_rx_errors b, ps_tx_errors = ps_tx_errors a + ps_tx_errors b,
     ps_rx_frame_err = ps_rx_frame_err a + ps_rx_frame_err b, ps_rx_over_err = ps_rx_over_err a + ps_rx_over_err b,
     ps_rx_crc_err = ps_rx_crc_err a + ps_rx_crc_err b, ps_collisions = ps_collisions a + ps_collisions b\<rparr>"

interpretation counter_wire: wire_format pack_nat_Q rd_nat_Q "\<lambda>_. True" id
  by unfold_locales (simp add: pack_nat_Q_Inr)

interpretation port_stats_wire: wire_format port_stats_pack port_stats_unpack "\<lambda>_. True" id
proof
  fix s bs r assume "port_stats_pack s = Inr bs"
  then obtain cs where c: "enc_all pack_nat_Q (port_counters s) = Inr cs" and bs: "bs = pack_H (ps_port_no s) @ pad 6 @ cs"
    by (auto simp: port_stats_pack_def)
  have "rd_many rd_nat_Q (length (port_counters s)) (cs @ r) = Inr (map id (port_counters s), r)"
    by (rule counter_wire.dec_many [OF _ c]) (simp add: list_all_iff)
  moreover have "length (port_counters s) = 12" by (simp add: port_counters_def)
  ultimately have "rd_many rd_nat_Q 12 (cs @ r) = Inr (port_counters s, r)"
    by (simp only: list.map_id)
  then show "port_stats_unpack (bs @ r) = Inr (id s, r)"
    by (simp add: port_stats_unpack_def bs codec del: rd_many.simps) (simp add: port_counters_def)
qed

record queue_stats =
  qs_port_no :: "16 word"
  qs_queue_id :: "32 word"
  qs_tx_bytes :: nat
  qs_tx_packets :: nat
  qs_tx_errors :: nat

definition queue_stats_pack :: "queue_stats \<Rightarrow> bytes result" where
  "queue_stats_pack q =
     rbind (pack_nat_Q (qs_tx_bytes q)) (\<lambda>b. rbind (pack_nat_Q (qs_tx_packets q)) (\<lambda>p.
     rbind (pack_nat_Q (qs_tx_errors q)) (\<lambda>e.
       Inr (pack_H (qs_port_no q) @ pad 2 @ pack_L (qs_queue_id q) @ b @ p @ e))))"

definition queue_stats_unpack :: "queue_stats reader" where
  "queue_stats_unpack bs =
     rbind (rd_H bs) (\<lambda>(p, bs). rbind (rd_skip 2 bs) (\<lambda>(_, bs). rbind (rd_L bs) (\<lambda>(q, bs).
     rbind (rd_nat_Q bs) (\<lambda>(b, bs). rbind (rd_nat_Q bs) (\<lambda>(c, bs). rbind (rd_nat_Q bs) (\<lambda>(e, bs).
       Inr (\<lparr>qs_port_no = p, qs_queue_id = q, qs_tx_bytes = b, qs_tx_packets = c, qs_tx_errors = e\<rparr>, bs)))))))"

interpretation queue_stats_wire: wire_format queue_stats_pack queue_stats_unpack "\<lambda>_. True" id
proof
  fix q bs r assume "queue_stats_pack q = Inr bs"
  then obtain b p e where "pack_nat_Q (qs_tx_bytes q) = Inr b" "pack_nat_Q (qs_tx_packets q) = Inr p"
    "pack_nat_Q (qs_tx_errors q) = Inr e" "bs = pack_H (qs_port_no q) @ pad 2 @ pack_L (qs_queue_id q) @ b @ p @ e"
    by (auto simp: queue_stats_pack_def)
  then show "queue_stats_unpack (bs @ r) = Inr (id q, r)"
    by (simp add: queue_stats_unpack_def pack_nat_Q_Inr codec)
qed

section \<open>Flow statistics on the wire\<close>

definition flow_stats_ok :: "flow_stats \<Rightarrow> bool" where
  "flow_stats_ok f \<longleftrightarrow> macs_ok (fs_match f) \<and> list_all act_ok (fs_actions f)"

definition flow_stats_sent :: "flow_stats \<Rightarrow> flow_stats" where
  "flow_stats_sent f = f\<lparr>fs_match := match_sent False (fs_match f), fs_actions := map act_sent (fs_actions f)\<rparr>"

lemma unpack_packed_actions:
  "list_all act_ok as \<Longrightarrow> pack_actions as = Inr bs \<Longrightarrow>
     unpack_actions (sum_list (map act_len as)) (bs @ r) = Inr (map act_sent as, r)"
  using act_loop_pack(1) [of as bs r] act_loop_pack(2) [of as bs] by (simp add: unpack_actions_def)

interpretation flow_stats_wire: wire_format flow_stats_pack flow_stats_unpack flow_stats_ok flow_stats_sent
proof
  fix f bs r assume ok: "flow_stats_ok f" and "flow_stats_pack f = Inr bs"
  then obtain ds dn pc bc acts where len: "flow_stats_len f < 65536"
    and p: "pack_nat_L (fs_duration_sec f) = Inr ds" "pack_nat_L (fs_duration_nsec f) = Inr dn"
      "pack_nat_Q (fs_packet_count f) = Inr pc" "pack_nat_Q (fs_byte_count f) = Inr bc"
    and acts: "pack_actions (fs_actions f) = Inr acts"
    and bs: "bs = pack_H (word_of_nat (flow_stats_len f)) @ [fs_table_id f, 0] @ match_pack False (fs_match f) @ ds @ dn @
       pack_H (fs_priority f) @ pack_H (fs_idle_timeout f) @ pack_H (fs_hard_timeout f) @ pad 6 @ pack_Q (fs_cookie f) @
       pc @ bc @ acts"
    by (auto simp: flow_stats_pack_def pack_nat_H_def split: if_splits)
  have "unat (word_of_nat (flow_stats_len f) :: 16 word) = flow_stats_len f"
    using len by (simp add: unat_of_nat)
  then have "unat (word_of_nat (flow_stats_len f) :: 16 word) - 88 = sum_list (map act_len (fs_actions f))"
    by (simp only: flow_stats_len_def diff_add_inverse)
  moreover have "unpack_actions (sum_list (map act_len (fs_actions f))) (acts @ r) = Inr (map act_sent (fs_actions f), r)"
    using ok acts by (simp add: unpack_packed_actions flow_stats_ok_def)
  ultimately show "flow_stats_unpack (bs @ r) = Inr (flow_stats_sent f, r)"
    using ok p by (simp add: flow_stats_unpack_def bs codec pack_nat_L_Inr pack_nat_Q_Inr flow_stats_ok_def flow_stats_sent_def)
qed

section \<open>Request bodies\<close>

datatype stats_request_body =
    SRDesc
  | SRFlow flow_stats_request
  | SRAggregate flow_stats_request
  | SRTable
  | SRPort "16 word"
  | SRQueue "16 word" "32 word"
  | SRVendor "32 word" bytes
  | SRGeneric bytes

text \<open>The type that a body class carries; a generic body has none.\<close>

fun stats_request_type :: "stats_request_body \<Rightarrow> 16 word option" where
  "stats_request_type SRDesc = Some 0"
| "stats_request_type (SRFlow _) = Some 1"
| "stats_request_type (SRAggregate _) = Some 2"
| "stats_request_type SRTable = Some 3"
| "stats_request_type (SRPort _) = Some 4"
| "stats_request_type (SRQueue _ _) = Some 5"
| "stats_request_type (SRVendor _ _) = Some 65535"
| "stats_request_type (SRGeneric _) = None"

definition port_stats_request_bytes :: "16 word \<Rightarrow> bytes" where [simp]: "port_stats_request_bytes p = pack_H p @ pad 6"
definition queue_stats_request_bytes :: "16 word \<Rightarrow> 32 word \<Rightarrow> bytes" where [simp]: "queue_stats_request_bytes p q = pack_H p @ pad 2 @ pack_L q"
definition vendor_stats_bytes :: "32 word \<Rightarrow> bytes \<Rightarrow> bytes" where [simp]: "vendor_stats_bytes v d = pack_L v @ d"

text \<open>\<open>ofp_generic_stats_body.pack\<close> adds to a local variable that was never assigned.\<close>

fun stats_request_body_pack :: "stats_request_body \<Rightarrow> bytes result" where
  "stats_request_body_pack SRDesc = Inr []"
| "stats_request_body_pack (SRFlow q) = Inr (flow_stats_request_pack q)"
| "stats_request_body_pack (SRAggregate q) = Inr (flow_stats_request_pack q)"
| "stats_request_body_pack SRTable = Inr []"
| "stats_request_body_pack (SRPort p) = Inr (port_stats_request_bytes p)"
| "stats_request_body_pack (SRQueue p q) = Inr (queue_stats_request_bytes p q)"
| "stats_request_body_pack (SRVendor v d) = Inr (vendor_stats_bytes v d)"
| "stats_request_body_pack (SRGeneric d) = Inl NameError"

definition port_stats_request_read :: "bytes \<Rightarrow> stats_request_body result" where [simp]:
  "port_stats_request_read body =
     rbind (rd_H body) (\<lambda>(p, bs). rbind (rd_skip 6 bs) (\<lambda>_. Inr (SRPort p)))"

definition queue_stats_request_read :: "bytes \<Rightarrow> stats_request_body result" where [simp]:
  "queue_stats_request_read body =
     rbind (rd_H body) (\<lambda>(p, bs). rbind (rd_H bs) (\<lambda>(pad, bs). rbind (rd_L bs) (\<lambda>(q, _).
             rbind (py_assert (pad = 0)) (\<lambda>_. Inr (SRQueue p q)))))"

definition vendor_stats_request_read :: "bytes \<Rightarrow> stats_request_body result" where [simp]:
  "vendor_stats_request_read body =
     rbind (rd_L body) (\<lambda>(v, bs). rbind (rd_bytes (length body - 4) bs) (\<lambda>(d, _). Inr (SRVendor v d)))"

definition empty_stats_request_read :: "stats_request_body \<Rightarrow> bytes \<Rightarrow> stats_request_body result" where [simp]:
  "empty_stats_request_read b body = (if body \<noteq> [] then Inl RuntimeError else Inr b)"

definition stats_request_body_unpack :: "16 word \<Rightarrow> bytes \<Rightarrow> stats_request_body result" where
  "stats_request_body_unpack t body =
     (if t = 0 then empty_stats_request_read SRDesc body
      else if t = 1 then rbind (flow_stats_request_unpack body) (\<lambda>(q, _). Inr (SRFlow q))
      else if t = 2 then rbind (flow_stats_request_unpack body) (\<lambda>(q, _). Inr (SRAggregate q))
      else if t = 3 then empty_stats_request_read SRTable body
      else if t = 4 then port_stats_request_read body
      else if t = 5 then queue_stats_request_read body
      else if t = 65535 then vendor_stats_request_read body
      else Inr (SRGeneric body))"

text \<open>
  The request object packs its body once and keeps the bytes; assigning another body resets an
  attribute of a different name, so the old bytes stay.
\<close>

record stats_request =
  sq_type :: "16 word option"
  sq_flags :: "16 word"
  sq_body :: stats_request_body
  sq_body_packed :: "bytes option"

definition sq_set_body :: "stats_request_body \<Rightarrow> stats_request \<Rightarrow> stats_request" where
  "sq_set_body b q = q\<lparr>sq_body := b\<rparr>"

definition sq_pack_body :: "(stats_request, bytes) sm" where
  "sq_pack_body =
     sbind (sget sq_body_packed) (\<lambda>c. case c of
       Some bs \<Rightarrow> sret bs
     | None \<Rightarrow> sbind (sget sq_body) (\<lambda>b. sbind (slift (stats_request_body_pack b)) (\<lambda>bs.
         sthen (smod (\<lambda>q. q\<lparr>sq_body_packed := Some bs\<rparr>)) (sret bs))))"

text \<open>A request that was packed once goes on sending the first body after another was assigned.\<close>

lemma stats_request_stale_body:
  assumes "sq_pack_body q = (Inr bs, q')"
  shows "sq_pack_body (sq_set_body b q') = (Inr bs, sq_set_body b q')"
  using assms
  by (auto simp: sq_pack_body_def sq_set_body_def sbind_def sthen_def sm_run split: option.splits sum.splits prod.splits)

section \<open>Reply bodies\<close>

datatype stats_reply_body =
    RDesc desc_stats
  | RFlow "flow_stats list"
  | RAggregate aggregate_stats
  | RTable "table_stats list"
  | RPort "port_stats list"
  | RQueue "queue_stats list"
  | RVendor "32 word" bytes
  | RRaw "16 word" bytes

fun stats_reply_type :: "stats_reply_body \<Rightarrow> 16 word" where
  "stats_reply_type (RDesc _) = 0"
| "stats_reply_type (RFlow _) = 1"
| "stats_reply_type (RAggregate _) = 2"
| "stats_reply_type (RTable _) = 3"
| "stats_reply_type (RPort _) = 4"
| "stats_reply_type (RQueue _) = 5"
| "stats_reply_type (RVendor _ _) = 65535"
| "stats_reply_type (RRaw t _) = t"

text \<open>The length of a vendor body is a static method that uses \<open>self\<close>.\<close>

fun stats_reply_body_len :: "stats_reply_body \<Rightarrow> nat result" where
  "stats_reply_body_len (RDesc _) = Inr 1056"
| "stats_reply_body_len (RFlow fs) = Inr (sum_list (map flow_stats_len fs))"
| "stats_reply_body_len (RAggregate _) = Inr 24"
| "stats_reply_body_len (RTable ts) = Inr (64 * length ts)"
| "stats_reply_body_len (RPort ps) = Inr (104 * length ps)"
| "stats_reply_body_len (RQueue qs) = Inr (32 * length qs)"
| "stats_reply_body_len (RVendor _ _) = Inl NameError"
| "stats_reply_body_len (RRaw _ b) = Inr (length b)"

fun stats_reply_body_pack :: "stats_reply_body \<Rightarrow> bytes result" where
  "stats_reply_body_pack (RDesc d) = desc_pack d"
| "stats_reply_body_pack (RFlow fs) = enc_all flow_stats_pack fs"
| "stats_reply_body_pack (RAggregate a) = aggregate_pack a"
| "stats_reply_body_pack (RTable ts) = enc_all table_stats_pack ts"
| "stats_reply_body_pack (RPort ps) = enc_all port_stats_pack ps"
| "stats_reply_body_pack (RQueue qs) = enc_all queue_stats_pack qs"
| "stats_reply_body_pack (RVendor v d) = Inr (pack_L v @ d)"
| "stats_reply_body_pack (RRaw _ b) = Inr b"

text \<open>The loop over the parts of a list reply, with its assertion that every part took bytes away.\<close>

function rd_all :: "'a reader \<Rightarrow> bytes \<Rightarrow> 'a list result" where
  "rd_all dec bs =
     (if bs = [] then Inr []
      else rbind (dec bs) (\<lambda>p.
        if length bs \<le> length (snd p) then Inl AssertionError
        else rbind (rd_all dec (snd p)) (\<lambda>xs. Inr (fst p # xs))))"
  by pat_completeness auto
termination
  by (relation "measure (\<lambda>(_, bs). length bs)") auto

declare rd_all.simps [simp del]

lemma rd_all_Nil [simp]: "rd_all dec [] = Inr []"
  by (simp add: rd_all.simps)

definition stats_reply_body_unpack :: "16 word \<Rightarrow> bytes \<Rightarrow> stats_reply_body result" where
  "stats_reply_body_unpack t packed =
     (if t = 0 then rbind (desc_unpack packed) (\<lambda>(d, _). Inr (RDesc d))
      else if t = 1 then rbind (rd_all flow_stats_unpack packed) (\<lambda>fs. Inr (RFlow fs))
      else if t = 2 then rbind (aggregate_unpack packed) (\<lambda>(a, _). Inr (RAggregate a))
      else if t = 3 then rbind (rd_all table_stats_unpack packed) (\<lambda>ts. Inr (RTable ts))
      else if t = 4 then rbind (rd_all port_stats_unpack packed) (\<lambda>ps. Inr (RPort ps))
      else if t = 5 then rbind (rd_all queue_stats_unpack packed) (\<lambda>qs. Inr (RQueue qs))
      else if t = 65535 then
        rbind (rd_L packed) (\<lambda>(v, bs). rbind (rd_bytes (length packed - 4) bs) (\<lambda>(d, _). Inr (RVendor v d)))
      else Inr (RRaw t packed))"

context wire_format
begin

lemma dec_all:
  assumes "list_all ok xs" "enc_all enc xs = Inr bs" "\<And>x b. x \<in> set xs \<Longrightarrow> enc x = Inr b \<Longrightarrow> b \<noteq> []"
  shows "rd_all dec bs = Inr (map sent xs)"
  using assms
proof (induction xs arbitrary: bs)
  case Nil
  then show ?case by simp
next
  case (Cons x xs)
  then obtain b bs' where b: "enc x = Inr b" "enc_all enc xs = Inr bs'" "bs = b @ bs'" by auto
  then have "dec bs = Inr (sent x, bs')" using Cons.prems dec_enc by simp
  moreover have "b \<noteq> []" using Cons.prems(3) [of x b] b by simp
  moreover have "rd_all dec bs' = Inr (map sent xs)"
    by (rule Cons.IH) (use Cons.prems b in auto)
  ultimately show ?case using b by (subst rd_all.simps) simp
qed

end

definition stats_reply_ok :: "stats_reply_body \<Rightarrow> bool" where
  "stats_reply_ok b = (case b of RDesc d \<Rightarrow> desc_ok d | RFlow fs \<Rightarrow> list_all flow_stats_ok fs
     | RRaw t _ \<Rightarrow> t \<notin> {0, 1, 2, 3, 4, 5, 65535} | _ \<Rightarrow> True)"

fun stats_reply_sent :: "stats_reply_body \<Rightarrow> stats_reply_body" where
  "stats_reply_sent (RFlow fs) = RFlow (map flow_stats_sent fs)"
| "stats_reply_sent b = b"

text \<open>A reply that lists a table never packs: adding the text of its name to bytes raises.\<close>

lemma table_stats_never_pack:
  "length (ts_name t) \<le> 32 \<Longrightarrow> stats_reply_body_pack (RTable (t # ts)) = Inl TypeError"
  by (simp add: table_stats_pack_def)

lemma stats_reply_read:
  assumes "stats_reply_ok b" "stats_reply_body_pack b = Inr bs"
  shows "stats_reply_body_unpack (stats_reply_type b) bs = Inr (stats_reply_sent b)"
proof (cases b)
  case (RDesc d)
  then show ?thesis using assms desc_wire.dec_enc_nil [of d bs]
    by (simp add: stats_reply_body_unpack_def stats_reply_ok_def)
next
  case (RFlow fs)
  have "b \<noteq> []" if "flow_stats_pack f = Inr b" for f b
    using that by (auto simp: flow_stats_pack_def pack_nat_H_def split: if_splits)
  then show ?thesis using assms RFlow flow_stats_wire.dec_all [of fs bs]
    by (simp add: stats_reply_body_unpack_def stats_reply_ok_def)
next
  case (RAggregate a)
  then show ?thesis using assms aggregate_wire.dec_enc_nil [of a bs]
    by (simp add: stats_reply_body_unpack_def)
next
  case (RTable ts)
  then show ?thesis using assms
    by (cases ts) (simp_all add: stats_reply_body_unpack_def table_stats_pack_def split: if_splits)
next
  case (RPort ps)
  have "b \<noteq> []" if "port_stats_pack f = Inr b" for f b
    using that by (auto simp: port_stats_pack_def pad_def)
  moreover have "list_all (\<lambda>_. True) ps" by (simp add: list_all_iff)
  ultimately show ?thesis using assms RPort port_stats_wire.dec_all [of ps bs]
    by (simp add: stats_reply_body_unpack_def)
next
  case (RQueue qs)
  have "b \<noteq> []" if "queue_stats_pack f = Inr b" for f b
    using that by (auto simp: queue_stats_pack_def pad_def)
  moreover have "list_all (\<lambda>_. True) qs" by (simp add: list_all_iff)
  ultimately show ?thesis using assms RQueue queue_stats_wire.dec_all [of qs bs]
    by (simp add: stats_reply_body_unpack_def)
next
  case (RVendor v d)
  then show ?thesis using assms by (auto simp: stats_reply_body_unpack_def codec rd_bytes_def)
next
  case (RRaw t x)
  then show ?thesis using assms by (simp add: stats_reply_body_unpack_def stats_reply_ok_def)
qed

text \<open>
  Whatever statistics reply packs is read back part by part as it was sent, with the match and the
  actions of a flow in the form they have on the wire.
\<close>

theorem stats_reply_roundtrip:
  assumes "stats_reply_ok b" "stats_reply_body_pack b = Inr bs"
  shows "stats_reply_body_unpack (stats_reply_type b) bs = Inr (stats_reply_sent b)"
  using assms by (rule stats_reply_read)

theorem stats_reply_roundtrip_witness:
  "\<exists>bs. stats_reply_body_pack (RPort [(port_stats_new 3)\<lparr>ps_rx_packets := 7\<rparr>, port_stats_new 4]) = Inr bs \<and>
     stats_reply_body_unpack 4 bs = Inr (RPort [(port_stats_new 3)\<lparr>ps_rx_packets := 7\<rparr>, port_stats_new 4])"
proof -
  let ?b = "RPort [(port_stats_new 3)\<lparr>ps_rx_packets := 7\<rparr>, port_stats_new 4]"
  have "case stats_reply_body_pack ?b of Inl _ \<Rightarrow> False | Inr _ \<Rightarrow> True" by code_simp
  then obtain bs where p: "stats_reply_body_pack ?b = Inr bs" by (auto split: sum.splits)
  have "stats_reply_ok ?b" by (simp add: stats_reply_ok_def)
  from stats_reply_roundtrip [OF this p] have "stats_reply_body_unpack 4 bs = Inr ?b" by (simp only: stats_reply_type.simps stats_reply_sent.simps)
  with p show ?thesis by blast
qed

end
