(* ===== verification/Messages.thy ===== *)
theory Messages
  imports Stats
begin

text \<open>
  The messages of \<open>libopenflow_01.py\<close>: the header, \<open>ofp_phy_port\<close>, and for every message class its
  attributes, length, \<open>pack\<close> and \<open>unpack\<close>, and \<open>unpack_new\<close>.  A message is a header and a body; the
  header type is the constructor of the body.  Reading starts at the header and returns the object
  and the offset after it.
\<close>

section \<open>Ports\<close>

definition OFP_MAX_PORT_NAME_LEN :: nat where "OFP_MAX_PORT_NAME_LEN = 16"

record phy_port =
  pp_port_no :: "16 word"
  pp_hw_addr :: eth_addr
  pp_name :: bytes
  pp_config :: "32 word"
  pp_state :: "32 word"
  pp_curr :: "32 word"
  pp_advertised :: "32 word"
  pp_supported :: "32 word"
  pp_peer :: "32 word"

text \<open>\<open>set_config\<close> clears the bits of the mask and then adds all bits of \<open>config\<close>, in the mask or not.\<close>

definition set_config :: "32 word \<Rightarrow> 32 word \<Rightarrow> phy_port \<Rightarrow> 32 word \<times> phy_port" where
  "set_config config msk p =
     (let old = pp_config p; new = (old AND NOT msk) OR config in (old XOR new, p\<lparr>pp_config := new\<rparr>))"

definition enable_config :: "32 word \<Rightarrow> phy_port \<Rightarrow> 32 word \<times> phy_port" where
  "enable_config msk p = set_config 0xffffffff msk p"

definition disable_config :: "32 word \<Rightarrow> phy_port \<Rightarrow> 32 word \<times> phy_port" where
  "disable_config msk p = set_config 0 msk p"

definition phy_port_pack :: "phy_port \<Rightarrow> bytes result" where
  "phy_port_pack p =
     (if OFP_MAX_PORT_NAME_LEN < length (pp_name p) then Inl RuntimeError
      else Inr (pack_H (pp_port_no p) @ pp_hw_addr p @ packzs (pp_name p) OFP_MAX_PORT_NAME_LEN @
        pack_L (pp_config p) @ pack_L (pp_state p) @ pack_L (pp_curr p) @ pack_L (pp_advertised p) @
        pack_L (pp_supported p) @ pack_L (pp_peer p)))"

definition phy_port_unpack :: "phy_port reader" where
  "phy_port_unpack bs =
     rbind (rd_H bs) (\<lambda>(no, bs). rbind (rd_bytes 6 bs) (\<lambda>(hw, bs). rbind (rd_zs OFP_MAX_PORT_NAME_LEN bs) (\<lambda>(name, bs).
     rbind (rd_L bs) (\<lambda>(config, bs). rbind (rd_L bs) (\<lambda>(state, bs). rbind (rd_L bs) (\<lambda>(curr, bs).
     rbind (rd_L bs) (\<lambda>(adv, bs). rbind (rd_L bs) (\<lambda>(supp, bs). rbind (rd_L bs) (\<lambda>(peer, bs).
       Inr (\<lparr>pp_port_no = no, pp_hw_addr = hw, pp_name = name, pp_config = config, pp_state = state, pp_curr = curr,
             pp_advertised = adv, pp_supported = supp, pp_peer = peer\<rparr>, bs))))))))))"

definition phy_port_ok :: "phy_port \<Rightarrow> bool" where
  "phy_port_ok p \<longleftrightarrow> length (pp_hw_addr p) = 6 \<and> 0 \<notin> set (pp_name p)"

interpretation port_wire: wire_format phy_port_pack phy_port_unpack phy_port_ok id
  by unfold_locales
     (auto simp: phy_port_pack_def phy_port_unpack_def phy_port_ok_def codec split: if_splits)

lemma length_phy_port_pack: "phy_port_ok p \<Longrightarrow> phy_port_pack p = Inr bs \<Longrightarrow> length bs = 48"
  by (auto simp: phy_port_pack_def phy_port_ok_def OFP_MAX_PORT_NAME_LEN_def split: if_splits)

section \<open>Queues\<close>

text \<open>
  \<open>ofp_packet_queue\<close> and its properties.  A property of another type than the minimum rate is read into a
  generic object, whose length is a static method that uses \<open>self\<close>: reading it raises.
\<close>

datatype queue_prop = QMinRate "16 word"

record packet_queue =
  qu_queue_id :: "32 word"
  qu_properties :: "queue_prop list"

definition queue_prop_pack :: "queue_prop \<Rightarrow> bytes result" where
  "queue_prop_pack q = (case q of QMinRate r \<Rightarrow> Inr (pack_H 1 @ pack_H 16 @ pad 4 @ pack_H r @ pad 6))"

definition queue_prop_next :: "queue_prop reader" where
  "queue_prop_next bs =
     (if length bs < 4 then Inl StructError
      else let t = u16_at bs 0; l = unat (u16_at bs 2) in
        if length bs < l then Inl UnderrunError
        else if t = 1 then
          (if l < 16 then Inl UnderrunError else if l \<noteq> 16 then Inl AssertionError
           else Inr (QMinRate (u16_at bs 8), drop 16 bs))
        else if l < 4 then Inl UnderrunError else Inl NameError)"

function queue_prop_loop :: "nat \<Rightarrow> queue_prop list reader" where
  "queue_prop_loop left bs =
     (if left = 0 then Inr ([], bs)
      else rbind (queue_prop_next bs) (\<lambda>p. rbind (queue_prop_loop (left - 16) (snd p)) (\<lambda>(qs, r). Inr (fst p # qs, r))))"
  by pat_completeness auto
termination
  by (relation "measure fst") auto

declare queue_prop_loop.simps [simp del]

definition packet_queue_len :: "packet_queue \<Rightarrow> nat" where
  "packet_queue_len q = 8 + 16 * length (qu_properties q)"

definition packet_queue_pack :: "packet_queue \<Rightarrow> bytes result" where
  "packet_queue_pack q =
     rbind (pack_nat_H (packet_queue_len q)) (\<lambda>l. rbind (enc_all queue_prop_pack (qu_properties q)) (\<lambda>ps.
       Inr (pack_L (qu_queue_id q) @ l @ pad 2 @ ps)))"

definition packet_queue_unpack :: "packet_queue reader" where
  "packet_queue_unpack bs =
     rbind (rd_L bs) (\<lambda>(i, bs). rbind (rd_H bs) (\<lambda>(len, bs). rbind (rd_skip 2 bs) (\<lambda>(_, bs).
       if length bs < unat len - 8 then Inl UnderrunError
       else rbind (queue_prop_loop (unat len - 8) bs) (\<lambda>(ps, bs).
         Inr (\<lparr>qu_queue_id = i, qu_properties = ps\<rparr>, bs)))))"

lemma queue_prop_next_drop: "queue_prop_next bs = Inr (q, r) \<Longrightarrow> r = drop 16 bs"
  by (auto simp: queue_prop_next_def Let_def split: if_splits)

lemma queue_prop_loop_length: "queue_prop_loop left bs = Inr (qs, r) \<Longrightarrow> length r \<le> length bs"
proof (induction left bs arbitrary: qs r rule: queue_prop_loop.induct)
  case (1 left bs)
  show ?case
  proof (cases "left = 0")
    case True
    then show ?thesis using 1 by (simp add: queue_prop_loop.simps)
  next
    case False
    with 1(2) obtain p qs' where "queue_prop_next bs = Inr p" "queue_prop_loop (left - 16) (snd p) = Inr (qs', r)"
      by (subst (asm) queue_prop_loop.simps) auto
    with 1(1) [OF False this] queue_prop_next_drop [of bs "fst p" "snd p"] show ?thesis by simp
  qed
qed

text \<open>The loop of \<open>ofp_queue_get_config_reply.unpack\<close>; a queue takes at least eight bytes.\<close>

function queue_loop :: "nat \<Rightarrow> packet_queue list reader" where
  "queue_loop remaining bs =
     (if remaining = 0 then Inr ([], bs)
      else rbind (packet_queue_unpack bs) (\<lambda>p.
        if length bs < length (snd p) + 1 then Inl RuntimeError
        else rbind (queue_loop (remaining - (length bs - length (snd p))) (snd p)) (\<lambda>(qs, r). Inr (fst p # qs, r))))"
  by pat_completeness auto
termination
  by (relation "measure fst") auto

declare queue_loop.simps [simp del]

section \<open>Headers and bodies\<close>

record ofp_hdr =
  hdr_version :: byte
  hdr_xid :: "32 word"

definition OFP_VERSION :: byte where "OFP_VERSION = 1"
definition NO_BUFFER :: "32 word" where "NO_BUFFER = 4294967295"

record features =
  fe_datapath_id :: "64 word"
  fe_n_buffers :: "32 word"
  fe_n_tables :: byte
  fe_capabilities :: "32 word"
  fe_actions :: "32 word"
  fe_ports :: "phy_port list"

record packet_in =
  pi_in_port :: "16 word"
  pi_buffer_id :: "32 word"
  pi_reason :: byte
  pi_data :: bytes
  pi_total_len :: "nat option"

record flow_mod =
  fm_match :: ofp_match
  fm_cookie :: "64 word"
  fm_command :: "16 word"
  fm_idle_timeout :: "16 word"
  fm_hard_timeout :: "16 word"
  fm_priority :: "16 word"
  fm_buffer_id :: "32 word"
  fm_out_port :: "16 word"
  fm_flags :: "16 word"
  fm_actions :: "action list"
  fm_data :: "packet_in option"

record port_mod =
  pm_port_no :: "16 word"
  pm_hw_addr :: eth_addr
  pm_config :: "32 word"
  pm_mask :: "32 word"
  pm_advertise :: "32 word"

record packet_out =
  po_buffer_id :: "32 word"
  po_in_port :: "16 word"
  po_actions :: "action list"
  po_data :: bytes

record flow_removed =
  fr_match :: ofp_match
  fr_cookie :: "64 word"
  fr_priority :: "16 word"
  fr_reason :: byte
  fr_duration_sec :: nat
  fr_duration_nsec :: nat
  fr_idle_timeout :: "16 word"
  fr_packet_count :: nat
  fr_byte_count :: nat

datatype of_body =
    MHello
  | MError "16 word" "16 word" bytes
  | MEchoRequest bytes
  | MEchoReply bytes
  | MVendor "32 word" bytes
  | MFeaturesRequest
  | MFeaturesReply features
  | MGetConfigRequest
  | MGetConfigReply "16 word" "16 word"
  | MSetConfig "16 word" "16 word"
  | MPacketIn packet_in
  | MFlowRemoved flow_removed
  | MPortStatus byte phy_port
  | MPacketOut packet_out
  | MFlowMod flow_mod
  | MPortMod port_mod
  | MStatsRequest "16 word" stats_request_body
  | MStatsReply "16 word" stats_reply_body
  | MBarrierRequest
  | MBarrierReply
  | MQueueGetConfigRequest "16 word"
  | MQueueGetConfigReply "16 word" "packet_queue list"

type_synonym ofp_msg = "ofp_hdr \<times> of_body"

fun header_type :: "of_body \<Rightarrow> byte" where
  "header_type MHello = 0"
| "header_type (MError _ _ _) = 1"
| "header_type (MEchoRequest _) = 2"
| "header_type (MEchoReply _) = 3"
| "header_type (MVendor _ _) = 4"
| "header_type MFeaturesRequest = 5"
| "header_type (MFeaturesReply _) = 6"
| "header_type MGetConfigRequest = 7"
| "header_type (MGetConfigReply _ _) = 8"
| "header_type (MSetConfig _ _) = 9"
| "header_type (MPacketIn _) = 10"
| "header_type (MFlowRemoved _) = 11"
| "header_type (MPortStatus _ _) = 12"
| "header_type (MPacketOut _) = 13"
| "header_type (MFlowMod _) = 14"
| "header_type (MPortMod _) = 15"
| "header_type (MStatsRequest _ _) = 16"
| "header_type (MStatsReply _ _) = 17"
| "header_type MBarrierRequest = 18"
| "header_type MBarrierReply = 19"
| "header_type (MQueueGetConfigRequest _) = 20"
| "header_type (MQueueGetConfigReply _ _) = 21"

definition total_len :: "packet_in \<Rightarrow> nat" where
  "total_len p = (case pi_total_len p of None \<Rightarrow> length (pi_data p) | Some n \<Rightarrow> n)"

definition is_complete :: "packet_in \<Rightarrow> bool" where
  "is_complete p \<longleftrightarrow> pi_buffer_id p \<noteq> NO_BUFFER \<or> length (pi_data p) = total_len p"

definition flow_mod_len :: "flow_mod \<Rightarrow> nat" where
  "flow_mod_len f = 72 + sum_list (map act_len (fm_actions f))"

definition packet_out_len :: "packet_out \<Rightarrow> nat" where
  "packet_out_len p = 16 + sum_list (map act_len (po_actions p)) + length (po_data p)"

fun body_len :: "of_body \<Rightarrow> nat result" where
  "body_len (MError _ _ d) = Inr (12 + length d)"
| "body_len (MEchoRequest b) = Inr (8 + length b)"
| "body_len (MEchoReply b) = Inr (8 + length b)"
| "body_len (MVendor _ d) = Inr (12 + length d)"
| "body_len (MFeaturesReply f) = Inr (32 + 48 * length (fe_ports f))"
| "body_len (MGetConfigReply _ _) = Inr 12"
| "body_len (MSetConfig _ _) = Inr 12"
| "body_len (MPacketIn p) = Inr (18 + length (pi_data p))"
| "body_len (MFlowRemoved _) = Inr 88"
| "body_len (MPortStatus _ _) = Inr 64"
| "body_len (MPacketOut p) = Inr (packet_out_len p)"
| "body_len (MFlowMod f) = Inr (flow_mod_len f)"
| "body_len (MPortMod _) = Inr 32"
| "body_len (MStatsRequest _ b) = rbind (stats_request_body_pack b) (\<lambda>bs. Inr (12 + length bs))"
| "body_len (MStatsReply _ b) = rbind (stats_reply_body_len b) (\<lambda>n. Inr (12 + n))"
| "body_len (MQueueGetConfigRequest _) = Inr 12"
| "body_len (MQueueGetConfigReply _ qs) = Inr (16 + sum_list (map packet_queue_len qs))"
| "body_len _ = Inr 8"

section \<open>Packing\<close>

definition body_validate :: "of_body \<Rightarrow> unit result" where
  "body_validate b =
     (case b of
        MPacketIn p \<Rightarrow> if pi_data p \<noteq> [] \<and> total_len p < length (pi_data p) then Inl RuntimeError else Inr ()
      | MPacketOut p \<Rightarrow> if po_buffer_id p \<noteq> NO_BUFFER \<and> po_data p \<noteq> [] then Inl RuntimeError else Inr ()
      | MPortMod p \<Rightarrow> if length (pm_hw_addr p) \<noteq> 6 then Inl RuntimeError else Inr ()
      | _ \<Rightarrow> Inr ())"

definition header_pack :: "ofp_hdr \<Rightarrow> byte \<Rightarrow> nat \<Rightarrow> bytes result" where
  "header_pack h ty n = rbind (pack_nat_H n) (\<lambda>l. Inr ([hdr_version h, ty] @ l @ pack_L (hdr_xid h)))"

definition flow_mod_bytes :: "flow_mod \<Rightarrow> bytes result" where
  "flow_mod_bytes f =
     rbind (pack_actions (fm_actions f)) (\<lambda>acts.
       Inr (match_pack True (fm_match f) @ pack_Q (fm_cookie f) @ pack_H (fm_command f) @ pack_H (fm_idle_timeout f) @
            pack_H (fm_hard_timeout f) @ pack_H (fm_priority f) @ pack_L (fm_buffer_id f) @ pack_H (fm_out_port f) @
            pack_H (fm_flags f) @ acts))"

definition flow_removed_bytes :: "flow_removed \<Rightarrow> bytes result" where
  "flow_removed_bytes f =
     rbind (pack_nat_L (fr_duration_sec f)) (\<lambda>ds. rbind (pack_nat_L (fr_duration_nsec f)) (\<lambda>dn.
     rbind (pack_nat_Q (fr_packet_count f)) (\<lambda>pc. rbind (pack_nat_Q (fr_byte_count f)) (\<lambda>bc.
       Inr (match_pack False (fr_match f) @ pack_Q (fr_cookie f) @ pack_H (fr_priority f) @ [fr_reason f] @ pad 1 @
            ds @ dn @ pack_H (fr_idle_timeout f) @ pad 2 @ pc @ bc)))))"

definition packet_out_bytes :: "packet_out \<Rightarrow> bytes result" where
  "packet_out_bytes p =
     rbind (pack_actions (po_actions p)) (\<lambda>acts. rbind (pack_nat_H (length acts)) (\<lambda>l.
       Inr (pack_L (po_buffer_id p) @ pack_H (po_in_port p) @ l @ acts @ po_data p)))"

text \<open>What \<open>pack\<close> of each class writes behind the header.\<close>

definition error_bytes :: "16 word \<Rightarrow> 16 word \<Rightarrow> bytes \<Rightarrow> bytes result" where [simp]:
  "error_bytes t c d =
     Inr (pack_H t @ pack_H c @ d)"

definition echo_request_bytes :: "bytes \<Rightarrow> bytes result" where [simp]:
  "echo_request_bytes b =
     Inr b"

definition echo_reply_bytes :: "bytes \<Rightarrow> bytes result" where [simp]:
  "echo_reply_bytes b =
     Inr b"

definition vendor_bytes :: "32 word \<Rightarrow> bytes \<Rightarrow> bytes result" where [simp]:
  "vendor_bytes v d =
     Inr (pack_L v @ d)"

definition features_bytes :: "features \<Rightarrow> bytes result" where [simp]:
  "features_bytes f =
     rbind (enc_all phy_port_pack (fe_ports f)) (\<lambda>ps.
       Inr (pack_Q (fe_datapath_id f) @ pack_L (fe_n_buffers f) @ [fe_n_tables f] @ pad 3 @
            pack_L (fe_capabilities f) @ pack_L (fe_actions f) @ ps))"

definition get_config_reply_bytes :: "16 word \<Rightarrow> 16 word \<Rightarrow> bytes result" where [simp]:
  "get_config_reply_bytes fl m =
     Inr (pack_H fl @ pack_H m)"

definition set_config_bytes :: "16 word \<Rightarrow> 16 word \<Rightarrow> bytes result" where [simp]:
  "set_config_bytes fl m =
     Inr (pack_H fl @ pack_H m)"

definition packet_in_bytes :: "packet_in \<Rightarrow> bytes result" where [simp]:
  "packet_in_bytes p =
     rbind (pack_nat_H (total_len p)) (\<lambda>tl.
       Inr (pack_L (pi_buffer_id p) @ tl @ pack_H (pi_in_port p) @ [pi_reason p, 0] @ pi_data p))"

definition port_status_bytes :: "byte \<Rightarrow> phy_port \<Rightarrow> bytes result" where [simp]:
  "port_status_bytes r p =
     rbind (phy_port_pack p) (\<lambda>d. Inr ([r] @ pad 7 @ d))"

definition port_mod_bytes :: "port_mod \<Rightarrow> bytes result" where [simp]:
  "port_mod_bytes p =
     Inr (pack_H (pm_port_no p) @ pm_hw_addr p @ pack_L (pm_config p) @ pack_L (pm_mask p) @
          pack_L (pm_advertise p) @ pad 4)"

definition stats_request_bytes :: "16 word \<Rightarrow> stats_request_body \<Rightarrow> bytes result" where [simp]:
  "stats_request_bytes fl b =
     rbind (stats_request_body_pack b) (\<lambda>bs.
       case stats_request_type b of None \<Rightarrow> Inl StructError | Some t \<Rightarrow> Inr (pack_H t @ pack_H fl @ bs))"

definition stats_reply_bytes :: "16 word \<Rightarrow> stats_reply_body \<Rightarrow> bytes result" where [simp]:
  "stats_reply_bytes fl b =
     rbind (stats_reply_body_pack b) (\<lambda>bs. Inr (pack_H (stats_reply_type b) @ pack_H fl @ bs))"

definition queue_get_config_request_bytes :: "16 word \<Rightarrow> bytes result" where [simp]:
  "queue_get_config_request_bytes p =
     Inr (pack_H p @ pad 2)"

definition queue_get_config_reply_bytes :: "16 word \<Rightarrow> packet_queue list \<Rightarrow> bytes result" where [simp]:
  "queue_get_config_reply_bytes p qs =
     rbind (enc_all packet_queue_pack qs) (\<lambda>bs. Inr (pack_H p @ pad 6 @ bs))"

fun body_bytes :: "of_body \<Rightarrow> bytes result" where
  "body_bytes (MError t c d) = error_bytes t c d"
| "body_bytes (MEchoRequest b) = echo_request_bytes b"
| "body_bytes (MEchoReply b) = echo_reply_bytes b"
| "body_bytes (MVendor v d) = vendor_bytes v d"
| "body_bytes (MFeaturesReply f) = features_bytes f"
| "body_bytes (MGetConfigReply fl m) = get_config_reply_bytes fl m"
| "body_bytes (MSetConfig fl m) = set_config_bytes fl m"
| "body_bytes (MPacketIn p) = packet_in_bytes p"
| "body_bytes (MFlowRemoved f) = flow_removed_bytes f"
| "body_bytes (MPortStatus r p) = port_status_bytes r p"
| "body_bytes (MPacketOut p) = packet_out_bytes p"
| "body_bytes (MFlowMod f) = flow_mod_bytes f"
| "body_bytes (MPortMod p) = port_mod_bytes p"
| "body_bytes (MStatsRequest fl b) = stats_request_bytes fl b"
| "body_bytes (MStatsReply fl b) = stats_reply_bytes fl b"
| "body_bytes (MQueueGetConfigRequest p) = queue_get_config_request_bytes p"
| "body_bytes (MQueueGetConfigReply p qs) = queue_get_config_reply_bytes p qs"
| "body_bytes _ = Inr []"

definition msg_pack :: "ofp_msg \<Rightarrow> bytes result" where
  "msg_pack m =
     (case m of (h, b) \<Rightarrow>
        rbind (body_validate b) (\<lambda>_. rbind (body_len b) (\<lambda>n.
        rbind (header_pack h (header_type b) n) (\<lambda>hd. rbind (body_bytes b) (\<lambda>bs. Inr (hd @ bs))))))"

text \<open>
  \<open>ofp_flow_mod.pack\<close> with a packet-in as \<open>data\<close>: a complete one lends its buffer or, without a buffer,
  is sent to the table by a barrier and a packet-out behind the flow modification.  \<open>x1\<close> and \<open>x2\<close> are
  the transaction numbers the two extra messages draw.  \<open>msg_pack\<close> is for a flow modification whose
  \<open>data\<close> is not set.
\<close>

definition flow_mod_with_data :: "flow_mod \<Rightarrow> flow_mod \<times> packet_out option" where
  "flow_mod_with_data f =
     (case fm_data f of
        None \<Rightarrow> (f, None)
      | Some d \<Rightarrow>
          if \<not> is_complete d then (f\<lparr>fm_data := None\<rparr>, None)
          else (f\<lparr>fm_buffer_id := pi_buffer_id d, fm_data := None\<rparr>,
            if pi_buffer_id d = NO_BUFFER then
              Some \<lparr>po_buffer_id = NO_BUFFER, po_in_port = pi_in_port d, po_actions = [ActOutput OFPP_TABLE 0xffff],
                    po_data = pi_data d\<rparr>
            else None))"

definition flow_mod_pack :: "ofp_hdr \<Rightarrow> 32 word \<Rightarrow> 32 word \<Rightarrow> flow_mod \<Rightarrow> bytes result" where
  "flow_mod_pack h x1 x2 f =
     (case flow_mod_with_data f of (f', po) \<Rightarrow>
        rbind (msg_pack (h, MFlowMod f')) (\<lambda>bs.
          case po of None \<Rightarrow> Inr bs
          | Some p \<Rightarrow>
              rbind (msg_pack (\<lparr>hdr_version = OFP_VERSION, hdr_xid = x1\<rparr>, MBarrierRequest)) (\<lambda>bar.
              rbind (msg_pack (\<lparr>hdr_version = OFP_VERSION, hdr_xid = x2\<rparr>, MPacketOut p)) (\<lambda>pbs.
                Inr (bs @ bar @ pbs)))))"

section \<open>Reading\<close>

definition header_read :: "(ofp_hdr \<times> byte \<times> nat) reader" where
  "header_read bs =
     rbind (rd_B bs) (\<lambda>(v, bs). rbind (rd_B bs) (\<lambda>(t, bs). rbind (rd_H bs) (\<lambda>(len, bs). rbind (rd_L bs) (\<lambda>(x, bs).
       Inr ((\<lparr>hdr_version = v, hdr_xid = x\<rparr>, t, unat len), bs)))))"

definition features_read :: "nat \<Rightarrow> of_body reader" where
  "features_read len bs =
     rbind (rd_Q bs) (\<lambda>(dpid, bs). rbind (rd_L bs) (\<lambda>(nb, bs). rbind (rd_B bs) (\<lambda>(nt, bs). rbind (rd_skip 3 bs) (\<lambda>(_, bs).
     rbind (rd_L bs) (\<lambda>(cap, bs). rbind (rd_L bs) (\<lambda>(acts, bs).
     rbind (rd_many phy_port_unpack ((len - 32) div 48) bs) (\<lambda>(ps, bs).
       Inr (MFeaturesReply \<lparr>fe_datapath_id = dpid, fe_n_buffers = nb, fe_n_tables = nt, fe_capabilities = cap,
              fe_actions = acts, fe_ports = ps\<rparr>, bs))))))))"

definition packet_in_read :: "nat \<Rightarrow> of_body reader" where
  "packet_in_read len bs =
     rbind (rd_L bs) (\<lambda>(buf, bs). rbind (rd_H bs) (\<lambda>(tl, bs). rbind (rd_H bs) (\<lambda>(inp, bs). rbind (rd_B bs) (\<lambda>(reason, bs).
     rbind (rd_B bs) (\<lambda>(_, bs). rbind (rd_bytes (len - 18) bs) (\<lambda>(d, bs).
       Inr (MPacketIn \<lparr>pi_in_port = inp, pi_buffer_id = buf, pi_reason = reason, pi_data = d,
              pi_total_len = Some (unat tl)\<rparr>, bs)))))))"

definition flow_removed_read :: "of_body reader" where
  "flow_removed_read bs =
     rbind (match_unpack False bs) (\<lambda>(m, bs). rbind (rd_Q bs) (\<lambda>(c, bs). rbind (rd_H bs) (\<lambda>(prio, bs).
     rbind (rd_B bs) (\<lambda>(reason, bs). rbind (rd_skip 1 bs) (\<lambda>(_, bs). rbind (rd_nat_L bs) (\<lambda>(ds, bs).
     rbind (rd_nat_L bs) (\<lambda>(dn, bs). rbind (rd_H bs) (\<lambda>(idle, bs). rbind (rd_skip 2 bs) (\<lambda>(_, bs).
     rbind (rd_nat_Q bs) (\<lambda>(pc, bs). rbind (rd_nat_Q bs) (\<lambda>(bc, bs).
       Inr (MFlowRemoved \<lparr>fr_match = m, fr_cookie = c, fr_priority = prio, fr_reason = reason, fr_duration_sec = ds,
              fr_duration_nsec = dn, fr_idle_timeout = idle, fr_packet_count = pc, fr_byte_count = bc\<rparr>, bs))))))))))))"

text \<open>What remains of the length after the actions is data; nothing or less is no data.\<close>

definition packet_out_read :: "nat \<Rightarrow> of_body reader" where
  "packet_out_read len b0 =
     rbind (rd_L b0) (\<lambda>(buf, bs). rbind (rd_H bs) (\<lambda>(inp, bs). rbind (rd_H bs) (\<lambda>(alen, bs).
     rbind (unpack_actions (unat alen) bs) (\<lambda>(acts, bs).
     rbind (rd_bytes (len - (8 + (length b0 - length bs))) bs) (\<lambda>(d, bs).
       Inr (MPacketOut \<lparr>po_buffer_id = buf, po_in_port = inp, po_actions = acts, po_data = d\<rparr>, bs))))))"

definition flow_mod_read :: "nat \<Rightarrow> of_body reader" where
  "flow_mod_read len bs =
     rbind (match_unpack True bs) (\<lambda>(m, bs). rbind (rd_Q bs) (\<lambda>(c, bs). rbind (rd_H bs) (\<lambda>(cmd, bs).
     rbind (rd_H bs) (\<lambda>(idle, bs). rbind (rd_H bs) (\<lambda>(hard, bs). rbind (rd_H bs) (\<lambda>(prio, bs).
     rbind (rd_L bs) (\<lambda>(buf, bs). rbind (rd_H bs) (\<lambda>(outp, bs). rbind (rd_H bs) (\<lambda>(fl, bs).
     rbind (unpack_actions (len - 72) bs) (\<lambda>(acts, bs).
       Inr (MFlowMod \<lparr>fm_match = m, fm_cookie = c, fm_command = cmd, fm_idle_timeout = idle, fm_hard_timeout = hard,
              fm_priority = prio, fm_buffer_id = buf, fm_out_port = outp, fm_flags = fl, fm_actions = acts,
              fm_data = None\<rparr>, bs)))))))))))"

definition port_mod_read :: "of_body reader" where
  "port_mod_read bs =
     rbind (rd_H bs) (\<lambda>(p, bs). rbind (rd_bytes 6 bs) (\<lambda>(hw, bs). rbind (rd_L bs) (\<lambda>(c, bs). rbind (rd_L bs) (\<lambda>(m, bs).
     rbind (rd_L bs) (\<lambda>(a, bs). rbind (rd_skip 4 bs) (\<lambda>(_, bs).
       Inr (MPortMod \<lparr>pm_port_no = p, pm_hw_addr = hw, pm_config = c, pm_mask = m, pm_advertise = a\<rparr>, bs)))))))"

text \<open>\<open>unpack\<close> of each class on the bytes after the header, and the choice of the class.\<close>

definition error_read :: "nat \<Rightarrow> of_body reader" where [simp]:
  "error_read len bs =
     rbind (rd_H bs) (\<lambda>(t, bs). rbind (rd_H bs) (\<lambda>(c, bs). rbind (rd_bytes (len - 12) bs) (\<lambda>(d, bs).
             Inr (MError t c d, bs))))"

definition echo_request_read :: "nat \<Rightarrow> of_body reader" where [simp]:
  "echo_request_read len bs =
     rbind (rd_bytes (len - 8) bs) (\<lambda>(d, bs). Inr (MEchoRequest d, bs))"

definition echo_reply_read :: "nat \<Rightarrow> of_body reader" where [simp]:
  "echo_reply_read len bs =
     rbind (rd_bytes (len - 8) bs) (\<lambda>(d, bs). Inr (MEchoReply d, bs))"

definition get_config_reply_read :: "of_body reader" where [simp]:
  "get_config_reply_read bs =
     rbind (rd_H bs) (\<lambda>(f, bs). rbind (rd_H bs) (\<lambda>(m, bs). Inr (MGetConfigReply f m, bs)))"

definition set_config_read :: "of_body reader" where [simp]:
  "set_config_read bs =
     rbind (rd_H bs) (\<lambda>(f, bs). rbind (rd_H bs) (\<lambda>(m, bs). Inr (MSetConfig f m, bs)))"

definition port_status_read :: "of_body reader" where [simp]:
  "port_status_read bs =
     rbind (rd_B bs) (\<lambda>(r, bs). rbind (rd_skip 7 bs) (\<lambda>(_, bs). rbind (phy_port_unpack bs) (\<lambda>(p, bs).
             Inr (MPortStatus r p, bs))))"

definition stats_request_read :: "nat \<Rightarrow> of_body reader" where [simp]:
  "stats_request_read len bs =
     rbind (rd_H bs) (\<lambda>(t, bs). rbind (rd_H bs) (\<lambda>(f, bs). rbind (rd_bytes (len - 12) bs) (\<lambda>(d, bs).
             rbind (stats_request_body_unpack t d) (\<lambda>b. Inr (MStatsRequest f b, bs)))))"

definition stats_reply_read :: "nat \<Rightarrow> of_body reader" where [simp]:
  "stats_reply_read len bs =
     rbind (rd_H bs) (\<lambda>(t, bs). rbind (rd_H bs) (\<lambda>(f, bs). rbind (rd_bytes (len - 12) bs) (\<lambda>(d, bs).
             rbind (stats_reply_body_unpack t d) (\<lambda>b. Inr (MStatsReply f b, bs)))))"

definition queue_get_config_request_read :: "of_body reader" where [simp]:
  "queue_get_config_request_read bs =
     rbind (rd_H bs) (\<lambda>(p, bs). rbind (rd_skip 2 bs) (\<lambda>(_, bs). Inr (MQueueGetConfigRequest p, bs)))"

definition queue_get_config_reply_read :: "nat \<Rightarrow> of_body reader" where [simp]:
  "queue_get_config_reply_read len bs =
     rbind (rd_H bs) (\<lambda>(p, bs). rbind (rd_skip 6 bs) (\<lambda>(_, bs). rbind (queue_loop (len - 16) bs) (\<lambda>(qs, bs).
             Inr (MQueueGetConfigReply p qs, bs))))"

definition body_read :: "byte \<Rightarrow> nat \<Rightarrow> of_body reader" where
  "body_read ty len bs =
     (if ty = 1 then error_read len bs
      else if ty = 2 then echo_request_read len bs
      else if ty = 3 then echo_reply_read len bs
      else if ty = 5 then Inr (MFeaturesRequest, bs)
      else if ty = 6 then features_read len bs
      else if ty = 7 then Inr (MGetConfigRequest, bs)
      else if ty = 8 then get_config_reply_read bs
      else if ty = 9 then set_config_read bs
      else if ty = 10 then packet_in_read len bs
      else if ty = 11 then flow_removed_read bs
      else if ty = 12 then port_status_read bs
      else if ty = 13 then packet_out_read len bs
      else if ty = 14 then flow_mod_read len bs
      else if ty = 15 then port_mod_read bs
      else if ty = 16 then stats_request_read len bs
      else if ty = 17 then stats_reply_read len bs
      else if ty = 18 then Inr (MBarrierRequest, bs)
      else if ty = 19 then Inr (MBarrierReply, bs)
      else if ty = 20 then queue_get_config_request_read bs
      else if ty = 21 then queue_get_config_reply_read len bs
      else Inl KeyError)"

definition vendor_read :: "nat \<Rightarrow> of_body reader" where [simp]:
  "vendor_read len bs = rbind (rd_L bs) (\<lambda>(v, bs). rbind (rd_bytes (len - 12) bs) (\<lambda>(d, bs). Inr (MVendor v d, bs)))"

text \<open>
  \<open>unpack_new\<close>: the object and the offset after it.  A hello and a vendor message believe the length in
  the header; every other class compares it with the length of the object and with what was read.
\<close>

definition msg_unpack :: "byte \<Rightarrow> bytes \<Rightarrow> (ofp_msg \<times> nat) result" where
  "msg_unpack ty raw =
     rbind (header_read raw) (\<lambda>((h, t, len), bs).
       if ty = 0 then Inr ((h, MHello), len)
       else if ty = 4 then
         rbind (vendor_read len bs) (\<lambda>(b, _). Inr ((h, b), len))
       else
         rbind (body_read ty len bs) (\<lambda>(b, rest). rbind (body_len b) (\<lambda>n. rbind (py_assert (len = n)) (\<lambda>_.
         rbind (py_assert (length raw - length rest = len)) (\<lambda>_. Inr ((h, b), len))))))"

section \<open>Every message that packs is read back\<close>

definition stats_request_ok :: "stats_request_body \<Rightarrow> bool" where
  "stats_request_ok b = (case b of SRFlow q \<Rightarrow> macs_ok (fq_match q) | SRAggregate q \<Rightarrow> macs_ok (fq_match q) | _ \<Rightarrow> True)"

fun stats_request_sent :: "stats_request_body \<Rightarrow> stats_request_body" where
  "stats_request_sent (SRFlow q) = SRFlow (q\<lparr>fq_match := match_sent False (fq_match q)\<rparr>)"
| "stats_request_sent (SRAggregate q) = SRAggregate (q\<lparr>fq_match := match_sent False (fq_match q)\<rparr>)"
| "stats_request_sent b = b"

definition body_ok :: "of_body \<Rightarrow> bool" where
  "body_ok b =
     (case b of
        MFeaturesReply f \<Rightarrow> list_all phy_port_ok (fe_ports f)
      | MFlowRemoved f \<Rightarrow> macs_ok (fr_match f)
      | MPortStatus _ p \<Rightarrow> phy_port_ok p
      | MPacketOut p \<Rightarrow> list_all act_ok (po_actions p)
      | MFlowMod f \<Rightarrow> macs_ok (fm_match f) \<and> list_all act_ok (fm_actions f) \<and> fm_data f = None
      | MStatsRequest _ s \<Rightarrow> stats_request_ok s
      | MStatsReply _ s \<Rightarrow> stats_reply_ok s
      | _ \<Rightarrow> True)"

fun body_sent :: "of_body \<Rightarrow> of_body" where
  "body_sent (MPacketIn p) = MPacketIn (p\<lparr>pi_total_len := Some (total_len p)\<rparr>)"
| "body_sent (MFlowRemoved f) = MFlowRemoved (f\<lparr>fr_match := match_sent False (fr_match f)\<rparr>)"
| "body_sent (MPacketOut p) = MPacketOut (p\<lparr>po_actions := map act_sent (po_actions p)\<rparr>)"
| "body_sent (MFlowMod f) =
     MFlowMod (f\<lparr>fm_match := match_sent True (fm_match f), fm_actions := map act_sent (fm_actions f)\<rparr>)"
| "body_sent (MStatsRequest fl b) = MStatsRequest fl (stats_request_sent b)"
| "body_sent (MStatsReply fl b) = MStatsReply fl (stats_reply_sent b)"
| "body_sent b = b"

lemma length_enc_all:
  "(\<And>x b. x \<in> set xs \<Longrightarrow> enc x = Inr b \<Longrightarrow> length b = f x) \<Longrightarrow> enc_all enc xs = Inr bs \<Longrightarrow>
     length bs = sum_list (map f xs)"
proof (induction xs arbitrary: bs)
  case (Cons x xs)
  then obtain b bs' where "enc x = Inr b" "enc_all enc xs = Inr bs'" "bs = b @ bs'" by auto
  moreover have "length bs' = sum_list (map f xs)" by (rule Cons.IH) (use Cons.prems calculation in auto)
  ultimately show ?case using Cons.prems(1) [of x b] by simp
qed simp

lemma pack_nat_H_Inr:
  "pack_nat_H n = Inr bs \<longleftrightarrow> n < 65536 \<and> bs = pack_H (word_of_nat n)"
  by (auto simp: pack_nat_H_def)

lemma unat_16: "n < 65536 \<Longrightarrow> unat (word_of_nat n :: 16 word) = n"
  by (simp add: unat_of_nat)

lemma unat_16_len:
  "unat (word_of_nat n :: 16 word) = n \<Longrightarrow> rd_H (pack_H (word_of_nat n) @ r) = Inr (word_of_nat n, r)"
  by (simp add: codec)

lemma length_flow_stats_pack: "flow_stats_ok f \<Longrightarrow> flow_stats_pack f = Inr bs \<Longrightarrow> length bs = flow_stats_len f"
  using act_loop_pack(2) [of "fs_actions f"]
  by (auto simp: flow_stats_pack_def flow_stats_ok_def flow_stats_len_def pack_nat_H_Inr length_match_pack
      dest!: pack_nat_L_Inr pack_nat_Q_Inr)

lemma length_counters: "enc_all pack_nat_Q ns = Inr bs \<Longrightarrow> length bs = 8 * length ns"
  using length_enc_all [of ns pack_nat_Q "\<lambda>_. 8" bs] pack_nat_Q_Inr by (fastforce simp: sum_list_triv)

lemma stats_reply_length:
  assumes "stats_reply_ok b" "stats_reply_body_pack b = Inr bs" "stats_reply_body_len b = Inr n"
  shows "length bs = n"
proof (cases b)
  case (RDesc d)
  then show ?thesis using assms by (auto simp: desc_pack_def desc_valid_def DESC_STR_LEN_def SERIAL_NUM_LEN_def split: if_splits)
next
  case (RFlow fs)
  then have "length bs = sum_list (map flow_stats_len fs)"
    using assms by (intro length_enc_all [where enc = flow_stats_pack])
      (auto simp: stats_reply_ok_def list_all_iff length_flow_stats_pack)
  then show ?thesis using RFlow assms by simp
next
  case (RAggregate a)
  then show ?thesis using assms by (auto simp: aggregate_pack_def dest!: pack_nat_L_Inr pack_nat_Q_Inr)
next
  case (RTable ts)
  then show ?thesis using assms by (cases ts) (auto simp: table_stats_pack_def split: if_splits)
next
  case (RPort ps)
  have "length b = 104" if "port_stats_pack p = Inr b" for p b
    using that length_counters [of "port_counters p"] by (auto simp: port_stats_pack_def port_counters_def)
  then have "length bs = sum_list (map (\<lambda>_. 104) ps)"
    using assms RPort by (intro length_enc_all [where enc = port_stats_pack]) auto
  then show ?thesis using RPort assms by (simp add: sum_list_triv)
next
  case (RQueue qs)
  have "length b = 32" if "queue_stats_pack p = Inr b" for p b
    using that by (auto simp: queue_stats_pack_def dest!: pack_nat_Q_Inr)
  then have "length bs = sum_list (map (\<lambda>_. 32) qs)"
    using assms RQueue by (intro length_enc_all [where enc = queue_stats_pack]) auto
  then show ?thesis using RQueue assms by (simp add: sum_list_triv)
qed (use assms in auto)

lemma queue_prop_step:
  "queue_prop_pack q = Inr b \<Longrightarrow> queue_prop_next (b @ r) = Inr (q, r) \<and> length b = 16"
  by (cases q) (auto simp: queue_prop_pack_def queue_prop_next_def Let_def u16_at_def py_slice_def)

lemma queue_prop_loop_pack:
  "enc_all queue_prop_pack qs = Inr bs \<Longrightarrow> queue_prop_loop (16 * length qs) (bs @ r) = Inr (qs, r) \<and> length bs = 16 * length qs"
proof (induction qs arbitrary: bs)
  case Nil
  then show ?case by (simp add: queue_prop_loop.simps)
next
  case (Cons q qs)
  then obtain b bs' where b: "queue_prop_pack q = Inr b" "enc_all queue_prop_pack qs = Inr bs'" "bs = b @ bs'" by auto
  with Cons.IH [OF b(2)] queue_prop_step [OF b(1), of "bs' @ r"] show ?case
    by (subst queue_prop_loop.simps) simp
qed

interpretation queue_wire: wire_format packet_queue_pack packet_queue_unpack "\<lambda>_. True" id
proof
  fix q bs r assume "packet_queue_pack q = Inr bs"
  then obtain ps where n: "packet_queue_len q < 65536" and ps: "enc_all queue_prop_pack (qu_properties q) = Inr ps"
    and bs: "bs = pack_L (qu_queue_id q) @ pack_H (word_of_nat (packet_queue_len q)) @ pad 2 @ ps"
    by (auto simp: packet_queue_pack_def pack_nat_H_Inr)
  have "unat (word_of_nat (packet_queue_len q) :: 16 word) - 8 = 16 * length (qu_properties q)"
    unfolding unat_16 [OF n] by (simp add: packet_queue_len_def)
  with queue_prop_loop_pack [OF ps, of r] show "packet_queue_unpack (bs @ r) = Inr (id q, r)"
    by (simp add: packet_queue_unpack_def bs codec)
qed

lemma length_packet_queue_pack: "packet_queue_pack q = Inr bs \<Longrightarrow> length bs = packet_queue_len q"
  using queue_prop_loop_pack [of "qu_properties q"] by (auto simp: packet_queue_pack_def pack_nat_H_Inr packet_queue_len_def)

lemma queue_loop_pack:
  "enc_all packet_queue_pack qs = Inr bs \<Longrightarrow>
     queue_loop (sum_list (map packet_queue_len qs)) (bs @ r) = Inr (qs, r) \<and> length bs = sum_list (map packet_queue_len qs)"
proof (induction qs arbitrary: bs)
  case Nil
  then show ?case by (simp add: queue_loop.simps)
next
  case (Cons q qs)
  then obtain b bs' where b: "packet_queue_pack q = Inr b" "enc_all packet_queue_pack qs = Inr bs'" "bs = b @ bs'" by auto
  have l: "length b = packet_queue_len q" "0 < packet_queue_len q"
    using length_packet_queue_pack [OF b(1)] by (simp_all add: packet_queue_len_def)
  moreover have "packet_queue_unpack (b @ bs' @ r) = Inr (q, bs' @ r)" using queue_wire.dec_enc [OF _ b(1)] by simp
  ultimately show ?case using b Cons.IH [OF b(2)] by (subst queue_loop.simps) simp
qed

lemma stats_request_read:
  assumes "stats_request_ok b" "stats_request_body_pack b = Inr bs" "stats_request_type b = Some t"
  shows "stats_request_body_unpack t bs = Inr (stats_request_sent b)"
proof (cases b)
  case (SRFlow q)
  then show ?thesis using assms
    by (auto simp: stats_request_body_unpack_def flow_stats_request_pack_def flow_stats_request_unpack_def
        stats_request_ok_def codec)
next
  case (SRAggregate q)
  then show ?thesis using assms
    by (auto simp: stats_request_body_unpack_def flow_stats_request_pack_def flow_stats_request_unpack_def
        stats_request_ok_def codec)
next
  case (SRQueue p q)
  have "pad 2 = pack_H 0" by (simp add: pad_def pack_H_def numeral_2_eq_2)
  with SRQueue show ?thesis using assms by (auto simp: stats_request_body_unpack_def codec)
qed (use assms in \<open>auto simp: stats_request_body_unpack_def codec rd_bytes_def\<close>)

lemma features_roundtrip:
  assumes "list_all phy_port_ok (fe_ports f)" "body_bytes (MFeaturesReply f) = Inr bs" "n = 32 + 48 * length (fe_ports f)"
  shows "features_read n (bs @ r) = Inr (MFeaturesReply f, r) \<and> length bs + 8 = n"
proof -
  obtain ps where ps: "enc_all phy_port_pack (fe_ports f) = Inr ps"
    and bs: "bs = pack_Q (fe_datapath_id f) @ pack_L (fe_n_buffers f) @ [fe_n_tables f] @ pad 3 @
            pack_L (fe_capabilities f) @ pack_L (fe_actions f) @ ps"
    using assms(2) by auto
  have "length ps = sum_list (map (\<lambda>_. 48) (fe_ports f))"
    using assms(1) by (intro length_enc_all [OF _ ps]) (auto simp: list_all_iff length_phy_port_pack)
  moreover have "rd_many phy_port_unpack (length (fe_ports f)) (ps @ r) = Inr (fe_ports f, r)"
    using port_wire.dec_many [OF assms(1) ps, of r] by simp
  ultimately show ?thesis by (simp add: features_read_def bs codec assms(3) sum_list_triv)
qed

lemma flow_mod_roundtrip:
  assumes "macs_ok (fm_match f)" "list_all act_ok (fm_actions f)" "fm_data f = None" "flow_mod_bytes f = Inr bs"
    "n = flow_mod_len f"
  shows "flow_mod_read n (bs @ r) = Inr (body_sent (MFlowMod f), r) \<and> length bs + 8 = n"
proof -
  obtain acts where a: "pack_actions (fm_actions f) = Inr acts"
    and bs: "bs = match_pack True (fm_match f) @ pack_Q (fm_cookie f) @ pack_H (fm_command f) @ pack_H (fm_idle_timeout f) @
            pack_H (fm_hard_timeout f) @ pack_H (fm_priority f) @ pack_L (fm_buffer_id f) @ pack_H (fm_out_port f) @
            pack_H (fm_flags f) @ acts"
    using assms(4) by (auto simp: flow_mod_bytes_def)
  have "n - 72 = sum_list (map act_len (fm_actions f))" by (simp add: assms(5) flow_mod_len_def)
  moreover have "length acts = sum_list (map act_len (fm_actions f))" using act_loop_pack(2) [OF assms(2) a] .
  ultimately show ?thesis
    using assms(1,3) unpack_packed_actions [OF assms(2) a, of r]
    by (simp add: flow_mod_read_def bs codec length_match_pack assms(5) flow_mod_len_def)
qed

lemma packet_out_roundtrip:
  assumes "list_all act_ok (po_actions p)" "packet_out_bytes p = Inr bs" "n = packet_out_len p"
  shows "packet_out_read n (bs @ r) = Inr (body_sent (MPacketOut p), r) \<and> length bs + 8 = n"
proof -
  obtain acts where a: "pack_actions (po_actions p) = Inr acts" and l: "length acts < 65536"
    and bs: "bs = pack_L (po_buffer_id p) @ pack_H (po_in_port p) @ pack_H (word_of_nat (length acts)) @ acts @ po_data p"
    using assms(2) by (auto simp: packet_out_bytes_def pack_nat_H_Inr)
  have len: "length acts = sum_list (map act_len (po_actions p))" using act_loop_pack(2) [OF assms(1) a] .
  moreover have "unpack_actions (length acts) (acts @ po_data p @ r) = Inr (map act_sent (po_actions p), po_data p @ r)"
    using unpack_packed_actions [OF assms(1) a] len by simp
  moreover have "unat (word_of_nat (sum_list (map act_len (po_actions p))) :: 16 word) = sum_list (map act_len (po_actions p))"
    using unat_16 [OF l] by (simp only: len)
  ultimately show ?thesis
    by (simp add: packet_out_read_def bs codec assms(3) packet_out_len_def)
qed

lemma flow_removed_roundtrip:
  assumes "macs_ok (fr_match f)" "flow_removed_bytes f = Inr bs"
  shows "flow_removed_read (bs @ r) = Inr (body_sent (MFlowRemoved f), r) \<and> length bs = 80"
proof -
  obtain ds dn pc bc where p: "pack_nat_L (fr_duration_sec f) = Inr ds" "pack_nat_L (fr_duration_nsec f) = Inr dn"
    "pack_nat_Q (fr_packet_count f) = Inr pc" "pack_nat_Q (fr_byte_count f) = Inr bc"
    and bs: "bs = match_pack False (fr_match f) @ pack_Q (fr_cookie f) @ pack_H (fr_priority f) @ [fr_reason f] @ pad 1 @
            ds @ dn @ pack_H (fr_idle_timeout f) @ pad 2 @ pc @ bc"
    using assms(2) by (auto simp: flow_removed_bytes_def)
  then have "length ds = 4" "length dn = 4" "length pc = 8" "length bc = 8"
    using pack_nat_L_Inr pack_nat_Q_Inr by blast+
  then show ?thesis using assms(1) p
    by (simp add: flow_removed_read_def bs codec pack_nat_L_Inr pack_nat_Q_Inr length_match_pack)
qed

lemma packet_in_roundtrip:
  assumes "body_bytes (MPacketIn p) = Inr bs" "n = 18 + length (pi_data p)"
  shows "packet_in_read n (bs @ r) = Inr (body_sent (MPacketIn p), r) \<and> length bs + 8 = n"
proof -
  have t: "total_len p < 65536" and bs: "bs = pack_L (pi_buffer_id p) @ pack_H (word_of_nat (total_len p)) @ pack_H (pi_in_port p) @
      [pi_reason p, 0] @ pi_data p"
    using assms(1) by (auto simp: pack_nat_H_Inr)
  show ?thesis by (simp add: packet_in_read_def bs codec unat_16 [OF t] assms(2))
qed

definition framed :: "of_body \<Rightarrow> bool" where
  "framed b \<longleftrightarrow> b \<noteq> MHello \<and> (\<forall>v d. b \<noteq> MVendor v d)"

lemma body_roundtrip:
  assumes "body_ok b" "body_validate b = Inr ()" "body_len b = Inr n" "body_bytes b = Inr bs" "framed b"
  shows "body_read (header_type b) n (bs @ r) = Inr (body_sent b, r) \<and> length bs + 8 = n"
proof (cases b)
  case (MFeaturesReply f)
  then show ?thesis using assms features_roundtrip [of f bs n r] by (simp add: body_read_def body_ok_def)
next
  case (MPacketIn p)
  then show ?thesis using assms packet_in_roundtrip [of p bs n r] by (simp add: body_read_def)
next
  case (MFlowRemoved f)
  then show ?thesis using assms flow_removed_roundtrip [of f bs r] by (simp add: body_read_def body_ok_def)
next
  case (MPortStatus x p)
  then obtain d where "phy_port_pack p = Inr d" "bs = [x] @ pad 7 @ d" using assms by auto
  then show ?thesis using assms MPortStatus port_wire.dec_enc [of p d r] length_phy_port_pack [of p d]
    by (simp add: body_read_def body_ok_def codec)
next
  case (MPacketOut p)
  then show ?thesis using assms packet_out_roundtrip [of p bs n r] by (simp add: body_read_def body_ok_def)
next
  case (MFlowMod f)
  then show ?thesis using assms flow_mod_roundtrip [of f bs n r] by (simp add: body_read_def body_ok_def)
next
  case (MPortMod p)
  then show ?thesis using assms by (auto simp: body_read_def port_mod_read_def body_validate_def codec split: if_splits)
next
  case (MStatsRequest f s)
  then obtain d t where d: "stats_request_body_pack s = Inr d" "stats_request_type s = Some t" "bs = pack_H t @ pack_H f @ d"
    using assms by (auto split: option.splits)
  then show ?thesis using assms MStatsRequest stats_request_read [OF _ d(1,2)]
    by (auto simp: body_read_def body_ok_def codec)
next
  case (MStatsReply f s)
  then obtain d m where d: "stats_reply_body_pack s = Inr d" "bs = pack_H (stats_reply_type s) @ pack_H f @ d"
    and m: "stats_reply_body_len s = Inr m" "n = 12 + m"
    using assms by auto
  then show ?thesis using assms MStatsReply stats_reply_read [of s d] stats_reply_length [of s d m]
    by (auto simp: body_read_def body_ok_def codec)
next
  case (MQueueGetConfigReply p qs)
  then obtain d where d: "enc_all packet_queue_pack qs = Inr d" "bs = pack_H p @ pad 6 @ d" using assms by auto
  then show ?thesis using assms MQueueGetConfigReply queue_loop_pack [OF d(1), of r] by (auto simp: body_read_def codec)
qed (use assms in \<open>auto simp: body_read_def framed_def codec\<close>)

lemma header_roundtrip:
  assumes "header_pack h ty n = Inr hb"
  shows "header_read (hb @ r) = Inr ((h, ty, n), r) \<and> length hb = 8 \<and> n < 65536 \<and> hb ! 1 = ty \<and>
    unat (u16_at (hb @ r) 2) = n"
proof -
  have n: "n < 65536" and hb: "hb = [hdr_version h, ty] @ pack_H (word_of_nat n) @ pack_L (hdr_xid h)"
    using assms by (auto simp: header_pack_def pack_nat_H_Inr)
  show ?thesis using n
    by (simp add: header_read_def hb codec unat_16 [OF n] u16_at_def py_slice_def)
qed

lemma macs_ok_sent: "macs_ok m \<Longrightarrow> macs_ok (match_sent fm m)"
  by (auto simp: macs_ok_def match_sent_def mt_attrs attr_def EMPTY_ETH_def split: option.splits if_splits)

lemma map_act_len_sent [simp]: "map (act_len \<circ> act_sent) as = map act_len as"
  by simp

lemma flow_stats_len_sent [simp]: "map (flow_stats_len \<circ> flow_stats_sent) fs = map flow_stats_len fs"
  by (simp add: flow_stats_len_def flow_stats_sent_def)

lemma body_len_sent:
  assumes "body_ok b"
  shows "body_len (body_sent b) = body_len b"
proof (cases b)
  case (MStatsRequest f s)
  show ?thesis
  proof (cases "\<exists>q. s = SRFlow q \<or> s = SRAggregate q")
    case True
    then show ?thesis using assms MStatsRequest
      by (auto simp: body_ok_def stats_request_ok_def flow_stats_request_pack_def length_match_pack macs_ok_sent)
  next
    case False
    then show ?thesis using MStatsRequest by (cases s) auto
  qed
next
  case (MStatsReply f s)
  then show ?thesis by (cases s) auto
qed (auto simp: flow_mod_len_def packet_out_len_def)

text \<open>
  The transport reads the type from the header, calls the reader of that class, and goes on after the
  message.
\<close>

definition msg_dec :: "ofp_msg reader" where
  "msg_dec bs =
     (if length bs < 8 then Inl UnderrunError
      else rbind (msg_unpack (bs ! 1) bs) (\<lambda>(m, n). Inr (m, drop n bs)))"

definition msg_ok :: "ofp_msg \<Rightarrow> bool" where "msg_ok m = body_ok (snd m)"
definition msg_sent :: "ofp_msg \<Rightarrow> ofp_msg" where "msg_sent m = (fst m, body_sent (snd m))"

lemma msg_unpack_pack:
  assumes "body_ok b" "msg_pack (h, b) = Inr bs"
  shows "msg_unpack (header_type b) (bs @ r) = Inr ((h, body_sent b), length bs) \<and> 8 \<le> length bs \<and> bs ! 1 = header_type b \<and>
    unat (u16_at (bs @ r) 2) = length bs"
proof -
  from assms(2) obtain n hb d where v: "body_validate b = Inr ()" and n: "body_len b = Inr n"
    and hb: "header_pack h (header_type b) n = Inr hb" and d: "body_bytes b = Inr d" and bs: "bs = hb @ d"
    by (auto simp: msg_pack_def)
  have hr: "header_read (hb @ d @ r) = Inr ((h, header_type b, n), d @ r)" and l8: "length hb = 8" and t: "hb ! 1 = header_type b"
    and u: "unat (u16_at (hb @ d @ r) 2) = n"
    using header_roundtrip [OF hb, of "d @ r"] by auto
  show ?thesis
  proof (cases "framed b")
    case True
    then have "header_type b \<noteq> 0" "header_type b \<noteq> 4" by (cases b; simp add: framed_def)+
    then show ?thesis
      using body_roundtrip [OF assms(1) v n d True, of r] hr l8 t u n
      by (auto simp: msg_unpack_def bs nth_append body_len_sent [OF assms(1)])
  next
    case False
    then consider "b = MHello" | vv dd where "b = MVendor vv dd" by (auto simp: framed_def)
    then show ?thesis
    proof cases
      case 1
      then show ?thesis using hr l8 t u n d by (auto simp: msg_unpack_def bs nth_append)
    next
      case 2
      then show ?thesis using hr l8 t u n d by (auto simp: msg_unpack_def bs nth_append codec)
    qed
  qed
qed

interpretation msg_wire: wire_format msg_pack msg_dec msg_ok msg_sent
proof
  fix m bs r assume "msg_ok m" "msg_pack m = Inr bs"
  then show "msg_dec (bs @ r) = Inr (msg_sent m, r)"
    using msg_unpack_pack [of "snd m" "fst m" bs r]
    by (simp add: msg_dec_def msg_ok_def msg_sent_def nth_append)
qed

text \<open>
  C28. Every OpenFlow message that packs is read back as it was sent, whatever bytes follow it, and the
  reader stops at its end: for messages with six-byte Ethernet addresses, names and descriptions without a zero byte,
  generic actions and statistics of no known type, and no packet attached to a flow modification.  What is sent
  differs from the object only in the \<open>max_len\<close> of outputs to other ports than the controller, in a packet-in's total
  length, which is given, and in matches: \<open>match_sent\<close> has every value that is not wildcarded and whose protocol the
  match asks for, zeros in place of the others, and in a flow modification wildcards for the fields of other protocols.
\<close>

theorem message_roundtrip:
  assumes "body_ok b" "msg_pack (h, b) = Inr bs"
  shows "msg_unpack (header_type b) (bs @ r) = Inr ((h, body_sent b), length bs)"
  using msg_unpack_pack [OF assms] by blast

definition arp_in :: ofp_match where "arp_in = set_dl_type (Some 0x0806) (set_in_port (Some 3) match_init)"

definition arp_mod :: "ofp_match \<Rightarrow> 16 word \<Rightarrow> flow_mod" where
  "arp_mod m l = \<lparr>fm_match = m, fm_cookie = 5, fm_command = 0, fm_idle_timeout = 10, fm_hard_timeout = 30, fm_priority = 7,
     fm_buffer_id = NO_BUFFER, fm_out_port = 65535, fm_flags = 1, fm_actions = [ActOutput 4 l], fm_data = None\<rparr>"

theorem message_roundtrip_witness:
  "\<exists>bs. msg_pack (\<lparr>hdr_version = 1, hdr_xid = 77\<rparr>, MFlowMod (arp_mod (set_tp_dst (Some 80) arp_in) 9)) = Inr bs \<and>
    msg_unpack 14 (bs @ [5]) = Inr ((\<lparr>hdr_version = 1, hdr_xid = 77\<rparr>, MFlowMod (arp_mod arp_in 0)), length bs)"
proof -
  let ?b = "MFlowMod (arp_mod (set_tp_dst (Some 80) arp_in) 9)"
  let ?h = "\<lparr>hdr_version = 1, hdr_xid = 77\<rparr>"
  have "case msg_pack (?h, ?b) of Inl _ \<Rightarrow> False | Inr _ \<Rightarrow> True" by code_simp
  then obtain bs where p: "msg_pack (?h, ?b) = Inr bs" by (auto split: sum.splits)
  have m: "macs_ok (set_tp_dst (Some 80) arp_in)" "match_sent True (set_tp_dst (Some 80) arp_in) = arp_in" by code_simp+
  have ok: "body_ok ?b" using m(1) by (simp add: body_ok_def act_ok_def arp_mod_def)
  show ?thesis using p message_roundtrip [OF ok p, of "[5]"] by (simp add: arp_mod_def m(2) OFPP_CONTROLLER_def)
qed

lemma msg_pack_nonempty: "msg_ok m \<Longrightarrow> msg_pack m = Inr bs \<Longrightarrow> bs \<noteq> []"
  using msg_unpack_pack [of "snd m" "fst m" bs "[]"] by (auto simp: msg_ok_def)

text \<open>
  Packing a flow modification that carries a complete packet-in without a buffer sends three messages:
  the flow modification, a barrier, and a packet-out that hands the packet to the flow table.
\<close>

theorem flow_mod_data_sequence:
  assumes "macs_ok (fm_match f)" "list_all act_ok (fm_actions f)" "fm_data f = Some d"
    and "pi_buffer_id d = NO_BUFFER" "is_complete d" "flow_mod_pack h x1 x2 f = Inr bs"
  shows "rd_many msg_dec 3 (bs @ r) = Inr (
    [(h, body_sent (MFlowMod (f\<lparr>fm_buffer_id := NO_BUFFER, fm_data := None\<rparr>))),
     (\<lparr>hdr_version = OFP_VERSION, hdr_xid = x1\<rparr>, MBarrierRequest),
     (\<lparr>hdr_version = OFP_VERSION, hdr_xid = x2\<rparr>,
      MPacketOut \<lparr>po_buffer_id = NO_BUFFER, po_in_port = pi_in_port d, po_actions = [ActOutput OFPP_TABLE 0],
        po_data = pi_data d\<rparr>)], r)"
proof -
  let ?f = "f\<lparr>fm_buffer_id := NO_BUFFER, fm_data := None\<rparr>"
  let ?p = "\<lparr>po_buffer_id = NO_BUFFER, po_in_port = pi_in_port d, po_actions = [ActOutput OFPP_TABLE 0xffff], po_data = pi_data d\<rparr>"
  let ?ms = "[(h, MFlowMod ?f), (\<lparr>hdr_version = OFP_VERSION, hdr_xid = x1\<rparr>, MBarrierRequest),
    (\<lparr>hdr_version = OFP_VERSION, hdr_xid = x2\<rparr>, MPacketOut ?p)]"
  have "enc_all msg_pack ?ms = Inr bs"
    using assms by (auto simp: flow_mod_pack_def flow_mod_with_data_def)
  moreover have "list_all msg_ok ?ms"
    using assms(1,2) by (simp add: msg_ok_def body_ok_def act_ok_def)
  moreover have "map msg_sent ?ms = [(h, body_sent (MFlowMod ?f)), (\<lparr>hdr_version = OFP_VERSION, hdr_xid = x1\<rparr>, MBarrierRequest),
     (\<lparr>hdr_version = OFP_VERSION, hdr_xid = x2\<rparr>,
      MPacketOut \<lparr>po_buffer_id = NO_BUFFER, po_in_port = pi_in_port d, po_actions = [ActOutput OFPP_TABLE 0],
        po_data = pi_data d\<rparr>)]"
    by (simp add: msg_sent_def OFPP_TABLE_def OFPP_CONTROLLER_def)
  moreover have "length ?ms = 3" by simp
  ultimately show ?thesis using msg_wire.dec_many [of ?ms bs r] by (simp only:)
qed

theorem flow_mod_data_sequence_witness:
  "\<exists>bs m. flow_mod_pack \<lparr>hdr_version = 1, hdr_xid = 5\<rparr> 6 7
       \<lparr>fm_match = match_init, fm_cookie = 0, fm_command = 0, fm_idle_timeout = 0, fm_hard_timeout = 0, fm_priority = 32768,
        fm_buffer_id = NO_BUFFER, fm_out_port = OFPP_NONE, fm_flags = 0, fm_actions = [],
        fm_data = Some \<lparr>pi_in_port = 2, pi_buffer_id = NO_BUFFER, pi_reason = 0, pi_data = [1, 2], pi_total_len = None\<rparr>\<rparr> = Inr bs \<and>
     rd_many msg_dec 3 bs = Inr ([m, (\<lparr>hdr_version = OFP_VERSION, hdr_xid = 6\<rparr>, MBarrierRequest),
       (\<lparr>hdr_version = OFP_VERSION, hdr_xid = 7\<rparr>,
        MPacketOut \<lparr>po_buffer_id = NO_BUFFER, po_in_port = 2, po_actions = [ActOutput OFPP_TABLE 0], po_data = [1, 2]\<rparr>)], [])"
proof -
  let ?h = "\<lparr>hdr_version = 1, hdr_xid = 5\<rparr>"
  let ?d = "\<lparr>pi_in_port = 2, pi_buffer_id = NO_BUFFER, pi_reason = 0, pi_data = [1, 2], pi_total_len = None\<rparr>"
  let ?f = "\<lparr>fm_match = match_init, fm_cookie = 0, fm_command = 0, fm_idle_timeout = 0, fm_hard_timeout = 0, fm_priority = 32768,
        fm_buffer_id = NO_BUFFER, fm_out_port = OFPP_NONE, fm_flags = 0, fm_actions = [], fm_data = Some ?d\<rparr>"
  have "case flow_mod_pack ?h 6 7 ?f of Inl _ \<Rightarrow> False | Inr _ \<Rightarrow> True" by code_simp
  then obtain bs where p: "flow_mod_pack ?h 6 7 ?f = Inr bs" by (auto split: sum.splits)
  have "macs_ok (fm_match ?f)" by code_simp
  moreover have "is_complete ?d" by (simp add: is_complete_def total_len_def)
  ultimately show ?thesis using p flow_mod_data_sequence [of ?f ?d ?h 6 7 bs "[]"] by simp
qed

end
