(* ===== verification/PBFT_App.thy ===== *)
theory PBFT_App
  imports Util Messages "HOL-Library.List_Lexorder" "HOL-Library.Product_Lexorder"
begin

text \<open>
  \<open>ext/pbft_pox_app.py\<close>: the learning switch whose decisions are agreed upon by a primary controller and its
  replicas.  \<open>DeterministicL2SwitchLogic\<close> is the state machine that both run; the servicer of a replica answers
  the remote calls of the consensus nodes; the primary proposes an action for each packet, asks the dealer, and
  carries the agreed action out.  The dealer and the transport are another program: a call that was made is an
  element of a list, a response is an argument.  Log output and time stamps are left out.
\<close>

section \<open>\<open>DeterministicL2SwitchLogic\<close>\<close>

text \<open>The keys of the tables are texts: datapath identifiers and Ethernet addresses.\<close>

type_synonym endpoint = "bytes \<times> nat"

record l2_logic =
  l2_macs :: "(bytes, (bytes, nat) dict) dict"
  l2_links :: "(endpoint \<times> endpoint) set"

definition new_logic :: l2_logic where "new_logic = \<lparr>l2_macs = [], l2_links = {}\<rparr>"

definition LLDP_TYPE :: "16 word" where "LLDP_TYPE = 0x88cc"
definition IPV6_TYPE :: "16 word" where "IPV6_TYPE = 0x86dd"
definition LINK_UP :: nat where "LINK_UP = 1"
definition LINK_DOWN :: nat where "LINK_DOWN = 2"

lemmas link_consts = LINK_UP_def LINK_DOWN_def

definition eth_str :: "eth_addr \<Rightarrow> bytes" where "eth_str a = eth_to_str [58] False Map.empty a"

definition learn_mac :: "bytes \<Rightarrow> bytes \<Rightarrow> nat \<Rightarrow> l2_logic \<Rightarrow> l2_logic" where
  "learn_mac dpid src in_port l =
     (let m = (if map_of (l2_macs l) dpid = None then d_set dpid [] (l2_macs l) else l2_macs l);
          t = the (map_of m dpid) in
      l\<lparr>l2_macs := if map_of t src \<noteq> Some in_port then d_set dpid (d_set src in_port t) m else m\<rparr>)"

text \<open>The answer is the output port of a packet-out, or no action.\<close>

definition FLOOD :: nat where "FLOOD = 65531"

definition compute_action :: "packet_lib \<Rightarrow> bytes \<Rightarrow> nat \<Rightarrow> bytes \<Rightarrow> l2_logic \<Rightarrow> nat option \<times> l2_logic" where
  "compute_action L dpid in_port data l =
     (let pkt = eth_parse L data in
      if \<not> m_parsed (eth_meta pkt) then (None, l)
      else if eth_type pkt = LLDP_TYPE \<or> eth_type pkt = IPV6_TYPE then (None, l)
      else
        let l' = learn_mac dpid (eth_str (eth_src pkt)) in_port l in
        (case map_of (l2_macs l') dpid of
           Some t \<Rightarrow>
             (case map_of t (eth_str (eth_dst pkt)) of
                Some out_port \<Rightarrow> if out_port \<noteq> in_port then Some out_port else None
              | None \<Rightarrow> Some FLOOD)
         | None \<Rightarrow> Some FLOOD, l'))"

definition clear_macs_for_port :: "bytes \<Rightarrow> nat \<Rightarrow> l2_logic \<Rightarrow> l2_logic" where
  "clear_macs_for_port dpid port_no l =
     (case map_of (l2_macs l) dpid of
        None \<Rightarrow> l
      | Some t \<Rightarrow>
          let gone = map fst (filter (\<lambda>(mac, p). p = port_no) t) in
          if gone = [] then l
          else let t' = fold d_del gone t in
            l\<lparr>l2_macs := if t' = [] then d_del dpid (l2_macs l) else d_set dpid t' (l2_macs l)\<rparr>)"

definition link_key :: "endpoint \<Rightarrow> endpoint \<Rightarrow> endpoint \<times> endpoint" where
  "link_key e1 e2 = (let s = sort [e1, e2] in (s ! 0, s ! 1))"

text \<open>The name of a status that the enumeration does not have raises before anything is changed.\<close>

definition update_link_state :: "bytes \<Rightarrow> nat \<Rightarrow> bytes \<Rightarrow> nat \<Rightarrow> nat \<Rightarrow> (l2_logic, unit) sm" where
  "update_link_state dpid1 port1 dpid2 port2 status l =
     (let key = link_key (dpid1, port1) (dpid2, port2) in
      if 2 < status then (Inl ValueError, l)
      else if status = LINK_UP then (Inr (), l\<lparr>l2_links := insert key (l2_links l)\<rparr>)
      else if status = LINK_DOWN then
        (if key \<in> l2_links l then
           (Inr (), clear_macs_for_port dpid2 port2 (clear_macs_for_port dpid1 port1 (l\<lparr>l2_links := l2_links l - {key}\<rparr>)))
         else (Inr (), l))
      else (Inr (), l))"

section \<open>The replica\<close>

text \<open>\<open>json.dumps\<close> of the dictionary of an action.\<close>

definition action_json :: "nat \<Rightarrow> bytes" where
  "action_json out_port = ascii ''{\"type\": \"packet_out\", \"out_port\": '' @ digits_of 10 out_port @ ascii ''}''"

record packet_info =
  pk_dpid :: bytes
  pk_in_port :: nat
  pk_buffer_id :: nat
  pk_total_len :: nat
  pk_data :: bytes

datatype grpc_code = GrpcOk | GrpcUnknown | GrpcInternal | GrpcUnavailable

text \<open>\<open>CalculateAction\<close> and \<open>NotifyLinkEvent\<close>; the logic may be missing.\<close>

definition calculate_action :: "packet_lib \<Rightarrow> packet_info \<Rightarrow> l2_logic option \<Rightarrow> (bytes \<times> grpc_code) \<times> l2_logic option" where
  "calculate_action L req lo =
     (case lo of
        None \<Rightarrow> ((ascii ''{}'', GrpcUnavailable), None)
      | Some l \<Rightarrow>
          (case compute_action L (pk_dpid req) (pk_in_port req) (pk_data req) l of
             (a, l') \<Rightarrow> ((case a of None \<Rightarrow> ascii ''{}'' | Some p \<Rightarrow> action_json p, GrpcOk), Some l')))"

text \<open>The name of the status is taken before the handler's own \<open>try\<close>.\<close>

definition notify_link_event :: "bytes \<Rightarrow> nat \<Rightarrow> bytes \<Rightarrow> nat \<Rightarrow> nat \<Rightarrow> l2_logic option \<Rightarrow> grpc_code \<times> l2_logic option" where
  "notify_link_event d1 p1 d2 p2 status lo =
     (if 2 < status then (GrpcUnknown, lo)
      else case lo of
        None \<Rightarrow> (GrpcUnavailable, None)
      | Some l \<Rightarrow>
          (case update_link_state d1 p1 d2 p2 status l of
             (Inl _, l') \<Rightarrow> (GrpcInternal, Some l')
           | (Inr _, l') \<Rightarrow> (GrpcOk, Some l')))"

section \<open>The primary\<close>

record consensus_request =
  cr_info :: packet_info
  cr_action :: bytes

record consensus_response =
  rs_reached :: bool
  rs_action :: bytes

text \<open>A packet-in event: the datapath it came from and the message.\<close>

record packet_event =
  pe_dpid :: "64 word"
  pe_ofp :: packet_in

record link_event =
  le_added :: bool
  le_removed :: bool
  le_dpid1 :: "64 word"
  le_port1 :: nat
  le_dpid2 :: "64 word"
  le_port2 :: nat

text \<open>\<open>pr_asked\<close> are the calls of \<open>RequestConsensus\<close>, \<open>pr_reported\<close> those of \<open>ReportLinkEvent\<close>.\<close>

record primary =
  pr_logic :: "l2_logic option"
  pr_stub :: bool
  pr_counter :: nat
  pr_asked :: "(packet_event \<times> consensus_request) list"
  pr_reported :: "(endpoint \<times> endpoint \<times> nat) list"

definition request_of :: "packet_event \<Rightarrow> nat \<Rightarrow> consensus_request" where
  "request_of ev out_port =
     (let m = pe_ofp ev in
      \<lparr>cr_info = \<lparr>pk_dpid = dpid_to_str (pe_dpid ev) False, pk_in_port = unat (pi_in_port m),
         pk_buffer_id = (if pi_buffer_id m = NO_BUFFER then 0 else unat (pi_buffer_id m)),
         pk_total_len = total_len m, pk_data = pi_data m\<rparr>,
       cr_action = action_json out_port\<rparr>)"

definition handle_packet_in :: "packet_lib \<Rightarrow> packet_event \<Rightarrow> primary \<Rightarrow> primary" where
  "handle_packet_in L ev p0 =
     (let p = p0\<lparr>pr_counter := pr_counter p0 + 1\<rparr>; m = pe_ofp ev; packet = eth_parse L (pi_data m) in
      if \<not> m_parsed (eth_meta packet) then p
      else if eth_type packet = LLDP_TYPE \<or> eth_type packet = IPV6_TYPE then p
      else case pr_logic p of
        None \<Rightarrow> p
      | Some l \<Rightarrow>
          (case compute_action L (dpid_to_str (pe_dpid ev) False) (unat (pi_in_port m)) (pi_data m) l of
             (None, l') \<Rightarrow> p\<lparr>pr_logic := Some l'\<rparr>
           | (Some out_port, l') \<Rightarrow>
               if pr_stub p then p\<lparr>pr_logic := Some l', pr_asked := pr_asked p @ [(ev, request_of ev out_port)]\<rparr>
               else p\<lparr>pr_logic := Some l'\<rparr>))"

definition handle_link_event :: "link_event \<Rightarrow> primary \<Rightarrow> primary" where
  "handle_link_event e p =
     (let report = (\<lambda>st. if pr_stub p then
          p\<lparr>pr_reported := pr_reported p @ [((dpid_to_str (le_dpid1 e) False, le_port1 e), (dpid_to_str (le_dpid2 e) False, le_port2 e), st)]\<rparr>
        else p) in
      if le_added e then report LINK_UP
      else if le_removed e then report LINK_DOWN
      else p)"

text \<open>The flow that sends what no other flow matches to the controller.\<close>

definition table_miss_flow :: flow_mod where
  "table_miss_flow = \<lparr>fm_match = match_init, fm_cookie = 0, fm_command = 0, fm_idle_timeout = 0, fm_hard_timeout = 0,
     fm_priority = 0, fm_buffer_id = NO_BUFFER, fm_out_port = OFPP_NONE, fm_flags = 0,
     fm_actions = [ActOutput OFPP_CONTROLLER 0xffff], fm_data = None\<rparr>"

text \<open>
  What \<open>json.loads\<close> returns; a float is what \<open>int\<close> makes of it.  The function itself is the argument \<open>loads\<close>.
\<close>

datatype jvalue = JNull | JBool bool | JInt int | JFloat "int result" | JText bytes | JList "jvalue list" | JObject "(bytes \<times> jvalue) list"

fun int_of_json :: "jvalue \<Rightarrow> int result" where
  "int_of_json (JInt n) = Inr n"
| "int_of_json (JBool b) = Inr (if b then 1 else 0)"
| "int_of_json (JFloat r) = r"
| "int_of_json (JText s) = py_int 10 s"
| "int_of_json _ = Inl TypeError"

definition upper :: "bytes \<Rightarrow> bytes" where
  "upper = map (\<lambda>c. if 97 \<le> c \<and> c \<le> 122 then c - 32 else c)"

definition json_port :: "jvalue \<Rightarrow> int result" where
  "json_port v = (case v of JText s \<Rightarrow> if upper s = ascii ''FLOOD'' then Inr (int FLOOD) else int_of_json v | _ \<Rightarrow> int_of_json v)"

text \<open>The packet-out; a port that does not fit into 16 bits is refused when the message is packed.\<close>

definition final_packet_out :: "packet_event \<Rightarrow> int \<Rightarrow> packet_out result" where
  "final_packet_out ev out_port =
     (if out_port < 0 \<or> 65535 < out_port then Inl StructError
      else let m = pe_ofp ev;
           po = \<lparr>po_buffer_id = pi_buffer_id m, po_in_port = pi_in_port m, po_actions = [ActOutput (word_of_int out_port) 0xffff],
                 po_data = (if pi_buffer_id m \<noteq> NO_BUFFER then [] else pi_data m)\<rparr> in
        rbind (msg_pack (\<lparr>hdr_version = OFP_VERSION, hdr_xid = 0\<rparr>, MPacketOut po)) (\<lambda>_. Inr po))"

text \<open>\<open>_execute_final_action\<close>: the packet-out that is sent, if any; every exception is caught and logged.\<close>

definition execute_final_action :: "(bytes \<Rightarrow> jvalue result) \<Rightarrow> packet_event \<Rightarrow> consensus_response option \<Rightarrow> packet_out option" where
  "execute_final_action loads ev response =
     (case response of
        None \<Rightarrow> None
      | Some r \<Rightarrow>
          if \<not> rs_reached r then None
          else if rs_action r = [] then None
          else if rs_action r = ascii ''{}'' then None
          else case loads (rs_action r) of
            Inr (JObject d) \<Rightarrow>
              if map_of d (ascii ''type'') = Some (JText (ascii ''packet_out'')) then
                (case map_of d (ascii ''out_port'') of
                   None \<Rightarrow> None
                 | Some JNull \<Rightarrow> None
                 | Some v \<Rightarrow> (case rbind (json_port v) (final_packet_out ev) of Inl _ \<Rightarrow> None | Inr po \<Rightarrow> Some po))
              else None
          | _ \<Rightarrow> None)"

section \<open>What the logic has learned\<close>

text \<open>The port an address was learned on, in a table of tables.\<close>

definition learned_port :: "l2_logic \<Rightarrow> bytes \<Rightarrow> bytes \<Rightarrow> nat option" where
  "learned_port l dpid mac = (case map_of (l2_macs l) dpid of None \<Rightarrow> None | Some t \<Rightarrow> map_of t mac)"

text \<open>No datapath has an empty table, and no key occurs twice.\<close>

definition logic_ok :: "l2_logic \<Rightarrow> bool" where
  "logic_ok l \<longleftrightarrow> d_ok (l2_macs l) \<and> (\<forall>d t. map_of (l2_macs l) d = Some t \<longrightarrow> t \<noteq> [] \<and> d_ok t)"

lemma learned_learn:
  "learned_port (learn_mac d src p l) d' mac = (if d' = d \<and> mac = src then Some p else learned_port l d' mac)"
  by (auto simp: learned_port_def learn_mac_def Let_def map_of_d_set split: option.splits)

lemma learn_has_table: "map_of (l2_macs (learn_mac d src p l)) d \<noteq> None"
  by (auto simp: learn_mac_def Let_def map_of_d_set)

lemma d_ok_small [simp]: "d_ok []" "d_ok [(k, v)]"
  by (simp_all add: d_ok_def)

lemma learn_ok: "logic_ok l \<Longrightarrow> logic_ok (learn_mac d src p l)"
  by (auto simp: logic_ok_def learn_mac_def Let_def map_of_d_set pyd.ok_set pyd.ok_emp split: if_splits)

lemma map_of_fold_del: "map_of (fold d_del ks t) k = (if k \<in> set ks then None else map_of t k)"
  by (induction ks arbitrary: t) (auto simp: map_of_d_del)

lemma fold_del_ok: "d_ok t \<Longrightarrow> d_ok (fold d_del ks t)"
  by (induction ks arbitrary: t) (auto simp: pyd.ok_del)

lemma d_ok_at: "d_ok t \<Longrightarrow> map_of t k = Some v \<longleftrightarrow> (k, v) \<in> set t"
  by (simp add: d_ok_def map_of_eq_Some_iff)

lemma learned_clear:
  assumes "logic_ok l"
  shows "learned_port (clear_macs_for_port d p l) d' mac =
    (if d' = d \<and> learned_port l d mac = Some p then None else learned_port l d' mac)"
proof (cases "map_of (l2_macs l) d")
  case None
  then show ?thesis by (simp add: clear_macs_for_port_def learned_port_def)
next
  case (Some t)
  have t: "d_ok t" using assms Some by (auto simp: logic_ok_def)
  have gone: "map_of (fold d_del (map fst (filter (\<lambda>(mac, q). q = p) t)) t) mac =
      (if map_of t mac = Some p then None else map_of t mac)" for mac
  proof -
    have "mac \<in> set (map fst (filter (\<lambda>(mac, q). q = p) t)) \<longleftrightarrow> map_of t mac = Some p"
      using d_ok_at [OF t] by force
    then show ?thesis by (simp only: map_of_fold_del)
  qed
  have none: "map_of t mac \<noteq> Some p" if "filter (\<lambda>(mac, q). q = p) t = []"
    using that d_ok_at [OF t] by (auto simp: filter_empty_conv)
  show ?thesis
    using Some gone [of mac] none
    by (auto simp: clear_macs_for_port_def learned_port_def Let_def map_of_d_set map_of_d_del split: if_splits)
qed

lemma clear_ok: "logic_ok l \<Longrightarrow> logic_ok (clear_macs_for_port d p l)"
  by (auto simp: logic_ok_def clear_macs_for_port_def Let_def map_of_d_set map_of_d_del pyd.ok_set pyd.ok_del fold_del_ok
      split: option.splits if_splits)

lemma clear_links [simp]: "l2_links (clear_macs_for_port d p l) = l2_links l"
  by (simp add: clear_macs_for_port_def Let_def split: option.split)

lemma learn_links [simp]: "l2_links (learn_mac d src p l) = l2_links l"
  by (simp add: learn_mac_def Let_def)

text \<open>The calls a logic has served, latest first.\<close>

datatype l2_call = Packet bytes nat bytes | Link endpoint endpoint nat

fun l2_serve :: "packet_lib \<Rightarrow> l2_call \<Rightarrow> l2_logic \<Rightarrow> l2_logic" where
  "l2_serve L (Packet d p data) l = snd (compute_action L d p data l)"
| "l2_serve L (Link e1 e2 st) l = snd (update_link_state (fst e1) (snd e1) (fst e2) (snd e2) st l)"

fun l2_after :: "packet_lib \<Rightarrow> l2_call list \<Rightarrow> l2_logic" where
  "l2_after L [] = new_logic"
| "l2_after L (c # cs) = l2_serve L c (l2_after L cs)"

text \<open>A frame that the logic looks at.\<close>

definition considered :: "packet_lib \<Rightarrow> bytes \<Rightarrow> bool" where
  "considered L data \<longleftrightarrow> 14 \<le> length data \<and> u16_at data 12 \<noteq> LLDP_TYPE \<and> u16_at data 12 \<noteq> IPV6_TYPE"

text \<open>
  The contract: a link is up if the last call about it that named a known status said so, and an address is on the
  port of the last frame considered that came from it, unless since then an active link at that port went down.
\<close>

fun link_active :: "l2_call list \<Rightarrow> endpoint \<times> endpoint \<Rightarrow> bool" where
  "link_active [] k = False"
| "link_active (Packet d p data # cs) k = link_active cs k"
| "link_active (Link e1 e2 st # cs) k =
     (if link_key e1 e2 = k \<and> (st = LINK_UP \<or> st = LINK_DOWN) then st = LINK_UP else link_active cs k)"

fun last_port :: "packet_lib \<Rightarrow> l2_call list \<Rightarrow> bytes \<Rightarrow> eth_addr \<Rightarrow> nat option" where
  "last_port L [] d a = None"
| "last_port L (Packet d' p data # cs) d a =
     (if considered L data \<and> d' = d \<and> py_slice 6 12 data = a then Some p else last_port L cs d a)"
| "last_port L (Link e1 e2 st # cs) d a =
     (case last_port L cs d a of
        None \<Rightarrow> None
      | Some p \<Rightarrow> if st = LINK_DOWN \<and> link_active cs (link_key e1 e2) \<and> ((d, p) = e1 \<or> (d, p) = e2) then None else Some p)"

lemma eth_str_inj:
  assumes "length a = 6" "length b = 6"
  shows "eth_str a = eth_str b \<longleftrightarrow> a = b"
proof
  assume "eth_str a = eth_str b"
  then have d: "concat (map (\<lambda>x. fmt_02x (uint x)) a) = concat (map (\<lambda>x. fmt_02x (uint x)) b)"
    using eth_to_str_shape(3) [OF assms(1), of Map.empty] eth_to_str_shape(3) [OF assms(2), of Map.empty] by (simp add: eth_str_def)
  have "Inr a = (Inr b :: bytes result)"
    using eth_of_digits [OF assms(1)] eth_of_digits [OF assms(2)] unfolding d by (rule trans [OF sym])
  then show "a = b" by simp
qed simp

lemma considered_macs:
  assumes "considered L data"
  shows "length (py_slice 6 12 data) = 6" "length (py_slice 0 6 data) = 6"
  using assms by (auto simp: considered_def py_slice_def min_def)

lemma compute_action_cases:
  "compute_action L d p data l =
     (if considered L data then
        let l' = learn_mac d (eth_str (py_slice 6 12 data)) p l in
        (case learned_port l' d (eth_str (py_slice 0 6 data)) of
           None \<Rightarrow> Some FLOOD | Some q \<Rightarrow> if q \<noteq> p then Some q else None, l')
      else (None, l))"
  using learn_has_table [of d "eth_str (py_slice 6 12 data)" p l]
  by (auto simp: compute_action_def considered_def eth_parse_def learned_port_def Let_def split: option.splits)

lemma learned_links_update [simp]: "learned_port (l\<lparr>l2_links := x\<rparr>) = learned_port l"
  by (intro ext) (simp add: learned_port_def)

lemma logic_ok_links [simp]: "logic_ok (l\<lparr>l2_links := x\<rparr>) = logic_ok l"
  by (simp add: logic_ok_def)

lemma serve_ok: "logic_ok l \<Longrightarrow> logic_ok (l2_serve L c l)"
  by (cases c) (auto simp: update_link_state_def compute_action_cases Let_def clear_ok learn_ok)

lemma after_ok: "logic_ok (l2_after L cs)"
proof (induction cs)
  case Nil
  then show ?case by (simp add: new_logic_def logic_ok_def)
qed (simp add: serve_ok)

lemma links_after: "k \<in> l2_links (l2_after L cs) \<longleftrightarrow> link_active cs k"
proof (induction cs k rule: link_active.induct)
  case (3 e1 e2 st cs k)
  then show ?case by (auto simp: update_link_state_def Let_def link_consts)
qed (auto simp: new_logic_def compute_action_cases Let_def)

lemma learned_after: "length a = 6 \<Longrightarrow> learned_port (l2_after L cs) d (eth_str a) = last_port L cs d a"
proof (induction L cs d a rule: last_port.induct)
  case (1 L d a)
  then show ?case by (simp add: new_logic_def learned_port_def)
next
  case (2 L d' p data cs d a)
  with considered_macs show ?case by (auto simp: compute_action_cases Let_def learned_learn eth_str_inj)
next
  case (3 L e1 e2 st cs d a)
  have a: "link_key e1 e2 \<in> l2_links (l2_after L cs) \<longleftrightarrow> link_active cs (link_key e1 e2)" by (rule links_after)
  show ?case
    using 3 a after_ok [of L cs]
    by (cases e1; cases e2) (auto simp: update_link_state_def Let_def link_consts learned_clear clear_ok split: option.splits)
qed

text \<open>
  C15. The tables implement the contract: after any calls, the logic's answer to a packet is the port on which the
  destination was last seen on this datapath, unless an active link there has gone down since; nothing if that is
  the port the packet came in on; and flooding if the destination is not known.
\<close>

theorem action_follows_history:
  "fst (compute_action L d p data (l2_after L cs)) =
     (if considered L data then
        (case last_port L (Packet d p data # cs) d (py_slice 0 6 data) of
           None \<Rightarrow> Some FLOOD
         | Some q \<Rightarrow> if q = p then None else Some q)
      else None)"
proof (cases "considered L data")
  case True
  then have "length (py_slice 0 6 data) = 6" by (rule considered_macs)
  then have "learned_port (l2_after L (Packet d p data # cs)) d (eth_str (py_slice 0 6 data)) =
      last_port L (Packet d p data # cs) d (py_slice 0 6 data)"
    by (rule learned_after)
  with True show ?thesis by (auto simp: compute_action_cases Let_def split: option.splits)
qed (simp add: compute_action_cases)

section \<open>Agreement of the replicas with the primary\<close>

fun serve_requests :: "packet_lib \<Rightarrow> packet_info list \<Rightarrow> l2_logic option \<Rightarrow> (bytes \<times> grpc_code) list \<times> l2_logic option" where
  "serve_requests L [] lo = ([], lo)"
| "serve_requests L (r # rs) lo =
     (case calculate_action L r lo of (a, lo') \<Rightarrow> (case serve_requests L rs lo' of (as, lo'') \<Rightarrow> (a # as, lo'')))"

definition event_action :: "packet_lib \<Rightarrow> packet_event \<Rightarrow> l2_logic \<Rightarrow> nat option \<times> l2_logic" where
  "event_action L ev l = compute_action L (dpid_to_str (pe_dpid ev) False) (unat (pi_in_port (pe_ofp ev))) (pi_data (pe_ofp ev)) l"

text \<open>Whenever the primary finds that a packet needs no action, and asks nobody, it has learned nothing from it.\<close>

fun all_told :: "packet_lib \<Rightarrow> packet_event list \<Rightarrow> l2_logic \<Rightarrow> bool" where
  "all_told L [] l = True"
| "all_told L (ev # evs) l =
     (case event_action L ev l of (a, l') \<Rightarrow> (if a = None then l' = l else True) \<and> all_told L evs l')"

lemma considered_parsed:
  "considered L data \<longleftrightarrow> m_parsed (eth_meta (eth_parse L data)) \<and>
     eth_type (eth_parse L data) \<noteq> LLDP_TYPE \<and> eth_type (eth_parse L data) \<noteq> IPV6_TYPE"
  by (auto simp: considered_def eth_parse_def)

lemma handle_packet_in_asks:
  assumes "pr_logic p = Some l" "pr_stub p" "event_action L ev l = (a, l')"
  shows "pr_logic (handle_packet_in L ev p) = Some l'" "pr_stub (handle_packet_in L ev p)"
    "pr_asked (handle_packet_in L ev p) = pr_asked p @ (case a of None \<Rightarrow> [] | Some q \<Rightarrow> [(ev, request_of ev q)])"
proof -
  have "handle_packet_in L ev p = p\<lparr>pr_counter := pr_counter p + 1, pr_logic := Some l',
      pr_asked := pr_asked p @ (case a of None \<Rightarrow> [] | Some q \<Rightarrow> [(ev, request_of ev q)])\<rparr>"
  proof (cases "considered L (pi_data (pe_ofp ev))")
    case True
    then show ?thesis
      using assms by (cases p; cases a) (auto simp: handle_packet_in_def event_action_def considered_parsed Let_def)
  next
    case False
    then have "a = None" "l' = l" using assms(3) by (auto simp: event_action_def compute_action_cases)
    with False show ?thesis using assms(1) by (cases p) (auto simp: handle_packet_in_def considered_parsed Let_def)
  qed
  with assms(2) show "pr_logic (handle_packet_in L ev p) = Some l'" "pr_stub (handle_packet_in L ev p)"
    "pr_asked (handle_packet_in L ev p) = pr_asked p @ (case a of None \<Rightarrow> [] | Some q \<Rightarrow> [(ev, request_of ev q)])"
    by simp_all
qed

lemma cr_action_request [simp]: "cr_action (request_of ev q) = action_json q"
  by (simp add: request_of_def Let_def)

lemma request_answer:
  assumes "event_action L ev l = (Some q, l')"
  shows "calculate_action L (cr_info (request_of ev q')) (Some l) = ((action_json q, GrpcOk), Some l')"
  using assms by (simp add: calculate_action_def request_of_def event_action_def Let_def)

lemma asks_append: "pr_logic p = Some l \<Longrightarrow> pr_stub p \<Longrightarrow>
   \<exists>new. pr_asked (fold (handle_packet_in L) evs p) = pr_asked p @ new \<and>
     (all_told L evs l \<longrightarrow> serve_requests L (map (\<lambda>(ev, r). cr_info r) new) (Some l) =
       (map (\<lambda>(ev, r). (cr_action r, GrpcOk)) new, pr_logic (fold (handle_packet_in L) evs p)))"
proof (induction evs arbitrary: p l)
  case (Cons ev evs)
  obtain a l' where a: "event_action L ev l = (a, l')" by (cases "event_action L ev l") auto
  note h = handle_packet_in_asks [OF Cons.prems a]
  obtain new where n: "pr_asked (fold (handle_packet_in L) evs (handle_packet_in L ev p)) = pr_asked (handle_packet_in L ev p) @ new"
    "all_told L evs l' \<longrightarrow> serve_requests L (map (\<lambda>(ev, r). cr_info r) new) (Some l') =
       (map (\<lambda>(ev, r). (cr_action r, GrpcOk)) new, pr_logic (fold (handle_packet_in L) evs (handle_packet_in L ev p)))"
    using Cons.IH [OF h(1,2)] by blast
  show ?case
  proof (cases a)
    case None
    with a h n show ?thesis by (intro exI [of _ new]) auto
  next
    case (Some q)
    with a h n show ?thesis
      by (intro exI [of _ "(ev, request_of ev q) # new"])
         (auto simp: request_answer)
  qed
qed simp

text \<open>
  C22. A replica that starts with the primary's tables and is sent every request of the primary in order answers
  each with the action that the primary proposed, and ends with the primary's tables; provided that every packet
  for which the primary needs no action teaches it nothing, since the replica does not hear of those.
\<close>

theorem replicas_agree:
  assumes "pr_logic p = Some l" "pr_stub p" "pr_asked p = []" "all_told L evs l"
  shows "serve_requests L (map (\<lambda>(ev, r). cr_info r) (pr_asked (fold (handle_packet_in L) evs p))) (Some l) =
    (map (\<lambda>(ev, r). (cr_action r, GrpcOk)) (pr_asked (fold (handle_packet_in L) evs p)),
     pr_logic (fold (handle_packet_in L) evs p))"
  using asks_append [OF assms(1,2), of L evs] assms(3,4) by auto

text \<open>
  The condition is needed.  A frame from A to B that comes in on the port where B is known teaches the primary
  where A is, without a request; for the next frame to A the primary proposes that port and the replica floods.
\<close>

theorem silent_learning_diverges:
  assumes p: "pr_logic p = Some l" "pr_stub p"
    and same: "dpid_to_str (pe_dpid ev1) False = d" "dpid_to_str (pe_dpid ev2) False = d"
    and frames: "considered L (pi_data (pe_ofp ev1))" "considered L (pi_data (pe_ofp ev2))"
    and known: "learned_port l d (eth_str (py_slice 0 6 (pi_data (pe_ofp ev1)))) = Some (unat (pi_in_port (pe_ofp ev1)))"
    and unknown: "learned_port l d (eth_str (py_slice 6 12 (pi_data (pe_ofp ev1)))) = None"
    and answer: "py_slice 0 6 (pi_data (pe_ofp ev2)) = py_slice 6 12 (pi_data (pe_ofp ev1))"
    and other: "py_slice 6 12 (pi_data (pe_ofp ev2)) \<noteq> py_slice 6 12 (pi_data (pe_ofp ev1))"
    and ports: "pi_in_port (pe_ofp ev2) \<noteq> pi_in_port (pe_ofp ev1)"
  shows "\<exists>r. pr_asked (handle_packet_in L ev2 (handle_packet_in L ev1 p)) = pr_asked p @ [(ev2, r)] \<and>
    cr_action r = action_json (unat (pi_in_port (pe_ofp ev1))) \<and>
    fst (calculate_action L (cr_info r) (Some l)) = (action_json FLOOD, GrpcOk)"
proof -
  let ?A = "eth_str (py_slice 6 12 (pi_data (pe_ofp ev1)))" and ?C = "eth_str (py_slice 6 12 (pi_data (pe_ofp ev2)))"
  let ?p = "unat (pi_in_port (pe_ofp ev1))" and ?q = "unat (pi_in_port (pe_ofp ev2))"
  have ne: "?C \<noteq> ?A" using other considered_macs(1) [OF frames(1)] considered_macs(1) [OF frames(2)] by (simp add: eth_str_inj)
  have pq: "?q \<noteq> ?p" using ports by (metis word_unat_eq_iff)
  let ?l1 = "learn_mac d ?A ?p l"
  have e1: "event_action L ev1 l = (None, ?l1)"
    using frames(1) same known unknown by (auto simp: event_action_def compute_action_cases Let_def learned_learn)
  have e2: "event_action L ev2 ?l1 = (Some ?p, learn_mac d ?C ?q ?l1)"
    using frames(2) same answer ne pq by (auto simp: event_action_def compute_action_cases Let_def learned_learn)
  have e2': "event_action L ev2 l = (Some FLOOD, learn_mac d ?C ?q l)"
    using frames(2) same answer ne unknown by (auto simp: event_action_def compute_action_cases Let_def learned_learn)
  note h1 = handle_packet_in_asks [OF p e1]
  note h2 = handle_packet_in_asks [OF _ _ e2, of "handle_packet_in L ev1 p"]
  show ?thesis
    using h1 h2 request_answer [OF e2', of ?p] by auto
qed

text \<open>
  The primary reports a link that has gone down and keeps what it learned over it; a replica that is told clears
  the port.  For the next frame to an address behind that port the primary proposes the dead port and the
  replica floods.
\<close>

theorem link_down_diverges:
  assumes l: "logic_ok l" and p: "pr_logic p = Some l" "pr_stub p"
    and down: "le_removed e" "\<not> le_added e"
      "link_key (dpid_to_str (le_dpid1 e) False, le_port1 e) (dpid_to_str (le_dpid2 e) False, le_port2 e) \<in> l2_links l"
    and known: "learned_port l (dpid_to_str (le_dpid1 e) False) (eth_str (py_slice 0 6 data)) = Some (le_port1 e)"
    and frame: "considered L data" "py_slice 6 12 data \<noteq> py_slice 0 6 data" "q \<noteq> le_port1 e"
  shows "pr_logic (handle_link_event e p) = Some l \<and>
    (\<exists>d2 p2 st. pr_reported (handle_link_event e p) = pr_reported p @ [((dpid_to_str (le_dpid1 e) False, le_port1 e), (d2, p2), st)] \<and>
       fst (compute_action L (dpid_to_str (le_dpid1 e) False) q data l) = Some (le_port1 e) \<and>
       (case notify_link_event (dpid_to_str (le_dpid1 e) False) (le_port1 e) d2 p2 st (Some l) of
          (c, lo) \<Rightarrow> c = GrpcOk \<and> fst (calculate_action L \<lparr>pk_dpid = dpid_to_str (le_dpid1 e) False, pk_in_port = q,
            pk_buffer_id = 0, pk_total_len = length data, pk_data = data\<rparr> lo) = (action_json FLOOD, GrpcOk)))"
proof -
  let ?d = "dpid_to_str (le_dpid1 e) False" and ?d2 = "dpid_to_str (le_dpid2 e) False"
  have ne: "eth_str (py_slice 0 6 data) \<noteq> eth_str (py_slice 6 12 data)"
    using frame(2) considered_macs [OF frame(1)] by (simp add: eth_str_inj)
  have r: "pr_reported (handle_link_event e p) = pr_reported p @ [((?d, le_port1 e), (?d2, le_port2 e), LINK_DOWN)]"
      "pr_logic (handle_link_event e p) = Some l"
    using p down by (simp_all add: handle_link_event_def Let_def)
  have a: "fst (compute_action L ?d q data l) = Some (le_port1 e)"
    using known frame(1,3) ne by (simp add: compute_action_cases Let_def learned_learn)
  let ?l' = "clear_macs_for_port ?d2 (le_port2 e) (clear_macs_for_port ?d (le_port1 e)
      (l\<lparr>l2_links := l2_links l - {link_key (?d, le_port1 e) (?d2, le_port2 e)}\<rparr>))"
  have n: "notify_link_event ?d (le_port1 e) ?d2 (le_port2 e) LINK_DOWN (Some l) = (GrpcOk, Some ?l')"
    using down by (simp add: notify_link_event_def update_link_state_def link_consts)
  have "learned_port ?l' ?d (eth_str (py_slice 0 6 data)) = None"
    using known l by (simp add: learned_clear clear_ok)
  then have "fst (compute_action L ?d q data ?l') = Some FLOOD"
    using frame(1) ne by (simp add: compute_action_cases Let_def learned_learn)
  with r a n show ?thesis
    by (intro conjI exI [of _ ?d2] exI [of _ "le_port2 e"] exI [of _ LINK_DOWN])
       (auto simp: calculate_action_def split: prod.splits)
qed

section \<open>Carrying out the agreed action\<close>

lemma packet_out_packs:
  assumes "b = NO_BUFFER \<or> d = []" "length d < 65000"
  shows "\<exists>bs. msg_pack (h, MPacketOut \<lparr>po_buffer_id = b, po_in_port = ip, po_actions = [ActOutput out m], po_data = d\<rparr>) = Inr bs"
proof -
  let ?p = "\<lparr>po_buffer_id = b, po_in_port = ip, po_actions = [ActOutput out m], po_data = d\<rparr>"
  obtain acts where a: "pack_actions [ActOutput out m] = Inr acts" "length acts = 8"
    by (cases "out = OFPP_CONTROLLER") (auto simp: pack_actions_def act_pack_def Let_def pack_nat_H_def)
  have "body_validate (MPacketOut ?p) = Inr ()" "packet_out_len ?p < 65536"
    using assms by (auto simp: body_validate_def packet_out_len_def)
  with a show ?thesis by (simp add: msg_pack_def header_pack_def packet_out_bytes_def pack_nat_H_def)
qed

text \<open>What the code relies on of \<open>json\<close>: the text of an action is read back as its dictionary.\<close>

definition reads_actions :: "(bytes \<Rightarrow> jvalue result) \<Rightarrow> bool" where
  "reads_actions loads \<longleftrightarrow>
     (\<forall>n. loads (action_json n) = Inr (JObject [(ascii ''type'', JText (ascii ''packet_out'')), (ascii ''out_port'', JInt (int n))]))"

lemma execute_agreed:
  assumes "reads_actions loads" "out_port < 65536" "pi_buffer_id (pe_ofp ev) = NO_BUFFER \<longrightarrow> length (pi_data (pe_ofp ev)) < 65000"
  shows "execute_final_action loads ev (Some \<lparr>rs_reached = True, rs_action = action_json out_port\<rparr>) =
    Some \<lparr>po_buffer_id = pi_buffer_id (pe_ofp ev), po_in_port = pi_in_port (pe_ofp ev),
         po_actions = [ActOutput (word_of_nat out_port) 0xffff],
         po_data = (if pi_buffer_id (pe_ofp ev) \<noteq> NO_BUFFER then [] else pi_data (pe_ofp ev))\<rparr>"
proof -
  let ?po = "\<lparr>po_buffer_id = pi_buffer_id (pe_ofp ev), po_in_port = pi_in_port (pe_ofp ev),
      po_actions = [ActOutput (word_of_nat out_port) 0xffff],
      po_data = (if pi_buffer_id (pe_ofp ev) \<noteq> NO_BUFFER then [] else pi_data (pe_ofp ev))\<rparr>"
  have j: "action_json out_port \<noteq> []" "action_json out_port \<noteq> ascii ''{}''"
    by (simp_all add: action_json_def ascii_def)
  have k: "ascii ''type'' \<noteq> ascii ''out_port''" by (simp add: ascii_def)
  have m: "\<exists>bs. msg_pack (\<lparr>hdr_version = OFP_VERSION, hdr_xid = 0\<rparr>, MPacketOut ?po) = Inr bs"
    using assms(3) by (intro packet_out_packs) auto
  have f: "final_packet_out ev (int out_port) = Inr ?po"
    using assms(2) m by (auto simp: final_packet_out_def Let_def)
  show ?thesis
    using assms(1) j k f by (simp add: execute_final_action_def reads_actions_def json_port_def)
qed

text \<open>The packet of an event, sent to a port: by its buffer if the switch has buffered it, else with its bytes.\<close>

definition packet_to :: "packet_event \<Rightarrow> int \<Rightarrow> packet_out" where
  "packet_to ev n = \<lparr>po_buffer_id = pi_buffer_id (pe_ofp ev), po_in_port = pi_in_port (pe_ofp ev), po_actions = [ActOutput (word_of_int n) 0xffff],
     po_data = (if pi_buffer_id (pe_ofp ev) = NO_BUFFER then pi_data (pe_ofp ev) else [])\<rparr>"

text \<open>
  C23. Whatever the response is, none, one without consensus, one whose action is no JSON text, no object, of another type
  or without a valid port, or any other: a packet-out is sent exactly if consensus was reached on an object of type
  \<open>packet_out\<close> whose \<open>out_port\<close> is a number of 16 bits or the word flood, and the message packs.  It is the packet that was
  asked about, to that port.  In particular an agreed action that is the one proposed for the packet is carried out, unless
  the packet is too long for a message.
\<close>

theorem only_agreed_actions:
  "(execute_final_action loads ev response = Some po \<longleftrightarrow>
      (\<exists>r d v n bs. response = Some r \<and> rs_reached r \<and> rs_action r \<notin> {[], ascii ''{}''} \<and> loads (rs_action r) = Inr (JObject d) \<and>
         map_of d (ascii ''type'') = Some (JText (ascii ''packet_out'')) \<and> map_of d (ascii ''out_port'') = Some v \<and>
         (int_of_json v = Inr n \<and> (\<forall>s. v = JText s \<longrightarrow> upper s \<noteq> ascii ''FLOOD'') \<or>
            n = int FLOOD \<and> (\<exists>s. v = JText s \<and> upper s = ascii ''FLOOD'')) \<and>
         0 \<le> n \<and> n < 65536 \<and> po = packet_to ev n \<and> msg_pack (\<lparr>hdr_version = OFP_VERSION, hdr_xid = 0\<rparr>, MPacketOut po) = Inr bs)) \<and>
   (reads_actions loads \<longrightarrow> out_port < 65536 \<longrightarrow> (pi_buffer_id (pe_ofp ev) = NO_BUFFER \<longrightarrow> length (pi_data (pe_ofp ev)) < 65000) \<longrightarrow>
      execute_final_action loads ev (Some \<lparr>rs_reached = True, rs_action = cr_action (request_of ev out_port)\<rparr>) = Some (packet_to ev (int out_port)))"
proof -
  have final: "final_packet_out ev n = Inr po \<longleftrightarrow>
      0 \<le> n \<and> n < 65536 \<and> po = packet_to ev n \<and> (\<exists>bs. msg_pack (\<lparr>hdr_version = OFP_VERSION, hdr_xid = 0\<rparr>, MPacketOut po) = Inr bs)" for n
  proof -
    have "(if pi_buffer_id (pe_ofp ev) \<noteq> NO_BUFFER then [] else pi_data (pe_ofp ev)) = po_data (packet_to ev n)" by (simp add: packet_to_def)
    then show ?thesis
      by (auto simp: final_packet_out_def Let_def packet_to_def rbind_def split: sum.splits)
  qed
  have port: "json_port v = Inr n \<longleftrightarrow> int_of_json v = Inr n \<and> (\<forall>s. v = JText s \<longrightarrow> upper s \<noteq> ascii ''FLOOD'') \<or>
      n = int FLOOD \<and> (\<exists>s. v = JText s \<and> upper s = ascii ''FLOOD'')" for v n
    by (cases v) (auto simp: json_port_def)
  have both: "rbind (json_port v) (final_packet_out ev) = Inr po \<longleftrightarrow> (\<exists>n. json_port v = Inr n \<and> final_packet_out ev n = Inr po)" for v
    by (cases "json_port v") auto
  have "execute_final_action loads ev response = Some po \<longleftrightarrow>
      (\<exists>r d v. response = Some r \<and> rs_reached r \<and> rs_action r \<notin> {[], ascii ''{}''} \<and> loads (rs_action r) = Inr (JObject d) \<and>
         map_of d (ascii ''type'') = Some (JText (ascii ''packet_out'')) \<and> map_of d (ascii ''out_port'') = Some v \<and>
         rbind (json_port v) (final_packet_out ev) = Inr po)"
    by (auto simp: execute_final_action_def json_port_def split: option.splits sum.splits jvalue.splits if_splits)
  then have "execute_final_action loads ev response = Some po \<longleftrightarrow>
      (\<exists>r d v n bs. response = Some r \<and> rs_reached r \<and> rs_action r \<notin> {[], ascii ''{}''} \<and> loads (rs_action r) = Inr (JObject d) \<and>
         map_of d (ascii ''type'') = Some (JText (ascii ''packet_out'')) \<and> map_of d (ascii ''out_port'') = Some v \<and>
         (int_of_json v = Inr n \<and> (\<forall>s. v = JText s \<longrightarrow> upper s \<noteq> ascii ''FLOOD'') \<or>
            n = int FLOOD \<and> (\<exists>s. v = JText s \<and> upper s = ascii ''FLOOD'')) \<and>
         0 \<le> n \<and> n < 65536 \<and> po = packet_to ev n \<and> msg_pack (\<lparr>hdr_version = OFP_VERSION, hdr_xid = 0\<rparr>, MPacketOut po) = Inr bs)"
    unfolding both final port by blast
  moreover have "reads_actions loads \<longrightarrow> out_port < 65536 \<longrightarrow> (pi_buffer_id (pe_ofp ev) = NO_BUFFER \<longrightarrow> length (pi_data (pe_ofp ev)) < 65000) \<longrightarrow>
      execute_final_action loads ev (Some \<lparr>rs_reached = True, rs_action = cr_action (request_of ev out_port)\<rparr>) = Some (packet_to ev (int out_port))"
    using execute_agreed [of loads out_port ev] by (simp add: packet_to_def)
  ultimately show ?thesis by blast
qed

section \<open>Concrete runs\<close>

definition plain_lib :: packet_lib where
  "plain_lib = \<lparr>lib_little = True, lib_other = (\<lambda>_ _. (False, Inl TypeError, None)), lib_tcp_options = (\<lambda>_. None)\<rparr>"

text \<open>A frame between hosts with the last address bytes \<open>dst\<close> and \<open>src\<close>, and the packet-in that carries it.\<close>

definition frame_of :: "byte \<Rightarrow> byte \<Rightarrow> bytes" where
  "frame_of dst src = [2, 0, 0, 0, 0, dst, 2, 0, 0, 0, 0, src, 0x12, 0x34, 7]"

definition came_in :: "16 word \<Rightarrow> bytes \<Rightarrow> packet_event" where
  "came_in port data = \<lparr>pe_dpid = 1, pe_ofp = \<lparr>pi_in_port = port, pi_buffer_id = NO_BUFFER, pi_reason = 0, pi_data = data,
     pi_total_len = None\<rparr>\<rparr>"

definition primary_with :: "l2_logic \<Rightarrow> primary" where
  "primary_with l = \<lparr>pr_logic = Some l, pr_stub = True, pr_counter = 0, pr_asked = [], pr_reported = []\<rparr>"

definition three_frames :: "packet_event list" where
  "three_frames = [came_in 1 (frame_of 2 1), came_in 2 (frame_of 1 2), came_in 1 (frame_of 2 1)]"

theorem replicas_agree_witness:
  "fst (serve_requests plain_lib (map (\<lambda>(ev, r). cr_info r) (pr_asked (fold (handle_packet_in plain_lib) three_frames (primary_with new_logic))))
     (Some new_logic)) = [(action_json FLOOD, GrpcOk), (action_json 1, GrpcOk), (action_json 2, GrpcOk)]"
proof -
  have "all_told plain_lib three_frames new_logic" by code_simp
  moreover have "map (\<lambda>(ev, r). (cr_action r, GrpcOk)) (pr_asked (fold (handle_packet_in plain_lib) three_frames (primary_with new_logic))) =
      [(action_json FLOOD, GrpcOk), (action_json 1, GrpcOk), (action_json 2, GrpcOk)]" by code_simp
  ultimately show ?thesis
    using replicas_agree [of "primary_with new_logic" new_logic plain_lib three_frames] by (simp add: primary_with_def)
qed

definition b_on_port_1 :: l2_logic where
  "b_on_port_1 = \<lparr>l2_macs = [(dpid_to_str 1 False, [(eth_str [2, 0, 0, 0, 0, 2], 1)])], l2_links = {}\<rparr>"

theorem silent_learning_diverges_witness:
  "\<exists>r. pr_asked (handle_packet_in plain_lib (came_in 2 (frame_of 1 3)) (handle_packet_in plain_lib (came_in 1 (frame_of 2 1)) (primary_with b_on_port_1))) =
       [(came_in 2 (frame_of 1 3), r)] \<and> cr_action r = action_json 1 \<and>
     fst (calculate_action plain_lib (cr_info r) (Some b_on_port_1)) = (action_json FLOOD, GrpcOk)"
proof -
  have "learned_port b_on_port_1 (dpid_to_str 1 False) (eth_str [2, 0, 0, 0, 0, 1]) = None"
    by (simp add: b_on_port_1_def learned_port_def eth_str_inj)
  then show ?thesis
    using silent_learning_diverges [of "primary_with b_on_port_1" b_on_port_1 "came_in 1 (frame_of 2 1)" "dpid_to_str 1 False"
        "came_in 2 (frame_of 1 3)" plain_lib]
    by (simp add: primary_with_def came_in_def frame_of_def considered_def py_slice_def u16_at_def of_be_def LLDP_TYPE_def IPV6_TYPE_def
        learned_port_def b_on_port_1_def)
qed

definition b_behind_link :: l2_logic where
  "b_behind_link = b_on_port_1\<lparr>l2_links := {link_key (dpid_to_str 1 False, 1) (dpid_to_str 2 False, 4)}\<rparr>"

theorem link_down_diverges_witness:
  "pr_logic (handle_link_event \<lparr>le_added = False, le_removed = True, le_dpid1 = 1, le_port1 = 1, le_dpid2 = 2, le_port2 = 4\<rparr>
     (primary_with b_behind_link)) = Some b_behind_link \<and>
   fst (compute_action plain_lib (dpid_to_str 1 False) 3 (frame_of 2 1) b_behind_link) = Some 1"
proof -
  let ?e = "\<lparr>le_added = False, le_removed = True, le_dpid1 = 1, le_port1 = 1, le_dpid2 = 2, le_port2 = 4\<rparr>"
  have "logic_ok b_behind_link" by (simp add: logic_ok_def b_behind_link_def b_on_port_1_def)
  moreover have "link_key (dpid_to_str (le_dpid1 ?e) False, le_port1 ?e) (dpid_to_str (le_dpid2 ?e) False, le_port2 ?e) \<in> l2_links b_behind_link"
    by (simp add: b_behind_link_def)
  moreover have "learned_port b_behind_link (dpid_to_str (le_dpid1 ?e) False) (eth_str (py_slice 0 6 (frame_of 2 1))) = Some (le_port1 ?e)"
    by (simp add: b_behind_link_def b_on_port_1_def learned_port_def frame_of_def py_slice_def)
  moreover have "considered plain_lib (frame_of 2 1)" "py_slice 6 12 (frame_of 2 1) \<noteq> py_slice 0 6 (frame_of 2 1)"
    by (simp_all add: frame_of_def considered_def py_slice_def u16_at_def of_be_def LLDP_TYPE_def IPV6_TYPE_def)
  moreover have "pr_logic (primary_with b_behind_link) = Some b_behind_link" "pr_stub (primary_with b_behind_link)"
    by (simp_all add: primary_with_def)
  ultimately have "pr_logic (handle_link_event ?e (primary_with b_behind_link)) = Some b_behind_link \<and>
      fst (compute_action plain_lib (dpid_to_str (le_dpid1 ?e) False) 3 (frame_of 2 1) b_behind_link) = Some (le_port1 ?e)"
    using link_down_diverges [of b_behind_link "primary_with b_behind_link" ?e "frame_of 2 1" plain_lib 3] by auto
  then show ?thesis by simp
qed

text \<open>A reader that knows the texts of actions only.\<close>

definition action_loads :: "bytes \<Rightarrow> jvalue result" where
  "action_loads t = rbind (py_int 10 (butlast (drop 35 t))) (\<lambda>n.
     Inr (JObject [(ascii ''type'', JText (ascii ''packet_out'')), (ascii ''out_port'', JInt n)]))"

lemma action_loads_reads: "reads_actions action_loads"
proof -
  have "drop 35 (action_json n) = digits_of 10 n @ [125]" for n by (simp add: action_json_def ascii_def)
  then show ?thesis by (simp add: reads_actions_def action_loads_def py_int_digits_of butlast_append)
qed

theorem only_agreed_actions_witness:
  "execute_final_action action_loads (came_in 2 (frame_of 1 2))
     (Some \<lparr>rs_reached = True, rs_action = cr_action (request_of (came_in 2 (frame_of 1 2)) 1)\<rparr>) =
   Some \<lparr>po_buffer_id = NO_BUFFER, po_in_port = 2, po_actions = [ActOutput 1 0xffff], po_data = frame_of 1 2\<rparr> \<and>
   execute_final_action action_loads (came_in 2 (frame_of 1 2))
     (Some \<lparr>rs_reached = False, rs_action = cr_action (request_of (came_in 2 (frame_of 1 2)) 1)\<rparr>) = None"
proof -
  let ?ev = "came_in 2 (frame_of 1 2)"
  have none: "execute_final_action action_loads ?ev (Some \<lparr>rs_reached = False, rs_action = cr_action (request_of ?ev 1)\<rparr>) \<noteq> Some po" for po
    using only_agreed_actions [of action_loads ?ev _ po] by simp
  have "execute_final_action action_loads ?ev (Some \<lparr>rs_reached = True, rs_action = cr_action (request_of ?ev 1)\<rparr>) = Some (packet_to ?ev (int 1))"
    using conjunct2 [OF only_agreed_actions [of action_loads ?ev _ _ 1]] action_loads_reads by (simp add: came_in_def frame_of_def)
  then show ?thesis using none [folded not_None_eq] by (auto simp: packet_to_def came_in_def)
qed

end
