(* ===== verification/Flow_Table.thy ===== *)
theory Flow_Table
  imports Messages "HOL-Library.Multiset"
begin

text \<open>
  \<open>pox/pox/openflow/flow_table.py\<close>: flow entries and the flow table, a list sorted by descending
  effective priority.  Python compares entries by identity; an entry carries an object number.  Times are
  nanoseconds of a clock that does not run backwards (the code subtracts floating-point seconds).  An
  operation that raises \<open>FlowTableModification\<close> returns the event with the new table; the subscriber
  is in \<open>Switch\<close>.
\<close>

section \<open>Entries\<close>

record table_entry =
  te_oid :: nat
  te_created :: nat
  te_last_touched :: nat
  te_byte_count :: nat
  te_packet_count :: nat
  te_priority :: "16 word"
  te_cookie :: "64 word"
  te_idle_timeout :: "16 word"
  te_hard_timeout :: "16 word"
  te_flags :: "16 word"
  te_match :: ofp_match
  te_actions :: "action list"
  te_buffer_id :: "32 word option"

definition buffer_id :: "32 word \<Rightarrow> 32 word option" where
  "buffer_id b = (if b = NO_BUFFER then None else Some b)"

definition from_flow_mod :: "nat \<Rightarrow> nat \<Rightarrow> flow_mod \<Rightarrow> table_entry" where
  "from_flow_mod oid now f = \<lparr>te_oid = oid, te_created = now, te_last_touched = now, te_byte_count = 0, te_packet_count = 0,
     te_priority = fm_priority f, te_cookie = fm_cookie f, te_idle_timeout = fm_idle_timeout f,
     te_hard_timeout = fm_hard_timeout f, te_flags = fm_flags f, te_match = fm_match f, te_actions = fm_actions f,
     te_buffer_id = buffer_id (fm_buffer_id f)\<rparr>"

definition to_flow_mod :: "16 word option \<Rightarrow> table_entry \<Rightarrow> flow_mod" where
  "to_flow_mod flags e = \<lparr>fm_match = te_match e, fm_cookie = te_cookie e, fm_command = 0,
     fm_idle_timeout = te_idle_timeout e, fm_hard_timeout = te_hard_timeout e, fm_priority = te_priority e,
     fm_buffer_id = (case te_buffer_id e of None \<Rightarrow> NO_BUFFER | Some b \<Rightarrow> b), fm_out_port = OFPP_NONE,
     fm_flags = (case flags of None \<Rightarrow> te_flags e | Some f \<Rightarrow> f), fm_actions = te_actions e, fm_data = None\<rparr>"

definition effective_priority :: "table_entry \<Rightarrow> nat" where
  "effective_priority e = (if is_wildcarded (te_match e) then unat (te_priority e) else 65536 + 1)"

definition outputs_to :: "16 word \<Rightarrow> action \<Rightarrow> bool" where
  "outputs_to p a = (case a of ActOutput q _ \<Rightarrow> q = p | _ \<Rightarrow> False)"

definition is_matched_by :: "table_entry \<Rightarrow> ofp_match \<Rightarrow> 16 word option \<Rightarrow> bool \<Rightarrow> 16 word option \<Rightarrow> bool" where
  "is_matched_by e m priority strict out_port =
     (let port_matches = (case out_port of None \<Rightarrow> True | Some p \<Rightarrow> list_ex (outputs_to p) (te_actions e)) in
      if strict then port_matches \<and> match_eq (te_match e) m \<and> Some (te_priority e) = priority
      else port_matches \<and> covers True m (te_match e))"

definition touch_packet :: "nat \<Rightarrow> nat \<Rightarrow> table_entry \<Rightarrow> table_entry" where
  "touch_packet n now e = e\<lparr>te_byte_count := te_byte_count e + n, te_packet_count := te_packet_count e + 1,
     te_last_touched := now\<rparr>"

definition seconds :: nat where "seconds = 1000000000"

definition is_idle_timed_out :: "nat \<Rightarrow> table_entry \<Rightarrow> bool" where
  "is_idle_timed_out now e \<longleftrightarrow> 0 < te_idle_timeout e \<and> unat (te_idle_timeout e) * seconds < now - te_last_touched e"

definition is_hard_timed_out :: "nat \<Rightarrow> table_entry \<Rightarrow> bool" where
  "is_hard_timed_out now e \<longleftrightarrow> 0 < te_hard_timeout e \<and> unat (te_hard_timeout e) * seconds < now - te_created e"

definition is_expired :: "nat \<Rightarrow> table_entry \<Rightarrow> bool" where
  "is_expired now e \<longleftrightarrow> is_idle_timed_out now e \<or> is_hard_timed_out now e"

definition entry_flow_stats :: "nat \<Rightarrow> table_entry \<Rightarrow> flow_stats" where
  "entry_flow_stats now e = \<lparr>fs_table_id = 0, fs_match = te_match e, fs_duration_sec = (now - te_created e) div seconds,
     fs_duration_nsec = (now - te_created e) mod seconds, fs_priority = te_priority e, fs_idle_timeout = te_idle_timeout e,
     fs_hard_timeout = te_hard_timeout e, fs_cookie = te_cookie e, fs_packet_count = te_packet_count e,
     fs_byte_count = te_byte_count e, fs_actions = te_actions e\<rparr>"

definition to_flow_removed :: "nat \<Rightarrow> byte \<Rightarrow> table_entry \<Rightarrow> flow_removed" where
  "to_flow_removed now reason e = \<lparr>fr_match = te_match e, fr_cookie = te_cookie e, fr_priority = te_priority e,
     fr_reason = reason, fr_duration_sec = (now - te_created e) div seconds,
     fr_duration_nsec = (now - te_created e) mod seconds, fr_idle_timeout = te_idle_timeout e,
     fr_packet_count = te_packet_count e, fr_byte_count = te_byte_count e\<rparr>"

section \<open>The table\<close>

datatype ft_event = FTAdded "table_entry list" | FTRemoved "table_entry list" "byte option"

definition OFPRR_IDLE_TIMEOUT :: byte where "OFPRR_IDLE_TIMEOUT = 0"
definition OFPRR_HARD_TIMEOUT :: byte where "OFPRR_HARD_TIMEOUT = 1"
definition OFPRR_DELETE :: byte where "OFPRR_DELETE = 2"

text \<open>The binary search of \<open>add_entry\<close>, which inserts before the entries of the same priority.\<close>

function insert_position :: "nat \<Rightarrow> table_entry list \<Rightarrow> nat \<Rightarrow> nat \<Rightarrow> nat" where
  "insert_position priority table low high =
     (if low < high then
        let middle = (low + high) div 2 in
        if effective_priority (table ! middle) \<le> priority then insert_position priority table low middle
        else insert_position priority table (middle + 1) high
      else low)"
  by pat_completeness auto
termination
  by (relation "measure (\<lambda>(_, _, low, high). high - low)") auto

declare insert_position.simps [simp del]

definition add_entry :: "table_entry \<Rightarrow> table_entry list \<Rightarrow> table_entry list" where
  "add_entry e table =
     (let low = insert_position (effective_priority e) table 0 (length table) in take low table @ e # drop low table)"

definition add_entry_event :: "table_entry \<Rightarrow> ft_event" where "add_entry_event e = FTAdded [e]"

text \<open>\<open>list.remove\<close> takes the first equal element out and raises when there is none.\<close>

fun list_remove :: "nat \<Rightarrow> table_entry list \<Rightarrow> table_entry list result" where
  "list_remove oid [] = Inl ValueError"
| "list_remove oid (e # t) = (if te_oid e = oid then Inr t else rbind (list_remove oid t) (\<lambda>t'. Inr (e # t')))"

definition remove_entry :: "table_entry \<Rightarrow> byte option \<Rightarrow> table_entry list \<Rightarrow> (table_entry list \<times> ft_event) result" where
  "remove_entry e reason table = rbind (list_remove (te_oid e) table) (\<lambda>t. Inr (t, FTRemoved [e] reason))"

definition matching_entries :: "ofp_match \<Rightarrow> 16 word option \<Rightarrow> bool \<Rightarrow> 16 word option \<Rightarrow> table_entry list \<Rightarrow> table_entry list" where
  "matching_entries m priority strict out_port table = filter (\<lambda>e. is_matched_by e m priority strict out_port) table"

definition table_flow_stats :: "ofp_match \<Rightarrow> 16 word option \<Rightarrow> nat \<Rightarrow> table_entry list \<Rightarrow> flow_stats list" where
  "table_flow_stats m out_port now table = map (entry_flow_stats now) (matching_entries m (Some 0) False out_port table)"

definition table_aggregate_stats :: "ofp_match \<Rightarrow> 16 word option \<Rightarrow> table_entry list \<Rightarrow> aggregate_stats" where
  "table_aggregate_stats m out_port table =
     foldl (\<lambda>s e. s\<lparr>as_packet_count := as_packet_count s + te_packet_count e, as_byte_count := as_byte_count s + te_byte_count e,
                      as_flow_count := as_flow_count s + 1\<rparr>)
       \<lparr>as_packet_count = 0, as_byte_count = 0, as_flow_count = 0\<rparr> (matching_entries m (Some 0) False out_port table)"

text \<open>
  The loop of \<open>_remove_specific_entries\<close> from position \<open>i\<close> on: what it leaves of the rest of the table, and
  the entries of the set that it has not met.
\<close>

fun remove_loop :: "table_entry list \<Rightarrow> nat list \<Rightarrow> table_entry list \<times> nat list" where
  "remove_loop [] flows = ([], flows)"
| "remove_loop (e # t) flows =
     (if te_oid e \<in> set flows then
        (let flows' = removeAll (te_oid e) flows in if flows' = [] then (t, flows') else remove_loop t flows')
      else (let (t', flows') = remove_loop t flows in (e # t', flows')))"

definition remove_specific_entries :: "table_entry list \<Rightarrow> byte option \<Rightarrow> table_entry list \<Rightarrow> (table_entry list \<times> ft_event list) result" where
  "remove_specific_entries flows reason table =
     (if flows = [] then Inr (table, [])
      else let (t, left) = remove_loop table (map te_oid flows) in
        rbind (py_assert (left = [])) (\<lambda>_. Inr (t, [FTRemoved flows reason])))"

definition remove_expired_entries :: "nat \<Rightarrow> table_entry list \<Rightarrow> (table_entry list \<times> ft_event list) result" where
  "remove_expired_entries now table =
     (let idle = filter (is_idle_timed_out now) table;
          hard = filter (\<lambda>e. \<not> is_idle_timed_out now e \<and> is_hard_timed_out now e) table in
      rbind (remove_specific_entries idle (Some OFPRR_IDLE_TIMEOUT) table) (\<lambda>(t1, ev1).
      rbind (remove_specific_entries hard (Some OFPRR_HARD_TIMEOUT) t1) (\<lambda>(t2, ev2). Inr (t2, ev1 @ ev2))))"

definition remove_matching_entries ::
  "ofp_match \<Rightarrow> 16 word option \<Rightarrow> bool \<Rightarrow> 16 word option \<Rightarrow> byte option \<Rightarrow> table_entry list \<Rightarrow>
     (table_entry list \<times> ft_event list \<times> table_entry list) result" where
  "remove_matching_entries m priority strict out_port reason table =
     (let flows = matching_entries m priority strict out_port table in
      rbind (remove_specific_entries flows reason table) (\<lambda>(t, ev). Inr (t, ev, flows)))"

definition entry_for_packet :: "ofp_match \<Rightarrow> table_entry list \<Rightarrow> table_entry option" where
  "entry_for_packet packet_match table = find (\<lambda>e. covers False (te_match e) packet_match) table"

definition entry_for :: "ethernet \<Rightarrow> 16 word \<Rightarrow> table_entry list \<Rightarrow> table_entry option" where
  "entry_for packet in_port table = entry_for_packet (match_from_packet packet (Some in_port) True) table"

fun overlap_scan :: "table_entry \<Rightarrow> table_entry list \<Rightarrow> bool" where
  "overlap_scan i [] = False"
| "overlap_scan i (e # t) =
     (if effective_priority e < effective_priority i then False
      else if effective_priority i < effective_priority e then overlap_scan i t
      else if is_matched_by e (te_match i) None False None \<or> is_matched_by i (te_match e) None False None then True
      else overlap_scan i t)"

definition check_for_overlapping_entry :: "table_entry \<Rightarrow> table_entry list \<Rightarrow> bool" where
  "check_for_overlapping_entry i table = overlap_scan i table"

section \<open>Tables sorted by rank\<close>

text \<open>
  The contract of the table with its users: what is looked up is the first hit, and what is added goes in
  front of everything that does not rank above it.
\<close>

definition falls :: "('e \<Rightarrow> nat) \<Rightarrow> 'e list \<Rightarrow> bool" where
  "falls rank t \<longleftrightarrow> sorted_wrt (\<lambda>a b. rank b \<le> rank a) t"

lemma falls_simps [simp]:
  "falls rank []" "falls rank (e # t) \<longleftrightarrow> (\<forall>x\<in>set t. rank x \<le> rank e) \<and> falls rank t"
  by (simp_all add: falls_def)

lemma falls_append:
  "falls rank (s @ t) \<longleftrightarrow> falls rank s \<and> falls rank t \<and> (\<forall>x\<in>set s. \<forall>y\<in>set t. rank y \<le> rank x)"
  by (simp add: falls_def sorted_wrt_append)

lemma falls_filter: "falls rank t \<Longrightarrow> falls rank (filter P t)"
  by (induction t) auto

lemma falls_map: "(\<And>e. rank (f e) = rank e) \<Longrightarrow> falls rank (map f t) = falls rank t"
  by (induction t) auto

lemma falls_nth: "falls rank t \<Longrightarrow> i \<le> j \<Longrightarrow> j < length t \<Longrightarrow> rank (t ! j) \<le> rank (t ! i)"
  by (cases "i = j") (auto simp: falls_def sorted_wrt_iff_nth_less)

lemma falls_split:
  "falls rank t \<Longrightarrow> filter (\<lambda>x. n < rank x) t @ filter (\<lambda>x. rank x \<le> n) t = t"
proof (induction t)
  case (Cons e t)
  show ?case
  proof (cases "n < rank e")
    case False
    then have "filter (\<lambda>x. n < rank x) t = []" "filter (\<lambda>x. rank x \<le> n) t = t"
      using Cons.prems by (auto simp: filter_empty_conv filter_id_conv)
    with False show ?thesis by simp
  qed (use Cons in simp)
qed simp

locale priority_table =
  fixes rank :: "'e \<Rightarrow> nat"
    and hit :: "'k \<Rightarrow> 'e \<Rightarrow> bool"
    and lookup :: "'k \<Rightarrow> 'e list \<Rightarrow> 'e option"
    and add :: "'e \<Rightarrow> 'e list \<Rightarrow> 'e list"
  assumes lookup_first: "lookup k t = find (hit k) t"
    and add_before: "falls rank t \<Longrightarrow>
      add e t = filter (\<lambda>x. rank e < rank x) t @ e # filter (\<lambda>x. rank x \<le> rank e) t"
begin

lemma add_falls: "falls rank t \<Longrightarrow> falls rank (add e t)"
  by (auto simp: add_before falls_append falls_filter)

lemma set_add: "falls rank t \<Longrightarrow> set (add e t) = insert e (set t)"
  by (auto simp: add_before)

lemma mset_add: "falls rank t \<Longrightarrow> mset (add e t) = add_mset e (mset t)"
  using arg_cong [OF falls_split [of rank t "rank e"], of mset] by (simp add: add_before)

lemma lookup_best:
  assumes "falls rank t" "lookup k t = Some e"
  shows "e \<in> set t \<and> hit k e \<and> (\<forall>x\<in>set t. hit k x \<longrightarrow> rank x \<le> rank e)"
  using assms unfolding lookup_first by (induction t) (auto split: if_splits)

lemma lookup_None: "lookup k t = None \<longleftrightarrow> (\<forall>x\<in>set t. \<not> hit k x)"
  unfolding lookup_first by (auto simp: find_None_iff)

lemma find_append: "find P (s @ t) = (case find P s of None \<Rightarrow> find P t | Some x \<Rightarrow> Some x)"
  by (induction s) auto

lemma lookup_add:
  assumes "falls rank t"
  shows "lookup k (add e t) =
    (if hit k e \<and> (\<forall>x. lookup k t = Some x \<longrightarrow> rank x \<le> rank e) then Some e else lookup k t)"
proof -
  let ?hi = "filter (\<lambda>x. rank e < rank x) t" and ?lo = "filter (\<lambda>x. rank x \<le> rank e) t"
  have t: "lookup k t = (case find (hit k) ?hi of None \<Rightarrow> find (hit k) ?lo | Some x \<Rightarrow> Some x)"
    using find_append [of "hit k" ?hi ?lo] by (simp add: falls_split assms lookup_first)
  have a: "lookup k (add e t) = (case find (hit k) ?hi of
      None \<Rightarrow> if hit k e then Some e else find (hit k) ?lo | Some x \<Rightarrow> Some x)"
    unfolding lookup_first add_before [OF assms] find_append by (simp split: option.split)
  have found: "x \<in> set xs" if "find (hit k) xs = Some x" for x and xs :: "'e list"
    using that by (metis find_Some_iff nth_mem)
  have hi: "rank e < rank x" if "find (hit k) ?hi = Some x" for x
    using found [OF that] by simp
  have lo: "rank x \<le> rank e" if "find (hit k) ?lo = Some x" for x
    using found [OF that] by simp
  show ?thesis
    unfolding a t using hi lo
    by (cases "find (hit k) ?hi"; cases "find (hit k) ?lo"; simp only: option.case option.simps)
       (fastforce simp: not_le)+
qed

end

lemma insert_position_splits:
  "falls effective_priority t \<Longrightarrow> low \<le> high \<Longrightarrow> high \<le> length t \<Longrightarrow>
   (\<And>i. i < low \<Longrightarrow> p < effective_priority (t ! i)) \<Longrightarrow>
   (\<And>i. high \<le> i \<Longrightarrow> i < length t \<Longrightarrow> effective_priority (t ! i) \<le> p) \<Longrightarrow>
   insert_position p t low high \<le> length t \<and>
   (\<forall>i<insert_position p t low high. p < effective_priority (t ! i)) \<and>
   (\<forall>i. insert_position p t low high \<le> i \<longrightarrow> i < length t \<longrightarrow> effective_priority (t ! i) \<le> p)"
proof (induction p t low high rule: insert_position.induct)
  case (1 p t low high)
  show ?case
  proof (cases "low < high")
    case False
    then have "insert_position p t low high = low" by (subst insert_position.simps) simp
    with False 1(4-7) show ?thesis by auto
  next
    case True
    let ?m = "(low + high) div 2"
    have m: "?m < high" "low \<le> ?m" using True by auto
    show ?thesis
    proof (cases "effective_priority (t ! ?m) \<le> p")
      case le: True
      have down: "effective_priority (t ! i) \<le> p" if "?m \<le> i" "i < length t" for i
        using falls_nth [OF 1(3) that] le by simp
      have "insert_position p t low high = insert_position p t low ?m"
        using True le by (subst insert_position.simps) (simp add: Let_def)
      then show ?thesis using 1(1) [OF True refl le 1(3)] 1(5,6) m down by simp
    next
      case gt: False
      have up: "p < effective_priority (t ! i)" if "i < Suc ?m" for i
        using falls_nth [OF 1(3), of i ?m] gt that m 1(5) by simp
      have "insert_position p t low high = insert_position p t (?m + 1) high"
        using True gt by (subst insert_position.simps) (simp add: Let_def)
      then show ?thesis using 1(2) [OF True refl gt 1(3)] 1(5,7) m up by simp
    qed
  qed
qed

lemma filter_parts: "(\<And>x. x \<in> set xs \<Longrightarrow> P x) \<Longrightarrow> (\<And>y. y \<in> set ys \<Longrightarrow> \<not> P y) \<Longrightarrow> filter P (xs @ ys) = xs"
  by (auto simp: filter_empty_conv filter_id_conv)

lemma add_entry_before:
  assumes "falls effective_priority t"
  shows "add_entry e t = filter (\<lambda>x. effective_priority e < effective_priority x) t @
    e # filter (\<lambda>x. effective_priority x \<le> effective_priority e) t"
proof -
  let ?p = "effective_priority e"
  obtain q where q: "insert_position ?p t 0 (length t) = q" by simp
  have s: "q \<le> length t" "\<And>i. i < q \<Longrightarrow> ?p < effective_priority (t ! i)"
    "\<And>i. q \<le> i \<Longrightarrow> i < length t \<Longrightarrow> effective_priority (t ! i) \<le> ?p"
    using insert_position_splits [OF assms, of 0 "length t" ?p] by (auto simp: q)
  have hi: "?p < effective_priority x" if "x \<in> set (take q t)" for x
    using that s(1,2) by (auto simp: in_set_conv_nth)
  have lo: "\<not> ?p < effective_priority x" if x: "x \<in> set (drop q t)" for x
  proof -
    obtain i where "i < length (drop q t)" "drop q t ! i = x" using x by (auto simp: in_set_conv_nth)
    then show ?thesis using s(1) s(3) [of "q + i"] by (auto simp: not_less)
  qed
  have "filter (\<lambda>x. ?p < effective_priority x) t = take q t"
    using filter_parts [of "take q t" "\<lambda>x. ?p < effective_priority x" "drop q t"] hi lo by simp
  moreover from this have "filter (\<lambda>x. effective_priority x \<le> ?p) t = drop q t"
    using falls_split [OF assms, of ?p] append_take_drop_id [of q t] by (metis same_append_eq)
  ultimately show ?thesis by (simp add: add_entry_def q)
qed

interpretation ftab: priority_table effective_priority "\<lambda>m e. covers False (te_match e) m" entry_for_packet add_entry
  by unfold_locales (simp_all add: entry_for_packet_def add_entry_before)

section \<open>Removal\<close>

definition oids :: "table_entry list \<Rightarrow> nat list" where "oids t = map te_oid t"

lemma oids_simps [simp]: "oids [] = []" "oids (e # t) = te_oid e # oids t" "oids (s @ t) = oids s @ oids t"
  by (simp_all add: oids_def)

lemma in_oids: "x \<in> set t \<Longrightarrow> te_oid x \<in> set (oids t)"
  by (simp add: oids_def)

lemma distinct_oids_filter: "distinct (oids t) \<Longrightarrow> distinct (oids (filter P t))"
  unfolding oids_def by (rule distinct_map_filter)

lemma oids_filter_subset: "set (oids (filter P t)) \<subseteq> set (oids t)"
  by (auto simp: oids_def)

lemma distinct_oids_inj: "distinct (oids t) \<Longrightarrow> x \<in> set t \<Longrightarrow> y \<in> set t \<Longrightarrow> te_oid x = te_oid y \<Longrightarrow> x = y"
  unfolding oids_def by (meson distinct_map inj_on_eq_iff)

lemma remove_loop_removes:
  "distinct (oids t) \<Longrightarrow> set flows \<subseteq> set (oids t) \<Longrightarrow>
   remove_loop t flows = (filter (\<lambda>e. te_oid e \<notin> set flows) t, [])"
proof (induction t arbitrary: flows)
  case (Cons e t)
  let ?f = "removeAll (te_oid e) flows"
  have other: "te_oid x \<noteq> te_oid e" if "x \<in> set t" for x
    using Cons.prems(1) in_oids [OF that] by auto
  have f: "set ?f \<subseteq> set (oids t)" using Cons.prems by auto
  have same: "filter (\<lambda>x. te_oid x \<notin> set ?f) t = filter (\<lambda>x. te_oid x \<notin> set flows) t"
    using other by (auto intro!: filter_cong)
  have all: "?f = [] \<Longrightarrow> filter (\<lambda>x. te_oid x \<notin> set flows) t = t"
    using same by (simp del: set_removeAll)
  show ?case
  proof (cases "te_oid e \<in> set flows")
    case True
    then show ?thesis using all same Cons.IH [OF _ f] Cons.prems(1) by (auto simp: Let_def)
  next
    case False
    then have "set flows \<subseteq> set (oids t)" using Cons.prems by auto
    with False show ?thesis using Cons.IH [of flows] Cons.prems by auto
  qed
qed simp

definition removed_event :: "table_entry list \<Rightarrow> byte option \<Rightarrow> ft_event list" where
  "removed_event flows reason = (if flows = [] then [] else [FTRemoved flows reason])"

lemma remove_specific_filter:
  assumes "distinct (oids t)"
  shows "remove_specific_entries (filter P t) reason t = Inr (filter (\<lambda>e. \<not> P e) t, removed_event (filter P t) reason)"
proof (cases "filter P t = []")
  case True
  then have "filter (\<lambda>e. \<not> P e) t = t" by (simp add: filter_empty_conv filter_id_conv)
  with True show ?thesis by (simp add: remove_specific_entries_def removed_event_def)
next
  case False
  have "te_oid e \<in> te_oid ` set (filter P t) \<longleftrightarrow> P e" if "e \<in> set t" for e
    using that distinct_oids_inj [OF assms that] by auto
  then have "filter (\<lambda>e. te_oid e \<notin> set (map te_oid (filter P t))) t = filter (\<lambda>e. \<not> P e) t"
    by (intro filter_cong) auto
  moreover have "set (map te_oid (filter P t)) \<subseteq> set (oids t)" by (auto simp: oids_def)
  ultimately have "remove_loop t (map te_oid (filter P t)) = (filter (\<lambda>e. \<not> P e) t, [])"
    using remove_loop_removes [OF assms, of "map te_oid (filter P t)"] by simp
  with False show ?thesis by (simp add: remove_specific_entries_def removed_event_def)
qed

lemma remove_matching_filter:
  "distinct (oids t) \<Longrightarrow> remove_matching_entries m p strict out reason t =
     Inr (filter (\<lambda>e. \<not> is_matched_by e m p strict out) t, removed_event (matching_entries m p strict out t) reason,
          matching_entries m p strict out t)"
  by (simp add: remove_matching_entries_def matching_entries_def remove_specific_filter Let_def)

lemma remove_expired_filter:
  assumes "distinct (oids t)"
  shows "remove_expired_entries now t = Inr (filter (\<lambda>e. \<not> is_expired now e) t,
     removed_event (filter (is_idle_timed_out now) t) (Some OFPRR_IDLE_TIMEOUT) @
     removed_event (filter (\<lambda>e. \<not> is_idle_timed_out now e \<and> is_hard_timed_out now e) t) (Some OFPRR_HARD_TIMEOUT))"
proof -
  let ?t = "filter (\<lambda>e. \<not> is_idle_timed_out now e) t"
  have h: "filter (\<lambda>e. \<not> is_idle_timed_out now e \<and> is_hard_timed_out now e) t = filter (is_hard_timed_out now) ?t"
    by (simp add: conj_commute)
  have "filter (\<lambda>e. \<not> is_hard_timed_out now e) ?t = filter (\<lambda>e. \<not> is_expired now e) t"
    by (simp add: is_expired_def conj_commute)
  then show ?thesis
    using remove_specific_filter [OF distinct_oids_filter [OF assms], of "is_hard_timed_out now" "\<lambda>e. \<not> is_idle_timed_out now e" "Some OFPRR_HARD_TIMEOUT"]
    by (simp only: remove_expired_entries_def Let_def h remove_specific_filter [OF assms] rbind_simps prod.case)
qed

lemma list_remove_oid:
  "x \<in> set t \<Longrightarrow> distinct (oids t) \<Longrightarrow> list_remove (te_oid x) t = Inr (filter (\<lambda>e. te_oid e \<noteq> te_oid x) t)"
proof (induction t)
  case (Cons e t)
  show ?case
  proof (cases "te_oid e = te_oid x")
    case True
    then have "te_oid y \<noteq> te_oid x" if "y \<in> set t" for y using Cons.prems(2) in_oids [OF that] by auto
    with True show ?thesis by (auto simp: filter_id_conv)
  next
    case False
    with Cons.prems have "x \<in> set t" by auto
    with False Cons show ?thesis by simp
  qed
qed simp

section \<open>The reachable tables\<close>

text \<open>Assigning to a field of an entry object that is in the table.\<close>

definition update_entry :: "nat \<Rightarrow> (table_entry \<Rightarrow> table_entry) \<Rightarrow> table_entry list \<Rightarrow> table_entry list" where
  "update_entry oid f t = map (\<lambda>e. if te_oid e = oid then f e else e) t"

definition table_ok :: "table_entry list \<Rightarrow> bool" where
  "table_ok t \<longleftrightarrow> falls effective_priority t \<and> distinct (oids t)"

inductive table_step :: "table_entry list \<Rightarrow> table_entry list \<Rightarrow> bool" where
  step_add: "te_oid e \<notin> set (oids t) \<Longrightarrow> table_step t (add_entry e t)"
| step_remove: "remove_entry e reason t = Inr (t', ev) \<Longrightarrow> table_step t t'"
| step_matching: "remove_matching_entries m p strict out reason t = Inr (t', ev, gone) \<Longrightarrow> table_step t t'"
| step_expire: "remove_expired_entries now t = Inr (t', ev) \<Longrightarrow> table_step t t'"
| step_touch: "table_step t (update_entry oid (touch_packet n now) t)"
| step_modify: "table_step t (update_entry oid (te_actions_update (\<lambda>_. as)) t)"

inductive_cases table_stepE: "table_step t t'"
inductive_simps table_step_simps: "table_step t t'"

definition table_reachable :: "table_entry list \<Rightarrow> bool" where "table_reachable t \<longleftrightarrow> table_step\<^sup>*\<^sup>* [] t"

lemma table_ok_filter: "table_ok t \<Longrightarrow> table_ok (filter P t)"
  by (simp add: table_ok_def falls_filter distinct_oids_filter)

lemma table_ok_add: "table_ok t \<Longrightarrow> te_oid e \<notin> set (oids t) \<Longrightarrow> table_ok (add_entry e t)"
proof -
  assume ok: "table_ok t" "te_oid e \<notin> set (oids t)"
  then have "mset (oids (add_entry e t)) = mset (oids (e # t))"
    using ftab.mset_add [of t e] by (simp add: oids_def table_ok_def)
  then have "distinct (oids (add_entry e t)) = distinct (oids (e # t))" by (rule mset_eq_imp_distinct_iff)
  then show "table_ok (add_entry e t)" using ok ftab.add_falls [of t e] by (simp add: table_ok_def)
qed

lemma update_entry_ok:
  "(\<And>e. te_oid (f e) = te_oid e \<and> te_match (f e) = te_match e \<and> te_priority (f e) = te_priority e) \<Longrightarrow>
   table_ok t \<Longrightarrow> table_ok (update_entry oid f t)"
  by (simp add: table_ok_def update_entry_def falls_map effective_priority_def oids_def comp_def if_distrib [of te_oid] cong: if_cong)

lemma remove_entry_keeps: "table_ok t \<Longrightarrow> remove_entry e reason t = Inr (t', ev) \<Longrightarrow> table_ok t'"
proof -
  assume ok: "table_ok t" and r: "remove_entry e reason t = Inr (t', ev)"
  have found: "list_remove n s = Inr s' \<Longrightarrow> n \<in> set (oids s)" for n s s'
    by (induction s arbitrary: s') (auto split: if_splits)
  from r have "te_oid e \<in> set (oids t)" by (auto simp: remove_entry_def intro: found simp del: oids_simps)
  then obtain x where "x \<in> set t" "te_oid x = te_oid e" by (auto simp: oids_def)
  with ok r list_remove_oid [of x t] show "table_ok t'"
    by (auto simp: remove_entry_def table_ok_def falls_filter distinct_oids_filter)
qed

lemma table_step_ok: "table_step t t' \<Longrightarrow> table_ok t \<Longrightarrow> table_ok t'"
proof (induction rule: table_step.induct)
  case (step_touch t oid n now)
  then show ?case by (simp add: update_entry_ok touch_packet_def)
next
  case (step_matching m p strict out reason t t' ev gone)
  then show ?case using remove_matching_filter [of t m p strict out reason] by (auto simp: table_ok_def falls_filter distinct_oids_filter)
next
  case (step_expire now t t' ev)
  then show ?case using remove_expired_filter [of t now] by (auto simp: table_ok_def falls_filter distinct_oids_filter)
qed (simp_all add: table_ok_add remove_entry_keeps update_entry_ok)

lemma table_reachable_ok: "table_reachable t \<Longrightarrow> table_ok t"
  unfolding table_reachable_def
  by (induction rule: rtranclp_induct) (simp_all add: table_step_ok, simp add: table_ok_def)

section \<open>Overlap\<close>

lemma overlap_scan_all:
  "falls effective_priority t \<Longrightarrow> overlap_scan i t \<longleftrightarrow>
     (\<exists>e\<in>set t. effective_priority e = effective_priority i \<and>
        (covers True (te_match i) (te_match e) \<or> covers True (te_match e) (te_match i)))"
proof (induction t)
  case (Cons e t)
  show ?case
  proof (cases "effective_priority e < effective_priority i")
    case True
    then show ?thesis using Cons.prems by fastforce
  next
    case False
    then show ?thesis using Cons by (auto simp: is_matched_by_def)
  qed
qed simp

section \<open>What the table promises\<close>

definition plain_entry :: "nat \<Rightarrow> 16 word \<Rightarrow> ofp_match \<Rightarrow> table_entry" where
  "plain_entry oid priority m = \<lparr>te_oid = oid, te_created = 0, te_last_touched = 0, te_byte_count = 0, te_packet_count = 0,
     te_priority = priority, te_cookie = 0, te_idle_timeout = 5, te_hard_timeout = 0, te_flags = 0, te_match = m,
     te_actions = [], te_buffer_id = None\<rparr>"

lemma plain_entry_match: "te_match (plain_entry oid p m) = m" "te_actions (plain_entry oid p m) = []"
  by (simp_all add: plain_entry_def)

definition two_entries :: "table_entry list" where
  "two_entries = [plain_entry 1 9 (set_dl_type (Some 0x0800) match_init), plain_entry 2 3 match_init]"

definition plain_frame :: ethernet where
  "plain_frame = \<lparr>eth_meta = \<lparr>m_parsed = True, m_raw = None\<rparr>, eth_dst = ETH_BROADCAST, eth_src = EMPTY_ETH, eth_type = 0x0900,
     eth_next = PBytes []\<rparr>"

lemmas table_run = match_run entry_for_def entry_for_packet_def match_from_packet_def match_l3_def match_l4_def
  two_entries_def plain_entry_def plain_frame_def effective_priority_def is_wildcarded_def is_matched_by_def OFP_VLAN_NONE_def
  is_expired_def is_idle_timed_out_def is_hard_timed_out_def seconds_def oids_def

lemma two_entries_ok: "table_ok two_entries"
  by (simp add: table_ok_def table_run)

lemma two_entries_reachable: "table_reachable two_entries"
proof -
  let ?b = "plain_entry 2 3 match_init" and ?a = "plain_entry 1 9 (set_dl_type (Some 0x0800) match_init)"
  have one: "add_entry ?b [] = [?b]" by (simp add: add_entry_before)
  have two: "add_entry ?a [?b] = two_entries" by (simp add: add_entry_before table_run)
  have "table_step [] [?b]" using step_add [of ?b "[]"] by (simp add: one)
  moreover have "table_step [?b] two_entries"
    using step_add [of ?a "[?b]"] unfolding two by (simp add: plain_entry_def)
  ultimately show ?thesis unfolding table_reachable_def by (metis rtranclp.simps)
qed

text \<open>
  C18. In every table that additions, removals, expiry, counter updates and modifications of an empty table lead
  to, the entry that \<open>entry_for_packet\<close> returns matches the packet and no entry that matches it has a higher
  effective priority; it returns none only when no entry matches.
\<close>

theorem lookup_highest_priority:
  assumes "table_reachable t"
  shows "case entry_for packet port t of
    None \<Rightarrow> (\<forall>x\<in>set t. \<not> covers False (te_match x) (match_from_packet packet (Some port) True))
  | Some e \<Rightarrow> e \<in> set t \<and> covers False (te_match e) (match_from_packet packet (Some port) True) \<and>
      (\<forall>x\<in>set t. covers False (te_match x) (match_from_packet packet (Some port) True) \<longrightarrow>
         effective_priority x \<le> effective_priority e)"
proof (cases "entry_for packet port t")
  case None
  then show ?thesis using ftab.lookup_None [of "match_from_packet packet (Some port) True" t] by (simp add: entry_for_def)
next
  case (Some e)
  then show ?thesis
    using ftab.lookup_best [of t "match_from_packet packet (Some port) True" e] table_reachable_ok [OF assms]
    by (simp add: entry_for_def table_ok_def)
qed

theorem lookup_highest_priority_witness:
  "entry_for plain_frame 1 two_entries = Some (plain_entry 2 3 match_init)"
proof -
  have "\<not> covers False (set_dl_type (Some 0x0800) match_init) (match_from_packet plain_frame (Some 1) True)"
    by (simp add: table_run)
  moreover have "covers False match_init (match_from_packet plain_frame (Some 1) True)"
    by (simp add: table_run)
  ultimately show ?thesis
    using lookup_highest_priority [OF two_entries_reachable, of plain_frame 1]
    by (auto simp: two_entries_def plain_entry_def split: option.splits)
qed

text \<open>
  C29. After \<open>add_entry\<close> a packet meets the new entry exactly when the new entry matches it and the entry it met
  before did not rank above it: among equal priorities the newest entry wins.  Nothing else changes.
\<close>

theorem lookup_after_add:
  assumes "table_ok t" "te_oid e \<notin> set (oids t)"
  shows "entry_for packet port (add_entry e t) =
    (if covers False (te_match e) (match_from_packet packet (Some port) True) \<and>
        (\<forall>x. entry_for packet port t = Some x \<longrightarrow> effective_priority x \<le> effective_priority e)
     then Some e else entry_for packet port t) \<and>
   table_ok (add_entry e t) \<and> mset (add_entry e t) = add_mset e (mset t)"
  using assms table_ok_add [OF assms] ftab.lookup_add [of t] ftab.mset_add [of t e]
  unfolding entry_for_def table_ok_def by blast

theorem lookup_after_add_witness:
  "entry_for plain_frame 1 (add_entry (plain_entry 3 3 match_init) two_entries) = Some (plain_entry 3 3 match_init)"
proof -
  have "te_oid (plain_entry 3 3 match_init) \<notin> set (oids two_entries)" by (simp add: table_run)
  moreover have "entry_for plain_frame 1 two_entries = Some (plain_entry 2 3 match_init)"
    "covers False match_init (match_from_packet plain_frame (Some 1) True)"
    by (simp_all add: table_run)
  ultimately show ?thesis
    using lookup_after_add [OF two_entries_ok, of "plain_entry 3 3 match_init" plain_frame 1]
    by (simp add: plain_entry_def effective_priority_def)
qed

text \<open>
  \<open>remove_expired_entries\<close> never fails on a reachable table.  It keeps exactly the entries that are not
  expired, in their order, and reports every expired entry once, an entry whose two timeouts have both passed as
  an idle timeout.
\<close>

theorem expiry_exact:
  assumes "table_reachable t"
  shows "\<exists>events. remove_expired_entries now t = Inr (filter (\<lambda>e. \<not> is_expired now e) t, events) \<and>
    mset (concat (map (\<lambda>ev. case ev of FTRemoved es _ \<Rightarrow> es | FTAdded _ \<Rightarrow> []) events)) = mset (filter (is_expired now) t) \<and>
    (\<forall>es r. FTRemoved es r \<in> set events \<longrightarrow>
       es = filter (\<lambda>e. if is_idle_timed_out now e then r = Some OFPRR_IDLE_TIMEOUT
                        else is_hard_timed_out now e \<and> r = Some OFPRR_HARD_TIMEOUT) t)"
proof -
  let ?idle = "is_idle_timed_out now" and ?hard = "\<lambda>e. \<not> is_idle_timed_out now e \<and> is_hard_timed_out now e"
  let ?events = "removed_event (filter ?idle t) (Some OFPRR_IDLE_TIMEOUT) @ removed_event (filter ?hard t) (Some OFPRR_HARD_TIMEOUT)"
  have "mset (filter (is_expired now) t) = mset (filter ?idle t) + mset (filter ?hard t)"
    by (induction t) (auto simp: is_expired_def)
  moreover have "concat (map (\<lambda>ev. case ev of FTRemoved es _ \<Rightarrow> es | FTAdded _ \<Rightarrow> []) (removed_event es r)) = es" for es r
    by (simp add: removed_event_def)
  moreover have "r = Some OFPRR_IDLE_TIMEOUT \<and> es = filter ?idle t \<or> r = Some OFPRR_HARD_TIMEOUT \<and> es = filter ?hard t"
    if "FTRemoved es r \<in> set ?events" for es r
    using that by (auto simp: removed_event_def split: if_splits)
  moreover have "OFPRR_IDLE_TIMEOUT \<noteq> OFPRR_HARD_TIMEOUT" by (simp add: OFPRR_IDLE_TIMEOUT_def OFPRR_HARD_TIMEOUT_def)
  ultimately show ?thesis
    using remove_expired_filter [of t now] table_reachable_ok [OF assms]
    by (intro exI [of _ ?events]) (fastforce simp: table_ok_def intro: filter_cong)
qed

theorem expiry_exact_witness:
  "\<exists>events. remove_expired_entries (6 * seconds) two_entries = Inr ([], events)"
proof -
  have "filter (\<lambda>e. \<not> is_expired (6 * seconds) e) two_entries = []"
    by (simp add: two_entries_def plain_entry_def is_expired_def is_idle_timed_out_def seconds_def)
  then show ?thesis using expiry_exact [OF two_entries_reachable, of "6 * seconds"] by auto
qed

text \<open>
  A wider non-strict delete removes whatever a narrower one removes: when match \<open>a\<close> covers match \<open>b\<close>,
  deleting by \<open>b\<close> first and by \<open>a\<close> afterwards leaves the same table as deleting by \<open>a\<close> alone.
\<close>

theorem wider_delete:
  assumes "table_reachable t" "covers True a b"
    and "remove_matching_entries b p False None r t = Inr (t1, ev1, gone1)"
    and "remove_matching_entries a p False None r t1 = Inr (t2, ev2, gone2)"
  shows "\<exists>ev gone. remove_matching_entries a p False None r t = Inr (t2, ev, gone) \<and> set gone1 \<subseteq> set gone"
proof -
  have d: "distinct (oids t)" using table_reachable_ok [OF assms(1)] by (simp add: table_ok_def)
  have t1: "t1 = filter (\<lambda>e. \<not> covers True b (te_match e)) t" "gone1 = filter (\<lambda>e. covers True b (te_match e)) t"
    using assms(3) remove_matching_filter [OF d, of b p False None r] by (auto simp: is_matched_by_def matching_entries_def)
  have "t2 = filter (\<lambda>e. \<not> covers True a (te_match e)) t1"
    using assms(4) remove_matching_filter [OF distinct_oids_filter [OF d], of a p False None r "\<lambda>e. \<not> covers True b (te_match e)"]
    by (auto simp: is_matched_by_def t1 conj_commute)
  then have "t2 = filter (\<lambda>e. \<not> covers True a (te_match e)) t"
    using wide.cov_trans [OF assms(2)] by (auto simp: t1 intro: filter_cong)
  then show ?thesis
    using remove_matching_filter [OF d, of a p False None r] wide.cov_trans [OF assms(2)]
    by (auto simp: is_matched_by_def matching_entries_def t1)
qed

theorem wider_delete_witness:
  "\<exists>ev gone. remove_matching_entries match_init None False None None two_entries = Inr ([], ev, gone) \<and> length gone \<noteq> 0"
proof -
  let ?ip = "set_dl_type (Some 0x0800) match_init"
  have c: "covers True match_init ?ip" "covers True match_init match_init" "\<not> covers True ?ip match_init" "covers True ?ip ?ip"
    by (simp_all add: match_run)
  have d: "distinct (oids two_entries)" "distinct (oids [plain_entry 2 3 match_init])" by (simp_all add: table_run)
  have 1: "remove_matching_entries ?ip None False None None two_entries = Inr ([plain_entry 2 3 match_init],
      removed_event [plain_entry 1 9 ?ip] None, [plain_entry 1 9 ?ip])"
    unfolding remove_matching_filter [OF d(1)] using c by (simp add: matching_entries_def two_entries_def is_matched_by_def plain_entry_match)
  have 2: "remove_matching_entries match_init None False None None [plain_entry 2 3 match_init] = Inr ([],
      removed_event [plain_entry 2 3 match_init] None, [plain_entry 2 3 match_init])"
    unfolding remove_matching_filter [OF d(2)] using c by (simp add: matching_entries_def is_matched_by_def plain_entry_match)
  show ?thesis using wider_delete [OF two_entries_reachable c(1) 1 2] by auto
qed

text \<open>
  The scan of \<open>check_for_overlapping_entry\<close>, which stops at the first lower priority, reports exactly the
  tables that hold an entry of the same effective priority whose match contains the new match or is contained in it.
\<close>

theorem overlap_is_containment:
  assumes "table_reachable t"
  shows "check_for_overlapping_entry i t \<longleftrightarrow>
    (\<exists>e\<in>set t. effective_priority e = effective_priority i \<and>
       (covers True (te_match i) (te_match e) \<or> covers True (te_match e) (te_match i)))"
  using table_reachable_ok [OF assms] overlap_scan_all by (simp add: check_for_overlapping_entry_def table_ok_def)

theorem overlap_is_containment_witness:
  "check_for_overlapping_entry (plain_entry 4 3 (set_in_port (Some 7) match_init)) two_entries"
proof -
  have "covers True match_init (set_in_port (Some 7) match_init)" by (simp add: match_run)
  moreover have "effective_priority (plain_entry 4 3 (set_in_port (Some 7) match_init)) = effective_priority (plain_entry 2 3 match_init)"
    by (simp add: table_run)
  ultimately show ?thesis
    using overlap_is_containment [OF two_entries_reachable, of "plain_entry 4 3 (set_in_port (Some 7) match_init)"]
    by (simp add: two_entries_def) (simp add: plain_entry_def)
qed

text \<open>Two entries of one priority that both match a packet, and no overlap is reported.\<close>

lemma overlap_missed:
  "\<not> check_for_overlapping_entry (plain_entry 1 9 (set_in_port (Some 1) match_init))
       [plain_entry 2 9 (set_dl_type (Some 0x0800) match_init)] \<and>
   covers False (set_in_port (Some 1) match_init) (set_dl_type (Some 0x0800) (set_in_port (Some 1) match_init)) \<and>
   covers False (set_dl_type (Some 0x0800) match_init) (set_dl_type (Some 0x0800) (set_in_port (Some 1) match_init))"
  by (simp add: match_run check_for_overlapping_entry_def plain_entry_def effective_priority_def is_wildcarded_def is_matched_by_def)

text \<open>
  Aggregate statistics are the sums over the flow statistics for the same match and port.
\<close>

theorem aggregate_sums_flow_stats:
  "table_aggregate_stats m out_port t =
    \<lparr>as_packet_count = sum_list (map fs_packet_count (table_flow_stats m out_port now t)),
     as_byte_count = sum_list (map fs_byte_count (table_flow_stats m out_port now t)),
     as_flow_count = length (table_flow_stats m out_port now t)\<rparr>"
proof -
  have sums: "foldl (\<lambda>s e. s\<lparr>as_packet_count := as_packet_count s + te_packet_count e, as_byte_count := as_byte_count s + te_byte_count e,
      as_flow_count := as_flow_count s + 1\<rparr>) \<lparr>as_packet_count = p, as_byte_count = b, as_flow_count = n\<rparr> es
    = \<lparr>as_packet_count = p + sum_list (map te_packet_count es), as_byte_count = b + sum_list (map te_byte_count es),
       as_flow_count = n + length es\<rparr>" for p b n es
    by (induction es arbitrary: p b n) (simp_all add: ac_simps)
  show ?thesis
    unfolding table_aggregate_stats_def sums by (simp add: table_flow_stats_def comp_def entry_flow_stats_def)
qed

end
