(* ===== verification/Switch.thy ===== *)
theory Switch
  imports Flow_Table
begin

text \<open>
  \<open>pox/pox/datapaths/switch.py\<close>, the software OpenFlow switch.  Dataplane packets are mutable objects that a
  handler, the packet buffer and a caller may share, so the state has a store of packets and the operations
  take addresses.  The dataplane output is the sequence of \<open>DpPacketOut\<close> events, with the packet as it is when
  the event is raised; the messages to the controller are the sequence \<open>sw_sent\<close> of those that packed.  A packet
  that is sent to the virtual port \<open>OFPP_TABLE\<close> enters \<open>rx_packet\<close> again; the nesting that the interpreter allows
  is a parameter, and one level too many raises \<open>RecursionError\<close>.  Log output is left out.
\<close>

section \<open>State\<close>

text \<open>\<open>SwitchFeatures\<close>: the capability values and the action types whose attributes are true.\<close>

record switch_features =
  sf_caps :: "nat list"
  sf_acts :: "nat list"

record switch =
  sw_dpid :: "64 word"
  sw_max_buffers :: nat
  sw_max_entries :: "32 word"
  sw_miss_send_len :: "16 word"
  sw_config_flags :: "16 word"
  sw_has_sent_hello :: bool
  sw_table :: "table_entry list"
  sw_lookup_count :: nat
  sw_matched_count :: nat
  sw_connected :: bool
  sw_packet_buffer :: "(nat \<times> 16 word) option list"
  sw_ports :: "(16 word, phy_port) dict"
  sw_port_stats :: "(16 word, port_stats) dict"
  sw_features :: switch_features
  sw_desc :: desc_stats
  sw_lib :: packet_lib
  sw_now :: nat
  sw_next_xid :: nat
  sw_next_oid :: nat
  sw_packets :: "ethernet list"
  sw_sent :: "ofp_msg list"
  sw_output :: "(16 word \<times> ethernet) list"

type_synonym 'a sw = "(switch, 'a) sm"

definition OFPPC_PORT_DOWN :: "32 word" where "OFPPC_PORT_DOWN = 1"
definition OFPPC_NO_STP :: "32 word" where "OFPPC_NO_STP = 2"
definition OFPPC_NO_RECV :: "32 word" where "OFPPC_NO_RECV = 4"
definition OFPPC_NO_RECV_STP :: "32 word" where "OFPPC_NO_RECV_STP = 8"
definition OFPPC_NO_FLOOD :: "32 word" where "OFPPC_NO_FLOOD = 16"
definition OFPPC_NO_FWD :: "32 word" where "OFPPC_NO_FWD = 32"
definition OFPPC_NO_PACKET_IN :: "32 word" where "OFPPC_NO_PACKET_IN = 64"
definition OFPPS_LINK_DOWN :: "32 word" where "OFPPS_LINK_DOWN = 1"
definition OFPFF_SEND_FLOW_REM :: "16 word" where "OFPFF_SEND_FLOW_REM = 1"
definition OFPFF_CHECK_OVERLAP :: "16 word" where "OFPFF_CHECK_OVERLAP = 2"
definition OFPFF_EMERG :: "16 word" where "OFPFF_EMERG = 4"
definition OFPC_FRAG_MASK :: "16 word" where "OFPC_FRAG_MASK = 3"
definition STP_MAC :: eth_addr where "STP_MAC = [0x01, 0x80, 0xc2, 0, 0, 0]"

lemmas switch_consts = OFPPC_PORT_DOWN_def OFPPC_NO_STP_def OFPPC_NO_RECV_def OFPPC_NO_RECV_STP_def OFPPC_NO_FLOOD_def
  OFPPC_NO_FWD_def OFPPC_NO_PACKET_IN_def OFPPS_LINK_DOWN_def OFPFF_SEND_FLOW_REM_def OFPFF_CHECK_OVERLAP_def
  OFPFF_EMERG_def OFPC_FRAG_MASK_def STP_MAC_def

definition bits_set :: "'a::len word \<Rightarrow> 'a word \<Rightarrow> bool" where "bits_set w b \<longleftrightarrow> w AND b \<noteq> 0"

section \<open>Sending to the controller\<close>

text \<open>\<open>generate_xid\<close>, a generator that starts again at 1 after \<open>MAX_XID\<close>.\<close>

definition MAX_XID :: nat where "MAX_XID = 0x7fFFffFF"

definition generate_xid :: "32 word sw" where
  "generate_xid = sbind (sget sw_next_xid) (\<lambda>i.
     sthen (smod (sw_next_xid_update (\<lambda>_. if i + 1 > MAX_XID then 1 else i + 1))) (sret (word_of_nat i)))"

text \<open>
  \<open>send\<close>: without a connection nothing happens; otherwise the message is packed, which draws a transaction
  number if it has none and may raise.
\<close>

definition send :: "32 word option \<Rightarrow> of_body \<Rightarrow> unit sw" where
  "send xid b = sbind (sget sw_connected) (\<lambda>c.
     if \<not> c then sret ()
     else sthen (slift (body_validate b)) (sthen (slift (body_len b))
       (sbind (case xid of Some x \<Rightarrow> sret x | None \<Rightarrow> generate_xid) (\<lambda>x.
          let m = (\<lparr>hdr_version = OFP_VERSION, hdr_xid = x\<rparr>, b) in
          sthen (slift (msg_pack m)) (smod (sw_sent_update (\<lambda>l. l @ [m])))))))"

definition send_hello :: "bool \<Rightarrow> unit sw" where
  "send_hello force = sbind (sget sw_has_sent_hello) (\<lambda>h.
     if h \<and> \<not> force then sret ()
     else sthen (smod (sw_has_sent_hello_update (\<lambda>_. True))) (send (Some 0) MHello))"

definition set_connection :: "unit sw" where
  "set_connection = smod (\<lambda>s. s\<lparr>sw_has_sent_hello := False, sw_connected := True\<rparr>)"

text \<open>An error takes its transaction number and its data from the message that caused it, if there is one.\<close>

definition send_error :: "16 word \<Rightarrow> 16 word \<Rightarrow> ofp_msg option \<Rightarrow> unit sw" where
  "send_error ty code ofp =
     (case ofp of
        None \<Rightarrow> send (Some 0) (MError ty code [])
      | Some m \<Rightarrow> sbind (slift (msg_pack m)) (\<lambda>d. send (Some (hdr_xid (fst m))) (MError ty code d)))"

definition send_packet_in :: "16 word \<Rightarrow> nat option \<Rightarrow> bytes \<Rightarrow> byte \<Rightarrow> nat option \<Rightarrow> unit sw" where
  "send_packet_in in_port buf packet reason data_length =
     (let d = (case data_length of None \<Rightarrow> packet
               | Some n \<Rightarrow> if length packet > n \<and> buf \<noteq> None then take n packet else packet) in
      send (Some 0) (MPacketIn \<lparr>pi_in_port = in_port,
        pi_buffer_id = (case buf of None \<Rightarrow> NO_BUFFER | Some b \<Rightarrow> word_of_nat b),
        pi_reason = reason, pi_data = d, pi_total_len = None\<rparr>))"

definition send_port_status :: "phy_port \<Rightarrow> byte \<Rightarrow> unit sw" where
  "send_port_status p reason = sthen (slift (py_assert (reason \<in> {0, 1, 2}))) (send None (MPortStatus reason p))"

section \<open>Ports\<close>

definition delete_port :: "16 word \<Rightarrow> phy_port sw" where
  "delete_port no = sbind (sget (\<lambda>s. map_of (sw_ports s) no)) (\<lambda>p.
     case p of None \<Rightarrow> sraise KeyError
     | Some p \<Rightarrow> sthen (send_port_status p 1) (sthen (smod (sw_ports_update (d_del no))) (sret p)))"

definition add_port :: "phy_port \<Rightarrow> unit sw" where
  "add_port p = sbind (sget sw_ports) (\<lambda>ps.
     if map_of ps (pp_port_no p) \<noteq> None then sraise RuntimeError
     else sthen (smod (sw_ports_update (d_set (pp_port_no p) p)))
       (sthen (smod (sw_port_stats_update (d_set (pp_port_no p) (port_stats_new (pp_port_no p))))) (send_port_status p 0)))"

definition gen_port_name :: "64 word \<Rightarrow> nat \<Rightarrow> bytes" where
  "gen_port_name dpid no = zfill 12 (digits_of 16 (unat (take_bit 48 dpid))) @ ascii ''.'' @ digits_of 10 no"

definition gen_ethaddr :: "64 word \<Rightarrow> nat \<Rightarrow> eth_addr result" where
  "gen_ethaddr dpid no = EthAddr_init (EBytes (ascii ''02'' @ zfill 6 (digits_of 16 (unat dpid mod 0x00FFff)) @
     zfill 4 (digits_of 16 (no mod 0xffFF))))"

definition generate_port :: "64 word \<Rightarrow> nat \<Rightarrow> phy_port result" where
  "generate_port dpid no = rbind (gen_ethaddr dpid no) (\<lambda>hw. Inr \<lparr>pp_port_no = word_of_nat no, pp_hw_addr = hw,
     pp_name = gen_port_name dpid no, pp_config = OFPPC_NO_STP, pp_state = 0, pp_curr = 1, pp_advertised = 1,
     pp_supported = 1, pp_peer = 1\<rparr>)"

section \<open>Table changes\<close>

text \<open>\<open>_handle_FlowTableModification\<close>: notifies the controller about the flows that asked for it.\<close>

definition wants_removed :: "table_entry \<Rightarrow> bool" where
  "wants_removed e \<longleftrightarrow> bits_set (te_flags e) OFPFF_SEND_FLOW_REM \<and> \<not> bits_set (te_flags e) OFPFF_EMERG"

definition handle_table_event :: "ft_event \<Rightarrow> unit sw" where
  "handle_table_event ev =
     (case ev of
        FTAdded _ \<Rightarrow> sret ()
      | FTRemoved es None \<Rightarrow> sret ()
      | FTRemoved es (Some r) \<Rightarrow>
          if r = OFPRR_IDLE_TIMEOUT \<or> r = OFPRR_HARD_TIMEOUT \<or> r = OFPRR_DELETE then
            sfor es (\<lambda>e. if wants_removed e then sbind (sget sw_now) (\<lambda>now. send None (MFlowRemoved (to_flow_removed now r e)))
                         else sret ())
          else sret ())"

definition remove_flows :: "table_entry list \<Rightarrow> byte option \<Rightarrow> unit sw" where
  "remove_flows flows reason = sbind (sget sw_table) (\<lambda>t.
     sbind (slift (remove_specific_entries flows reason t)) (\<lambda>(t', evs).
       sthen (smod (sw_table_update (\<lambda>_. t'))) (sfor evs handle_table_event)))"

definition remove_matching :: "ofp_match \<Rightarrow> 16 word option \<Rightarrow> bool \<Rightarrow> 16 word option \<Rightarrow> byte option \<Rightarrow> unit sw" where
  "remove_matching m priority strict out_port reason = sbind (sget sw_table) (\<lambda>t.
     remove_flows (matching_entries m priority strict out_port t) reason)"

text \<open>The body of the timer of \<open>ExpireMixin\<close>: \<open>remove_expired_entries\<close> of this switch's table.\<close>

definition expire :: "unit sw" where
  "expire = sbind (sget (\<lambda>s. (sw_now s, sw_table s))) (\<lambda>(now, t).
     sthen (remove_flows (filter (is_idle_timed_out now) t) (Some OFPRR_IDLE_TIMEOUT))
           (remove_flows (filter (\<lambda>e. \<not> is_idle_timed_out now e \<and> is_hard_timed_out now e) t) (Some OFPRR_HARD_TIMEOUT)))"

section \<open>Packets\<close>

definition new_packet :: "ethernet \<Rightarrow> nat sw" where
  "new_packet e = sbind (sget (\<lambda>s. length (sw_packets s))) (\<lambda>r. sthen (smod (sw_packets_update (\<lambda>l. l @ [e]))) (sret r))"

definition get_packet :: "nat \<Rightarrow> ethernet sw" where "get_packet r = sget (\<lambda>s. sw_packets s ! r)"

definition set_packet :: "nat \<Rightarrow> ethernet \<Rightarrow> unit sw" where
  "set_packet r e = smod (sw_packets_update (\<lambda>l. l[r := e]))"

definition pack_packet :: "nat \<Rightarrow> bytes sw" where
  "pack_packet r = sbind (get_packet r) (\<lambda>e. sbind (sget sw_lib) (\<lambda>L. slift (eth_pack (lib_little L) e)))"

definition count_port :: "16 word \<Rightarrow> (port_stats \<Rightarrow> port_stats) \<Rightarrow> unit sw" where
  "count_port no f = sbind (sget (\<lambda>s. map_of (sw_port_stats s) no)) (\<lambda>p.
     case p of None \<Rightarrow> sraise KeyError | Some x \<Rightarrow> smod (sw_port_stats_update (d_set no (f x))))"

text \<open>\<open>_buffer_packet\<close>: the first empty slot, or a new one while there are fewer than \<open>max_buffers\<close>.\<close>

fun first_free :: "'a option list \<Rightarrow> nat option" where
  "first_free [] = None"
| "first_free (None # _) = Some 0"
| "first_free (Some _ # b) = map_option Suc (first_free b)"

definition buffer_packet :: "nat \<Rightarrow> 16 word \<Rightarrow> nat option sw" where
  "buffer_packet r in_port = sbind (sget (\<lambda>s. (sw_packet_buffer s, sw_max_buffers s))) (\<lambda>(b, m).
     case first_free b of
       Some i \<Rightarrow> sthen (smod (sw_packet_buffer_update (\<lambda>_. b[i := Some (r, in_port)]))) (sret (Some (i + 1)))
     | None \<Rightarrow> if m \<le> length b then sret None
         else sthen (smod (sw_packet_buffer_update (\<lambda>_. b @ [Some (r, in_port)]))) (sret (Some (length b + 1))))"

section \<open>Output\<close>

definition real_send :: "nat \<Rightarrow> 16 word \<Rightarrow> bool \<Rightarrow> 16 word \<Rightarrow> unit sw" where
  "real_send r in_port allow_in_port no = sbind (sget (\<lambda>s. map_of (sw_ports s) no)) (\<lambda>p.
     if no = in_port \<and> \<not> allow_in_port then sret ()
     else case p of
       None \<Rightarrow> sret ()
     | Some p \<Rightarrow>
         if bits_set (pp_config p) OFPPC_NO_FWD then sret ()
         else if bits_set (pp_config p) OFPPC_PORT_DOWN then sret ()
         else if bits_set (pp_state p) OFPPS_LINK_DOWN then sret ()
         else sthen (count_port no (\<lambda>x. x\<lparr>ps_tx_packets := ps_tx_packets x + 1\<rparr>))
           (sbind (pack_packet r) (\<lambda>d. sthen (count_port no (\<lambda>x. x\<lparr>ps_tx_bytes := ps_tx_bytes x + length d\<rparr>))
             (sbind (get_packet r) (\<lambda>e. smod (sw_output_update (\<lambda>l. l @ [(no, e)])))))))"

text \<open>\<open>_output_packet\<close>; \<open>rx\<close> is \<open>rx_packet\<close> without packet data.\<close>

definition output_packet :: "(nat \<Rightarrow> 16 word \<Rightarrow> unit sw) \<Rightarrow> nat \<Rightarrow> 16 word \<Rightarrow> 16 word \<Rightarrow> nat option \<Rightarrow> unit sw" where
  "output_packet rx r out_port in_port max_len =
     (if out_port < OFPP_MAX then real_send r in_port False out_port
      else if out_port = OFPP_IN_PORT then real_send r in_port True in_port
      else if out_port = OFPP_FLOOD then
        sbind (sget sw_ports) (\<lambda>ps. sfor ps (\<lambda>(no, p).
          if no = in_port then sret ()
          else if bits_set (pp_config p) OFPPC_NO_FLOOD then sret ()
          else real_send r in_port False (pp_port_no p)))
      else if out_port = OFPP_ALL then
        sbind (sget sw_ports) (\<lambda>ps. sfor ps (\<lambda>(no, p).
          if no = in_port then sret () else real_send r in_port False (pp_port_no p)))
      else if out_port = OFPP_CONTROLLER then
        sbind (buffer_packet r in_port) (\<lambda>buf. sbind (pack_packet r) (\<lambda>d. send_packet_in in_port buf d 1 max_len))
      else if out_port = OFPP_TABLE then rx r in_port
      else sret ())"

section \<open>Actions\<close>

text \<open>The setter of \<open>payload\<close> refuses a payload that is neither bytes nor a packet.\<close>

definition vlan_tagged :: "(vlan \<Rightarrow> vlan) \<Rightarrow> ethernet \<Rightarrow> ethernet result" where
  "vlan_tagged f e =
     (case eth_next e of
        PVlan m v n \<Rightarrow> Inr (e\<lparr>eth_next := PVlan m (f v) n\<rparr>)
      | PNone \<Rightarrow> Inl TypeError
      | n \<Rightarrow> Inr (e\<lparr>eth_type := 0x8100, eth_next := PVlan \<lparr>m_parsed = False, m_raw = None\<rparr>
               (f \<lparr>vlan_pcp = 0, vlan_cfi = 0, vlan_id = 0, vlan_eth_type = eth_type e\<rparr>) n\<rparr>))"

definition strip_vlan :: "ethernet \<Rightarrow> ethernet \<times> unit result" where
  "strip_vlan e =
     (case eth_next e of
        PVlan m v n \<Rightarrow> if n = PNone then (e\<lparr>eth_type := vlan_eth_type v\<rparr>, Inl TypeError)
          else (e\<lparr>eth_type := vlan_eth_type v, eth_next := n\<rparr>, Inr ())
      | _ \<Rightarrow> (e, Inr ()))"

definition map_ipv4 :: "(ipv4 \<Rightarrow> ipv4) \<Rightarrow> (payload \<Rightarrow> payload) \<Rightarrow> payload \<Rightarrow> payload" where
  "map_ipv4 f g p = (case p of PIpv4 m h n \<Rightarrow> PIpv4 m (f h) (g n) | _ \<Rightarrow> p)"

definition map_nw :: "(ipv4 \<Rightarrow> ipv4) \<Rightarrow> (payload \<Rightarrow> payload) \<Rightarrow> ethernet \<Rightarrow> ethernet" where
  "map_nw f g e =
     e\<lparr>eth_next := (case eth_next e of PVlan m v n \<Rightarrow> PVlan m v (map_ipv4 f g n) | p \<Rightarrow> map_ipv4 f g p)\<rparr>"

definition set_tp :: "side \<Rightarrow> 16 word \<Rightarrow> payload \<Rightarrow> payload" where
  "set_tp s port p =
     (case p of
        PUdp m u n \<Rightarrow> PUdp m (case s of SetSrc \<Rightarrow> u\<lparr>udp_srcport := port\<rparr> | SetDst \<Rightarrow> u\<lparr>udp_dstport := port\<rparr>) n
      | PTcp m u n \<Rightarrow> PTcp m (case s of SetSrc \<Rightarrow> u\<lparr>tcp_srcport := port\<rparr> | SetDst \<Rightarrow> u\<lparr>tcp_dstport := port\<rparr>) n
      | _ \<Rightarrow> p)"

text \<open>The rewriting actions: the packet after the action and whether the action raised.\<close>

definition rewrite_packet :: "action \<Rightarrow> ethernet \<Rightarrow> ethernet \<times> unit result" where
  "rewrite_packet a e =
     (let total = (\<lambda>e'. (e', Inr ())); partial = (\<lambda>r. case r of Inl x \<Rightarrow> (e, Inl x) | Inr e' \<Rightarrow> (e', Inr ())) in
      case a of
        ActVlanVid v \<Rightarrow> partial (vlan_tagged (vlan_id_update (\<lambda>_. unat v)) e)
      | ActVlanPcp p \<Rightarrow> partial (vlan_tagged (vlan_pcp_update (\<lambda>_. unat p)) e)
      | ActStripVlan \<Rightarrow> strip_vlan e
      | ActDlAddr SetSrc x \<Rightarrow> total (e\<lparr>eth_src := x\<rparr>)
      | ActDlAddr SetDst x \<Rightarrow> total (e\<lparr>eth_dst := x\<rparr>)
      | ActNwAddr SetSrc x \<Rightarrow> total (map_nw (ip_srcip_update (\<lambda>_. x)) id e)
      | ActNwAddr SetDst x \<Rightarrow> total (map_nw (ip_dstip_update (\<lambda>_. x)) id e)
      | ActNwTos x \<Rightarrow> total (map_nw (ip_tos_update (\<lambda>_. x)) id e)
      | ActTpPort s x \<Rightarrow> total (map_nw id (set_tp s x) e)
      | _ \<Rightarrow> total e)"

text \<open>
  One action handler.  \<open>_action_enqueue\<close> reads an attribute that an enqueue action does not have.
\<close>

definition run_action :: "(nat \<Rightarrow> 16 word \<Rightarrow> unit sw) \<Rightarrow> nat \<Rightarrow> 16 word \<Rightarrow> action \<Rightarrow> unit sw" where
  "run_action rx r in_port a =
     (case a of
        ActOutput p m \<Rightarrow> output_packet rx r p in_port (Some (unat m))
      | ActEnqueue _ _ \<Rightarrow> sraise AttributeError
      | _ \<Rightarrow> sbind (get_packet r) (\<lambda>e. let (e', res) = rewrite_packet a e in sthen (set_packet r e') (slift res)))"

definition action_handled :: "action \<Rightarrow> switch \<Rightarrow> bool" where
  "action_handled a s \<longleftrightarrow> unat (act_type a) \<le> 11 \<and> unat (act_type a) \<in> set (sf_acts (sw_features s))"

fun process_actions :: "(nat \<Rightarrow> 16 word \<Rightarrow> unit sw) \<Rightarrow> action list \<Rightarrow> nat \<Rightarrow> 16 word \<Rightarrow> ofp_msg option \<Rightarrow> unit sw" where
  "process_actions rx [] r in_port ofp = sret ()"
| "process_actions rx (a # as) r in_port ofp = sbind (sget (action_handled a)) (\<lambda>h.
     if \<not> h then send_error 2 0 ofp
     else sthen (run_action rx r in_port a) (process_actions rx as r in_port ofp))"

definition process_from_buffer :: "(nat \<Rightarrow> 16 word \<Rightarrow> unit sw) \<Rightarrow> action list \<Rightarrow> 32 word \<Rightarrow> ofp_msg option \<Rightarrow> unit sw" where
  "process_from_buffer rx as buf ofp = sbind (sget sw_packet_buffer) (\<lambda>b.
     if buf = 0 \<or> length b \<le> unat buf - 1 then sret ()
     else case b ! (unat buf - 1) of
       None \<Rightarrow> sret ()
     | Some (r, in_port) \<Rightarrow> sthen (process_actions rx as r in_port ofp)
         (smod (sw_packet_buffer_update (\<lambda>b. b[unat buf - 1 := None]))))"

section \<open>A packet arrives\<close>

definition fragment_dropped :: "16 word \<Rightarrow> ethernet \<Rightarrow> bool" where
  "fragment_dropped flags e \<longleftrightarrow> bits_set flags OFPC_FRAG_MASK \<and>
     (case eth_find_ipv4 e of None \<Rightarrow> False
      | Some ip \<Rightarrow> (ip_flags ip AND MF_FLAG \<noteq> 0 \<or> ip_frag ip \<noteq> 0) \<and> flags AND OFPC_FRAG_MASK = 1)"

text \<open>The guards of \<open>rx_packet\<close> before the packet is counted.\<close>

definition not_received :: "16 word \<Rightarrow> phy_port \<Rightarrow> ethernet \<Rightarrow> bool" where
  "not_received flags p e \<longleftrightarrow>
     bits_set (pp_config p) OFPPC_NO_RECV \<and> eth_dst e \<noteq> STP_MAC \<or>
     bits_set (pp_config p) OFPPC_NO_RECV_STP \<and> eth_dst e = STP_MAC \<or> fragment_dropped flags e"

definition packet_bytes :: "nat \<Rightarrow> bytes option \<Rightarrow> bytes sw" where
  "packet_bytes r d = (case d of Some x \<Rightarrow> sret x | None \<Rightarrow> pack_packet r)"

definition table_miss :: "nat \<Rightarrow> 16 word \<Rightarrow> phy_port \<Rightarrow> bytes option \<Rightarrow> unit sw" where
  "table_miss r in_port p d =
     (if bits_set (pp_config p) OFPPC_NO_PACKET_IN then sret ()
      else sbind (buffer_packet r in_port) (\<lambda>buf. sbind (packet_bytes r d) (\<lambda>bs. sbind (sget sw_miss_send_len) (\<lambda>m.
        send_packet_in in_port buf bs 0 (Some (unat m))))))"

definition rx_packet_once :: "(nat \<Rightarrow> 16 word \<Rightarrow> unit sw) \<Rightarrow> nat \<Rightarrow> 16 word \<Rightarrow> bytes option \<Rightarrow> unit sw" where
  "rx_packet_once rx r in_port d = sbind (sget (\<lambda>s. map_of (sw_ports s) in_port)) (\<lambda>port.
     case port of None \<Rightarrow> sret ()
     | Some p \<Rightarrow> sbind (get_packet r) (\<lambda>e. sbind (sget sw_config_flags) (\<lambda>flags.
         if not_received flags p e then sret ()
         else
           sthen (count_port in_port (\<lambda>x. x\<lparr>ps_rx_packets := ps_rx_packets x + 1\<rparr>))
           (sbind (packet_bytes r d) (\<lambda>bs.
           sthen (count_port in_port (\<lambda>x. x\<lparr>ps_rx_bytes := ps_rx_bytes x + length bs\<rparr>))
           (sthen (smod (\<lambda>s. s\<lparr>sw_lookup_count := sw_lookup_count s + 1\<rparr>))
           (sbind (sget (\<lambda>s. entry_for e in_port (sw_table s))) (\<lambda>entry.
             case entry of
               None \<Rightarrow> table_miss r in_port p d
             | Some t \<Rightarrow>
                 sthen (smod (\<lambda>s. s\<lparr>sw_matched_count := sw_matched_count s + 1\<rparr>))
                 (sbind (pack_packet r) (\<lambda>l. sbind (sget sw_now) (\<lambda>now.
                 sthen (smod (sw_table_update (update_entry (te_oid t) (touch_packet (length l) now))))
                 (process_actions rx (te_actions t) r in_port None))))))))))))"

fun rx_packet :: "nat \<Rightarrow> nat \<Rightarrow> 16 word \<Rightarrow> bytes option \<Rightarrow> unit sw" where
  "rx_packet 0 r in_port d = sraise RecursionError"
| "rx_packet (Suc n) r in_port d = rx_packet_once (\<lambda>r p. rx_packet n r p None) r in_port d"

abbreviation again :: "nat \<Rightarrow> nat \<Rightarrow> 16 word \<Rightarrow> unit sw" where "again n \<equiv> \<lambda>r p. rx_packet n r p None"

section \<open>Flow modifications\<close>

definition flow_mod_failed :: "16 word \<Rightarrow> ofp_msg \<Rightarrow> unit sw" where
  "flow_mod_failed code ofp = send_error 3 code (Some ofp)"

definition insert_flow :: "flow_mod \<Rightarrow> ofp_msg \<Rightarrow> unit sw" where
  "insert_flow f ofp = sbind (sget (\<lambda>s. (sw_table s, sw_max_entries s, sw_next_oid s, sw_now s))) (\<lambda>(t, m, oid, now).
     if unat m \<le> length t then flow_mod_failed 0 ofp
     else smod (\<lambda>s. s\<lparr>sw_table := add_entry (from_flow_mod oid now f) t, sw_next_oid := oid + 1\<rparr>))"

definition flow_mod_add :: "flow_mod \<Rightarrow> ofp_msg \<Rightarrow> unit sw" where
  "flow_mod_add f ofp =
     (if bits_set (fm_flags f) OFPFF_EMERG then
        (if fm_idle_timeout f \<noteq> 0 \<or> fm_hard_timeout f \<noteq> 0 then flow_mod_failed 3 ofp
         else if bits_set (fm_flags f) OFPFF_SEND_FLOW_REM then flow_mod_failed 2 ofp
         else flow_mod_failed 0 ofp)
      else sbind (sget (\<lambda>s. (sw_table s, sw_next_oid s, sw_now s))) (\<lambda>(t, oid, now).
        if bits_set (fm_flags f) OFPFF_CHECK_OVERLAP \<and> check_for_overlapping_entry (from_flow_mod oid now f) t
        then flow_mod_failed 1 ofp
        else sthen (if fm_command f = 0 then remove_matching (fm_match f) (Some (fm_priority f)) True None None else sret ())
               (insert_flow f ofp)))"

definition modify_entries :: "bool \<Rightarrow> flow_mod \<Rightarrow> table_entry list \<Rightarrow> table_entry list" where
  "modify_entries strict f t =
     map (\<lambda>e. if is_matched_by e (fm_match f) (Some (fm_priority f)) strict None then e\<lparr>te_actions := fm_actions f\<rparr> else e) t"

definition flow_mod_modify :: "bool \<Rightarrow> flow_mod \<Rightarrow> ofp_msg \<Rightarrow> unit sw" where
  "flow_mod_modify strict f ofp = sbind (sget sw_table) (\<lambda>t.
     sthen (smod (sw_table_update (\<lambda>_. modify_entries strict f t)))
       (if matching_entries (fm_match f) (Some (fm_priority f)) strict None t \<noteq> [] then sret () else flow_mod_add f ofp))"

definition flow_mod_delete :: "bool \<Rightarrow> flow_mod \<Rightarrow> unit sw" where
  "flow_mod_delete strict f =
     remove_matching (fm_match f) (Some (fm_priority f)) strict
       (if fm_out_port f = OFPP_NONE then None else Some (fm_out_port f)) (Some OFPRR_DELETE)"

text \<open>An unknown command is logged with a name that is not defined, which raises before the error is sent.\<close>

definition rx_flow_mod :: "nat \<Rightarrow> flow_mod \<Rightarrow> ofp_msg \<Rightarrow> unit sw" where
  "rx_flow_mod n f ofp =
     (if 4 < fm_command f then sraise NameError
      else sthen (if fm_command f = 0 then flow_mod_add f ofp
                  else if fm_command f = 1 then flow_mod_modify False f ofp
                  else if fm_command f = 2 then flow_mod_modify True f ofp
                  else flow_mod_delete (fm_command f = 4) f)
       (if fm_buffer_id f = NO_BUFFER then sret ()
        else process_from_buffer (again n) (fm_actions f) (fm_buffer_id f) (Some ofp)))"

section \<open>Messages from the controller\<close>

definition rx_packet_out :: "nat \<Rightarrow> packet_out \<Rightarrow> ofp_msg \<Rightarrow> unit sw" where
  "rx_packet_out n p ofp =
     (if po_data p \<noteq> [] then
        sbind (sget sw_lib) (\<lambda>L. sbind (new_packet (eth_parse L (po_data p))) (\<lambda>r.
          process_actions (again n) (po_actions p) r (po_in_port p) (Some ofp)))
      else if po_buffer_id p \<noteq> NO_BUFFER then
        process_from_buffer (again n) (po_actions p) (po_buffer_id p) (Some ofp)
      else sret ())"

definition capability_bits :: "switch_features \<Rightarrow> nat" where "capability_bits f = sum_list (sf_caps f)"
definition action_bits :: "switch_features \<Rightarrow> nat" where "action_bits f = sum_list (map (\<lambda>v. 2 ^ v) (sf_acts f))"

text \<open>\<open>struct.pack\<close> refuses numbers of more than 32 bits.\<close>

definition as_L :: "nat \<Rightarrow> 32 word result" where
  "as_L n = (if n < 2 ^ 32 then Inr (word_of_nat n) else Inl StructError)"

definition rx_features_request :: "32 word \<Rightarrow> unit sw" where
  "rx_features_request xid = sbind (sget id) (\<lambda>s.
     if \<not> sw_connected s then sret ()
     else sbind (slift (as_L (sw_max_buffers s))) (\<lambda>nb. sbind (slift (as_L (capability_bits (sw_features s)))) (\<lambda>caps.
       sbind (slift (as_L (action_bits (sw_features s)))) (\<lambda>acts.
         send (Some xid) (MFeaturesReply \<lparr>fe_datapath_id = sw_dpid s, fe_n_buffers = nb, fe_n_tables = 1,
           fe_capabilities = caps, fe_actions = acts, fe_ports = map snd (sw_ports s)\<rparr>)))))"

text \<open>The link of a port is up or down as its configuration says; a change is reported.\<close>

definition link_follows :: "phy_port \<Rightarrow> phy_port" where
  "link_follows p =
     (let st = pp_state p AND NOT OFPPS_LINK_DOWN in
      p\<lparr>pp_state := (if bits_set (pp_config p) OFPPC_PORT_DOWN then st OR OFPPS_LINK_DOWN else st)\<rparr>)"

definition change_port :: "16 word \<Rightarrow> 32 word \<Rightarrow> 32 word \<Rightarrow> phy_port \<Rightarrow> unit sw" where
  "change_port no b v p =
     (let (changed, p1) = set_config v b p; p2 = link_follows p1 in
      sthen (smod (sw_ports_update (d_set no p1)))
        (if changed \<noteq> 0 \<and> b = OFPPC_PORT_DOWN then
           sthen (smod (sw_ports_update (d_set no p2)))
             (if pp_state p1 AND OFPPS_LINK_DOWN \<noteq> pp_state p2 AND OFPPS_LINK_DOWN then send_port_status p2 2 else sret ())
         else sret ()))"

definition set_port_config_bit :: "16 word \<Rightarrow> 32 word \<Rightarrow> 32 word \<Rightarrow> unit sw" where
  "set_port_config_bit no b v = sbind (sget (\<lambda>s. map_of (sw_ports s) no)) (\<lambda>port.
     case port of None \<Rightarrow> sraise KeyError
     | Some p \<Rightarrow>
       if b = OFPPC_NO_STP then sret ()
       else if b \<notin> {1, 4, 8, 16, 32, 64} then sret ()
       else change_port no b v p)"

definition rx_port_mod :: "port_mod \<Rightarrow> ofp_msg \<Rightarrow> unit sw" where
  "rx_port_mod pm ofp = sbind (sget (\<lambda>s. map_of (sw_ports s) (pm_port_no pm))) (\<lambda>port.
     case port of None \<Rightarrow> send_error 4 0 (Some ofp)
     | Some p \<Rightarrow>
       if pp_hw_addr p \<noteq> pm_hw_addr pm then send_error 4 1 (Some ofp)
       else sfor [0..<32] (\<lambda>i. let b = push_bit i 1 in
         if bits_set (pm_mask pm) b then set_port_config_bit (pm_port_no pm) b (pm_config pm AND b) else sret ()))"

definition stats_out_port :: "16 word \<Rightarrow> 16 word option" where
  "stats_out_port p = (if p = OFPP_NONE then None else Some p)"

text \<open>The statistics handlers; no body means that no reply is sent.\<close>

definition stats_handler :: "stats_request_body \<Rightarrow> ofp_msg \<Rightarrow> stats_reply_body option sw" where
  "stats_handler b ofp = sbind (sget id) (\<lambda>s.
     case b of
       SRDesc \<Rightarrow> sret (Some (RDesc (sw_desc s)))
     | SRFlow q \<Rightarrow>
         if fq_table_id q \<noteq> 255 \<and> fq_table_id q \<noteq> 0 then sret (Some (RFlow []))
         else sret (Some (RFlow (table_flow_stats (fq_match q) (stats_out_port (fq_out_port q)) (sw_now s) (sw_table s))))
     | SRAggregate q \<Rightarrow>
         if fq_table_id q \<noteq> 255 \<and> fq_table_id q \<noteq> 0 then sret (Some (RRaw 2 []))
         else sret (Some (RAggregate (table_aggregate_stats (fq_match q) (stats_out_port (fq_out_port q)) (sw_table s))))
     | SRTable \<Rightarrow> sret (Some (RTable [\<lparr>ts_table_id = 0, ts_name = ascii ''Default'', ts_wildcards = OFPFW_ALL,
         ts_max_entries = sw_max_entries s, ts_active_count = length (sw_table s), ts_lookup_count = sw_lookup_count s,
         ts_matched_count = sw_matched_count s\<rparr>]))
     | SRPort p \<Rightarrow>
         if p = OFPP_NONE then sret (Some (RPort (map snd (sw_port_stats s))))
         else (case map_of (sw_port_stats s) p of None \<Rightarrow> sraise KeyError | Some x \<Rightarrow> sret (Some (RPort [x])))
     | SRQueue p q \<Rightarrow> if q = 0xffffffff then sret (Some (RQueue [])) else sthen (send_error 5 1 (Some ofp)) (sret None)
     | _ \<Rightarrow> sthen (send_error 1 2 (Some ofp)) (sret None))"

definition rx_stats_request :: "stats_request_body \<Rightarrow> ofp_msg \<Rightarrow> unit sw" where
  "rx_stats_request b ofp = sbind (stats_handler b ofp) (\<lambda>r.
     case r of None \<Rightarrow> sret () | Some body \<Rightarrow> send (Some (hdr_xid (fst ofp))) (MStatsReply 0 body))"

definition rx_message :: "nat \<Rightarrow> ofp_msg \<Rightarrow> unit sw" where
  "rx_message n ofp =
     (let xid = hdr_xid (fst ofp) in
      case snd ofp of
        MHello \<Rightarrow> send_hello False
      | MEchoRequest b \<Rightarrow> send (Some xid) (MEchoReply b)
      | MEchoReply _ \<Rightarrow> sret ()
      | MVendor _ _ \<Rightarrow> send_error 1 3 (Some ofp)
      | MFeaturesRequest \<Rightarrow> rx_features_request xid
      | MGetConfigRequest \<Rightarrow> sbind (sget (\<lambda>s. (sw_config_flags s, sw_miss_send_len s))) (\<lambda>(fl, m). send (Some xid) (MGetConfigReply fl m))
      | MSetConfig fl m \<Rightarrow> smod (\<lambda>s. s\<lparr>sw_miss_send_len := m, sw_config_flags := fl\<rparr>)
      | MPacketOut p \<Rightarrow> rx_packet_out n p ofp
      | MFlowMod f \<Rightarrow> rx_flow_mod n f ofp
      | MPortMod p \<Rightarrow> rx_port_mod p ofp
      | MStatsRequest _ b \<Rightarrow> rx_stats_request b ofp
      | MBarrierRequest \<Rightarrow> send (Some xid) MBarrierReply
      | MQueueGetConfigRequest p \<Rightarrow> send (Some xid) (MQueueGetConfigReply p [])
      | _ \<Rightarrow> sraise RuntimeError)"

section \<open>A new switch\<close>

definition default_features :: switch_features where
  "default_features = \<lparr>sf_caps = [1, 2, 4], sf_acts = [0..<12]\<rparr>"

definition blank_switch :: "64 word \<Rightarrow> nat \<Rightarrow> 32 word \<Rightarrow> 16 word \<Rightarrow> desc_stats \<Rightarrow> packet_lib \<Rightarrow> nat \<Rightarrow> switch" where
  "blank_switch dpid max_buffers max_entries miss_send_len desc L now = \<lparr>sw_dpid = dpid, sw_max_buffers = max_buffers,
     sw_max_entries = max_entries, sw_miss_send_len = miss_send_len, sw_config_flags = 0, sw_has_sent_hello = False,
     sw_table = [], sw_lookup_count = 0, sw_matched_count = 0, sw_connected = False, sw_packet_buffer = [],
     sw_ports = [], sw_port_stats = [], sw_features = default_features, sw_desc = desc, sw_lib = L, sw_now = now,
     sw_next_xid = 1, sw_next_oid = 0, sw_packets = [], sw_sent = [], sw_output = []\<rparr>"

definition create_ports :: "nat \<Rightarrow> unit sw" where
  "create_ports n = sfor [1..<n + 1] (\<lambda>i. sbind (sget sw_dpid) (\<lambda>d. sbind (slift (generate_port d i)) add_port))"

end
