(* ===== verification/Switch_Invariant.thy ===== *)
theory Switch_Invariant
  imports Switch
begin

text \<open>
  The invariant of the software switch: the flow table is sorted, holds distinct entries and respects
  \<open>max_entries\<close>; the packet buffer respects \<open>max_buffers\<close> and refers to existing packets; ports are filed under
  their own number and have counters.  Every handler keeps it, whether it returns or raises.
\<close>

definition table_within :: "switch \<Rightarrow> bool" where
  "table_within s \<longleftrightarrow> table_ok (sw_table s) \<and> (\<forall>e\<in>set (sw_table s). te_oid e < sw_next_oid s) \<and>
     length (sw_table s) \<le> unat (sw_max_entries s)"

definition buffer_within :: "switch \<Rightarrow> bool" where
  "buffer_within s \<longleftrightarrow> length (sw_packet_buffer s) \<le> sw_max_buffers s \<and>
     (\<forall>r p. Some (r, p) \<in> set (sw_packet_buffer s) \<longrightarrow> r < length (sw_packets s))"

definition ports_within :: "switch \<Rightarrow> bool" where
  "ports_within s \<longleftrightarrow> d_ok (sw_ports s) \<and> d_ok (sw_port_stats s) \<and>
     (\<forall>no p. map_of (sw_ports s) no = Some p \<longrightarrow> pp_port_no p = no \<and> map_of (sw_port_stats s) no \<noteq> None)"

definition switch_ok :: "switch \<Rightarrow> bool" where
  "switch_ok s \<longleftrightarrow> table_within s \<and> buffer_within s \<and> ports_within s"

text \<open>The same, and a packet of the store that an operation works on.\<close>

definition live :: "nat \<Rightarrow> switch \<Rightarrow> bool" where
  "live r s \<longleftrightarrow> switch_ok s \<and> r < length (sw_packets s)"

lemmas within_defs = live_def switch_ok_def table_within_def buffer_within_def ports_within_def

section \<open>Operations outside the invariant\<close>

text \<open>Operations that touch nothing of what the invariant speaks about.\<close>

definition same_core :: "switch \<Rightarrow> switch \<Rightarrow> bool" where
  "same_core s t \<longleftrightarrow> sw_table s = sw_table t \<and> sw_next_oid s = sw_next_oid t \<and> sw_max_entries s = sw_max_entries t \<and>
     sw_packet_buffer s = sw_packet_buffer t \<and> sw_max_buffers s = sw_max_buffers t \<and>
     length (sw_packets s) = length (sw_packets t) \<and> sw_ports s = sw_ports t \<and> sw_port_stats s = sw_port_stats t"

lemma same_core_live: "same_core s t \<Longrightarrow> live r s = live r t" "same_core s t \<Longrightarrow> switch_ok s = switch_ok t"
  by (simp_all add: within_defs same_core_def)

definition core_blind :: "(switch \<Rightarrow> bool) \<Rightarrow> bool" where
  "core_blind P \<longleftrightarrow> (\<forall>s t. same_core s t \<longrightarrow> P s = P t)"

lemma core_blind_live [keep]: "core_blind (live r)" "core_blind switch_ok"
  using same_core_live by (auto simp: core_blind_def)

lemma keeps_blind: "core_blind P \<Longrightarrow> (\<And>s. same_core s (f s)) \<Longrightarrow> keeps P (smod f)"
  unfolding core_blind_def keeps_def sm_run by simp metis

lemma generate_xid_keeps [keep]: "core_blind P \<Longrightarrow> keeps P generate_xid"
  unfolding generate_xid_def by (intro keep keeps_blind) (simp_all add: same_core_def)

lemma send_keeps [keep]: "core_blind P \<Longrightarrow> keeps P (send xid b)"
  unfolding send_def by (intro keep keeps_blind; (simp add: same_core_def)?)

lemma send_others_keep [keep]:
  assumes "core_blind P"
  shows "keeps P (send_hello force)" "keeps P (send_error ty code ofp)"
    "keeps P (send_packet_in p buf d reason n)" "keeps P (send_port_status q r)"
proof -
  show "keeps P (send_hello force)"
    unfolding send_hello_def using assms by (intro keep keeps_blind) (simp_all add: same_core_def)
  show "keeps P (send_error ty code ofp)"
    unfolding send_error_def using assms by (intro keep)
  show "keeps P (send_packet_in p buf d reason n)"
    unfolding send_packet_in_def using assms by (intro keep)
  show "keeps P (send_port_status q r)"
    unfolding send_port_status_def using assms by (intro keep)
qed

section \<open>The table\<close>

lemma handle_table_event_keeps [keep]: "core_blind P \<Longrightarrow> keeps P (handle_table_event ev)"
  unfolding handle_table_event_def
  by (cases ev; simp only: ft_event.case) (intro keep; assumption)+

lemma table_within_filter:
  "table_within s \<Longrightarrow> table_within (sw_table_update (\<lambda>_. filter Q (sw_table s)) s)"
  using le_trans [OF length_filter_le [of Q "sw_table s"]] by (auto simp: table_within_def table_ok_filter)

lemma switch_ok_table:
  "switch_ok s \<Longrightarrow> table_within (sw_table_update (\<lambda>_. t) s) \<Longrightarrow> switch_ok (sw_table_update (\<lambda>_. t) s)"
  by (simp add: switch_ok_def buffer_within_def ports_within_def)

text \<open>Removing some of the entries of the table never fails and leaves the others.\<close>

lemma remove_flows_run:
  assumes "switch_ok s"
  shows "remove_flows (filter Q (sw_table s)) reason s =
    sfor (removed_event (filter Q (sw_table s)) reason) handle_table_event (sw_table_update (\<lambda>_. filter (\<lambda>e. \<not> Q e) (sw_table s)) s)"
  using assms remove_specific_filter [of "sw_table s" Q reason]
  by (simp add: remove_flows_def sbind_def sthen_def sm_run switch_ok_def table_within_def table_ok_def)

lemma remove_flows_ok:
  "switch_ok s \<Longrightarrow> switch_ok (snd (remove_flows (filter Q (sw_table s)) reason s))"
proof -
  assume ok: "switch_ok s"
  then have "switch_ok (sw_table_update (\<lambda>_. filter (\<lambda>e. \<not> Q e) (sw_table s)) s)"
    by (intro switch_ok_table table_within_filter) (simp_all add: switch_ok_def)
  then show ?thesis unfolding remove_flows_run [OF ok] by (rule keeps_at [rotated]) (intro keep)
qed

lemma remove_matching_keeps [keep]: "keeps switch_ok (remove_matching m p strict out reason)"
  unfolding remove_matching_def by (intro keeps_get) (simp add: matching_entries_def remove_flows_ok)

definition table_of :: "switch \<Rightarrow> table_entry list" where "table_of = sw_table"

lemma handler_keeps_table: "keeps (\<lambda>s. sw_table s = t) (sfor evs handle_table_event)"
  by (intro keep) (auto simp: core_blind_def same_core_def)

lemma remove_flows_table:
  "switch_ok s \<Longrightarrow> sw_table (snd (remove_flows (filter Q (sw_table s)) reason s)) = filter (\<lambda>e. \<not> Q e) (sw_table s)"
  by (simp add: remove_flows_run keeps_at [OF handler_keeps_table])

lemma expire_keeps [keep]: "keeps switch_ok expire"
  unfolding expire_def
proof (rule keeps_get, simp only: prod.case)
  fix s assume ok: "switch_ok s"
  let ?idle = "is_idle_timed_out (sw_now s)" and ?hard = "is_hard_timed_out (sw_now s)"
  obtain r s' where r: "remove_flows (filter ?idle (sw_table s)) (Some OFPRR_IDLE_TIMEOUT) s = (r, s')" by fastforce
  with remove_flows_ok [OF ok, of ?idle] remove_flows_table [OF ok, of ?idle]
  have "switch_ok s'" "sw_table s' = filter (\<lambda>e. \<not> ?idle e) (sw_table s)" by (metis snd_conv)+
  then show "switch_ok (snd (sthen (remove_flows (filter ?idle (sw_table s)) (Some OFPRR_IDLE_TIMEOUT))
      (remove_flows (filter (\<lambda>e. \<not> ?idle e \<and> ?hard e) (sw_table s)) (Some OFPRR_HARD_TIMEOUT)) s))"
    using remove_flows_ok [of s' ?hard "Some OFPRR_HARD_TIMEOUT"] r
    by (simp add: sthen_def sbind_def conj_commute split: sum.splits)
qed

lemma update_entry_within:
  assumes "\<And>e. te_oid (f e) = te_oid e \<and> te_match (f e) = te_match e \<and> te_priority (f e) = te_priority e" "table_within s"
  shows "table_within (sw_table_update (update_entry oid f) s)"
  using assms update_entry_ok [of f] by (auto simp: table_within_def update_entry_def)

lemma modify_entries_within: "table_within s \<Longrightarrow> table_within (sw_table_update (\<lambda>_. modify_entries strict f (sw_table s)) s)"
  by (auto simp: table_within_def table_ok_def modify_entries_def falls_map effective_priority_def oids_def comp_def
      if_distrib [of te_oid] cong: if_cong)

lemma insert_flow_keeps [keep]: "keeps switch_ok (insert_flow f ofp)"
  unfolding insert_flow_def
proof (rule keeps_get, simp only: prod.case)
  fix s assume ok: "switch_ok s"
  let ?e = "from_flow_mod (sw_next_oid s) (sw_now s) f"
  have fresh: "te_oid ?e \<notin> set (oids (sw_table s))"
    using ok by (auto simp: switch_ok_def table_within_def oids_def from_flow_mod_def)
  have t: "table_ok (sw_table s)" using ok by (simp add: switch_ok_def table_within_def)
  then have set: "set (add_entry ?e (sw_table s)) = insert ?e (set (sw_table s))" and
    len: "length (add_entry ?e (sw_table s)) = Suc (length (sw_table s))"
    using ftab.mset_add [of "sw_table s" ?e] by (simp_all add: table_ok_def ftab.set_add flip: size_mset)
  show "switch_ok (snd ((if unat (sw_max_entries s) \<le> length (sw_table s) then flow_mod_failed 0 ofp
      else smod (\<lambda>s'. s'\<lparr>sw_table := add_entry ?e (sw_table s), sw_next_oid := sw_next_oid s + 1\<rparr>)) s))"
  proof (cases "unat (sw_max_entries s) \<le> length (sw_table s)")
    case True
    then show ?thesis using ok by (simp add: flow_mod_failed_def keeps_at [OF send_others_keep(2)] core_blind_live)
  next
    case False
    moreover have "te_oid ?e = sw_next_oid s" by (simp add: from_flow_mod_def)
    ultimately show ?thesis
      using ok table_ok_add [OF t fresh]
      by (auto simp: sm_run switch_ok_def table_within_def buffer_within_def ports_within_def set len less_Suc_eq)
  qed
qed

lemma flow_mod_add_keeps [keep]: "keeps switch_ok (flow_mod_add f ofp)"
  unfolding flow_mod_add_def flow_mod_failed_def by (intro keep)

lemma flow_mod_modify_keeps [keep]: "keeps switch_ok (flow_mod_modify strict f ofp)"
  unfolding flow_mod_modify_def
proof (rule keeps_get)
  fix s assume ok: "switch_ok s"
  then have "switch_ok (sw_table_update (\<lambda>_. modify_entries strict f (sw_table s)) s)"
    by (intro switch_ok_table modify_entries_within) (auto simp: switch_ok_def)
  then show "switch_ok (snd (sthen (smod (sw_table_update (\<lambda>_. modify_entries strict f (sw_table s))))
      (if matching_entries (fm_match f) (Some (fm_priority f)) strict None (sw_table s) \<noteq> [] then sret () else flow_mod_add f ofp) s))"
    by (simp add: sthen_def sbind_def sm_run keeps_at [OF flow_mod_add_keeps])
qed

lemma flow_mod_delete_keeps [keep]: "keeps switch_ok (flow_mod_delete strict f)"
  unfolding flow_mod_delete_def by (intro keep)

section \<open>Packets, ports and the buffer\<close>

lemma keeps_packets [keep]:
  "keeps P (get_packet r)" "keeps P (pack_packet r)" "keeps P (packet_bytes r d)" "core_blind P \<Longrightarrow> keeps P (set_packet r e)"
  by (auto simp: get_packet_def pack_packet_def packet_bytes_def set_packet_def same_core_def intro!: keep keeps_blind
      split: option.split)

lemma keeps_log [keep]:
  "core_blind P \<Longrightarrow> keeps P (smod (sw_output_update f))"
  "core_blind P \<Longrightarrow> keeps P (smod (\<lambda>s. s\<lparr>sw_lookup_count := g s\<rparr>))"
  "core_blind P \<Longrightarrow> keeps P (smod (\<lambda>s. s\<lparr>sw_matched_count := g s\<rparr>))"
  "core_blind P \<Longrightarrow> keeps P (smod (\<lambda>s. s\<lparr>sw_miss_send_len := h, sw_config_flags := k\<rparr>))"
  by (auto intro!: keeps_blind simp: same_core_def)

lemma ports_within_stats:
  "ports_within s \<Longrightarrow> map_of (sw_port_stats s) no = Some x \<Longrightarrow> ports_within (sw_port_stats_update (d_set no y) s)"
  by (auto simp: ports_within_def map_of_d_set d_ok_d_set)

lemma ports_within_port:
  "ports_within s \<Longrightarrow> map_of (sw_ports s) no = Some x \<Longrightarrow> pp_port_no y = no \<Longrightarrow> ports_within (sw_ports_update (d_set no y) s)"
  by (auto simp: ports_within_def map_of_d_set d_ok_d_set)

lemma count_port_keeps [keep]: "keeps (live r) (count_port no f)"
  unfolding count_port_def
proof (rule keeps_get)
  fix s assume l: "live r s"
  show "live r (snd ((case map_of (sw_port_stats s) no of None \<Rightarrow> sraise KeyError
      | Some x \<Rightarrow> smod (sw_port_stats_update (d_set no (f x)))) s))"
  proof (cases "map_of (sw_port_stats s) no")
    case None
    then show ?thesis using l by (simp add: sm_run)
  next
    case (Some x)
    then show ?thesis using l ports_within_stats [of s no x "f x"]
      by (simp add: sm_run live_def switch_ok_def table_within_def buffer_within_def)
  qed
qed

lemma first_free_within: "first_free b = Some i \<Longrightarrow> i < length b \<and> b ! i = None"
proof (induction b arbitrary: i)
  case (Cons x b)
  then show ?case by (cases x) (auto simp: less_Suc_eq_0_disj)
qed simp

lemma buffer_packet_keeps [keep]: "keeps (live r) (buffer_packet r p)"
  unfolding buffer_packet_def
proof (rule keeps_get, simp only: prod.case)
  fix s assume l: "live r s"
  have set: "live r (sw_packet_buffer_update (\<lambda>_. b) s)"
    if "length b \<le> sw_max_buffers s" "set b \<subseteq> insert (Some (r, p)) (set (sw_packet_buffer s))" for b
    using l that by (auto simp: live_def switch_ok_def table_within_def buffer_within_def ports_within_def)
  have "length (sw_packet_buffer s) \<le> sw_max_buffers s" using l by (simp add: live_def switch_ok_def buffer_within_def)
  then show "live r (snd ((case first_free (sw_packet_buffer s) of
      None \<Rightarrow> if sw_max_buffers s \<le> length (sw_packet_buffer s) then sret None
        else sthen (smod (sw_packet_buffer_update (\<lambda>_. sw_packet_buffer s @ [Some (r, p)]))) (sret (Some (length (sw_packet_buffer s) + 1)))
    | Some i \<Rightarrow> sthen (smod (sw_packet_buffer_update (\<lambda>_. (sw_packet_buffer s)[i := Some (r, p)]))) (sret (Some (i + 1)))) s))"
    using l set_update_subset_insert [of "sw_packet_buffer s" _ "Some (r, p)"]
    by (auto simp: sm_run sthen_def sbind_def intro!: set split: option.split)
qed

lemma new_packet_run: "new_packet e s = (Inr (length (sw_packets s)), s\<lparr>sw_packets := sw_packets s @ [e]\<rparr>)"
  by (simp add: new_packet_def sbind_def sthen_def sm_run)

lemma switch_ok_new_packet: "switch_ok s \<Longrightarrow> live (length (sw_packets s)) (s\<lparr>sw_packets := sw_packets s @ [e]\<rparr>)"
  by (fastforce simp: within_defs less_Suc_eq)

section \<open>Output and actions\<close>

lemma real_send_keeps [keep]: "keeps (live r) (real_send r ip allow no)"
  unfolding real_send_def by (intro keep)

lemma output_packet_keeps [keep]:
  assumes "\<And>p. keeps (live r) (rx r p)"
  shows "keeps (live r) (output_packet rx r op ip m)"
  unfolding output_packet_def using assms by (intro keep)

lemma run_action_keeps [keep]:
  assumes "\<And>p. keeps (live r) (rx r p)"
  shows "keeps (live r) (run_action rx r ip a)"
  using assms unfolding run_action_def by (cases a; simp only: action.case) (intro keep; assumption)+

lemma process_actions_keeps [keep]:
  assumes "\<And>p. keeps (live r) (rx r p)"
  shows "keeps (live r) (process_actions rx as r ip ofp)"
  using assms by (induction as) (auto intro!: keep)

lemma live_slot_None:
  "live r s \<Longrightarrow> switch_ok (sw_packet_buffer_update (\<lambda>b. b[i := None]) s)"
  using set_update_subset_insert [of "sw_packet_buffer s" i None]
  by (fastforce simp: live_def switch_ok_def table_within_def buffer_within_def ports_within_def)

lemma process_from_buffer_keeps [keep]:
  assumes "\<And>r p. keeps (live r) (rx r p)"
  shows "keeps switch_ok (process_from_buffer rx as buf ofp)"
  unfolding process_from_buffer_def
proof (rule keeps_get)
  fix s assume ok: "switch_ok s"
  let ?i = "unat buf - 1"
  let ?run = "if buf = 0 \<or> length (sw_packet_buffer s) \<le> ?i then sret ()
     else case sw_packet_buffer s ! ?i of None \<Rightarrow> sret ()
     | Some (r, ip) \<Rightarrow> sthen (process_actions rx as r ip ofp) (smod (sw_packet_buffer_update (\<lambda>b. b[?i := None])))"
  show "switch_ok (snd (?run s))"
  proof (cases "buf = 0 \<or> length (sw_packet_buffer s) \<le> ?i \<or> sw_packet_buffer s ! ?i = None")
    case True
    then show ?thesis using ok by (auto simp: sm_run)
  next
    case False
    then obtain r ip where b: "sw_packet_buffer s ! ?i = Some (r, ip)" by auto
    with False have "Some (r, ip) \<in> set (sw_packet_buffer s)" by (metis not_le nth_mem)
    then have "live r s" using ok by (auto simp: live_def switch_ok_def buffer_within_def)
    moreover have "keeps (live r) (process_actions rx as r ip ofp)" using assms by (rule process_actions_keeps)
    ultimately have "switch_ok (snd (sthen (process_actions rx as r ip ofp) (smod (sw_packet_buffer_update (\<lambda>b. b[?i := None]))) s))"
      unfolding sthen_def by (rule keeps_seq) (simp_all add: sm_run live_slot_None, simp add: live_def)
    then show ?thesis using False b by simp
  qed
qed

section \<open>Packets and messages\<close>

lemma table_miss_keeps [keep]: "keeps (live r) (table_miss r ip p d)"
  unfolding table_miss_def by (intro keep)

lemma touch_keeps [keep]: "keeps (live r) (smod (sw_table_update (update_entry oid (touch_packet n now))))"
proof (rule keeps_smod)
  fix s assume l: "live r s"
  then have "table_within (sw_table_update (update_entry oid (touch_packet n now)) s)"
    by (intro update_entry_within) (auto simp: touch_packet_def live_def switch_ok_def)
  with l show "live r (sw_table_update (update_entry oid (touch_packet n now)) s)"
    by (simp add: live_def switch_ok_def buffer_within_def ports_within_def)
qed

lemma rx_packet_once_keeps:
  assumes "\<And>p. keeps (live r) (rx r p)"
  shows "keeps (live r) (rx_packet_once rx r ip d)"
  unfolding rx_packet_once_def using assms by (intro keep)

lemma rx_packet_keeps [keep]: "keeps (live r) (rx_packet n r ip d)"
  by (induction n arbitrary: ip d) (auto intro!: keep rx_packet_once_keeps)

lemma set_config_port_no: "set_config v b p = (c, p1) \<Longrightarrow> pp_port_no p1 = pp_port_no p"
  by (auto simp: set_config_def Let_def)

lemma switch_ok_port:
  "switch_ok s \<Longrightarrow> map_of (sw_ports s) no = Some x \<Longrightarrow> pp_port_no y = no \<Longrightarrow> switch_ok (sw_ports_update (d_set no y) s)"
  using ports_within_port [of s no x y] by (simp add: switch_ok_def table_within_def buffer_within_def)

lemma switch_ok_port_no: "switch_ok s \<Longrightarrow> map_of (sw_ports s) no = Some x \<Longrightarrow> pp_port_no x = no"
  by (simp add: switch_ok_def ports_within_def)

lemma change_port_ok:
  assumes ok: "switch_ok s" and p: "map_of (sw_ports s) no = Some p"
  shows "switch_ok (snd (change_port no b v p s))"
proof -
  obtain c p1 where c: "set_config v b p = (c, p1)" by fastforce
  let ?s1 = "sw_ports_update (d_set no p1) s"
  have no: "pp_port_no p1 = no" using c set_config_port_no switch_ok_port_no [OF ok p] by blast
  have ok1: "switch_ok ?s1" using switch_ok_port [OF ok p] no by simp
  have ok2: "switch_ok (sw_ports_update (d_set no (link_follows p1)) ?s1)"
    using switch_ok_port [OF ok1, of no p1 "link_follows p1"] no by (simp add: map_of_d_set link_follows_def Let_def)
  have sent: "switch_ok (snd (send_port_status q 2 t))" if "switch_ok t" for q t
    using that by (rule keeps_at [rotated]) (intro keep)
  show ?thesis
    unfolding change_port_def c Let_def prod.case sm_seq
    using ok1 ok2 sent [OF ok2] by (simp add: sm_seq sm_run)
qed

lemma set_port_config_bit_keeps [keep]: "keeps switch_ok (set_port_config_bit no b v)"
  unfolding set_port_config_bit_def
  by (rule keeps_get) (auto simp: sm_run change_port_ok split: option.split)

lemma rx_packet_out_keeps [keep]: "keeps switch_ok (rx_packet_out n p ofp)"
proof -
  have "switch_ok (snd (sbind (new_packet e) (\<lambda>r. process_actions (again n) as r ip ofp) s))" if "switch_ok s"
    for e and as :: "action list" and ip ofp and s
  proof -
    have "keeps (live (length (sw_packets s))) (process_actions (again n) as (length (sw_packets s)) ip ofp)" by (intro keep)
    with switch_ok_new_packet [OF that, of e] show ?thesis
      by (simp add: sbind_def new_packet_run keeps_def live_def)
  qed
  then have "keeps switch_ok (sbind (new_packet e) (\<lambda>r. process_actions (again n) as r ip ofp))"
    for e and as :: "action list" and ip ofp
    by (simp add: keeps_def)
  then have "keeps switch_ok (sbind (sget sw_lib) (\<lambda>L. sbind (new_packet (eth_parse L (po_data p))) (\<lambda>r.
      process_actions (again n) (po_actions p) r (po_in_port p) (Some ofp))))"
    by (intro keeps_sbind [OF keeps_basic(3)])
  then show ?thesis unfolding rx_packet_out_def by (intro keeps_if) (assumption, (intro keep)+)
qed

lemma rx_flow_mod_keeps [keep]: "keeps switch_ok (rx_flow_mod n f ofp)"
  unfolding rx_flow_mod_def by (intro keep)

lemma stats_handler_keeps [keep]: "keeps switch_ok (stats_handler b ofp)"
  unfolding stats_handler_def by (intro keep; cases b; simp only: stats_request_body.case; intro keep)

lemma rx_message_keeps [keep]: "keeps switch_ok (rx_message n ofp)"
  unfolding rx_message_def Let_def
  by (cases "snd ofp"; simp only: of_body.case)
     (auto simp: rx_features_request_def rx_port_mod_def rx_stats_request_def Let_def intro!: keep)

lemma add_port_keeps [keep]: "keeps switch_ok (add_port p)"
  unfolding add_port_def
proof (rule keeps_get)
  fix s assume ok: "switch_ok s"
  let ?no = "pp_port_no p"
  have "switch_ok (sw_port_stats_update (d_set ?no (port_stats_new ?no)) (sw_ports_update (d_set ?no p) s))"
    using ok by (auto simp: switch_ok_def table_within_def buffer_within_def ports_within_def map_of_d_set d_ok_d_set)
  then show "switch_ok (snd ((if map_of (sw_ports s) ?no \<noteq> None then sraise RuntimeError
     else sthen (smod (sw_ports_update (d_set ?no p)))
       (sthen (smod (sw_port_stats_update (d_set ?no (port_stats_new ?no)))) (send_port_status p 0))) s))"
    using ok by (auto simp: sm_run sthen_def sbind_def intro!: keeps_at [OF send_others_keep(4)] keep)
qed

lemma delete_port_keeps [keep]: "keeps switch_ok (delete_port no)"
proof -
  have "keeps switch_ok (smod (sw_ports_update (d_del no)))"
    by (rule keeps_smod) (auto simp: switch_ok_def table_within_def buffer_within_def ports_within_def map_of_d_del d_ok_d_del)
  then show ?thesis unfolding delete_port_def by (intro keep)
qed

section \<open>Every reachable state\<close>

text \<open>
  What happens to a switch: a message from the controller, a packet on a port (a new object, or one that the
  caller passes again), the expiry timer, a port added or removed, a connection, the passing of time.
\<close>

inductive switch_step :: "nat \<Rightarrow> switch \<Rightarrow> switch \<Rightarrow> bool" for n :: nat where
  step_message: "rx_message n m s = (r, s') \<Longrightarrow> switch_step n s s'"
| step_packet: "sbind (new_packet e) (\<lambda>a. rx_packet n a p d) s = (r, s') \<Longrightarrow> switch_step n s s'"
| step_packet_again: "a < length (sw_packets s) \<Longrightarrow> rx_packet n a p d s = (r, s') \<Longrightarrow> switch_step n s s'"
| step_timer: "expire s = (r, s') \<Longrightarrow> switch_step n s s'"
| step_add_port: "add_port p s = (r, s') \<Longrightarrow> switch_step n s s'"
| step_delete_port: "delete_port no s = (q, s') \<Longrightarrow> switch_step n s s'"
| step_connect: "set_connection s = (u, s') \<Longrightarrow> switch_step n s s'"
| step_time: "sw_now s \<le> now \<Longrightarrow> switch_step n s (sw_now_update (\<lambda>_. now) s)"

inductive_cases switch_stepE: "switch_step n s s'"

definition switch_reachable :: "nat \<Rightarrow> switch \<Rightarrow> bool" where
  "switch_reachable n s \<longleftrightarrow>
     (\<exists>dpid mb me msl d L now. (switch_step n)\<^sup>*\<^sup>* (blank_switch dpid mb me msl d L now) s)"

lemma blank_switch_ok: "switch_ok (blank_switch dpid mb me msl d L now)"
  by (simp add: within_defs blank_switch_def table_ok_def d_ok_def)

lemma switch_step_ok: "switch_step n s s' \<Longrightarrow> switch_ok s \<Longrightarrow> switch_ok s'"
proof (induction rule: switch_step.induct)
  case (step_packet e p d s r s')
  have "live (length (sw_packets s)) (snd (rx_packet n (length (sw_packets s)) p d (s\<lparr>sw_packets := sw_packets s @ [e]\<rparr>)))"
    by (rule keeps_at [OF rx_packet_keeps switch_ok_new_packet [OF step_packet.prems]])
  with step_packet.hyps show ?case by (simp add: sbind_def new_packet_run live_def)
next
  case (step_packet_again a s p d r s')
  then show ?case using keepsD [OF rx_packet_keeps, of a s n p d r s'] by (simp add: live_def)
next
  case (step_connect s u s')
  then show ?case using keepsD [OF keeps_blind [OF core_blind_live(2)], of "\<lambda>s. s\<lparr>sw_has_sent_hello := False, sw_connected := True\<rparr>" s u s']
    by (simp add: set_connection_def same_core_def)
next
  case (step_time s now)
  then show ?case using same_core_live(2) [of "sw_now_update (\<lambda>_. now) s" s] by (simp add: same_core_def)
qed (metis keepsD rx_message_keeps expire_keeps add_port_keeps delete_port_keeps)+

lemma switch_reachable_ok: "switch_reachable n s \<Longrightarrow> switch_ok s"
proof -
  have "(switch_step n)\<^sup>*\<^sup>* s0 s \<Longrightarrow> switch_ok s0 \<Longrightarrow> switch_ok s" for s0
    by (induction rule: rtranclp_induct) (simp_all add: switch_step_ok)
  then show "switch_reachable n s \<Longrightarrow> switch_ok s" by (auto simp: switch_reachable_def blank_switch_ok)
qed

lemma reachable_step: "switch_reachable n s \<Longrightarrow> switch_step n s s' \<Longrightarrow> switch_reachable n s'"
  unfolding switch_reachable_def by (meson rtranclp.rtrancl_into_rtrancl)

text \<open>
  C1. In every state that a switch reaches, whatever the controller and the network send and whichever handlers
  raised on the way: at most \<open>max_entries\<close> flows are installed, sorted by descending effective priority; the flows are
  different objects and the identifier that the next one gets is larger than all of theirs; at most \<open>max_buffers\<close> packets
  are buffered and each refers to a packet that exists; and every port is filed once, under its own number, and has counters.
\<close>

theorem switch_invariant:
  assumes "switch_reachable n s"
  shows "length (sw_table s) \<le> unat (sw_max_entries s) \<and> falls effective_priority (sw_table s) \<and> distinct (oids (sw_table s)) \<and>
    (\<forall>e\<in>set (sw_table s). te_oid e < sw_next_oid s) \<and>
    length (sw_packet_buffer s) \<le> sw_max_buffers s \<and> (\<forall>r p. Some (r, p) \<in> set (sw_packet_buffer s) \<longrightarrow> r < length (sw_packets s)) \<and>
    distinct (map fst (sw_ports s)) \<and> (\<forall>(no, p)\<in>set (sw_ports s). pp_port_no p = no \<and> map_of (sw_port_stats s) no \<noteq> None)"
  using switch_reachable_ok [OF assms]
  by (fastforce simp: switch_ok_def table_within_def buffer_within_def ports_within_def table_ok_def d_ok_def)

definition small_switch :: switch where
  "small_switch = blank_switch 1 2 3 64 \<lparr>ds_mfr_desc = [], ds_hw_desc = [], ds_sw_desc = [], ds_serial_num = [], ds_dp_desc = []\<rparr> no_lib 0"

definition plain_port :: "16 word \<Rightarrow> phy_port" where
  "plain_port no = \<lparr>pp_port_no = no, pp_hw_addr = [2, 0, 0, 0, 0, 1], pp_name = ascii ''p'', pp_config = 0, pp_state = 0, pp_curr = 0,
     pp_advertised = 0, pp_supported = 0, pp_peer = 0\<rparr>"

end
