(* ===== verification/Switch_Behaviour.thy ===== *)
theory Switch_Behaviour
  imports Switch_Invariant
begin

text \<open>
  What the handlers of the software switch do: flow modifications on the table and on the messages to the
  controller, flooding, the packet buffer, port configuration, and the nesting of packets sent to the table.
\<close>

lemma switch_run [sm_run]:
  "sw_output_update (\<lambda>l. l @ x) s = s\<lparr>sw_output := sw_output s @ x\<rparr>"
  "sw_sent_update (\<lambda>l. l @ y) s = s\<lparr>sw_sent := sw_sent s @ y\<rparr>"
  "get_packet r s = (Inr (sw_packets s ! r), s)"
  "pack_packet r s = (eth_pack (lib_little (sw_lib s)) (sw_packets s ! r), s)"
  "sbind (get_packet r) f s = f (sw_packets s ! r) s"
  by (cases s; simp add: get_packet_def pack_packet_def sm_run_simps sm_seq)+

section \<open>Flow modifications\<close>

text \<open>Operations that leave the table alone.\<close>

definition table_blind :: "(switch \<Rightarrow> bool) \<Rightarrow> bool" where
  "table_blind P \<longleftrightarrow> (\<forall>s t. sw_table s = sw_table t \<longrightarrow> P s = P t)"

lemma table_core: "core_blind (\<lambda>s. sw_table s = t)"
  by (simp add: core_blind_def same_core_def)

lemma failed_table: "sw_table (snd (flow_mod_failed code ofp s)) = sw_table s"
  unfolding flow_mod_failed_def by (rule keeps_at [OF send_others_keep(2) [OF table_core]]) simp

text \<open>Replacing an entry is silent: the removal has no reason, so no message is sent.\<close>

lemma replace_run:
  assumes "switch_ok s"
  shows "remove_matching m p True None None s =
    (Inr (), sw_table_update (\<lambda>_. filter (\<lambda>e. \<not> is_matched_by e m p True None) (sw_table s)) s)"
  by (simp add: remove_matching_def sm_run matching_entries_def remove_flows_run [OF assms] removed_event_def
      handle_table_event_def sthen_def sbind_def)

definition new_entry :: "flow_mod \<Rightarrow> switch \<Rightarrow> table_entry" where
  "new_entry f s = from_flow_mod (sw_next_oid s) (sw_now s) f"

definition not_replaced :: "flow_mod \<Rightarrow> table_entry list \<Rightarrow> table_entry list" where
  "not_replaced f t = (if fm_command f = 0 then filter (\<lambda>x. \<not> is_matched_by x (fm_match f) (Some (fm_priority f)) True None) t else t)"

definition add_refused :: "flow_mod \<Rightarrow> switch \<Rightarrow> bool" where
  "add_refused f s \<longleftrightarrow> bits_set (fm_flags f) OFPFF_EMERG \<or>
     bits_set (fm_flags f) OFPFF_CHECK_OVERLAP \<and> check_for_overlapping_entry (new_entry f s) (sw_table s) \<or>
     unat (sw_max_entries s) \<le> length (not_replaced f (sw_table s))"

lemma flow_mod_add_run:
  assumes ok: "switch_ok s"
  shows "if add_refused f s then sw_table (snd (flow_mod_add f ofp s)) = sw_table s
    else flow_mod_add f ofp s =
      (Inr (), s\<lparr>sw_table := add_entry (new_entry f s) (not_replaced f (sw_table s)), sw_next_oid := sw_next_oid s + 1\<rparr>)"
proof -
  have le: "length (sw_table s) \<le> unat (sw_max_entries s)" using ok by (simp add: switch_ok_def table_within_def)
  let ?rest = "not_replaced f (sw_table s)" and ?e = "new_entry f s"
  have full: "?rest = sw_table s" if "unat (sw_max_entries s) \<le> length ?rest"
  proof (cases "fm_command f = 0")
    case True
    then have "length (filter (\<lambda>x. \<not> is_matched_by x (fm_match f) (Some (fm_priority f)) True None) (sw_table s)) = length (sw_table s)"
      using that le le_trans [OF length_filter_le] by (simp add: not_replaced_def le_antisym)
    with True show ?thesis by (simp add: not_replaced_def filter_id_conv) (metis length_filter_less not_less_iff_gr_or_eq)
  qed (simp add: not_replaced_def)
  let ?replace = "if fm_command f = 0 then remove_matching (fm_match f) (Some (fm_priority f)) True None None else sret ()"
  have rep: "sthen ?replace (insert_flow f ofp) s = insert_flow f ofp (sw_table_update (\<lambda>_. ?rest) s)"
    by (simp add: sm_run replace_run [OF ok] not_replaced_def)
  have same: "sw_table_update (\<lambda>_. sw_table s) s = s" by simp
  show ?thesis
  proof (cases "bits_set (fm_flags f) OFPFF_EMERG \<or> bits_set (fm_flags f) OFPFF_CHECK_OVERLAP \<and> check_for_overlapping_entry ?e (sw_table s)")
    case True
    then show ?thesis by (auto simp: flow_mod_add_def sm_run failed_table add_refused_def new_entry_def)
  next
    case False
    then have run: "flow_mod_add f ofp s = insert_flow f ofp (sw_table_update (\<lambda>_. ?rest) s)"
      by (auto simp: flow_mod_add_def sm_run rep new_entry_def)
    show ?thesis
    proof (cases "unat (sw_max_entries s) \<le> length ?rest")
      case True
      then show ?thesis using full [OF True] by (simp add: run insert_flow_def sm_run failed_table add_refused_def new_entry_def)
    next
      case nf: False
      then show ?thesis using False by (auto simp: run insert_flow_def sm_run new_entry_def add_refused_def)
    qed
  qed
qed

text \<open>
  C16. What an add or a modify that found nothing does to the table.  It is refused, and then the table is exactly
  as before, for an emergency flow, for an overlap that was to be checked, and when the table is full; otherwise
  the entry of the same match and priority is replaced, if the command is an add, and nothing else is touched.
  A replacement never costs a slot: an add to a full table succeeds when it replaces an entry.
\<close>

theorem flow_mod_add_table:
  assumes "switch_reachable n s"
  shows "if add_refused f s then sw_table (snd (flow_mod_add f ofp s)) = sw_table s
    else flow_mod_add f ofp s =
      (Inr (), s\<lparr>sw_table := add_entry (new_entry f s) (not_replaced f (sw_table s)), sw_next_oid := sw_next_oid s + 1\<rparr>)"
  using flow_mod_add_run [OF switch_reachable_ok [OF assms]] .

theorem flow_mod_add_table_witness:
  "sw_table (snd (flow_mod_add (to_flow_mod None (plain_entry 0 7 match_init)) (\<lparr>hdr_version = OFP_VERSION, hdr_xid = 7\<rparr>, MBarrierRequest) small_switch)) = [plain_entry 0 7 match_init]"
proof -
  have r: "switch_reachable 1 small_switch" unfolding switch_reachable_def small_switch_def by blast
  let ?f = "to_flow_mod None (plain_entry 0 7 match_init)"
  have "\<not> add_refused ?f small_switch" "not_replaced ?f (sw_table small_switch) = []"
    by (simp_all add: add_refused_def not_replaced_def small_switch_def blank_switch_def bits_set_def to_flow_mod_def plain_entry_def)
  moreover have "new_entry ?f small_switch = plain_entry 0 7 match_init"
    by (simp add: new_entry_def from_flow_mod_def to_flow_mod_def plain_entry_def small_switch_def blank_switch_def buffer_id_def)
  ultimately show ?thesis using flow_mod_add_table [OF r, of ?f "(\<lparr>hdr_version = OFP_VERSION, hdr_xid = 7\<rparr>, MBarrierRequest)"] by (simp add: add_entry_before)
qed

section \<open>Removals are reported\<close>

definition packs :: "of_body \<Rightarrow> bool" where "packs b \<longleftrightarrow> (\<forall>h. \<exists>bs. msg_pack (h, b) = Inr bs)"

lemma send_run:
  assumes "packs b" "sw_connected s"
  shows "\<exists>x i. send None b s =
    (Inr (), s\<lparr>sw_next_xid := i, sw_sent := sw_sent s @ [(\<lparr>hdr_version = OFP_VERSION, hdr_xid = x\<rparr>, b)]\<rparr>)"
proof -
  let ?x = "word_of_nat (sw_next_xid s)"
  obtain bs where "msg_pack (\<lparr>hdr_version = OFP_VERSION, hdr_xid = ?x\<rparr>, b) = Inr bs"
    using assms(1) by (auto simp: packs_def)
  moreover from this obtain n where "body_validate b = Inr ()" "body_len b = Inr n" by (auto simp: msg_pack_def)
  ultimately show ?thesis using assms(2) by (cases s) (auto simp: send_def generate_xid_def sm_run Let_def sbind_def)
qed

lemma packet_in_packs: "length (pi_data p) < 65000 \<Longrightarrow> pi_total_len p = None \<Longrightarrow> packs (MPacketIn p)"
  by (auto simp: packs_def msg_pack_def body_validate_def total_len_def header_pack_def pack_nat_H_def)

lemma send_with_run:
  assumes "packs b" "sw_connected s"
  shows "send (Some x) b s = (Inr (), s\<lparr>sw_sent := sw_sent s @ [(\<lparr>hdr_version = OFP_VERSION, hdr_xid = x\<rparr>, b)]\<rparr>)"
proof -
  obtain bs where "msg_pack (\<lparr>hdr_version = OFP_VERSION, hdr_xid = x\<rparr>, b) = Inr bs"
    using assms(1) by (auto simp: packs_def)
  moreover from this obtain n where "body_validate b = Inr ()" "body_len b = Inr n" by (auto simp: msg_pack_def)
  ultimately show ?thesis using assms(2) by (cases s) (auto simp: send_def sm_run Let_def sbind_def)
qed

lemma report_run:
  assumes "\<And>e. e \<in> set es \<Longrightarrow> wants_removed e \<Longrightarrow> packs (MFlowRemoved (to_flow_removed (sw_now s) r e))" "sw_connected s"
  shows "\<exists>i ms. sfor es (\<lambda>e. if wants_removed e then sbind (sget sw_now) (\<lambda>now. send None (MFlowRemoved (to_flow_removed now r e)))
        else sret ()) s = (Inr (), s\<lparr>sw_next_xid := i, sw_sent := sw_sent s @ ms\<rparr>) \<and>
    map snd ms = map (\<lambda>e. MFlowRemoved (to_flow_removed (sw_now s) r e)) (filter wants_removed es)"
  using assms
proof (induction es arbitrary: s)
  case Nil
  show ?case by (intro exI [of _ "sw_next_xid s"] exI [of _ "[]"]) (simp add: sm_run)
next
  case (Cons e es)
  show ?case
  proof (cases "wants_removed e")
    case False
    then show ?thesis using Cons.IH [of s] Cons.prems by (simp add: sm_run)
  next
    case True
    let ?b = "MFlowRemoved (to_flow_removed (sw_now s) r e)"
    obtain x i where sent: "send None ?b s =
        (Inr (), s\<lparr>sw_next_xid := i, sw_sent := sw_sent s @ [(\<lparr>hdr_version = OFP_VERSION, hdr_xid = x\<rparr>, ?b)]\<rparr>)"
      using send_run [of ?b s] Cons.prems True by auto
    let ?s = "s\<lparr>sw_next_xid := i, sw_sent := sw_sent s @ [(\<lparr>hdr_version = OFP_VERSION, hdr_xid = x\<rparr>, ?b)]\<rparr>"
    obtain j ms where "sfor es (\<lambda>e. if wants_removed e then sbind (sget sw_now) (\<lambda>now. send None (MFlowRemoved (to_flow_removed now r e)))
        else sret ()) ?s = (Inr (), ?s\<lparr>sw_next_xid := j, sw_sent := sw_sent ?s @ ms\<rparr>)"
      "map snd ms = map (\<lambda>e. MFlowRemoved (to_flow_removed (sw_now s) r e)) (filter wants_removed es)"
      using Cons.IH [of ?s] Cons.prems by auto
    then show ?thesis using True
      by (intro exI [of _ j] exI [of _ "(\<lparr>hdr_version = OFP_VERSION, hdr_xid = x\<rparr>, ?b) # ms"]) (simp add: sm_run sent)
  qed
qed

text \<open>A connected switch with one flow.\<close>

definition linked_switch :: switch where "linked_switch = snd (set_connection small_switch)"

definition loaded_switch :: switch where
  "loaded_switch = linked_switch\<lparr>sw_table := [plain_entry 0 7 match_init], sw_next_oid := 1\<rparr>"

lemma loaded_switch_reachable: "switch_reachable n loaded_switch"
proof -
  let ?f = "to_flow_mod None (plain_entry 0 7 match_init)"
  have 0: "switch_reachable n small_switch" unfolding switch_reachable_def small_switch_def by blast
  then have 1: "switch_reachable n linked_switch"
    unfolding linked_switch_def by (rule reachable_step) (rule step_connect [OF surjective_pairing])
  have "switch_ok linked_switch" by (rule switch_reachable_ok [OF 1])
  then have "rx_message n (h, MFlowMod ?f) linked_switch = (Inr (), loaded_switch)" for h
    using replace_run [of linked_switch match_init "Some 7"]
    by (simp add: rx_message_def rx_flow_mod_def flow_mod_add_def sm_run insert_flow_def to_flow_mod_def plain_entry_def
        bits_set_def loaded_switch_def linked_switch_def set_connection_def small_switch_def blank_switch_def
        from_flow_mod_def add_entry_before buffer_id_def)
  then show ?thesis by (intro reachable_step [OF 1] step_message) blast
qed

lemma delete_run:
  assumes "switch_reachable n s" "sw_connected s"
    and "\<And>e. e \<in> set (sw_table s) \<Longrightarrow> wants_removed e \<Longrightarrow> packs (MFlowRemoved (to_flow_removed (sw_now s) OFPRR_DELETE e))"
  shows "\<exists>i ms. flow_mod_delete strict f s = (Inr (), s\<lparr>
      sw_table := filter (\<lambda>e. \<not> is_matched_by e (fm_match f) (Some (fm_priority f)) strict (stats_out_port (fm_out_port f))) (sw_table s),
      sw_next_xid := i, sw_sent := sw_sent s @ ms\<rparr>) \<and>
    map snd ms = map (\<lambda>e. MFlowRemoved (to_flow_removed (sw_now s) OFPRR_DELETE e))
      (filter wants_removed (matching_entries (fm_match f) (Some (fm_priority f)) strict (stats_out_port (fm_out_port f)) (sw_table s)))"
proof -
  let ?Q = "\<lambda>e. is_matched_by e (fm_match f) (Some (fm_priority f)) strict (stats_out_port (fm_out_port f))"
  let ?s = "sw_table_update (\<lambda>_. filter (\<lambda>e. \<not> ?Q e) (sw_table s)) s"
  have run: "flow_mod_delete strict f s = sfor (removed_event (filter ?Q (sw_table s)) (Some OFPRR_DELETE)) handle_table_event ?s"
    using remove_flows_run [OF switch_reachable_ok [OF assms(1)], of ?Q]
    by (simp add: flow_mod_delete_def remove_matching_def stats_out_port_def sm_run matching_entries_def)
  obtain i ms where sent: "sfor (filter ?Q (sw_table s)) (\<lambda>e. if wants_removed e then sbind (sget sw_now)
      (\<lambda>now. send None (MFlowRemoved (to_flow_removed now OFPRR_DELETE e))) else sret ()) ?s =
        (Inr (), ?s\<lparr>sw_next_xid := i, sw_sent := sw_sent s @ ms\<rparr>)"
    "map snd ms = map (\<lambda>e. MFlowRemoved (to_flow_removed (sw_now s) OFPRR_DELETE e)) (filter wants_removed (filter ?Q (sw_table s)))"
    using report_run [of "filter ?Q (sw_table s)" ?s OFPRR_DELETE] assms(2,3) by auto
  show ?thesis
  proof (cases "filter ?Q (sw_table s) = []")
    case True
    then show ?thesis
      by (intro exI [of _ "sw_next_xid s"] exI [of _ "[]"]) (simp add: run removed_event_def sm_run matching_entries_def)
  next
    case False
    then show ?thesis using sent
      by (intro exI [of _ i] exI [of _ ms]) (simp add: run removed_event_def sm_run handle_table_event_def matching_entries_def)
  qed
qed

text \<open>
  C30. A delete on a connected switch removes exactly the entries that match, in strict or non-strict comparison and
  under the filter on output ports, and sends one flow-removed message for each removed entry that asked for it,
  in table order; nothing else changes.
\<close>

theorem flow_mod_delete_effect:
  assumes "switch_reachable n s" "sw_connected s"
    and "\<And>e. e \<in> set (sw_table s) \<Longrightarrow> wants_removed e \<Longrightarrow> packs (MFlowRemoved (to_flow_removed (sw_now s) OFPRR_DELETE e))"
  shows "\<exists>i ms. flow_mod_delete strict f s = (Inr (), s\<lparr>
      sw_table := filter (\<lambda>e. \<not> is_matched_by e (fm_match f) (Some (fm_priority f)) strict (stats_out_port (fm_out_port f))) (sw_table s),
      sw_next_xid := i, sw_sent := sw_sent s @ ms\<rparr>) \<and>
    map snd ms = map (\<lambda>e. MFlowRemoved (to_flow_removed (sw_now s) OFPRR_DELETE e))
      (filter wants_removed (matching_entries (fm_match f) (Some (fm_priority f)) strict (stats_out_port (fm_out_port f)) (sw_table s)))"
  using delete_run [OF assms] by blast

theorem flow_mod_delete_effect_witness:
  "\<exists>i ms. flow_mod_delete False (to_flow_mod None (plain_entry 0 7 match_init)) loaded_switch =
     (Inr (), loaded_switch\<lparr>sw_table := [], sw_next_xid := i, sw_sent := ms\<rparr>)"
proof -
  have "sw_connected loaded_switch" by (simp add: loaded_switch_def linked_switch_def set_connection_def sm_run)
  moreover have t: "sw_table loaded_switch = [plain_entry 0 7 match_init]" by (simp add: loaded_switch_def)
  moreover have "\<not> wants_removed (plain_entry 0 7 match_init)" by (simp add: wants_removed_def plain_entry_def bits_set_def)
  moreover have "is_matched_by (plain_entry 0 7 match_init) match_init p False None" for p
    using wide.cov_refl [of True match_init] by (simp add: is_matched_by_def plain_entry_def)
  ultimately show ?thesis
    using flow_mod_delete_effect [OF loaded_switch_reachable, where strict = False and f = "to_flow_mod None (plain_entry 0 7 match_init)"]
    by (auto simp: to_flow_mod_def plain_entry_match stats_out_port_def)
qed

section \<open>Output\<close>

definition forwards :: "phy_port \<Rightarrow> bool" where
  "forwards p \<longleftrightarrow> \<not> bits_set (pp_config p) OFPPC_NO_FWD \<and> \<not> bits_set (pp_config p) OFPPC_PORT_DOWN \<and>
     \<not> bits_set (pp_state p) OFPPS_LINK_DOWN"

definition packet_packs :: "nat \<Rightarrow> switch \<Rightarrow> bool" where
  "packet_packs r s \<longleftrightarrow> (\<exists>d. eth_pack (lib_little (sw_lib s)) (sw_packets s ! r) = Inr d)"

lemma count_port_run:
  "map_of (sw_port_stats s) no \<noteq> None \<Longrightarrow> \<exists>st. count_port no f s = (Inr (), s\<lparr>sw_port_stats := st\<rparr>) \<and>
     (\<forall>n. map_of st n = None \<longleftrightarrow> map_of (sw_port_stats s) n = None)"
  by (cases s) (auto simp: count_port_def sm_run map_of_d_set)

lemma real_send_run:
  assumes "map_of (sw_ports s) no = Some p" "no \<noteq> ip \<or> allow" "packet_packs r s" "map_of (sw_port_stats s) no \<noteq> None"
  shows "\<exists>st. real_send r ip allow no s = (Inr (), s\<lparr>sw_port_stats := st,
      sw_output := sw_output s @ (if forwards p then [(no, sw_packets s ! r)] else [])\<rparr>) \<and>
    (\<forall>n. map_of st n = None \<longleftrightarrow> map_of (sw_port_stats s) n = None)"
proof (cases "forwards p")
  case False
  then have "real_send r ip allow no s = (Inr (), s)" using assms(1,2) by (auto simp: real_send_def sm_run forwards_def)
  with False show ?thesis by (intro exI [of _ "sw_port_stats s"]) simp
next
  case True
  obtain d where d: "eth_pack (lib_little (sw_lib s)) (sw_packets s ! r) = Inr d" using assms(3) by (auto simp: packet_packs_def)
  obtain st1 where 1: "count_port no (\<lambda>x. x\<lparr>ps_tx_packets := Suc (ps_tx_packets x)\<rparr>) s = (Inr (), s\<lparr>sw_port_stats := st1\<rparr>)"
    "\<forall>n. map_of st1 n = None \<longleftrightarrow> map_of (sw_port_stats s) n = None"
    using count_port_run [OF assms(4)] by blast
  have "map_of (sw_port_stats (s\<lparr>sw_port_stats := st1\<rparr>)) no \<noteq> None" using 1(2) assms(4) by simp
  then obtain st2 where 2: "count_port no (\<lambda>x. x\<lparr>ps_tx_bytes := ps_tx_bytes x + length d\<rparr>) (s\<lparr>sw_port_stats := st1\<rparr>) =
      (Inr (), s\<lparr>sw_port_stats := st2\<rparr>)" "\<forall>n. map_of st2 n = None \<longleftrightarrow> map_of st1 n = None"
    using count_port_run [of "s\<lparr>sw_port_stats := st1\<rparr>" no] by fastforce
  have "real_send r ip allow no s = (Inr (), s\<lparr>sw_port_stats := st2, sw_output := sw_output s @ [(no, sw_packets s ! r)]\<rparr>)"
    using assms(1,2) True by (auto simp: real_send_def sm_run forwards_def 1 2 d)
  with True 1(2) 2(2) show ?thesis by (intro exI [of _ st2]) simp
qed

lemma flood_run:
  assumes "\<And>no p. (no, p) \<in> set ps \<Longrightarrow> map_of (sw_ports s) no = Some p \<and> pp_port_no p = no \<and> map_of (sw_port_stats s) no \<noteq> None"
    "packet_packs r s"
  shows "\<exists>st. sfor ps (\<lambda>(no, p). if no = ip then sret () else if skip p then sret () else real_send r ip False (pp_port_no p)) s =
    (Inr (), s\<lparr>sw_port_stats := st, sw_output := sw_output s @
       map (\<lambda>(no, p). (no, sw_packets s ! r)) (filter (\<lambda>(no, p). no \<noteq> ip \<and> \<not> skip p \<and> forwards p) ps)\<rparr>)"
  using assms
proof (induction ps arbitrary: s)
  case Nil
  show ?case by (intro exI [of _ "sw_port_stats s"]) (simp add: sm_run)
next
  case (Cons q ps)
  obtain no p where q: "q = (no, p)" by fastforce
  have p: "map_of (sw_ports s) no = Some p" "pp_port_no p = no" "map_of (sw_port_stats s) no \<noteq> None"
    using Cons.prems(1) [of no p] by (simp_all add: q)
  show ?case
  proof (cases "no = ip \<or> skip p")
    case True
    moreover have "map_of (sw_ports s) n = Some x \<and> pp_port_no x = n \<and> map_of (sw_port_stats s) n \<noteq> None" if "(n, x) \<in> set ps" for n x
      using that Cons.prems(1) [of n x] by simp
    ultimately show ?thesis using Cons.IH [OF _ Cons.prems(2)] by (auto simp: q sm_run)
  next
    case False
    obtain st where st: "real_send r ip False no s = (Inr (), s\<lparr>sw_port_stats := st,
        sw_output := sw_output s @ (if forwards p then [(no, sw_packets s ! r)] else [])\<rparr>)"
      "\<forall>n. map_of st n = None \<longleftrightarrow> map_of (sw_port_stats s) n = None"
      using real_send_run [OF p(1) _ Cons.prems(2) p(3), of ip False] False by auto
    let ?s = "s\<lparr>sw_port_stats := st, sw_output := sw_output s @ (if forwards p then [(no, sw_packets s ! r)] else [])\<rparr>"
    have "packet_packs r ?s" using Cons.prems(2) by (simp add: packet_packs_def)
    moreover have "map_of (sw_ports ?s) n = Some x \<and> pp_port_no x = n \<and> map_of (sw_port_stats ?s) n \<noteq> None" if "(n, x) \<in> set ps" for n x
      using that Cons.prems(1) [of n x] st(2) by simp
    ultimately obtain st' where "sfor ps (\<lambda>(no, p). if no = ip then sret () else if skip p then sret () else real_send r ip False (pp_port_no p)) ?s =
      (Inr (), ?s\<lparr>sw_port_stats := st', sw_output := sw_output ?s @
        map (\<lambda>(no, p). (no, sw_packets ?s ! r)) (filter (\<lambda>(no, p). no \<noteq> ip \<and> \<not> skip p \<and> forwards p) ps)\<rparr>)"
      using Cons.IH [of ?s] by blast
    then show ?thesis using False p(2) st(1) by (intro exI [of _ st']) (auto simp: q sm_run)
  qed
qed

lemma in_port_table:
  "switch_ok s \<Longrightarrow> (no, p) \<in> set (sw_ports s) \<Longrightarrow> map_of (sw_ports s) no = Some p \<and> pp_port_no p = no \<and> map_of (sw_port_stats s) no \<noteq> None"
  using map_of_is_SomeI [of "sw_ports s" no p] by (auto simp: switch_ok_def ports_within_def d_ok_def)

text \<open>
  C17. Flooding a packet that packs, and sending it to all ports, never fails and puts the packet on exactly the
  ports that forward (not administratively down, link up, forwarding enabled) in the order of the port table, on
  each once and never on the port it came from; a flood also leaves out the ports configured with \<open>NO_FLOOD\<close>.
\<close>

theorem flood_exact:
  assumes "switch_reachable n s" "packet_packs r s" "v = OFPP_FLOOD \<or> v = OFPP_ALL"
  shows "\<exists>st. output_packet rx r v ip m s = (Inr (), s\<lparr>sw_port_stats := st, sw_output := sw_output s @
    map (\<lambda>(no, p). (no, sw_packets s ! r))
      (filter (\<lambda>(no, p). no \<noteq> ip \<and> \<not> (v = OFPP_FLOOD \<and> bits_set (pp_config p) OFPPC_NO_FLOOD) \<and> forwards p) (sw_ports s))\<rparr>)"
proof -
  note in_ports = in_port_table [OF switch_reachable_ok [OF assms(1)]]
  show ?thesis
    using assms(3)
  proof
    assume v: "v = OFPP_FLOOD"
    show ?thesis using flood_run [OF in_ports assms(2), of "sw_ports s" ip "\<lambda>p. bits_set (pp_config p) OFPPC_NO_FLOOD"]
      by (simp add: output_packet_def OFPP_defs sm_run v)
  next
    assume v: "v = OFPP_ALL"
    show ?thesis using flood_run [OF in_ports assms(2), of "sw_ports s" ip "\<lambda>_. False", unfolded if_False]
      by (simp add: output_packet_def OFPP_defs sm_run v)
  qed
qed

definition two_port_switch :: switch where
  "two_port_switch = snd (add_port (plain_port 2) (snd (add_port (plain_port 1) small_switch)))\<lparr>sw_packets := [plain_frame]\<rparr>"

lemma two_ports: "sw_ports two_port_switch = [(1, plain_port 1), (2, plain_port 2)]"
  by (simp add: two_port_switch_def add_port_def small_switch_def blank_switch_def sm_run send_port_status_def send_def plain_port_def)

lemma frame_packs: "packet_packs 0 (s\<lparr>sw_packets := plain_frame # l\<rparr>)"
  by (simp add: packet_packs_def plain_frame_def eth_pack_def unparsed_raw_def pack_payload.simps)

text \<open>The packet gets into the store by arriving at a port that does not exist.\<close>

lemma two_port_switch_reachable: "switch_reachable 1 two_port_switch"
proof -
  let ?s1 = "snd (add_port (plain_port 1) small_switch)" and ?s2 = "snd (add_port (plain_port 2) (snd (add_port (plain_port 1) small_switch)))"
  have "switch_reachable 1 small_switch" unfolding switch_reachable_def small_switch_def by blast
  then have "switch_reachable 1 ?s1" by (rule reachable_step) (rule step_add_port [OF surjective_pairing])
  then have 2: "switch_reachable 1 ?s2" by (rule reachable_step) (rule step_add_port [OF surjective_pairing])
  have "sbind (new_packet plain_frame) (\<lambda>a. rx_packet 1 a 9 None) ?s2 = (Inr (), two_port_switch)"
    using two_ports by (simp add: sbind_def new_packet_run rx_packet_once_def sm_run two_port_switch_def)
      (simp add: add_port_def small_switch_def blank_switch_def sm_run send_port_status_def send_def plain_port_def)
  then show ?thesis by (intro reachable_step [OF 2] step_packet) blast
qed

theorem flood_exact_witness:
  "\<exists>st. output_packet (\<lambda>_ _. sret ()) 0 OFPP_FLOOD 1 None two_port_switch =
     (Inr (), two_port_switch\<lparr>sw_port_stats := st, sw_output := sw_output two_port_switch @ [(2, plain_frame)]\<rparr>)"
proof -
  have "packet_packs 0 two_port_switch" unfolding two_port_switch_def by (rule frame_packs)
  moreover have "sw_packets two_port_switch ! 0 = plain_frame" by (simp add: two_port_switch_def)
  moreover have "filter (\<lambda>(no, p). no \<noteq> 1 \<and> \<not> bits_set (pp_config p) OFPPC_NO_FLOOD \<and> forwards p) (sw_ports two_port_switch) = [(2, plain_port 2)]"
    by (simp add: two_ports forwards_def bits_set_def plain_port_def)
  ultimately show ?thesis
    using flood_exact [OF two_port_switch_reachable, of 0 OFPP_FLOOD "\<lambda>_ _. sret ()" 1 None] by simp
qed

section \<open>The packet buffer\<close>

lemma first_free_None: "first_free b = None \<longleftrightarrow> None \<notin> set b"
proof (induction b)
  case (Cons x b)
  then show ?case by (cases x) auto
qed simp

text \<open>
  A packet is buffered without overwriting another: its identifier, never zero, names a slot that was empty or
  did not exist and holds the packet and its port afterwards, and all other slots are as before.  No identifier is
  given exactly when \<open>max_buffers\<close> packets are held, and then nothing changes.
\<close>

theorem buffer_slot:
  "case buffer_packet r p s of
     (Inl _, _) \<Rightarrow> False
   | (Inr None, s') \<Rightarrow> s' = s \<and> sw_max_buffers s \<le> length (sw_packet_buffer s) \<and> None \<notin> set (sw_packet_buffer s)
   | (Inr (Some i), s') \<Rightarrow> 0 < i \<and> i - 1 \<le> length (sw_packet_buffer s) \<and>
       (i - 1 = length (sw_packet_buffer s) \<or> sw_packet_buffer s ! (i - 1) = None) \<and>
       s' = s\<lparr>sw_packet_buffer := take (i - 1) (sw_packet_buffer s) @ Some (r, p) # drop i (sw_packet_buffer s)\<rparr>"
proof (cases "first_free (sw_packet_buffer s)")
  case None
  with first_free_None have "None \<notin> set (sw_packet_buffer s)" by blast
  then show ?thesis by (simp add: buffer_packet_def sm_run None)
next
  case (Some i)
  then show ?thesis
    using first_free_within [OF Some] by (simp add: buffer_packet_def sm_run Some upd_conv_take_nth_drop)
qed

text \<open>
  C20. A buffer identifier is good for one use: once a message that named it has been carried out, naming it again,
  with whatever actions, changes nothing.
\<close>

theorem buffer_released_once:
  assumes "process_from_buffer rx as buf ofp s = (Inr (), s')"
  shows "process_from_buffer rx' as' buf ofp' s' = (Inr (), s')"
proof (cases "buf = 0 \<or> length (sw_packet_buffer s) \<le> unat buf - 1 \<or> sw_packet_buffer s ! (unat buf - 1) = None")
  case True
  then have "process_from_buffer rx as buf ofp s = (Inr (), s)" for rx as ofp
    by (auto simp: process_from_buffer_def sm_run split: option.split)
  with assms show ?thesis by simp
next
  case False
  then obtain r ip where "sw_packet_buffer s ! (unat buf - 1) = Some (r, ip)" by auto
  with False assms obtain s1 where "s' = sw_packet_buffer_update (\<lambda>b. b[unat buf - 1 := None]) s1"
    by (auto simp: process_from_buffer_def sm_run sthen_def sbind_def split: sum.splits prod.splits)
  then show ?thesis by (auto simp: process_from_buffer_def sm_run split: option.split)
qed

theorem buffer_released_once_witness:
  "process_from_buffer (\<lambda>_ _. sret ()) [ActOutput 2 0] 1 None
     (two_port_switch\<lparr>sw_packets := [plain_frame\<lparr>eth_dst := [2, 0, 0, 0, 0, 9]\<rparr>], sw_packet_buffer := [None]\<rparr>) =
   (Inr (), two_port_switch\<lparr>sw_packets := [plain_frame\<lparr>eth_dst := [2, 0, 0, 0, 0, 9]\<rparr>], sw_packet_buffer := [None]\<rparr>)"
proof -
  have "sw_features two_port_switch = default_features" "sw_packets two_port_switch = [plain_frame]"
    using two_ports by (simp_all add: two_port_switch_def)
      (simp_all add: add_port_def small_switch_def blank_switch_def sm_run send_port_status_def send_def plain_port_def)
  then have "process_from_buffer (\<lambda>_ _. sret ()) [ActDlAddr SetDst [2, 0, 0, 0, 0, 9]] 1 None
      (two_port_switch\<lparr>sw_packet_buffer := [Some (0, 1)]\<rparr>) =
    (Inr (), two_port_switch\<lparr>sw_packets := [plain_frame\<lparr>eth_dst := [2, 0, 0, 0, 0, 9]\<rparr>], sw_packet_buffer := [None]\<rparr>)"
    by (simp add: process_from_buffer_def sm_run action_handled_def default_features_def run_action_def get_packet_def set_packet_def
        rewrite_packet_def)
  then show ?thesis by (rule buffer_released_once)
qed

section \<open>Packets sent to the table\<close>

definition no_table_output :: "action list \<Rightarrow> bool" where
  "no_table_output as \<longleftrightarrow> (\<forall>m. ActOutput OFPP_TABLE m \<notin> set as)"

definition table_quiet :: "switch \<Rightarrow> bool" where
  "table_quiet s \<longleftrightarrow> (\<forall>e\<in>set (sw_table s). no_table_output (te_actions e))"

lemma run_action_rx:
  "(\<And>m. a \<noteq> ActOutput OFPP_TABLE m) \<Longrightarrow> run_action rx r ip a = run_action rx' r ip a"
  by (cases a) (auto simp: run_action_def output_packet_def)

lemma process_actions_rx:
  "no_table_output as \<Longrightarrow> process_actions rx as r ip ofp = process_actions rx' as r ip ofp"
proof (induction as)
  case (Cons a as)
  then have a: "run_action rx r ip a = run_action rx' r ip a"
    by (intro run_action_rx) (auto simp: no_table_output_def)
  have as: "process_actions rx as r ip ofp = process_actions rx' as r ip ofp"
    using Cons by (simp add: no_table_output_def)
  show ?case by (simp only: process_actions.simps a as)
qed simp

text \<open>Two computations that do the same in the states with a property that they keep.\<close>

definition agree :: "('s \<Rightarrow> bool) \<Rightarrow> ('s, 'a) sm \<Rightarrow> ('s, 'a) sm \<Rightarrow> bool" where
  "agree Q m m' \<longleftrightarrow> (\<forall>s. Q s \<longrightarrow> m s = m' s)"

lemma agree_rules:
  "agree Q m m"
  "keeps Q m \<Longrightarrow> (\<And>x. agree Q (f x) (g x)) \<Longrightarrow> agree Q (sbind m f) (sbind m g)"
  "keeps Q m \<Longrightarrow> agree Q n n' \<Longrightarrow> agree Q (sthen m n) (sthen m n')"
  "agree Q n n' \<Longrightarrow> agree Q (if c then m else n) (if c then m else n')"
  "(\<And>y. agree Q (h y) (k y)) \<Longrightarrow> agree Q (case x of None \<Rightarrow> m | Some y \<Rightarrow> h y) (case x of None \<Rightarrow> m | Some y \<Rightarrow> k y)"
  by (auto simp: agree_def keeps_def sbind_def sthen_def split: prod.split sum.split option.split)

lemma keeps_table:
  "keeps (\<lambda>s. sw_table s = t) (count_port no f)" "keeps (\<lambda>s. sw_table s = t) (packet_bytes r d)"
  "keeps (\<lambda>s. sw_table s = t) (smod (\<lambda>s. s\<lparr>sw_lookup_count := g s\<rparr>))" "keeps (\<lambda>s. sw_table s = t) (get_packet r)"
  by (auto simp: count_port_def intro!: keep keeps_smod table_core)

text \<open>
  While no installed flow outputs to the table, the nesting is one level deep: a packet is handled in the same
  way whatever depth of nesting the interpreter allows, and in particular without running out of it.
\<close>

theorem nesting_one:
  assumes "table_quiet s"
  shows "rx_packet (Suc n) r ip d s = rx_packet 1 r ip d s"
proof -
  have acts: "process_actions (again n) (te_actions t) r ip None = process_actions (again 0) (te_actions t) r ip None"
    if "entry_for e ip (sw_table s) = Some t" for e t
  proof (rule process_actions_rx)
    from that have "t \<in> set (sw_table s)" by (auto simp: entry_for_def entry_for_packet_def find_Some_iff)
    with assms show "no_table_output (te_actions t)" by (simp add: table_quiet_def)
  qed
  have look: "agree (\<lambda>s'. sw_table s' = sw_table s) (sbind (sget (\<lambda>s. entry_for e ip (sw_table s))) f)
      (sbind (sget (\<lambda>s. entry_for e ip (sw_table s))) g)"
    if "\<And>t. entry_for e ip (sw_table s) = Some t \<Longrightarrow> f (Some t) = g (Some t)" "f None = g None" for e and f g :: "_ \<Rightarrow> unit sw"
    using that by (cases "entry_for e ip (sw_table s)") (auto simp: agree_def sm_run)
  have "agree (\<lambda>s'. sw_table s' = sw_table s) (rx_packet_once (again n) r ip d) (rx_packet_once (again 0) r ip d)"
    unfolding rx_packet_once_def by (intro agree_rules look keeps_table keep) (simp_all add: acts)
  then show ?thesis by (simp add: agree_def)
qed

theorem nesting_one_witness: "rx_packet 5 0 1 None two_port_switch = rx_packet 1 0 1 None two_port_switch"
proof -
  have "table_quiet two_port_switch"
    by (simp add: table_quiet_def two_port_switch_def add_port_def small_switch_def blank_switch_def sm_run send_port_status_def send_def
        plain_port_def)
  then show ?thesis using nesting_one [of two_port_switch 4 0 1 None] by simp
qed

lemma rx_packet_hit:
  assumes p: "map_of (sw_ports s) ip = Some p" "map_of (sw_port_stats s) ip \<noteq> None"
    and e: "\<not> not_received (sw_config_flags s) p (sw_packets s ! r)" "packet_packs r s"
    and t: "entry_for (sw_packets s ! r) ip (sw_table s) = Some t"
  shows "\<exists>st l. rx_packet_once rx r ip None s = process_actions rx (te_actions t) r ip None (s\<lparr>sw_port_stats := st,
      sw_lookup_count := sw_lookup_count s + 1, sw_matched_count := sw_matched_count s + 1,
      sw_table := update_entry (te_oid t) (touch_packet l (sw_now s)) (sw_table s)\<rparr>) \<and>
    (\<forall>no. map_of (sw_port_stats s) no \<noteq> None \<longrightarrow> map_of st no \<noteq> None)"
proof -
  obtain d where d: "eth_pack (lib_little (sw_lib s)) (sw_packets s ! r) = Inr d" using e(2) by (auto simp: packet_packs_def)
  obtain st1 where 1: "count_port ip (\<lambda>x. x\<lparr>ps_rx_packets := Suc (ps_rx_packets x)\<rparr>) s = (Inr (), s\<lparr>sw_port_stats := st1\<rparr>)"
    "\<forall>n. map_of st1 n = None \<longleftrightarrow> map_of (sw_port_stats s) n = None"
    using count_port_run [OF p(2)] by fastforce
  then obtain st2 where 2: "count_port ip (\<lambda>x. x\<lparr>ps_rx_bytes := ps_rx_bytes x + length d\<rparr>) (s\<lparr>sw_port_stats := st1\<rparr>) =
      (Inr (), s\<lparr>sw_port_stats := st2\<rparr>)" "\<forall>n. map_of st2 n = None \<longleftrightarrow> map_of (sw_port_stats s) n = None"
    using count_port_run [of "s\<lparr>sw_port_stats := st1\<rparr>" ip] p(2) by fastforce
  have upd: "sw_table_update (update_entry oid f) x = x\<lparr>sw_table := update_entry oid f (sw_table x)\<rparr>" for oid f and x :: switch
    by (cases x) simp
  have "rx_packet_once rx r ip None s = process_actions rx (te_actions t) r ip None (s\<lparr>sw_port_stats := st2,
      sw_lookup_count := sw_lookup_count s + 1, sw_matched_count := sw_matched_count s + 1,
      sw_table := update_entry (te_oid t) (touch_packet (length d) (sw_now s)) (sw_table s)\<rparr>)"
    by (simp add: rx_packet_once_def packet_bytes_def sm_run p(1) e(1) 1 2 d t upd)
  with 2(2) show ?thesis by (intro exI [of _ st2] exI [of _ "length d"]) auto
qed

lemma entry_for_update:
  "entry_for e ip (update_entry oid (touch_packet l now) t) = map_option (\<lambda>x. if te_oid x = oid then touch_packet l now x else x) (entry_for e ip t)"
proof -
  have "find P (map f xs) = map_option f (find (P \<circ> f) xs)" for P and f :: "table_entry \<Rightarrow> table_entry" and xs
    by (induction xs) auto
  moreover have "te_match (if c then touch_packet l now x else x) = te_match x" for c x by (simp add: touch_packet_def)
  ultimately show ?thesis by (simp add: entry_for_def entry_for_packet_def update_entry_def comp_def)
qed

text \<open>
  C37. A flow that sends what it matches to the table catches the packet again each time: whatever depth of nesting
  is allowed, handling such a packet ends with \<open>RecursionError\<close>.
\<close>

theorem table_loop_raises:
  assumes "switch_ok s" "map_of (sw_ports s) ip = Some p" "\<not> not_received (sw_config_flags s) p (sw_packets s ! r)"
    and "packet_packs r s" "0 \<in> set (sf_acts (sw_features s))"
    and "entry_for (sw_packets s ! r) ip (sw_table s) = Some t" "te_actions t = ActOutput OFPP_TABLE m # rest"
  shows "fst (rx_packet n r ip None s) = Inl RecursionError"
proof -
  have st: "map_of (sw_port_stats s) ip \<noteq> None" using assms(1,2) by (auto simp: switch_ok_def ports_within_def)
  from assms(2-) st show ?thesis
  proof (induction n arbitrary: s t)
    case 0
    then show ?case by (simp add: sm_run)
  next
    case (Suc n)
    obtain st' l where hit: "rx_packet_once (again n) r ip None s = process_actions (again n) (te_actions t) r ip None (s\<lparr>sw_port_stats := st',
        sw_lookup_count := sw_lookup_count s + 1, sw_matched_count := sw_matched_count s + 1,
        sw_table := update_entry (te_oid t) (touch_packet l (sw_now s)) (sw_table s)\<rparr>)" and st': "map_of st' ip \<noteq> None"
      using rx_packet_hit [OF Suc.prems(1,7,2,3,5)] Suc.prems(7) by blast
    let ?s = "s\<lparr>sw_port_stats := st', sw_lookup_count := sw_lookup_count s + 1, sw_matched_count := sw_matched_count s + 1,
        sw_table := update_entry (te_oid t) (touch_packet l (sw_now s)) (sw_table s)\<rparr>"
    have "entry_for (sw_packets ?s ! r) ip (sw_table ?s) = Some (touch_packet l (sw_now s) t)"
      using Suc.prems(5) by (simp add: entry_for_update)
    moreover have "te_actions (touch_packet l (sw_now s) t) = ActOutput OFPP_TABLE m # rest"
      using Suc.prems(6) by (simp add: touch_packet_def)
    ultimately have "fst (rx_packet n r ip None ?s) = Inl RecursionError"
      using Suc.IH [of ?s "touch_packet l (sw_now s) t"] Suc.prems(1-4) st' by (simp add: packet_packs_def)
    then obtain s' where "rx_packet n r ip None ?s = (Inl RecursionError, s')" by (cases "rx_packet n r ip None ?s") auto
    moreover have "action_handled (ActOutput OFPP_TABLE m) ?s" using Suc.prems(4) by (simp add: action_handled_def)
    ultimately show ?case
      by (simp add: hit Suc.prems(6) sm_run run_action_def output_packet_def OFPP_defs)
  qed
qed

definition looping_switch :: switch where
  "looping_switch = two_port_switch\<lparr>sw_table := [plain_entry 0 7 match_init\<lparr>te_actions := [ActOutput OFPP_TABLE 0]\<rparr>], sw_next_oid := 1\<rparr>"

lemma looping_switch_ok: "switch_ok looping_switch"
proof -
  have "switch_ok two_port_switch" by (rule switch_reachable_ok [OF two_port_switch_reachable])
  moreover have "sw_max_entries two_port_switch = 3"
    by (simp add: two_port_switch_def add_port_def small_switch_def blank_switch_def sm_run send_port_status_def send_def plain_port_def)
  ultimately show ?thesis
    by (simp add: looping_switch_def switch_ok_def table_within_def buffer_within_def ports_within_def table_ok_def plain_entry_def)
qed

theorem table_loop_raises_witness: "fst (rx_packet 1000 0 1 None looping_switch) = Inl RecursionError"
proof -
  let ?t = "plain_entry 0 7 match_init\<lparr>te_actions := [ActOutput OFPP_TABLE 0]\<rparr>"
  have s: "sw_ports looping_switch = [(1, plain_port 1), (2, plain_port 2)]" "sw_packets looping_switch = [plain_frame]"
    "sw_table looping_switch = [?t]" "sw_features looping_switch = default_features" "sw_config_flags looping_switch = 0"
    using two_ports by (simp_all add: looping_switch_def two_port_switch_def)
      (simp_all add: add_port_def small_switch_def blank_switch_def sm_run send_port_status_def send_def plain_port_def)
  have p: "map_of (sw_ports looping_switch) 1 = Some (plain_port 1)" by (simp add: s)
  have n: "\<not> not_received (sw_config_flags looping_switch) (plain_port 1) (sw_packets looping_switch ! 0)"
    by (simp add: s not_received_def bits_set_def plain_port_def fragment_dropped_def)
  have k: "packet_packs 0 looping_switch"
    by (simp add: packet_packs_def s plain_frame_def eth_pack_def unparsed_raw_def pack_payload.simps)
  have e: "entry_for (sw_packets looping_switch ! 0) 1 (sw_table looping_switch) = Some ?t"
    by (simp add: s table_run)
  have a: "0 \<in> set (sf_acts (sw_features looping_switch))" by (simp add: s default_features_def)
  show ?thesis using table_loop_raises [OF looping_switch_ok p n k a e] by simp
qed

end
