(* ===== verification/PBFT_System.thy ===== *)
theory PBFT_System
  imports PBFT_App Switch_Behaviour
begin

text \<open>
  The software switch and the PBFT application together: a packet that only the table-miss flow matches is
  buffered and reported by the switch, the controller asks for consensus, and the agreed packet-out comes back to
  the switch.
\<close>

section \<open>The switch reports a packet\<close>

lemma buffer_packet_run:
  assumes "length (sw_packet_buffer s) < sw_max_buffers s"
  shows "\<exists>i b. buffer_packet r p s = (Inr (Some i), s\<lparr>sw_packet_buffer := b\<rparr>) \<and> 0 < i \<and> i \<le> sw_max_buffers s \<and>
    i - 1 < length b \<and> b ! (i - 1) = Some (r, p)"
proof (cases "first_free (sw_packet_buffer s)")
  case None
  with assms show ?thesis
    by (intro exI [of _ "length (sw_packet_buffer s) + 1"] exI [of _ "sw_packet_buffer s @ [Some (r, p)]"])
       (simp add: buffer_packet_def sm_run)
next
  case (Some i)
  with assms first_free_within [OF Some] show ?thesis
    by (intro exI [of _ "i + 1"] exI [of _ "(sw_packet_buffer s)[i := Some (r, p)]"]) (simp add: buffer_packet_def sm_run)
qed

text \<open>Output to the controller: the packet is buffered and reported with all its bytes.\<close>

lemma to_controller_run:
  assumes "sw_connected s" "length (sw_packet_buffer s) < sw_max_buffers s"
    and "eth_pack (lib_little (sw_lib s)) (sw_packets s ! r) = Inr d" "length d < 65000"
  shows "\<exists>i b h. output_packet rx r OFPP_CONTROLLER ip (Some 0xffff) s =
      (Inr (), s\<lparr>sw_packet_buffer := b, sw_sent := sw_sent s @ [(h, MPacketIn \<lparr>pi_in_port = ip, pi_buffer_id = word_of_nat i,
         pi_reason = 1, pi_data = d, pi_total_len = None\<rparr>)]\<rparr>) \<and>
    0 < i \<and> i \<le> sw_max_buffers s \<and> i - 1 < length b \<and> b ! (i - 1) = Some (r, ip)"
proof -
  obtain i b where b: "buffer_packet r ip s = (Inr (Some i), s\<lparr>sw_packet_buffer := b\<rparr>)" "0 < i" "i \<le> sw_max_buffers s"
    "i - 1 < length b" "b ! (i - 1) = Some (r, ip)"
    using buffer_packet_run [OF assms(2)] by blast
  let ?m = "\<lparr>pi_in_port = ip, pi_buffer_id = word_of_nat i, pi_reason = 1, pi_data = d, pi_total_len = None\<rparr>"
  have "packs (MPacketIn ?m)" using assms(4) by (intro packet_in_packs) simp_all
  then have "send (Some 0) (MPacketIn ?m) (s\<lparr>sw_packet_buffer := b\<rparr>) =
      (Inr (), s\<lparr>sw_packet_buffer := b, sw_sent := sw_sent s @ [(\<lparr>hdr_version = OFP_VERSION, hdr_xid = 0\<rparr>, MPacketIn ?m)]\<rparr>)"
    using send_with_run [of "MPacketIn ?m" "s\<lparr>sw_packet_buffer := b\<rparr>"] assms(1) by simp
  then have "output_packet rx r OFPP_CONTROLLER ip (Some 0xffff) s =
      (Inr (), s\<lparr>sw_packet_buffer := b, sw_sent := sw_sent s @ [(\<lparr>hdr_version = OFP_VERSION, hdr_xid = 0\<rparr>, MPacketIn ?m)]\<rparr>)"
    using assms(3,4) b(1) by (simp add: output_packet_def OFPP_defs sm_run sbind_Inr send_packet_in_def)
  with b(2-) show ?thesis by blast
qed

section \<open>The agreed packet-out\<close>

definition flood_ports :: "16 word \<Rightarrow> switch \<Rightarrow> 16 word list" where
  "flood_ports ip s = map fst (filter (\<lambda>(no, p). no \<noteq> ip \<and> \<not> bits_set (pp_config p) OFPPC_NO_FLOOD \<and> forwards p) (sw_ports s))"

lemma flood_buffered_run:
  assumes "\<And>no p. (no, p) \<in> set (sw_ports s) \<Longrightarrow> map_of (sw_ports s) no = Some p \<and> pp_port_no p = no \<and> map_of (sw_port_stats s) no \<noteq> None"
    and "packet_packs r s" "0 \<in> set (sf_acts (sw_features s))"
    and "0 < i" "i < 2 ^ 32 - 1" "i - 1 < length (sw_packet_buffer s)" "sw_packet_buffer s ! (i - 1) = Some (r, ip)"
  shows "\<exists>st. rx_packet_out k \<lparr>po_buffer_id = word_of_nat i, po_in_port = x, po_actions = [ActOutput OFPP_FLOOD m], po_data = []\<rparr> ofp s =
    (Inr (), s\<lparr>sw_port_stats := st, sw_output := sw_output s @ map (\<lambda>no. (no, sw_packets s ! r)) (flood_ports ip s),
       sw_packet_buffer := (sw_packet_buffer s)[i - 1 := None]\<rparr>)"
proof -
  have u: "unat (word_of_nat i :: 32 word) = i" using assms(5) by (simp add: unsigned_of_nat take_bit_nat_eq_self)
  then have n: "word_of_nat i \<noteq> (0 :: 32 word)" "word_of_nat i \<noteq> NO_BUFFER" using assms(4,5) by (auto simp: NO_BUFFER_def)
  obtain st where f: "sfor (sw_ports s) (\<lambda>(no, p). if no = ip then sret () else if bits_set (pp_config p) OFPPC_NO_FLOOD then sret ()
      else real_send r ip False (pp_port_no p)) s =
    (Inr (), s\<lparr>sw_port_stats := st, sw_output := sw_output s @ map (\<lambda>(no, p). (no, sw_packets s ! r))
      (filter (\<lambda>(no, p). no \<noteq> ip \<and> \<not> bits_set (pp_config p) OFPPC_NO_FLOOD \<and> forwards p) (sw_ports s))\<rparr>)"
    using flood_run [OF assms(1,2), of "sw_ports s" ip "\<lambda>p. bits_set (pp_config p) OFPPC_NO_FLOOD"] by blast
  have "output_packet (again k) r OFPP_FLOOD ip (Some (unat m)) s =
      (Inr (), s\<lparr>sw_port_stats := st, sw_output := sw_output s @ map (\<lambda>no. (no, sw_packets s ! r)) (flood_ports ip s)\<rparr>)"
    using f by (simp add: output_packet_def OFPP_defs sm_run flood_ports_def comp_def case_prod_unfold)
  then have "process_actions (again k) [ActOutput OFPP_FLOOD m] r ip (Some ofp) s =
      (Inr (), s\<lparr>sw_port_stats := st, sw_output := sw_output s @ map (\<lambda>no. (no, sw_packets s ! r)) (flood_ports ip s)\<rparr>)"
    using assms(3) by (simp add: sm_run action_handled_def run_action_def sthen_Inr)
  then show ?thesis
    using assms(6,7) u n by (intro exI [of _ st]) (simp add: rx_packet_out_def process_from_buffer_def sm_run sthen_Inr)
qed

text \<open>
  C4. From the packet to its copies.  A packet of fewer than 65000 bytes arrives at a connected switch and the flow that the
  application installs when a switch connects is the best match.  The switch buffers the packet and sends one
  packet-in.  If consensus is reached on flooding that packet, the controller's packet-out, given to the switch,
  empties the buffer slot again and puts the packet, unchanged, on every port that takes part in flooding, except
  the one it came from.
\<close>

theorem packet_in_to_flood:
  assumes s: "switch_reachable n s" "sw_connected s" "0 \<in> set (sf_acts (sw_features s))"
    and room: "length (sw_packet_buffer s) < sw_max_buffers s" "sw_max_buffers s < 2 ^ 32 - 1"
    and port: "map_of (sw_ports s) ip = Some p" "\<not> not_received (sw_config_flags s) p (sw_packets s ! r)"
    and pkt: "eth_pack (lib_little (sw_lib s)) (sw_packets s ! r) = Inr d" "length d < 65000"
    and flow: "entry_for (sw_packets s ! r) ip (sw_table s) = Some t" "te_actions t = fm_actions table_miss_flow"
    and json: "reads_actions loads"
  shows "\<exists>s1 h m. rx_packet (Suc k) r ip None s = (Inr (), s1) \<and> sw_sent s1 = sw_sent s @ [(h, MPacketIn m)] \<and> pi_data m = d \<and>
    (\<forall>ev. pe_ofp ev = m \<longrightarrow> (\<exists>po s2 i.
       execute_final_action loads ev (Some \<lparr>rs_reached = True, rs_action = action_json FLOOD\<rparr>) = Some po \<and>
       rx_message k (hdr, MPacketOut po) s1 = (Inr (), s2) \<and>
       sw_output s2 = sw_output s @ map (\<lambda>no. (no, sw_packets s ! r)) (flood_ports ip s) \<and>
       sw_packet_buffer s2 = (sw_packet_buffer s1)[i := None] \<and> sw_packet_buffer s1 ! i = Some (r, ip)))"
proof -
  note ok = switch_reachable_ok [OF s(1)]
  have packs: "packet_packs r s" using pkt(1) by (simp add: packet_packs_def)
  have stats: "map_of (sw_port_stats s) ip \<noteq> None" using ok port(1) by (auto simp: switch_ok_def ports_within_def)
  obtain st l where hit: "rx_packet_once (again k) r ip None s = process_actions (again k) (te_actions t) r ip None (s\<lparr>sw_port_stats := st,
      sw_lookup_count := sw_lookup_count s + 1, sw_matched_count := sw_matched_count s + 1,
      sw_table := update_entry (te_oid t) (touch_packet l (sw_now s)) (sw_table s)\<rparr>)"
    and dom: "\<And>no. map_of (sw_port_stats s) no \<noteq> None \<Longrightarrow> map_of st no \<noteq> None"
    using rx_packet_hit [OF port(1) stats port(2) packs flow(1)] by blast
  let ?s = "s\<lparr>sw_port_stats := st, sw_lookup_count := sw_lookup_count s + 1, sw_matched_count := sw_matched_count s + 1,
      sw_table := update_entry (te_oid t) (touch_packet l (sw_now s)) (sw_table s)\<rparr>"
  obtain i b h where c: "output_packet (again k) r OFPP_CONTROLLER ip (Some 0xffff) ?s =
      (Inr (), ?s\<lparr>sw_packet_buffer := b, sw_sent := sw_sent s @ [(h, MPacketIn \<lparr>pi_in_port = ip, pi_buffer_id = word_of_nat i,
         pi_reason = 1, pi_data = d, pi_total_len = None\<rparr>)]\<rparr>)"
    and i: "0 < i" "i \<le> sw_max_buffers s" "i - 1 < length b" "b ! (i - 1) = Some (r, ip)"
    using to_controller_run [of ?s r d "again k" ip] s(2) room(1) pkt by auto
  let ?m = "\<lparr>pi_in_port = ip, pi_buffer_id = word_of_nat i, pi_reason = 1, pi_data = d, pi_total_len = None\<rparr>"
  let ?s1 = "?s\<lparr>sw_packet_buffer := b, sw_sent := sw_sent s @ [(h, MPacketIn ?m)]\<rparr>"
  have "unat (0xffff :: 16 word) = 65535" by simp
  then have rx: "rx_packet (Suc k) r ip None s = (Inr (), ?s1)"
    using c s(3) by (simp add: hit flow(2) table_miss_flow_def sm_run action_handled_def run_action_def sthen_Inr)
  have nb: "word_of_nat i \<noteq> NO_BUFFER"
  proof
    assume "word_of_nat i = NO_BUFFER"
    then have "unat (word_of_nat i :: 32 word) = 2 ^ 32 - 1" by (simp add: NO_BUFFER_def)
    then show False using i(2) room(2) by (simp add: unsigned_of_nat take_bit_nat_eq_self)
  qed
  have ports: "map_of (sw_ports ?s1) no = Some p \<and> pp_port_no p = no \<and> map_of (sw_port_stats ?s1) no \<noteq> None"
    if "(no, p) \<in> set (sw_ports ?s1)" for no p
    using that in_port_table [OF ok, of no p] dom by auto
  have agreed: "execute_final_action loads ev (Some \<lparr>rs_reached = True, rs_action = action_json FLOOD\<rparr>) =
      Some \<lparr>po_buffer_id = word_of_nat i, po_in_port = ip, po_actions = [ActOutput OFPP_FLOOD 0xffff], po_data = []\<rparr>"
    if "pe_ofp ev = ?m" for ev :: packet_event
    using json nb that by (simp add: execute_agreed FLOOD_def OFPP_FLOOD_def)
  have "packet_packs r ?s1" using packs by (simp add: packet_packs_def)
  then obtain s2 where out: "rx_message k (hdr, MPacketOut \<lparr>po_buffer_id = word_of_nat i, po_in_port = ip,
        po_actions = [ActOutput OFPP_FLOOD 0xffff], po_data = []\<rparr>) ?s1 = (Inr (), s2)"
    "sw_output s2 = sw_output s @ map (\<lambda>no. (no, sw_packets s ! r)) (flood_ports ip s)"
    "sw_packet_buffer s2 = (sw_packet_buffer ?s1)[i - 1 := None]"
    using flood_buffered_run [OF ports, of r i ip k ip "0xffff" "(hdr, MPacketOut \<lparr>po_buffer_id = word_of_nat i, po_in_port = ip,
        po_actions = [ActOutput OFPP_FLOOD 0xffff], po_data = []\<rparr>)"] s(3) i room(2)
    by (auto simp: flood_ports_def rx_message_def Let_def)
  have "sw_packet_buffer ?s1 ! (i - 1) = Some (r, ip)" using i(4) by simp
  with out agreed have "\<forall>ev :: packet_event. pe_ofp ev = ?m \<longrightarrow> (\<exists>po s2 i.
       execute_final_action loads ev (Some \<lparr>rs_reached = True, rs_action = action_json FLOOD\<rparr>) = Some po \<and>
       rx_message k (hdr, MPacketOut po) ?s1 = (Inr (), s2) \<and>
       sw_output s2 = sw_output s @ map (\<lambda>no. (no, sw_packets s ! r)) (flood_ports ip s) \<and>
       sw_packet_buffer s2 = (sw_packet_buffer ?s1)[i := None] \<and> sw_packet_buffer ?s1 ! i = Some (r, ip))"
    by blast
  with rx show ?thesis by (intro exI [of _ ?s1] exI [of _ h] exI [of _ ?m]) simp
qed

section \<open>A concrete run\<close>

text \<open>A connected switch with two ports on which the application has installed its flow.\<close>

definition miss_entry :: table_entry where "miss_entry = from_flow_mod 0 0 table_miss_flow"

definition app_switch :: switch where
  "app_switch = two_port_switch\<lparr>sw_connected := True, sw_has_sent_hello := False, sw_table := [miss_entry], sw_next_oid := 1\<rparr>"

lemma two_port_fields:
  "sw_packets two_port_switch = [plain_frame]" "sw_table two_port_switch = []" "sw_features two_port_switch = default_features"
  "sw_packet_buffer two_port_switch = []" "sw_max_buffers two_port_switch = 2" "sw_config_flags two_port_switch = 0"
  "sw_next_oid two_port_switch = 0" "sw_now two_port_switch = 0" "sw_max_entries two_port_switch = 3"
  by (simp_all add: two_port_switch_def add_port_def small_switch_def blank_switch_def sm_run send_port_status_def send_def plain_port_def)

lemma app_switch_reachable: "switch_reachable 1 app_switch"
proof -
  let ?s = "snd (set_connection two_port_switch)"
  have 1: "switch_reachable 1 ?s"
    by (rule reachable_step [OF two_port_switch_reachable]) (rule step_connect [OF surjective_pairing])
  have "rx_message 1 (h, MFlowMod table_miss_flow) ?s = (Inr (), app_switch)" for h
    using replace_run [OF switch_reachable_ok [OF 1], of match_init "Some 0"]
    by (simp add: rx_message_def rx_flow_mod_def flow_mod_add_def sm_run insert_flow_def table_miss_flow_def bits_set_def
        set_connection_def two_port_fields miss_entry_def app_switch_def from_flow_mod_def add_entry_before)
  then show ?thesis by (intro reachable_step [OF 1] step_message) blast
qed

theorem packet_in_to_flood_witness:
  "\<exists>s1 h m. rx_packet 5 0 1 None app_switch = (Inr (), s1) \<and> sw_sent s1 = sw_sent app_switch @ [(h, MPacketIn m)] \<and>
     (\<exists>po s2. execute_final_action action_loads \<lparr>pe_dpid = 1, pe_ofp = m\<rparr> (Some \<lparr>rs_reached = True, rs_action = action_json FLOOD\<rparr>) = Some po \<and>
       rx_message 4 (\<lparr>hdr_version = OFP_VERSION, hdr_xid = 9\<rparr>, MPacketOut po) s1 = (Inr (), s2) \<and>
       sw_output s2 = sw_output app_switch @ [(2, plain_frame)])"
proof -
  note f = two_port_fields two_ports app_switch_def
  obtain d where d: "eth_pack (lib_little (sw_lib app_switch)) (sw_packets app_switch ! 0) = Inr d" "length d < 65000"
    by (simp add: f plain_frame_def eth_pack_def unparsed_raw_def pack_payload.simps eth_hdr_def fmt_6s_def EMPTY_ETH_def ETH_BROADCAST_def)
  have p: "map_of (sw_ports app_switch) 1 = Some (plain_port 1)"
    "\<not> not_received (sw_config_flags app_switch) (plain_port 1) (sw_packets app_switch ! 0)"
    by (simp_all add: f not_received_def bits_set_def plain_port_def fragment_dropped_def)
  have e: "entry_for (sw_packets app_switch ! 0) 1 (sw_table app_switch) = Some miss_entry" "te_actions miss_entry = fm_actions table_miss_flow"
    by (simp_all add: f table_run miss_entry_def from_flow_mod_def table_miss_flow_def)
  have fl: "flood_ports 1 app_switch = [2]" "sw_packets app_switch ! 0 = plain_frame"
    by (simp_all add: f flood_ports_def forwards_def bits_set_def plain_port_def)
  have s: "sw_connected app_switch" "0 \<in> set (sf_acts (sw_features app_switch))"
    "length (sw_packet_buffer app_switch) < sw_max_buffers app_switch" "sw_max_buffers app_switch < 2 ^ 32 - 1"
    by (simp_all add: f default_features_def)
  obtain s1 h m where r: "rx_packet (Suc 4) 0 1 None app_switch = (Inr (), s1)" "sw_sent s1 = sw_sent app_switch @ [(h, MPacketIn m)]"
    "\<forall>ev :: packet_event. pe_ofp ev = m \<longrightarrow> (\<exists>po s2 i. execute_final_action action_loads ev (Some \<lparr>rs_reached = True, rs_action = action_json FLOOD\<rparr>) = Some po \<and>
       rx_message 4 (\<lparr>hdr_version = OFP_VERSION, hdr_xid = 9\<rparr>, MPacketOut po) s1 = (Inr (), s2) \<and>
       sw_output s2 = sw_output app_switch @ [(2, plain_frame)])"
    using packet_in_to_flood [OF app_switch_reachable s p d e action_loads_reads, of 4 "\<lparr>hdr_version = OFP_VERSION, hdr_xid = 9\<rparr>"]
    unfolding fl list.map by blast
  moreover have "Suc 4 = 5" by simp
  moreover have "pe_ofp \<lparr>pe_dpid = 1, pe_ofp = m\<rparr> = m" by simp
  ultimately show ?thesis by metis
qed

end
