(* ===== verification/Controller.thy ===== *)
theory Controller
  imports Messages
begin

text \<open>
  \<open>openflow/of_01.py\<close> and \<open>openflow/__init__.py\<close>: the controller's side of a connection to a switch.  The port
  collection, the handshake, the handlers of an established connection, the reassembly of statistics and the
  nexus' table of connections.  Events are recorded in the order in which they are raised; what the listeners on
  the nexus answer (whether the event is halted) is an argument.  Log output is left out.
\<close>

section \<open>\<open>PortCollection\<close>\<close>

text \<open>
  A set of ports is the list of its elements in the order of iteration.  The chain is the collection that is asked
  when this one does not know the answer.
\<close>

datatype port_collection = Ports (pc_ports: "phy_port list") (pc_masks: "16 word set") (pc_chain: "port_collection option")

datatype port_index = ByNumber "16 word" | ByAddr eth_addr | ByName bytes

fun indexes :: "port_index \<Rightarrow> phy_port \<Rightarrow> bool" where
  "indexes (ByNumber n) p = (pp_port_no p = n)"
| "indexes (ByAddr a) p = (pp_hw_addr p = a)"
| "indexes (ByName s) p = (pp_name p = s)"

fun pc_getitem :: "port_collection \<Rightarrow> port_index \<Rightarrow> phy_port result" where
  "pc_getitem (Ports ps ms chain) ix =
     (case find (indexes ix) ps of
        Some p \<Rightarrow> Inr p
      | None \<Rightarrow>
          (case chain of
             None \<Rightarrow> Inl IndexError
           | Some c \<Rightarrow> rbind (pc_getitem c ix) (\<lambda>p. if pp_port_no p \<notin> ms then Inr p else Inl IndexError)))"

fun pc_keys :: "port_collection \<Rightarrow> 16 word set" where
  "pc_keys (Ports ps ms chain) =
     (case chain of None \<Rightarrow> {} | Some c \<Rightarrow> pc_keys c - ms) \<union> set (map pp_port_no ps)"

definition pc_reset :: "port_collection \<Rightarrow> port_collection" where
  "pc_reset c = Ports [] {} (pc_chain c)"

definition without_port :: "16 word \<Rightarrow> phy_port list \<Rightarrow> phy_port list" where
  "without_port n ps = filter (\<lambda>p. pp_port_no p \<noteq> n) ps"

definition pc_forget :: "phy_port \<Rightarrow> port_collection \<Rightarrow> port_collection" where
  "pc_forget p c = Ports (without_port (pp_port_no p) (pc_ports c)) (insert (pp_port_no p) (pc_masks c)) (pc_chain c)"

definition pc_update :: "phy_port \<Rightarrow> port_collection \<Rightarrow> port_collection" where
  "pc_update p c = Ports (p # without_port (pp_port_no p) (pc_ports c)) (pc_masks c - {pp_port_no p}) (pc_chain c)"

definition pc_get :: "port_collection \<Rightarrow> port_index \<Rightarrow> phy_port option" where
  "pc_get c ix = (case pc_getitem c ix of Inl _ \<Rightarrow> None | Inr p \<Rightarrow> Some p)"

text \<open>What the collection means: the port of each number.\<close>

definition pc_view :: "port_collection \<Rightarrow> 16 word \<Rightarrow> phy_port option" where
  "pc_view c n = pc_get c (ByNumber n)"

section \<open>Connections\<close>

datatype of_event =
    ConnectionHandshakeComplete | ConnectionUp "features option" | ConnectionDown | FeaturesReceived features
  | PortStatus ofp_msg | PacketIn ofp_msg | ErrorIn ofp_msg | BarrierIn ofp_msg | FlowRemoved ofp_msg
  | ConfigurationReceived ofp_msg | RawStatsReply ofp_msg | SwitchDescReceived ofp_msg stats_reply_body
  | AggregateFlowStatsReceived ofp_msg stats_reply_body | FlowStatsReceived "ofp_msg list" "flow_stats list"
  | TableStatsReceived "ofp_msg list" "table_stats list" | PortStatsReceived "ofp_msg list" "port_stats list"
  | QueueStatsReceived "ofp_msg list" "queue_stats list"

text \<open>\<open>OpenFlowNexus\<close>: its settings, whether there is one for this connection, and what its listeners halt.\<close>

record nexus =
  nx_found :: bool
  nx_miss_send_len :: "16 word option"
  nx_clear_flows :: bool
  nx_halts :: "of_event \<Rightarrow> bool"

text \<open>
  \<open>Connection\<close> with the state of its handshake; \<open>co_up\<close> is a connection whose handlers are the default ones, and
  \<open>co_connections\<close> is the table of the nexus.  An event carries whether the nexus (\<open>True\<close>) or the connection
  raised it.
\<close>

record con =
  co_id :: nat
  co_dpid :: "64 word option"
  co_features :: "features option"
  co_description :: "stats_reply_body option"
  co_up :: bool
  co_features_asked :: bool
  co_barrier :: "32 word option option"
  co_deferred :: "ofp_msg list option"
  co_original :: port_collection
  co_ports :: port_collection
  co_previous :: "ofp_msg list"
  co_disconnected :: bool
  co_down_raised :: bool
  co_nexus :: bool
  co_connections :: "(64 word option, nat) dict"
  co_next_xid :: nat
  co_sent :: "ofp_msg list"
  co_events :: "(bool \<times> of_event) list"

type_synonym 'a co = "(con, 'a) sm"

definition raise_event :: "nexus \<Rightarrow> of_event \<Rightarrow> unit co" where
  "raise_event nx e = sthen (smod (\<lambda>c. c\<lparr>co_events := co_events c @ [(True, e)]\<rparr>))
     (if nx_halts nx e then sret () else smod (\<lambda>c. c\<lparr>co_events := co_events c @ [(False, e)]\<rparr>))"

text \<open>Packing a message draws a transaction number unless it has one.\<close>

definition next_xid :: "32 word co" where
  "next_xid = sbind (sget co_next_xid) (\<lambda>i.
     sthen (smod (\<lambda>c. c\<lparr>co_next_xid := if i + 1 > 0x7fFFffFF then 1 else i + 1\<rparr>)) (sret (word_of_nat i)))"

definition pack_message :: "32 word option \<Rightarrow> of_body \<Rightarrow> ofp_msg co" where
  "pack_message xid b = sbind (case xid of Some x \<Rightarrow> sret x | None \<Rightarrow> next_xid) (\<lambda>x.
     let m = (\<lparr>hdr_version = OFP_VERSION, hdr_xid = x\<rparr>, b) in sthen (slift (msg_pack m)) (sret m))"

definition con_write :: "ofp_msg list \<Rightarrow> unit co" where
  "con_write ms = smod (\<lambda>c. if co_disconnected c then c else c\<lparr>co_sent := co_sent c @ ms\<rparr>)"

definition con_send :: "32 word option \<Rightarrow> of_body \<Rightarrow> unit co" where
  "con_send xid b = sbind (sget co_disconnected) (\<lambda>d.
     if d then sret () else sbind (pack_message xid b) (\<lambda>m. con_write [m]))"

text \<open>\<open>_connect\<close> and \<open>_disconnect\<close> of the nexus.\<close>

definition nexus_connect :: "con \<Rightarrow> con" where
  "nexus_connect c = c\<lparr>co_connections := d_set (co_dpid c) (co_id c) (co_connections c)\<rparr>"

definition nexus_disconnect :: "64 word option \<Rightarrow> con \<Rightarrow> con" where
  "nexus_disconnect dpid c = c\<lparr>co_connections := d_del dpid (co_connections c)\<rparr>"

definition con_disconnect :: "bool \<Rightarrow> con \<Rightarrow> con" where
  "con_disconnect defer_event c0 =
     (let c = c0\<lparr>co_disconnected := True\<rparr>;
          c1 = (if co_nexus c then nexus_disconnect (co_dpid c) c else c) in
      if co_dpid c1 \<noteq> None \<and> \<not> co_down_raised c1 \<and> \<not> defer_event then
        c1\<lparr>co_down_raised := True, co_events := co_events c1 @ [(True, ConnectionDown), (False, ConnectionDown)]\<rparr>
      else c1)"

section \<open>Statistics\<close>

definition flow_parts :: "ofp_msg list \<Rightarrow> flow_stats list" where
  "flow_parts ps = concat (map (\<lambda>p. case snd p of MStatsReply _ (RFlow l) \<Rightarrow> l | _ \<Rightarrow> []) ps)"
definition table_parts :: "ofp_msg list \<Rightarrow> table_stats list" where
  "table_parts ps = concat (map (\<lambda>p. case snd p of MStatsReply _ (RTable l) \<Rightarrow> l | _ \<Rightarrow> []) ps)"
definition port_parts :: "ofp_msg list \<Rightarrow> port_stats list" where
  "port_parts ps = concat (map (\<lambda>p. case snd p of MStatsReply _ (RPort l) \<Rightarrow> l | _ \<Rightarrow> []) ps)"
definition queue_parts :: "ofp_msg list \<Rightarrow> queue_stats list" where
  "queue_parts ps = concat (map (\<lambda>p. case snd p of MStatsReply _ (RQueue l) \<Rightarrow> l | _ \<Rightarrow> []) ps)"

text \<open>The type and the body of a statistics reply.\<close>

definition part_type :: "ofp_msg \<Rightarrow> 16 word" where
  "part_type p = (case snd p of MStatsReply _ b \<Rightarrow> stats_reply_type b | _ \<Rightarrow> 0)"
definition part_body :: "ofp_msg \<Rightarrow> stats_reply_body" where
  "part_body p = (case snd p of MStatsReply _ b \<Rightarrow> b | _ \<Rightarrow> RRaw 0 [])"

definition is_last_reply :: "ofp_msg \<Rightarrow> bool" where
  "is_last_reply p = (case snd p of MStatsReply fl _ \<Rightarrow> fl AND 1 = 0 | _ \<Rightarrow> True)"

text \<open>\<open>statsHandlerMap\<close>: the event of the parts of one reply.\<close>

definition stats_event :: "ofp_msg list \<Rightarrow> of_event option" where
  "stats_event ps =
     (let t = part_type (hd ps) in
      if t = 0 then Some (SwitchDescReceived (hd ps) (part_body (hd ps)))
      else if t = 1 then Some (FlowStatsReceived ps (flow_parts ps))
      else if t = 2 then Some (AggregateFlowStatsReceived (hd ps) (part_body (hd ps)))
      else if t = 3 then Some (TableStatsReceived ps (table_parts ps))
      else if t = 4 then Some (PortStatsReceived ps (port_parts ps))
      else if t = 5 then Some (QueueStatsReceived ps (queue_parts ps))
      else None)"

text \<open>
  \<open>_incoming_stats_reply\<close>.  A reply that does not continue the one in progress is to be logged with the fields of
  \<open>_previous_stats_reply\<close>, which nothing sets; a type without handler is to be logged with the first element of the
  list that has just been emptied.
\<close>

definition finish_stats :: "nexus \<Rightarrow> unit co" where
  "finish_stats nx = sbind (sget co_previous) (\<lambda>s.
     sthen (smod (\<lambda>c. c\<lparr>co_previous := []\<rparr>))
       (case stats_event s of None \<Rightarrow> sraise IndexError | Some e \<Rightarrow> raise_event nx e))"

definition incoming_stats_reply :: "nexus \<Rightarrow> ofp_msg \<Rightarrow> unit co" where
  "incoming_stats_reply nx m =
     (if \<not> is_last_reply m \<and> part_type m \<notin> {1, 3, 4, 5} then smod (\<lambda>c. c\<lparr>co_previous := []\<rparr>)
      else sbind (sget co_previous) (\<lambda>prev.
        if prev \<noteq> [] \<and> \<not> (hdr_xid (fst m) = hdr_xid (fst (hd prev)) \<and> part_type m = part_type (hd prev)) then sraise AttributeError
        else sthen (smod (\<lambda>c. c\<lparr>co_previous := prev @ [m]\<rparr>))
          (if is_last_reply m then finish_stats nx else sret ())))"

section \<open>Handlers of an established connection\<close>

definition handle_port_status :: "nexus \<Rightarrow> ofp_msg \<Rightarrow> unit co" where
  "handle_port_status nx m =
     (case snd m of
        MPortStatus reason desc \<Rightarrow>
          sthen (smod (\<lambda>c. c\<lparr>co_ports := (if reason = 1 then pc_forget else pc_update) desc (co_ports c)\<rparr>))
            (raise_event nx (PortStatus m))
      | _ \<Rightarrow> sret ())"

text \<open>
  The code keeps the ports of a features reply in a Python set; here they are in the order of the message, and the search for
  a port takes the first that fits.  Which one the code takes differs only when two ports of one reply share a number, a
  name or an address, where it depends on their hashes.
\<close>

definition set_features :: "features \<Rightarrow> con \<Rightarrow> con" where
  "set_features f c =
     (let orig = Ports (fe_ports f) (pc_masks (co_original c)) (pc_chain (co_original c)) in
      c\<lparr>co_features := Some f, co_original := orig, co_ports := Ports [] {} (Some orig), co_dpid := Some (fe_datapath_id f)\<rparr>)"

definition default_handle :: "nexus \<Rightarrow> ofp_msg \<Rightarrow> unit co" where
  "default_handle nx m =
     (case snd m of
        MStatsReply _ _ \<Rightarrow> sthen (raise_event nx (RawStatsReply m)) (incoming_stats_reply nx m)
      | MPortStatus _ _ \<Rightarrow> handle_port_status nx m
      | MPacketIn _ \<Rightarrow> raise_event nx (PacketIn m)
      | MError _ _ _ \<Rightarrow> raise_event nx (ErrorIn m)
      | MBarrierReply \<Rightarrow> raise_event nx (BarrierIn m)
      | MHello \<Rightarrow> con_send None MFeaturesRequest
      | MEchoRequest b \<Rightarrow> con_send (Some (hdr_xid (fst m))) (MEchoReply b)
      | MFlowRemoved _ \<Rightarrow> raise_event nx (FlowRemoved m)
      | MFeaturesReply f \<Rightarrow> sthen (smod (set_features f)) (sthen (smod nexus_connect) (raise_event nx (FeaturesReceived f)))
      | MGetConfigReply _ _ \<Rightarrow> raise_event nx (ConfigurationReceived m)
      | _ \<Rightarrow> sret ())"

section \<open>The handshake\<close>

text \<open>\<open>_finish_connecting\<close>.\<close>

definition finish_connecting :: "nexus \<Rightarrow> unit co" where
  "finish_connecting nx =
     sthen (smod nexus_connect) (sthen (smod (\<lambda>c. c\<lparr>co_up := True\<rparr>))
     (sthen (smod (\<lambda>c. c\<lparr>co_events := co_events c @ [(True, ConnectionHandshakeComplete)]\<rparr>))
     (sbind (sget co_features) (\<lambda>f. sthen (raise_event nx (ConnectionUp f))
     (sthen (case f of None \<Rightarrow> sret () | Some f \<Rightarrow> raise_event nx (FeaturesReceived f))
     (sbind (sget co_deferred) (\<lambda>d. case d of
        None \<Rightarrow> sret ()
      | Some ms \<Rightarrow> if ms = [] then sret ()
          else sthen (sfor ms (handle_port_status nx)) (smod (\<lambda>c. c\<lparr>co_deferred := None\<rparr>)))))))))"

definition clear_flows :: flow_mod where
  "clear_flows = \<lparr>fm_match = match_init, fm_cookie = 0, fm_command = 3, fm_idle_timeout = 0, fm_hard_timeout = 0,
     fm_priority = 32768, fm_buffer_id = NO_BUFFER, fm_out_port = OFPP_NONE, fm_flags = 0, fm_actions = [], fm_data = None\<rparr>"

definition handshake_features :: "nexus \<Rightarrow> ofp_hdr \<Rightarrow> features \<Rightarrow> unit co" where
  "handshake_features nx h f =
     (if hdr_version h \<noteq> OFP_VERSION then smod (con_disconnect False)
      else sthen (smod (set_features f)) (sthen (smod (\<lambda>c. c\<lparr>co_deferred := Some []\<rparr>))
        (if \<not> nx_found nx then smod (con_disconnect False)
         else sthen (smod (\<lambda>c. c\<lparr>co_nexus := True\<rparr>))
           (sthen (case nx_miss_send_len nx of None \<Rightarrow> sret () | Some n \<Rightarrow> con_send None (MSetConfig 0 n))
           (sthen (if nx_clear_flows nx then con_send None (MFlowMod clear_flows) else sret ())
           (sbind (sget co_disconnected) (\<lambda>d. if d then smod (\<lambda>c. c\<lparr>co_barrier := Some None\<rparr>)
             else sbind (pack_message None MBarrierRequest) (\<lambda>b.
               sthen (smod (\<lambda>c. c\<lparr>co_barrier := Some (Some (hdr_xid (fst b)))\<rparr>)) (con_write [b])))))))))"

definition handshake_handle :: "nexus \<Rightarrow> ofp_msg \<Rightarrow> unit co" where
  "handshake_handle nx m = sbind (sget co_barrier) (\<lambda>barrier.
     case snd m of
       MBarrierReply \<Rightarrow>
         (case barrier of
            None \<Rightarrow> sret ()
          | Some x \<Rightarrow> if Some (hdr_xid (fst m)) \<noteq> x then smod (\<lambda>c. con_disconnect False (c\<lparr>co_dpid := None\<rparr>)) else finish_connecting nx)
     | MError ty code _ \<Rightarrow>
         if barrier = Some (Some (hdr_xid (fst m))) \<and> ty = 1 \<and> code = 1 then finish_connecting nx else sret ()
     | MHello \<Rightarrow> sbind (sget co_features_asked) (\<lambda>a.
         if a then sret ()
         else sthen (smod (\<lambda>c. c\<lparr>co_features_asked := True\<rparr>))
           (sbind (pack_message None MFeaturesRequest) (\<lambda>fr. sbind (pack_message None (MStatsRequest 0 SRDesc)) (\<lambda>ss. con_write [fr, ss]))))
     | MEchoRequest b \<Rightarrow> con_send (Some (hdr_xid (fst m))) (MEchoReply b)
     | MStatsReply _ (RDesc d) \<Rightarrow> smod (\<lambda>c. c\<lparr>co_description := Some (RDesc d)\<rparr>)
     | MFeaturesReply f \<Rightarrow> handshake_features nx (fst m) f
     | MPortStatus _ _ \<Rightarrow> smod (\<lambda>c. case co_deferred c of None \<Rightarrow> c | Some ms \<Rightarrow> c\<lparr>co_deferred := Some (ms @ [m])\<rparr>)
     | _ \<Rightarrow> sret ())"

text \<open>The handler that \<open>read\<close> calls.\<close>

definition con_handle :: "nexus \<Rightarrow> ofp_msg \<Rightarrow> unit co" where
  "con_handle nx m = sbind (sget co_up) (\<lambda>up. if up then default_handle nx m else handshake_handle nx m)"

definition new_con :: "nat \<Rightarrow> (64 word option, nat) dict \<Rightarrow> nat \<Rightarrow> con" where
  "new_con i conns xid = \<lparr>co_id = i, co_dpid = None, co_features = None, co_description = None, co_up = False,
     co_features_asked = False, co_barrier = None, co_deferred = None, co_original = Ports [] {} None,
     co_ports = Ports [] {} (Some (Ports [] {} None)), co_previous = [], co_disconnected = False, co_down_raised = False,
     co_nexus = False, co_connections = conns, co_next_xid = xid, co_sent = [], co_events = []\<rparr>"

definition open_con :: "nat \<Rightarrow> (64 word option, nat) dict \<Rightarrow> nat \<Rightarrow> con" where
  "open_con i conns xid = snd (con_send None MHello (new_con i conns xid))"

section \<open>The view of the ports\<close>

text \<open>The changes of ports in an abstract table.\<close>

definition port_change :: "(phy_port \<Rightarrow> 't \<Rightarrow> 't) \<Rightarrow> (phy_port \<Rightarrow> 't \<Rightarrow> 't) \<Rightarrow> byte \<times> phy_port \<Rightarrow> 't \<Rightarrow> 't" where
  "port_change put del ch t = (case ch of (reason, p) \<Rightarrow> if reason = 1 then del p t else put p t)"

abbreviation map_change :: "byte \<times> phy_port \<Rightarrow> (16 word \<Rightarrow> phy_port option) \<Rightarrow> (16 word \<Rightarrow> phy_port option)" where
  "map_change \<equiv> port_change (\<lambda>p v. v(pp_port_no p \<mapsto> p)) (\<lambda>p v. v(pp_port_no p := None))"

locale port_table =
  fixes view :: "'t \<Rightarrow> 16 word \<Rightarrow> phy_port option"
    and put :: "phy_port \<Rightarrow> 't \<Rightarrow> 't"
    and del :: "phy_port \<Rightarrow> 't \<Rightarrow> 't"
  assumes view_put: "view (put p t) = (view t)(pp_port_no p \<mapsto> p)"
    and view_del: "view (del p t) = (view t)(pp_port_no p := None)"
begin

lemma view_change: "view (port_change put del ch t) = map_change ch (view t)"
  by (cases ch) (simp add: port_change_def view_put view_del)

lemma view_changes: "view (fold (port_change put del) chs t) = fold map_change chs (view t)"
  by (induction chs arbitrary: t) (simp_all add: view_change)

end

lemma indexes_number [simp]: "indexes (ByNumber n) = (\<lambda>p. pp_port_no p = n)"
  by (intro ext) simp

lemma getitem_number: "pc_getitem c (ByNumber n) = Inr p \<Longrightarrow> pp_port_no p = n"
proof (induction c "ByNumber n" rule: pc_getitem.induct)
  case (1 ps ms chain)
  show ?case
  proof (cases "find (indexes (ByNumber n)) ps")
    case None
    with 1 show ?thesis by (auto split: option.splits if_splits)
  next
    case (Some q)
    then have "pp_port_no q = n" by (metis (mono_tags, lifting) find_Some_iff indexes_number)
    with Some 1 show ?thesis by simp
  qed
qed

lemma find_without: "find (\<lambda>p. pp_port_no p = n) (without_port m ps) = (if n = m then None else find (\<lambda>p. pp_port_no p = n) ps)"
  by (induction ps) (auto simp: without_port_def)

lemma view_masks:
  assumes "n \<in> ms \<longleftrightarrow> n \<in> ms'" "find (\<lambda>p. pp_port_no p = n) ps = find (\<lambda>p. pp_port_no p = n) ps'"
  shows "pc_view (Ports ps ms ch) n = pc_view (Ports ps' ms' ch) n"
  using assms
  by (cases ch) (auto simp: pc_view_def pc_get_def rbind_def dest!: getitem_number split: option.splits sum.splits)

interpretation pcs: port_table pc_view pc_update pc_forget
proof
  fix p c
  obtain ps ms ch where c: "c = Ports ps ms ch" by (cases c)
  show "pc_view (pc_update p c) = (pc_view c)(pp_port_no p \<mapsto> p)"
  proof
    fix n
    show "pc_view (pc_update p c) n = ((pc_view c)(pp_port_no p \<mapsto> p)) n"
    proof (cases "n = pp_port_no p")
      case True
      then show ?thesis by (simp add: c pc_view_def pc_get_def pc_update_def)
    next
      case False
      then have "pc_view (pc_update p c) n = pc_view c n"
        unfolding c pc_update_def port_collection.sel by (intro view_masks) (auto simp: find_without)
      with False show ?thesis by simp
    qed
  qed
  show "pc_view (pc_forget p c) = (pc_view c)(pp_port_no p := None)"
  proof
    fix n
    show "pc_view (pc_forget p c) n = ((pc_view c)(pp_port_no p := None)) n"
    proof (cases "n = pp_port_no p")
      case True
      then show ?thesis
        by (cases ch) (auto simp: c pc_view_def pc_get_def pc_forget_def find_without rbind_def dest: getitem_number split: option.splits sum.splits)
    next
      case False
      then have "pc_view (pc_forget p c) n = pc_view c n"
        unfolding c pc_forget_def port_collection.sel by (intro view_masks) (auto simp: find_without)
      with False show ?thesis by simp
    qed
  qed
qed

text \<open>The switch's own dictionary of ports is such a table too.\<close>

interpretation sws: port_table map_of "\<lambda>p. d_set (pp_port_no p) p" "\<lambda>p. d_del (pp_port_no p)"
  by unfold_locales (simp_all add: map_of_d_set map_of_d_del)

lemma keys_view: "n \<in> pc_keys c \<longleftrightarrow> pc_view c n \<noteq> None"
proof (induction c rule: pc_keys.induct)
  case (1 ps ms chain)
  have f: "find (\<lambda>p. pp_port_no p = n) ps = None \<longleftrightarrow> n \<notin> pp_port_no ` set ps"
    by (auto simp: find_None_iff)
  show ?case
  proof (cases chain)
    case None
    then show ?thesis using f by (auto simp: pc_view_def pc_get_def split: option.splits)
  next
    case (Some c)
    have "n \<in> pc_keys c \<longleftrightarrow> pc_view c n \<noteq> None" by (rule 1) (rule Some)
    then show ?thesis
      using f Some getitem_number [of c n] by (auto simp: pc_view_def pc_get_def rbind_def split: option.splits sum.splits)
  qed
qed

section \<open>Running the handlers\<close>

definition con_after :: "nexus \<Rightarrow> ofp_msg list \<Rightarrow> con \<Rightarrow> con" where
  "con_after nx ms c = fold (\<lambda>m c. snd (con_handle nx m c)) ms c"

lemma con_after_simps [simp]:
  "con_after nx [] c = c" "con_after nx (m # ms) c = con_after nx ms (snd (con_handle nx m c))"
  "con_after nx (ms @ ms') c = con_after nx ms' (con_after nx ms c)"
  by (simp_all add: con_after_def)

text \<open>Operations that change nothing but the traffic, the events and the parts of a reply in progress.\<close>

definition same_state :: "con \<Rightarrow> con \<Rightarrow> bool" where
  "same_state c c' \<longleftrightarrow> co_up c' = co_up c \<and> co_features c' = co_features c \<and> co_deferred c' = co_deferred c \<and>
     co_original c' = co_original c \<and> co_ports c' = co_ports c"

definition state_blind :: "(con \<Rightarrow> bool) \<Rightarrow> bool" where
  "state_blind P \<longleftrightarrow> (\<forall>c c'. same_state c c' \<longrightarrow> P c = P c')"

lemma keeps_state: "state_blind P \<Longrightarrow> (\<And>c. same_state c (f c)) \<Longrightarrow> keeps P (smod f)"
  unfolding keeps_def state_blind_def sm_run by fastforce

definition event_log :: "nexus \<Rightarrow> of_event \<Rightarrow> (bool \<times> of_event) list" where
  "event_log nx e = (True, e) # (if nx_halts nx e then [] else [(False, e)])"

lemma raise_event_run [sm_run]: "raise_event nx e c = (Inr (), c\<lparr>co_events := co_events c @ event_log nx e\<rparr>)"
  by (simp add: raise_event_def event_log_def sm_run)

lemma raise_keeps [keep]: "state_blind P \<Longrightarrow> keeps P (raise_event nx e)"
  unfolding raise_event_def by (intro keep keeps_state) (simp_all add: same_state_def)

lemma con_send_keeps [keep]:
  assumes "state_blind P"
  shows "keeps P next_xid" "keeps P (pack_message xid b)" "keeps P (con_write ms)" "keeps P (con_send xid b)"
proof -
  show x: "keeps P next_xid" unfolding next_xid_def by (intro keep keeps_state assms) (simp add: same_state_def)
  show w: "keeps P (con_write ms)" for ms unfolding con_write_def by (intro keeps_state assms) (simp add: same_state_def)
  show p: "keeps P (pack_message xid b)" unfolding pack_message_def Let_def by (intro keep x)
  show "keeps P (con_send xid b)" unfolding con_send_def by (intro keep p w)
qed

lemma stats_keeps [keep]:
  assumes "state_blind P"
  shows "keeps P (incoming_stats_reply nx m)"
  unfolding incoming_stats_reply_def finish_stats_def by (intro keep keeps_state assms) (simp_all add: same_state_def)

lemma disconnect_same: "same_state c (con_disconnect d (c\<lparr>co_dpid := x\<rparr>))" "same_state c (con_disconnect d c)"
  by (simp_all add: same_state_def con_disconnect_def Let_def nexus_disconnect_def)

lemma handle_port_status_run:
  "handle_port_status nx (h, MPortStatus r p) c =
     (Inr (), c\<lparr>co_ports := port_change pc_update pc_forget (r, p) (co_ports c),
        co_events := co_events c @ event_log nx (PortStatus (h, MPortStatus r p))\<rparr>)"
  by (simp add: handle_port_status_def sm_run port_change_def)

text \<open>What a message says about the ports.\<close>

definition features_view :: "features \<Rightarrow> 16 word \<Rightarrow> phy_port option" where
  "features_view f n = find (\<lambda>p. pp_port_no p = n) (fe_ports f)"

definition msg_view :: "ofp_msg \<Rightarrow> (16 word \<Rightarrow> phy_port option) \<Rightarrow> (16 word \<Rightarrow> phy_port option)" where
  "msg_view m v = (case snd m of MPortStatus r p \<Rightarrow> map_change (r, p) v | MFeaturesReply f \<Rightarrow> features_view f | _ \<Rightarrow> v)"

lemma msg_view_simps [simp]:
  "msg_view (h, MPortStatus r p) v = map_change (r, p) v" "msg_view (h, MFeaturesReply f) v = features_view f"
  by (simp_all add: msg_view_def)

text \<open>The ports that the connection knows of: its collection, and what it has put off until it is up.\<close>

definition known_ports :: "con \<Rightarrow> 16 word \<Rightarrow> phy_port option" where
  "known_ports c = fold msg_view (case co_deferred c of None \<Rightarrow> [] | Some ms \<Rightarrow> ms) (pc_view (co_ports c))"

definition statuses :: "ofp_msg list \<Rightarrow> bool" where
  "statuses ms \<longleftrightarrow> list_all (\<lambda>m. case snd m of MPortStatus _ _ \<Rightarrow> True | _ \<Rightarrow> False) ms"

definition con_ok :: "con \<Rightarrow> bool" where
  "con_ok c \<longleftrightarrow> (co_up c \<longrightarrow> co_deferred c \<in> {None, Some []}) \<and>
     (case co_deferred c of None \<Rightarrow> True | Some ms \<Rightarrow> statuses ms) \<and>
     (co_features c \<noteq> None \<longrightarrow> co_up c \<or> co_deferred c \<noteq> None) \<and> pc_chain (co_original c) = None"

definition knows :: "(16 word \<Rightarrow> phy_port option) \<Rightarrow> con \<Rightarrow> bool" where
  "knows v c \<longleftrightarrow> con_ok c \<and> co_features c \<noteq> None \<and> known_ports c = v"

lemma knows_blind: "state_blind (knows v)"
  by (auto simp: state_blind_def same_state_def con_ok_def known_ports_def knows_def)

lemma set_features_view:
  assumes "pc_chain (co_original c) = None"
  shows "pc_view (co_ports (set_features f c)) = features_view f"
proof
  fix n
  show "pc_view (co_ports (set_features f c)) n = features_view f n"
    using assms by (cases "find (\<lambda>p. pp_port_no p = n) (fe_ports f)")
       (auto simp: set_features_def Let_def pc_view_def pc_get_def features_view_def)
qed

lemma set_features_fields [simp]:
  "co_features (set_features f c) = Some f" "co_up (set_features f c) = co_up c" "co_deferred (set_features f c) = co_deferred c"
  "pc_chain (co_original (set_features f c)) = pc_chain (co_original c)"
  by (simp_all add: set_features_def Let_def)

lemma statuses_run:
  "statuses ms \<Longrightarrow> \<exists>c'. sfor ms (handle_port_status nx) c = (Inr (), c') \<and>
     pc_view (co_ports c') = fold msg_view ms (pc_view (co_ports c)) \<and>
     co_up c' = co_up c \<and> co_features c' = co_features c \<and> co_deferred c' = co_deferred c \<and> co_original c' = co_original c \<and>
     co_events c' = co_events c @ concat (map (\<lambda>m. event_log nx (PortStatus m)) ms)"
proof (induction ms arbitrary: c)
  case (Cons m ms)
  from Cons.prems obtain h r p where m: "m = (h, MPortStatus r p)"
    by (cases m; cases "snd m") (auto simp: statuses_def)
  let ?c = "c\<lparr>co_ports := port_change pc_update pc_forget (r, p) (co_ports c),
        co_events := co_events c @ event_log nx (PortStatus (h, MPortStatus r p))\<rparr>"
  have "statuses ms" using Cons.prems by (simp add: statuses_def)
  then obtain c' where "sfor ms (handle_port_status nx) ?c = (Inr (), c')"
     "pc_view (co_ports c') = fold msg_view ms (pc_view (co_ports ?c))"
     "co_up c' = co_up ?c" "co_features c' = co_features ?c" "co_deferred c' = co_deferred ?c" "co_original c' = co_original ?c"
     "co_events c' = co_events ?c @ concat (map (\<lambda>m. event_log nx (PortStatus m)) ms)"
    using Cons.IH [of ?c] by blast
  moreover have "handle_port_status nx m c = (Inr (), ?c)" unfolding m by (rule handle_port_status_run)
  ultimately show ?case
    by (intro exI [of _ c']) (simp add: sthen_Inr m pcs.view_change)
qed (simp add: sm_run)

lemma finish_connecting_run:
  assumes "case co_deferred c of None \<Rightarrow> True | Some ms \<Rightarrow> statuses ms"
  shows "\<exists>c'. finish_connecting nx c = (Inr (), c') \<and> co_up c' \<and> co_features c' = co_features c \<and> co_original c' = co_original c \<and>
    co_deferred c' \<in> {None, Some []} \<and> pc_view (co_ports c') = known_ports c \<and>
    co_events c' = co_events c @ (True, ConnectionHandshakeComplete) # event_log nx (ConnectionUp (co_features c)) @
      (case co_features c of None \<Rightarrow> [] | Some f \<Rightarrow> event_log nx (FeaturesReceived f)) @
      concat (map (\<lambda>m. event_log nx (PortStatus m)) (case co_deferred c of None \<Rightarrow> [] | Some ms \<Rightarrow> ms))"
proof -
  define ms where "ms = (case co_deferred c of None \<Rightarrow> [] | Some ms \<Rightarrow> ms)"
  define c1 where "c1 = nexus_connect c\<lparr>co_up := True, co_events := co_events c @ (True, ConnectionHandshakeComplete) #
      event_log nx (ConnectionUp (co_features c)) @ (case co_features c of None \<Rightarrow> [] | Some f \<Rightarrow> event_log nx (FeaturesReceived f))\<rparr>"
  have "statuses ms" using assms by (auto simp: ms_def statuses_def split: option.splits)
  then obtain c' where c': "sfor ms (handle_port_status nx) c1 = (Inr (), c')"
     "pc_view (co_ports c') = fold msg_view ms (pc_view (co_ports c1))"
     "co_up c' = co_up c1" "co_features c' = co_features c1" "co_deferred c' = co_deferred c1" "co_original c' = co_original c1"
     "co_events c' = co_events c1 @ concat (map (\<lambda>m. event_log nx (PortStatus m)) ms)"
    using statuses_run [of ms nx c1] by blast
  have c1: "co_up c1" "co_features c1 = co_features c" "co_deferred c1 = co_deferred c" "co_original c1 = co_original c"
    "co_ports c1 = co_ports c"
    by (simp_all add: c1_def nexus_connect_def)
  have fin: "finish_connecting nx c = (if ms = [] then (Inr (), c1) else (Inr (), c'\<lparr>co_deferred := None\<rparr>))"
    using c'(1) by (cases "co_features c"; cases "co_deferred c")
      (auto simp: finish_connecting_def sm_run nexus_connect_def c1_def ms_def sthen_Inr)
  show ?thesis
  proof (cases "ms = []")
    case True
    with fin c1 show ?thesis by (intro exI [of _ c1]) (auto simp: known_ports_def ms_def c1_def split: option.splits)
  next
    case False
    with fin c' c1 show ?thesis
      by (intro exI [of _ "c'\<lparr>co_deferred := None\<rparr>"]) (auto simp: known_ports_def ms_def c1_def nexus_connect_def)
  qed
qed

lemma knows_at: "keeps (knows v) m \<Longrightarrow> knows v s \<Longrightarrow> knows v (snd (m s))"
  by (rule keeps_at)

lemma default_known:
  assumes "knows v c" "co_up c"
  shows "knows (msg_view m v) (snd (default_handle nx m c))"
proof (cases "snd m")
  case (MPortStatus r p)
  obtain h where m: "m = (h, MPortStatus r p)" using MPortStatus by (cases m) auto
  have "known_ports c = pc_view (co_ports c)" using assms by (auto simp: knows_def con_ok_def known_ports_def)
  then show ?thesis
    using assms by (auto simp: m default_handle_def handle_port_status_run knows_def con_ok_def known_ports_def pcs.view_change split: option.splits)
next
  case (MFeaturesReply f)
  obtain h where m: "m = (h, MFeaturesReply f)" using MFeaturesReply by (cases m) auto
  let ?c = "nexus_connect (set_features f c)"
  have "default_handle nx m c = raise_event nx (FeaturesReceived f) ?c" by (simp add: m default_handle_def sm_run)
  moreover have "knows (features_view f) ?c"
    using assms set_features_view [of c f]
    by (auto simp: knows_def con_ok_def known_ports_def nexus_connect_def split: option.splits)
  ultimately show ?thesis using knows_at [OF raise_keeps [OF knows_blind]] by (simp add: m)
qed (auto simp: default_handle_def msg_view_def intro!: knows_at [OF _ assms(1)] keep knows_blind)

lemma handshake_known:
  assumes "knows v c" "\<not> co_up c" "hdr_version (fst m) = OFP_VERSION"
  shows "knows (msg_view m v) (snd (handshake_handle nx m c))"
proof -
  have d: "case co_deferred c of None \<Rightarrow> True | Some ms \<Rightarrow> statuses ms" and o: "pc_chain (co_original c) = None"
    using assms by (auto simp: knows_def con_ok_def)
  have same: "knows v (f c)" if "same_state c (f c)" for f
    using that assms(1) knows_blind [of v] by (auto simp: state_blind_def)
  have up: "knows v (snd (finish_connecting nx c))"
    using finish_connecting_run [OF d, of nx] assms(1) o by (auto simp: knows_def con_ok_def known_ports_def statuses_def)
  show ?thesis
  proof (cases "snd m")
    case (MPortStatus r p)
    obtain h where m: "m = (h, MPortStatus r p)" using MPortStatus by (cases m) auto
    obtain ms where ms: "co_deferred c = Some ms" "statuses ms" using assms(1,2) d by (auto simp: knows_def con_ok_def)
    then have "handshake_handle nx m c = (Inr (), c\<lparr>co_deferred := Some (ms @ [m])\<rparr>)" by (simp add: handshake_handle_def sm_run m)
    then show ?thesis using ms assms(1,2) by (auto simp: knows_def con_ok_def known_ports_def m statuses_def)
  next
    case (MFeaturesReply f)
    obtain h where m: "m = (h, MFeaturesReply f)" using MFeaturesReply by (cases m) auto
    let ?c = "(set_features f c)\<lparr>co_deferred := Some []\<rparr>"
    have k: "knows (features_view f) ?c"
      using assms o set_features_view [OF o, of f] by (auto simp: knows_def con_ok_def known_ports_def statuses_def)
    let ?rest = "if \<not> nx_found nx then smod (con_disconnect False)
         else sthen (smod (\<lambda>c. c\<lparr>co_nexus := True\<rparr>))
           (sthen (case nx_miss_send_len nx of None \<Rightarrow> sret () | Some n \<Rightarrow> con_send None (MSetConfig 0 n))
           (sthen (if nx_clear_flows nx then con_send None (MFlowMod clear_flows) else sret ())
           (sbind (sget co_disconnected) (\<lambda>d. if d then smod (\<lambda>c. c\<lparr>co_barrier := Some None\<rparr>)
             else sbind (pack_message None MBarrierRequest) (\<lambda>b.
               sthen (smod (\<lambda>c. c\<lparr>co_barrier := Some (Some (hdr_xid (fst b)))\<rparr>)) (con_write [b]))))))"
    have "keeps (knows (features_view f)) ?rest"
      by (intro keep keeps_state knows_blind) (simp_all add: disconnect_same, simp_all add: same_state_def)
    then have "knows (features_view f) (snd (?rest ?c))" using k by (rule knows_at)
    then show ?thesis using assms(3) by (simp add: m handshake_handle_def handshake_features_def sm_run)
  next
    case MHello
    have "keeps (knows v) (sthen (smod (\<lambda>c. c\<lparr>co_features_asked := True\<rparr>))
        (sbind (pack_message None MFeaturesRequest) (\<lambda>fr. sbind (pack_message None (MStatsRequest 0 SRDesc)) (\<lambda>ss. con_write [fr, ss]))))"
      by (intro keep keeps_state knows_blind) (simp add: same_state_def)
    then show ?thesis using MHello knows_at [OF _ assms(1)] assms(1) by (auto simp: handshake_handle_def msg_view_def sm_run_simps sm_seq(1))
  next
    case MBarrierReply
    then show ?thesis
      using up assms(1) same [of "\<lambda>c. con_disconnect False (c\<lparr>co_dpid := None\<rparr>)"]
      by (auto simp: handshake_handle_def msg_view_def sm_run disconnect_same split: option.splits)
  next
    case (MError ty code d)
    then show ?thesis using up assms(1) by (auto simp: handshake_handle_def msg_view_def sm_run)
  next
    case (MEchoRequest b)
    then show ?thesis
      using knows_at [OF con_send_keeps(4) [OF knows_blind] assms(1)] by (simp add: handshake_handle_def msg_view_def sm_run)
  next
    case (MStatsReply fl b)
    have "knows v (c\<lparr>co_description := x\<rparr>)" for x using same [of "\<lambda>c. c\<lparr>co_description := x\<rparr>"] by (simp add: same_state_def)
    then show ?thesis using MStatsReply assms(1) by (cases b) (simp_all add: handshake_handle_def msg_view_def sm_run)
  qed (simp_all add: handshake_handle_def msg_view_def sm_run assms(1))
qed

text \<open>
  C3. From the features reply on, no change of a port is lost.  Whatever messages of the right version follow, what
  the connection knows of the switch's ports is what the features reply and the port status messages say, one after
  the other; and when the connection is up, that is what its collection answers, and \<open>keys\<close> lists those ports.
\<close>

theorem ports_follow_switch:
  assumes "list_all (\<lambda>m. hdr_version (fst m) = OFP_VERSION) ms" "con_ok c" "co_features c \<noteq> None"
  shows "known_ports (con_after nx ms c) = fold msg_view ms (known_ports c) \<and>
    (co_up (con_after nx ms c) \<longrightarrow> pc_view (co_ports (con_after nx ms c)) = fold msg_view ms (known_ports c) \<and>
       pc_keys (co_ports (con_after nx ms c)) = dom (fold msg_view ms (known_ports c)))"
proof -
  have "list_all (\<lambda>m. hdr_version (fst m) = OFP_VERSION) ms \<Longrightarrow> knows v c \<Longrightarrow> knows (fold msg_view ms v) (con_after nx ms c)" for ms v c
  proof (induction ms arbitrary: v c)
    case (Cons m ms)
    have "knows (msg_view m v) (snd (con_handle nx m c))"
      using default_known [OF Cons.prems(2), of m nx] handshake_known [OF Cons.prems(2), of m nx] Cons.prems(1)
      by (simp add: con_handle_def sm_run)
    then show ?case using Cons by simp
  qed simp
  then have k: "knows (fold msg_view ms (known_ports c)) (con_after nx ms c)" using assms by (simp add: knows_def)
  then have "co_up (con_after nx ms c) \<longrightarrow> pc_view (co_ports (con_after nx ms c)) = known_ports (con_after nx ms c)"
    by (auto simp: knows_def con_ok_def known_ports_def)
  moreover have "pc_keys pcs = dom (pc_view pcs)" for pcs using keys_view by blast
  ultimately show ?thesis using k by (simp add: knows_def)
qed

text \<open>A port is taken away while the handshake is waiting for its barrier, and the handshake then ends.\<close>

definition some_port :: "16 word \<Rightarrow> phy_port" where
  "some_port n = \<lparr>pp_port_no = n, pp_hw_addr = [2, 0, 0, 0, 0, 1], pp_name = ascii ''p'', pp_config = 0, pp_state = 0, pp_curr = 0,
     pp_advertised = 0, pp_supported = 0, pp_peer = 0\<rparr>"

definition two_ports_reply :: features where
  "two_ports_reply = \<lparr>fe_datapath_id = 1, fe_n_buffers = 0, fe_n_tables = 1, fe_capabilities = 0, fe_actions = 1,
     fe_ports = [some_port 1, some_port 2]\<rparr>"

definition plain_nexus :: nexus where
  "plain_nexus = \<lparr>nx_found = True, nx_miss_send_len = None, nx_clear_flows = False, nx_halts = (\<lambda>_. False)\<rparr>"

definition half_open :: con where
  "half_open = (set_features two_ports_reply (new_con 0 [] 1))\<lparr>co_deferred := Some [], co_barrier := Some (Some 5), co_nexus := True\<rparr>"

theorem ports_follow_switch_witness:
  "pc_view (co_ports (con_after plain_nexus [(\<lparr>hdr_version = OFP_VERSION, hdr_xid = 0\<rparr>, MPortStatus 1 (some_port 1)),
       (\<lparr>hdr_version = OFP_VERSION, hdr_xid = 5\<rparr>, MBarrierReply)] half_open)) 1 = None"
proof -
  let ?ms = "[(\<lparr>hdr_version = OFP_VERSION, hdr_xid = 0\<rparr>, MPortStatus 1 (some_port 1)), (\<lparr>hdr_version = OFP_VERSION, hdr_xid = 5\<rparr>, MBarrierReply)]"
  have "co_up (con_after plain_nexus ?ms half_open)"
    by (simp add: half_open_def new_con_def con_handle_def handshake_handle_def sm_run set_features_def Let_def finish_connecting_def
        nexus_connect_def two_ports_reply_def handle_port_status_run)
  moreover have "con_ok half_open" "co_features half_open \<noteq> None"
    by (simp_all add: con_ok_def half_open_def new_con_def statuses_def)
  ultimately have "pc_view (co_ports (con_after plain_nexus ?ms half_open)) = fold msg_view ?ms (known_ports half_open)"
    using ports_follow_switch [of ?ms half_open plain_nexus] by simp
  then show ?thesis by (simp add: msg_view_def port_change_def some_port_def)
qed

end
