(* ===== verification/Controller_Behaviour.thy ===== *)
theory Controller_Behaviour
  imports Controller
begin

text \<open>
  What the controller's side of a connection does: when it comes up, how the parts of a statistics reply are put
  together, and what the nexus' table of connections holds when a switch connects twice.
\<close>

section \<open>Coming up\<close>

definition announces_up :: "bool \<times> of_event \<Rightarrow> bool" where
  "announces_up e = (case e of (b, ConnectionUp _) \<Rightarrow> b | _ \<Rightarrow> False)"

lemma announces_simps [simp]:
  "announces_up (b, ConnectionUp f) = b" "(\<And>f. e \<noteq> ConnectionUp f) \<Longrightarrow> \<not> announces_up (b, e)"
  by (auto simp: announces_up_def split: of_event.splits)

definition ups :: "con \<Rightarrow> (bool \<times> of_event) list" where "ups c = filter announces_up (co_events c)"

text \<open>The connection is announced once, with the features reply, and only after a barrier has been asked for.\<close>

definition up_ok :: "con \<Rightarrow> bool" where
  "up_ok c \<longleftrightarrow> length (ups c) = (if co_up c then 1 else 0) \<and> list_all (\<lambda>e. snd e \<noteq> ConnectionUp None) (ups c) \<and>
     (co_barrier c \<noteq> None \<longrightarrow> co_features c \<noteq> None) \<and> (case co_deferred c of None \<Rightarrow> True | Some ms \<Rightarrow> statuses ms)"

lemma up_ok_events:
  assumes "up_ok c" "\<And>e. e \<in> set es \<Longrightarrow> \<not> announces_up e"
  shows "up_ok (c\<lparr>co_events := co_events c @ es\<rparr>)"
  using assms by (auto simp: up_ok_def ups_def filter_empty_conv)

lemma log_quiet: "(\<And>f. ev \<noteq> ConnectionUp f) \<Longrightarrow> e \<in> set (event_log nx ev) \<Longrightarrow> \<not> announces_up e"
  by (auto simp: event_log_def split: if_splits)

text \<open>Changes that leave alone what the announcement depends on.\<close>

definition up_same :: "con \<Rightarrow> con \<Rightarrow> bool" where
  "up_same c c' \<longleftrightarrow> co_up c' = co_up c \<and> co_events c' = co_events c \<and> co_barrier c' = co_barrier c \<and>
     (co_features c \<noteq> None \<longrightarrow> co_features c' \<noteq> None) \<and> co_deferred c' = co_deferred c"

definition up_blind :: "(con \<Rightarrow> bool) \<Rightarrow> bool" where
  "up_blind P \<longleftrightarrow> (\<forall>c c'. up_same c c' \<longrightarrow> P c \<longrightarrow> P c')"

text \<open>What is said about the announcements is also not changed by other events.\<close>

definition up_pred :: "(con \<Rightarrow> bool) \<Rightarrow> bool" where
  "up_pred P \<longleftrightarrow> up_blind P \<and> (\<forall>c es. P c \<longrightarrow> (\<forall>e\<in>set es. \<not> announces_up e) \<longrightarrow> P (c\<lparr>co_events := co_events c @ es\<rparr>))"

lemma up_ok_blind [keep]: "up_blind up_ok" "up_blind (\<lambda>c. up_ok c \<and> co_features c \<noteq> None)"
  by (auto simp: up_blind_def up_same_def up_ok_def ups_def)

lemma up_preds: "up_pred up_ok" "up_pred co_up" "up_pred (\<lambda>c. ups c = es)"
  using up_ok_events by (auto simp: up_pred_def up_ok_blind) (auto simp: up_blind_def up_same_def ups_def filter_empty_conv)

lemma up_pred_blind: "up_pred P \<Longrightarrow> up_blind P"
  by (simp add: up_pred_def)

lemma up_raise: "up_pred P \<Longrightarrow> (\<And>f. ev \<noteq> ConnectionUp f) \<Longrightarrow> keeps P (raise_event nx ev)"
  unfolding keeps_def raise_event_run up_pred_def using log_quiet by (metis snd_conv)

lemma up_mod: "up_blind P \<Longrightarrow> (\<And>c. up_same c (f c)) \<Longrightarrow> keeps P (smod f)"
  unfolding keeps_def up_blind_def sm_run by fastforce

lemma up_send [keep]:
  assumes "up_blind P"
  shows "keeps P next_xid" "keeps P (pack_message xid b)" "keeps P (con_write ms)" "keeps P (con_send xid b)"
proof -
  show x: "keeps P next_xid" unfolding next_xid_def by (intro keep up_mod assms) (simp add: up_same_def)
  show w: "keeps P (con_write ms)" for ms unfolding con_write_def by (intro up_mod assms) (simp add: up_same_def)
  show p: "keeps P (pack_message xid b)" unfolding pack_message_def Let_def by (intro keep x)
  show "keeps P (con_send xid b)" unfolding con_send_def by (intro keep p w)
qed

lemma stats_event_quiet: "stats_event s = Some e \<Longrightarrow> e \<noteq> ConnectionUp f"
  by (auto simp: stats_event_def Let_def split: if_splits)

lemma up_previous: "up_pred P \<Longrightarrow> keeps P (smod (co_previous_update f))"
  by (rule up_mod [OF up_pred_blind]) (simp_all add: up_same_def)

lemma up_finish: "up_pred P \<Longrightarrow> keeps P (finish_stats nx)"
proof -
  assume P: "up_pred P"
  have "keeps P (case stats_event s of None \<Rightarrow> sraise IndexError | Some e \<Rightarrow> raise_event nx e)" for s
  proof (cases "stats_event s")
    case (Some e)
    then have "keeps P (raise_event nx e)" using stats_event_quiet by (intro up_raise P) blast
    with Some show ?thesis by simp
  qed (simp add: keep)
  then show ?thesis unfolding finish_stats_def by (intro keeps_sbind keeps_sthen keeps_basic up_previous P)
qed

lemma up_stats: "up_pred P \<Longrightarrow> keeps P (incoming_stats_reply nx m)"
  unfolding incoming_stats_reply_def by (intro keep up_finish up_mod up_pred_blind) (simp_all add: up_same_def)

lemma up_ok_disconnect:
  assumes "up_ok c"
  shows "up_ok (con_disconnect d c)" "co_features (con_disconnect d c) = co_features c"
proof -
  have 1: "up_ok (c\<lparr>co_disconnected := True\<rparr>)" "up_ok (nexus_disconnect x (c\<lparr>co_disconnected := True\<rparr>))" for x
    using assms by (auto simp: up_ok_def ups_def nexus_disconnect_def)
  have 2: "up_ok (c\<lparr>co_down_raised := x, co_events := co_events c @ [(True, ConnectionDown), (False, ConnectionDown)]\<rparr>)"
    if "up_ok c" for c x
    using that by (auto simp: up_ok_def ups_def)
  show "up_ok (con_disconnect d c)" "co_features (con_disconnect d c) = co_features c"
    using 1 2 by (simp_all add: con_disconnect_def Let_def nexus_disconnect_def)
qed

lemma up_ok_finish_connecting:
  assumes "up_ok c" "\<not> co_up c" "co_barrier c \<noteq> None"
  shows "up_ok (snd (finish_connecting nx c))"
proof -
  obtain f where f: "co_features c = Some f" using assms by (auto simp: up_ok_def)
  have "ups c = []" using assms by (simp add: up_ok_def)
  moreover have "filter announces_up (concat (map (\<lambda>m. event_log nx (PortStatus m)) ms)) = []" for ms
    by (auto simp: filter_empty_conv dest!: log_quiet [rotated])
  ultimately show ?thesis
    using finish_connecting_run [of c nx] assms f
    by (auto simp: up_ok_def ups_def event_log_def statuses_def)
qed

lemma up_ports: "up_pred P \<Longrightarrow> keeps P (handle_port_status nx m)"
proof -
  assume P: "up_pred P"
  have "keeps P (smod (\<lambda>c. c\<lparr>co_ports := f c\<rparr>))" for f by (rule up_mod [OF up_pred_blind [OF P]]) (simp add: up_same_def)
  then show ?thesis unfolding handle_port_status_def by (cases "snd m") (simp_all add: keeps_sthen up_raise P keeps_basic)
qed

lemma default_keeps_up: "up_pred P \<Longrightarrow> keeps P (default_handle nx m)"
proof -
  assume P: "up_pred P"
  have "keeps P (smod (set_features f))" "keeps P (smod nexus_connect)" for f
    by (auto intro!: up_mod [OF up_pred_blind [OF P]] simp: up_same_def nexus_connect_def set_features_def Let_def)
  then show ?thesis
    unfolding default_handle_def
    by (cases "snd m") (auto intro!: keeps_sthen keeps_basic up_raise up_stats up_ports up_send up_pred_blind P)
qed

lemmas default_up_ok = default_keeps_up [OF up_preds(1)]

lemma handshake_features_up_ok: "up_ok c \<Longrightarrow> up_ok (snd (handshake_features nx h f c))"
proof -
  assume ok: "up_ok c"
  let ?P = "\<lambda>c. up_ok c \<and> co_features c \<noteq> None"
  let ?rest = "if \<not> nx_found nx then smod (con_disconnect False)
         else sthen (smod (\<lambda>c. c\<lparr>co_nexus := True\<rparr>))
           (sthen (case nx_miss_send_len nx of None \<Rightarrow> sret () | Some n \<Rightarrow> con_send None (MSetConfig 0 n))
           (sthen (if nx_clear_flows nx then con_send None (MFlowMod clear_flows) else sret ())
           (sbind (sget co_disconnected) (\<lambda>d. if d then smod (\<lambda>c. c\<lparr>co_barrier := Some None\<rparr>)
             else sbind (pack_message None MBarrierRequest) (\<lambda>b.
               sthen (smod (\<lambda>c. c\<lparr>co_barrier := Some (Some (hdr_xid (fst b)))\<rparr>)) (con_write [b]))))))"
  have d: "keeps ?P (smod (con_disconnect False))" using up_ok_disconnect by (intro keeps_smod) auto
  have b: "keeps ?P (smod (\<lambda>c. c\<lparr>co_barrier := x\<rparr>))" for x by (intro keeps_smod) (auto simp: up_ok_def ups_def)
  have n: "keeps ?P (smod (\<lambda>c. c\<lparr>co_nexus := True\<rparr>))" by (intro keeps_smod) (auto simp: up_ok_def ups_def)
  have "keeps ?P ?rest"
    by (intro keeps_if keeps_sthen keeps_sbind keeps_option keeps_basic d b n up_send up_ok_blind)
  moreover have "?P ((set_features f c)\<lparr>co_deferred := Some []\<rparr>)"
    using ok by (auto simp: up_ok_def ups_def statuses_def set_features_def Let_def)
  ultimately have "?P (snd (?rest ((set_features f c)\<lparr>co_deferred := Some []\<rparr>)))" by (rule keeps_at)
  then show ?thesis using up_ok_disconnect(1) [OF ok] by (simp add: handshake_features_def sm_run)
qed

lemma handshake_up_ok:
  assumes "up_ok c" "\<not> co_up c"
  shows "up_ok (snd (handshake_handle nx m c))"
proof (cases "snd m")
  case MHello
  have "keeps up_ok (sthen (smod (\<lambda>c. c\<lparr>co_features_asked := True\<rparr>))
      (sbind (pack_message None MFeaturesRequest) (\<lambda>fr. sbind (pack_message None (MStatsRequest 0 SRDesc)) (\<lambda>ss. con_write [fr, ss]))))"
    by (intro keeps_sthen keeps_sbind up_send up_ok_blind up_mod) (simp add: up_same_def)
  then show ?thesis using MHello keeps_at [of up_ok, OF _ assms(1)] assms(1) by (auto simp: handshake_handle_def sm_run_simps sm_seq(1))
next
  case MBarrierReply
  have "up_ok (c\<lparr>co_dpid := None\<rparr>)" using assms by (simp add: up_ok_def ups_def)
  then show ?thesis
    using MBarrierReply assms up_ok_finish_connecting [OF assms] up_ok_disconnect(1)
    by (auto simp: handshake_handle_def sm_run split: option.splits)
next
  case (MError ty code d)
  then show ?thesis using assms up_ok_finish_connecting [OF assms] by (auto simp: handshake_handle_def sm_run)
next
  case (MEchoRequest b)
  then show ?thesis
    using keeps_at [OF up_send(4) [OF up_ok_blind(1)] assms(1)] by (simp add: handshake_handle_def sm_run)
next
  case (MStatsReply fl b)
  have "up_ok (c\<lparr>co_description := x\<rparr>)" for x using assms by (simp add: up_ok_def ups_def)
  then show ?thesis using MStatsReply assms(1) by (cases b) (simp_all add: handshake_handle_def sm_run)
next
  case (MFeaturesReply f)
  then show ?thesis using handshake_features_up_ok [OF assms(1)] by (simp add: handshake_handle_def sm_run)
next
  case (MPortStatus r p)
  then show ?thesis using assms by (auto simp: handshake_handle_def sm_run up_ok_def ups_def statuses_def split: option.splits)
qed (simp_all add: handshake_handle_def sm_run assms(1))

lemma comes_up:
  assumes "co_up (snd (handshake_handle nx m c))" "\<not> co_up c"
  shows "co_barrier c = Some (Some (hdr_xid (fst m))) \<and> (snd m = MBarrierReply \<or> (\<exists>d. snd m = MError 1 1 d))"
proof -
  let ?P = "\<lambda>c. \<not> co_up c"
  have b: "state_blind ?P" by (simp add: state_blind_def same_state_def)
  have k: "keeps ?P m \<Longrightarrow> ?P s \<Longrightarrow> ?P (snd (m s))" for m :: "'a co" and s by (rule keeps_at)
  have d: "keeps ?P (smod (con_disconnect False))" by (intro keeps_state b disconnect_same)
  have f: "keeps ?P (handshake_features nx h f)" for h f
    unfolding handshake_features_def
    by (intro keeps_if keeps_sthen keeps_sbind keeps_option keeps_basic d con_send_keeps b keeps_smod) simp_all
  have h: "keeps ?P (sthen (smod (\<lambda>c. c\<lparr>co_features_asked := True\<rparr>))
      (sbind (pack_message None MFeaturesRequest) (\<lambda>fr. sbind (pack_message None (MStatsRequest 0 SRDesc)) (\<lambda>ss. con_write [fr, ss]))))"
    by (intro keeps_sthen keeps_sbind con_send_keeps b keeps_smod) simp
  show ?thesis
  proof (cases "snd m")
    case MHello
    then show ?thesis using assms keeps_at [of ?P, OF h] by (simp add: handshake_handle_def sm_run_simps sm_seq(1) split: if_splits)
  next
    case (MFeaturesReply g)
    then show ?thesis using assms keeps_at [of ?P, OF f] by (simp add: handshake_handle_def sm_run)
  next
    case (MEchoRequest x)
    then show ?thesis using assms keeps_at [of ?P, OF con_send_keeps(4) [OF b]] by (simp add: handshake_handle_def sm_run)
  next
    case (MStatsReply fl x)
    then show ?thesis using assms by (cases x) (simp_all add: handshake_handle_def sm_run)
  next
    case MBarrierReply
    then show ?thesis using assms by (auto simp: handshake_handle_def sm_run con_disconnect_def nexus_disconnect_def Let_def split: option.splits if_splits)
  qed (use assms in \<open>auto simp: handshake_handle_def sm_run split: option.splits if_splits\<close>)
qed

lemma con_handle_up_ok: "up_ok c \<Longrightarrow> up_ok (snd (con_handle nx m c))"
  using handshake_up_ok keeps_at [OF default_up_ok] by (simp add: con_handle_def sm_run)

lemma con_after_up_ok: "up_ok c \<Longrightarrow> up_ok (con_after nx ms c)"
  by (induction ms arbitrary: c) (simp_all add: con_handle_up_ok)

lemma open_con_up_ok: "up_ok (open_con i conns xid)" "\<not> co_up (open_con i conns xid)"
proof -
  have "up_ok (new_con i conns xid)" by (simp add: new_con_def up_ok_def ups_def)
  then show "up_ok (open_con i conns xid)" unfolding open_con_def by (rule keeps_at [OF up_send(4) [OF up_ok_blind(1)]])
  have "keeps (\<lambda>c. \<not> co_up c) (con_send None MHello)" by (rule con_send_keeps) (simp add: state_blind_def same_state_def)
  then show "\<not> co_up (open_con i conns xid)" unfolding open_con_def by (rule keeps_at) (simp add: new_con_def)
qed

text \<open>The features that the handshake has taken from a list of messages: those of the last reply of a version it allows.\<close>

definition features_of :: "ofp_msg \<Rightarrow> features option" where
  "features_of m = (case snd m of MFeaturesReply f \<Rightarrow> if hdr_version (fst m) = OFP_VERSION then Some f else None | _ \<Rightarrow> None)"

definition last_features :: "ofp_msg list \<Rightarrow> features option" where
  "last_features ms = fold (\<lambda>m g. case features_of m of None \<Rightarrow> g | Some f \<Rightarrow> Some f) ms None"

lemma finish_up: "co_up (snd (finish_connecting nx c))"
proof -
  have b: "state_blind co_up" by (simp add: state_blind_def same_state_def)
  have "keeps co_up (sthen (smod (\<lambda>c. c\<lparr>co_events := co_events c @ [(True, ConnectionHandshakeComplete)]\<rparr>))
     (sbind (sget co_features) (\<lambda>f. sthen (raise_event nx (ConnectionUp f))
     (sthen (case f of None \<Rightarrow> sret () | Some f \<Rightarrow> raise_event nx (FeaturesReceived f))
     (sbind (sget co_deferred) (\<lambda>d. case d of
        None \<Rightarrow> sret ()
      | Some ms \<Rightarrow> if ms = [] then sret ()
          else sthen (sfor ms (handle_port_status nx)) (smod (\<lambda>c. c\<lparr>co_deferred := None\<rparr>))))))))"
    by (intro keep raise_keeps b up_ports up_preds keeps_smod) simp_all
  from keeps_at [OF this, where s = "(nexus_connect c)\<lparr>co_up := True\<rparr>"] show ?thesis
    by (simp add: finish_connecting_def sm_run)
qed

lemma handshake_takes_features:
  "co_features (snd (handshake_handle nx m c)) = (case features_of m of None \<Rightarrow> co_features c | Some f \<Rightarrow> Some f)"
  if "\<not> co_up (snd (handshake_handle nx m c))"
proof -
  let ?P = "\<lambda>x c. co_features c = x"
  have b: "state_blind (?P x)" for x by (simp add: state_blind_def same_state_def)
  have d: "keeps (?P x) (smod (con_disconnect False))" for x by (intro keeps_state b disconnect_same)
  have h: "keeps (?P x) (sthen (smod (\<lambda>c. c\<lparr>co_features_asked := True\<rparr>))
      (sbind (pack_message None MFeaturesRequest) (\<lambda>fr. sbind (pack_message None (MStatsRequest 0 SRDesc)) (\<lambda>ss. con_write [fr, ss]))))" for x
    by (intro keeps_sthen keeps_sbind con_send_keeps b keeps_smod) simp
  show ?thesis
  proof (cases "snd m")
    case MHello
    then show ?thesis using keeps_at [OF h refl] by (simp add: handshake_handle_def features_of_def sm_run_simps sm_seq(1))
  next
    case (MFeaturesReply f)
    have "keeps (?P x) (if \<not> nx_found nx then smod (con_disconnect False)
         else sthen (smod (\<lambda>c. c\<lparr>co_nexus := True\<rparr>))
           (sthen (case nx_miss_send_len nx of None \<Rightarrow> sret () | Some n \<Rightarrow> con_send None (MSetConfig 0 n))
           (sthen (if nx_clear_flows nx then con_send None (MFlowMod clear_flows) else sret ())
           (sbind (sget co_disconnected) (\<lambda>d. if d then smod (\<lambda>c. c\<lparr>co_barrier := Some None\<rparr>)
             else sbind (pack_message None MBarrierRequest) (\<lambda>b.
               sthen (smod (\<lambda>c. c\<lparr>co_barrier := Some (Some (hdr_xid (fst b)))\<rparr>)) (con_write [b])))))))" for x
      by (intro keeps_if keeps_sthen keeps_sbind keeps_option keeps_basic d con_send_keeps b keeps_smod) simp_all
    from keeps_at [OF this, where s = "(set_features f c)\<lparr>co_deferred := Some []\<rparr>" and x2 = "Some f"] show ?thesis
      using MFeaturesReply keeps_at [OF d refl, where s = c] by (simp add: handshake_handle_def handshake_features_def features_of_def sm_run)
  next
    case (MEchoRequest x)
    then show ?thesis using keeps_at [OF con_send_keeps(4) [OF b] refl] by (simp add: handshake_handle_def features_of_def sm_run)
  next
    case (MStatsReply fl x)
    then show ?thesis by (cases x) (simp_all add: handshake_handle_def features_of_def sm_run)
  next
    case MBarrierReply
    then show ?thesis using that finish_up [of nx c] disconnect_same(1) [of c False None]
      by (auto simp: handshake_handle_def sm_run features_of_def same_state_def split: option.splits if_splits)
  qed (use that finish_up [of nx c] in \<open>auto simp: handshake_handle_def features_of_def sm_run split: option.splits if_splits\<close>)
qed

text \<open>While a connection is not up, nothing has been announced and its features are those taken last.\<close>

lemma not_up_yet:
  assumes "\<not> co_up (con_after nx ms (open_con i conns xid))"
  shows "ups (con_after nx ms (open_con i conns xid)) = []" "co_features (con_after nx ms (open_con i conns xid)) = last_features ms"
proof -
  let ?c = "\<lambda>ms. con_after nx ms (open_con i conns xid)"
  show "ups (?c ms) = []" using con_after_up_ok [OF open_con_up_ok(1), of nx ms i conns xid] assms by (simp add: up_ok_def)
  show "co_features (?c ms) = last_features ms"
    using assms
  proof (induction ms rule: rev_induct)
    case Nil
    have "keeps (\<lambda>c. co_features c = None) (con_send None MHello)" by (rule con_send_keeps) (simp add: state_blind_def same_state_def)
    then show ?case by (simp add: last_features_def open_con_def keeps_def new_con_def)
  next
    case (snoc m ms)
    have not_up: "\<not> co_up (?c ms)"
      using snoc.prems keeps_at [OF default_keeps_up [OF up_preds(2)], where s = "?c ms" and nx1 = nx and m1 = m] by (cases m) (auto simp: con_handle_def sm_run)
    then show ?case
      using snoc handshake_takes_features [of nx m "?c ms"] by (simp add: con_handle_def sm_run last_features_def split: option.splits)
  qed
qed

lemma announced_features:
  assumes "up_ok c" "\<not> co_up c" "co_up (snd (handshake_handle nx m c))"
  shows "\<exists>f. co_features c = Some f \<and> ups (snd (handshake_handle nx m c)) = [(True, ConnectionUp (Some f))]"
proof -
  have m: "co_barrier c = Some (Some (hdr_xid (fst m)))" "snd m = MBarrierReply \<or> (\<exists>d. snd m = MError 1 1 d)"
    using comes_up [OF assms(3,2)] by auto
  obtain f where f: "co_features c = Some f" using assms(1) m(1) by (auto simp: up_ok_def)
  have "filter announces_up (concat (map (\<lambda>m. event_log nx (PortStatus m)) ms)) = []" for ms
    by (auto simp: filter_empty_conv dest!: log_quiet [rotated])
  moreover have "ups c = []" using assms(1,2) by (simp add: up_ok_def)
  ultimately have "ups (snd (finish_connecting nx c)) = [(True, ConnectionUp (Some f))]"
    using finish_connecting_run [of c nx] assms(1) f by (auto simp: up_ok_def ups_def event_log_def)
  moreover have "handshake_handle nx m c = finish_connecting nx c" using m by (auto simp: handshake_handle_def sm_run)
  ultimately show ?thesis using f by simp
qed

text \<open>
  C21. Whatever a switch sends, its connection is announced to the nexus' listeners at most once, and exactly when
  the default handlers have taken over.  Then there was a message, a barrier reply or the error of a switch without
  barriers, to the transaction of the handshake's own barrier, that ended the handshake, and the announcement carries
  the features of the last features reply before it.
\<close>

theorem connection_up_once:
  "length (ups (con_after nx ms (open_con i conns xid))) = (if co_up (con_after nx ms (open_con i conns xid)) then 1 else 0) \<and>
   (co_up (con_after nx ms (open_con i conns xid)) \<longrightarrow> (\<exists>ms1 m ms2 f. ms = ms1 @ m # ms2 \<and> \<not> co_up (con_after nx ms1 (open_con i conns xid)) \<and>
      co_barrier (con_after nx ms1 (open_con i conns xid)) = Some (Some (hdr_xid (fst m))) \<and> (snd m = MBarrierReply \<or> (\<exists>d. snd m = MError 1 1 d)) \<and>
      last_features ms1 = Some f \<and> ups (con_after nx ms (open_con i conns xid)) = [(True, ConnectionUp (Some f))]))"
proof -
  let ?c = "\<lambda>ms. con_after nx ms (open_con i conns xid)"
  have ok: "up_ok (?c ms)" for ms by (rule con_after_up_ok [OF open_con_up_ok(1)])
  have "\<exists>ms1 m ms2 f. ms = ms1 @ m # ms2 \<and> \<not> co_up (?c ms1) \<and> co_barrier (?c ms1) = Some (Some (hdr_xid (fst m))) \<and>
      (snd m = MBarrierReply \<or> (\<exists>d. snd m = MError 1 1 d)) \<and> last_features ms1 = Some f \<and> ups (?c ms) = [(True, ConnectionUp (Some f))]"
    if "co_up (?c ms)" for ms
    using that
  proof (induction ms rule: rev_induct)
    case Nil
    then show ?case using open_con_up_ok(2) by simp
  next
    case (snoc m ms)
    show ?case
    proof (cases "co_up (?c ms)")
      case True
      then obtain ms1 m1 ms2 f where ih: "ms = ms1 @ m1 # ms2" "\<not> co_up (?c ms1)" "co_barrier (?c ms1) = Some (Some (hdr_xid (fst m1)))"
        "snd m1 = MBarrierReply \<or> (\<exists>d. snd m1 = MError 1 1 d)" "last_features ms1 = Some f" "ups (?c ms) = [(True, ConnectionUp (Some f))]"
        using snoc.IH by blast
      have "ups (?c (ms @ [m])) = ups (?c ms)"
        using True keeps_at [OF default_keeps_up [OF up_preds(3)] refl] by (simp add: con_handle_def sm_run)
      then show ?thesis using ih by (intro exI [of _ ms1] exI [of _ m1] exI [of _ "ms2 @ [m]"] exI [of _ f]) simp
    next
      case False
      then have h: "?c (ms @ [m]) = snd (handshake_handle nx m (?c ms))" by (simp add: con_handle_def sm_run)
      then obtain f where "co_features (?c ms) = Some f" "ups (?c (ms @ [m])) = [(True, ConnectionUp (Some f))]"
        using announced_features [OF ok False] snoc.prems by metis
      then show ?thesis using False comes_up [of nx m "?c ms"] snoc.prems h not_up_yet(2) [OF False]
        by (intro exI [of _ ms] exI [of _ m] exI [of _ "[]"] exI [of _ f]) simp
    qed
  qed
  then show ?thesis using ok [of ms] by (simp add: up_ok_def)
qed

definition plain_msg :: "32 word \<Rightarrow> of_body \<Rightarrow> ofp_msg" where
  "plain_msg x b = (\<lparr>hdr_version = OFP_VERSION, hdr_xid = x\<rparr>, b)"

abbreviation short_handshake :: "ofp_msg list" where
  "short_handshake \<equiv> [plain_msg 0 MHello, plain_msg 2 (MFeaturesReply two_ports_reply), plain_msg 4 MBarrierReply]"

lemma handshake_ends: "co_up (con_after plain_nexus short_handshake (open_con 0 [] 1))"
  by code_simp

theorem connection_up_once_witness:
  "ups (con_after plain_nexus short_handshake (open_con 0 [] 1)) = [(True, ConnectionUp (Some two_ports_reply))]"
proof -
  obtain ms1 m ms2 f where f: "short_handshake = ms1 @ m # ms2" "snd m = MBarrierReply \<or> (\<exists>d. snd m = MError 1 1 d)" "last_features ms1 = Some f"
    "ups (con_after plain_nexus short_handshake (open_con 0 [] 1)) = [(True, ConnectionUp (Some f))]"
    using connection_up_once [of plain_nexus short_handshake 0 "[]" 1] handshake_ends by blast
  then have "ms1 = [plain_msg 0 MHello, plain_msg 2 (MFeaturesReply two_ports_reply)]"
    by (auto simp: plain_msg_def Cons_eq_append_conv)
  then show ?thesis using f(3,4) by (simp add: last_features_def features_of_def plain_msg_def)
qed

section \<open>Statistics\<close>

text \<open>A part of the reply to request \<open>x\<close> about \<open>t\<close>.\<close>

definition part_of :: "32 word \<Rightarrow> 16 word \<Rightarrow> ofp_msg \<Rightarrow> bool" where
  "part_of x t m \<longleftrightarrow> (case snd m of MStatsReply _ b \<Rightarrow> hdr_xid (fst m) = x \<and> stats_reply_type b = t | _ \<Rightarrow> False)"

lemma part_ofD:
  assumes "part_of x t m"
  shows "hdr_xid (fst m) = x" "part_type m = t" "co_up c \<Longrightarrow> con_handle nx m c =
     sthen (raise_event nx (RawStatsReply m)) (incoming_stats_reply nx m) c"
  using assms by (auto simp: part_of_def part_type_def con_handle_def default_handle_def sm_run split: of_body.splits)

abbreviation raws :: "nexus \<Rightarrow> ofp_msg list \<Rightarrow> (bool \<times> of_event) list" where
  "raws nx ms \<equiv> concat (map (\<lambda>m. event_log nx (RawStatsReply m)) ms)"

text \<open>A part of the reply in progress, or of a first one, is kept with the others.\<close>

lemma part_taken:
  assumes "part_of x t m" "is_last_reply m \<or> t \<in> {1, 3, 4, 5}" "\<forall>p\<in>set (co_previous c). part_of x t p"
  shows "incoming_stats_reply nx m c = sthen (smod (\<lambda>c. c\<lparr>co_previous := co_previous c @ [m]\<rparr>))
    (if is_last_reply m then finish_stats nx else sret ()) c"
proof -
  have "co_previous c \<noteq> [] \<Longrightarrow> hdr_xid (fst m) = hdr_xid (fst (hd (co_previous c))) \<and> part_type m = part_type (hd (co_previous c))"
    using part_ofD(1,2) [OF assms(1)] assms(3) part_ofD(1,2) [of x t "hd (co_previous c)"] by simp
  then have "\<not> (co_previous c \<noteq> [] \<and> \<not> (hdr_xid (fst m) = hdr_xid (fst (hd (co_previous c))) \<and> part_type m = part_type (hd (co_previous c))))"
    by blast
  moreover have "\<not> (\<not> is_last_reply m \<and> part_type m \<notin> {1, 3, 4, 5})" using assms(2) part_ofD(2) [OF assms(1)] by auto
  ultimately show ?thesis
    unfolding incoming_stats_reply_def by (simp only: if_False sbind_def sget_def prod.case sum.case) (simp add: sm_run)
qed

lemma part_kept:
  assumes "part_of x t m" "\<not> is_last_reply m" "t \<in> {1, 3, 4, 5}" "co_up c" "\<forall>p\<in>set (co_previous c). part_of x t p"
  shows "snd (con_handle nx m c) = c\<lparr>co_previous := co_previous c @ [m], co_events := co_events c @ event_log nx (RawStatsReply m)\<rparr>"
proof -
  have "incoming_stats_reply nx m d = (Inr (), d\<lparr>co_previous := co_previous d @ [m]\<rparr>)" if "co_previous d = co_previous c" for d
    using part_taken [OF assms(1) disjI2 [OF assms(3)], of d nx] assms(2,5) that by (simp add: sm_run)
  then show ?thesis by (simp add: part_ofD(3) [OF assms(1,4)] sm_run)
qed

lemma parts_kept:
  assumes "\<forall>m\<in>set ms. part_of x t m \<and> \<not> is_last_reply m" "t \<in> {1, 3, 4, 5}" "co_up c" "\<forall>p\<in>set (co_previous c). part_of x t p"
  shows "con_after nx ms c = c\<lparr>co_previous := co_previous c @ ms, co_events := co_events c @ raws nx ms\<rparr>"
  using assms
proof (induction ms arbitrary: c)
  case (Cons m ms)
  have "snd (con_handle nx m c) = c\<lparr>co_previous := co_previous c @ [m], co_events := co_events c @ event_log nx (RawStatsReply m)\<rparr>"
    using Cons.prems by (intro part_kept) simp_all
  then show ?case using Cons.prems by (simp add: Cons.IH)
qed simp

lemma last_part:
  assumes "part_of x t l" "is_last_reply l" "co_up c" "\<forall>p\<in>set (co_previous c). part_of x t p"
    and "stats_event (co_previous c @ [l]) = Some e"
  shows "snd (con_handle nx l c) = c\<lparr>co_previous := [], co_events := co_events c @ event_log nx (RawStatsReply l) @ event_log nx e\<rparr>"
proof -
  have "incoming_stats_reply nx l d = (Inr (), d\<lparr>co_previous := [], co_events := co_events d @ event_log nx e\<rparr>)" if "co_previous d = co_previous c" for d
    using part_taken [OF assms(1) disjI1 [OF assms(2)], of d nx] assms(2,4,5) that by (simp add: finish_stats_def sm_run)
  then show ?thesis by (simp add: part_ofD(3) [OF assms(1,3)] sm_run)
qed

text \<open>
  C24. Statistics are put together from their parts: when a switch answers one request in any number of parts, one
  event is raised for all of them, after the last part, with the parts in their order and the concatenation of their
  entries, and nothing is left over for the next reply.
\<close>

theorem stats_put_together:
  assumes "\<forall>m\<in>set ms. part_of x t m \<and> \<not> is_last_reply m" "part_of x t l" "is_last_reply l" "t \<in> {1, 3, 4, 5}"
    and "co_up c" "co_previous c = []"
  shows "con_after nx (ms @ [l]) c = c\<lparr>co_events := co_events c @ raws nx (ms @ [l]) @ event_log nx
     (if t = 1 then FlowStatsReceived (ms @ [l]) (flow_parts (ms @ [l]))
      else if t = 3 then TableStatsReceived (ms @ [l]) (table_parts (ms @ [l]))
      else if t = 4 then PortStatsReceived (ms @ [l]) (port_parts (ms @ [l]))
      else QueueStatsReceived (ms @ [l]) (queue_parts (ms @ [l])))\<rparr>"
proof -
  let ?c = "c\<lparr>co_previous := ms, co_events := co_events c @ raws nx ms\<rparr>"
  have 1: "con_after nx ms c = ?c" using parts_kept [of ms x t c nx] assms by simp
  have h: "part_type (hd (ms @ [l])) = t" using part_ofD(2) [OF assms(2)] assms(1) part_ofD(2) [of x t "hd ms"] by (cases ms) simp_all
  have "snd (con_handle nx l ?c) = ?c\<lparr>co_previous := [], co_events := co_events ?c @ event_log nx (RawStatsReply l) @ event_log nx
     (if t = 1 then FlowStatsReceived (ms @ [l]) (flow_parts (ms @ [l]))
      else if t = 3 then TableStatsReceived (ms @ [l]) (table_parts (ms @ [l]))
      else if t = 4 then PortStatsReceived (ms @ [l]) (port_parts (ms @ [l]))
      else QueueStatsReceived (ms @ [l]) (queue_parts (ms @ [l])))\<rparr>"
    using assms h by (intro last_part [OF assms(2,3)]) (auto simp: stats_event_def Let_def)
  then show ?thesis using assms(6) by (simp add: 1)
qed

definition port_reply :: "32 word \<Rightarrow> bool \<Rightarrow> 16 word \<Rightarrow> ofp_msg" where
  "port_reply x goes_on n = plain_msg x (MStatsReply (if goes_on then 1 else 0) (RPort [port_stats_new n]))"

definition up_con :: con where "up_con = (new_con 0 [] 1)\<lparr>co_up := True\<rparr>"

theorem stats_put_together_witness:
  "co_events (con_after plain_nexus [port_reply 7 True 1, port_reply 7 False 2] up_con) =
     raws plain_nexus [port_reply 7 True 1, port_reply 7 False 2] @
     event_log plain_nexus (PortStatsReceived [port_reply 7 True 1, port_reply 7 False 2] [port_stats_new 1, port_stats_new 2])"
proof -
  note d = port_reply_def plain_msg_def part_of_def is_last_reply_def up_con_def new_con_def port_parts_def
  show ?thesis
    using stats_put_together [of "[port_reply 7 True 1]" 7 4 "port_reply 7 False 2" up_con plain_nexus] by (simp add: d)
qed

text \<open>Statistics events of the nexus or the connection.\<close>

definition stats_events :: "(bool \<times> of_event) list \<Rightarrow> (bool \<times> of_event) list" where
  "stats_events es = filter (\<lambda>e. case snd e of SwitchDescReceived _ _ \<Rightarrow> True | AggregateFlowStatsReceived _ _ \<Rightarrow> True
     | FlowStatsReceived _ _ \<Rightarrow> True | TableStatsReceived _ _ \<Rightarrow> True | PortStatsReceived _ _ \<Rightarrow> True
     | QueueStatsReceived _ _ \<Rightarrow> True | _ \<Rightarrow> False) es"

lemma stats_events_raw: "stats_events (es @ event_log nx (RawStatsReply m)) = stats_events es"
  by (simp add: stats_events_def event_log_def)

text \<open>
  C36. An unfinished reply blocks statistics for good.  Once the first part of a reply is kept, replies to other
  requests, or of another type, raise \<open>AttributeError\<close> in the message that reports them, so none of them is put
  together and none takes the place of the unfinished one: however many come, no statistics event is raised.
\<close>

theorem unfinished_stats_block:
  assumes "co_up c" "co_previous c = p # ps"
    and "\<forall>m\<in>set ms. \<exists>x t. part_of x t m \<and> (x \<noteq> hdr_xid (fst p) \<or> t \<noteq> part_type p) \<and> (is_last_reply m \<or> t \<in> {1, 3, 4, 5})"
  shows "co_previous (con_after nx ms c) = p # ps \<and> stats_events (co_events (con_after nx ms c)) = stats_events (co_events c) \<and>
    (ms \<noteq> [] \<longrightarrow> fst (con_handle nx (hd ms) c) = Inl AttributeError)"
proof -
  have one: "con_handle nx m c = (Inl AttributeError, c\<lparr>co_events := co_events c @ event_log nx (RawStatsReply m)\<rparr>)"
    if "co_up c" "co_previous c = p # ps"
      "\<exists>x t. part_of x t m \<and> (x \<noteq> hdr_xid (fst p) \<or> t \<noteq> part_type p) \<and> (is_last_reply m \<or> t \<in> {1, 3, 4, 5})" for c m
  proof -
    from that(3) obtain x t where m: "part_of x t m" "x \<noteq> hdr_xid (fst p) \<or> t \<noteq> part_type p" "is_last_reply m \<or> t \<in> {1, 3, 4, 5}" by blast
    show ?thesis
      using that(1,2) m(2,3) part_ofD(1,2) [OF m(1)] by (auto simp: part_ofD(3) [OF m(1)] incoming_stats_reply_def sm_run)
  qed
  have "co_previous (con_after nx ms c) = p # ps \<and> stats_events (co_events (con_after nx ms c)) = stats_events (co_events c)"
    using assms
  proof (induction ms arbitrary: c)
    case (Cons m ms)
    then show ?case using one [OF Cons.prems(1,2), of m] by (simp add: stats_events_raw)
  qed simp
  moreover have "ms \<noteq> [] \<Longrightarrow> fst (con_handle nx (hd ms) c) = Inl AttributeError" using one [OF assms(1,2), of "hd ms"] assms(3) by simp
  ultimately show ?thesis by blast
qed

theorem unfinished_stats_block_witness:
  "stats_events (co_events (con_after plain_nexus (replicate 1000 (port_reply 8 False 2)) (snd (con_handle plain_nexus (port_reply 7 True 1) up_con)))) = []"
proof -
  have u: "co_up up_con" "co_previous up_con = []" "co_events up_con = []" by (simp_all add: up_con_def new_con_def)
  have "part_of 7 4 (port_reply 7 True 1)" "\<not> is_last_reply (port_reply 7 True 1)"
    by (simp_all add: port_reply_def plain_msg_def part_of_def is_last_reply_def)
  then have c: "snd (con_handle plain_nexus (port_reply 7 True 1) up_con) =
      up_con\<lparr>co_previous := [port_reply 7 True 1], co_events := event_log plain_nexus (RawStatsReply (port_reply 7 True 1))\<rparr>"
    using part_kept [of 7 4 "port_reply 7 True 1" up_con plain_nexus] u by simp
  have "part_of 8 4 (port_reply 8 False 2)" "is_last_reply (port_reply 8 False 2)" "hdr_xid (fst (port_reply 7 True 1)) = 7"
    by (simp_all add: port_reply_def plain_msg_def part_of_def is_last_reply_def)
  then have "\<forall>m\<in>set (replicate 1000 (port_reply 8 False 2)). \<exists>x t. part_of x t m \<and>
      (x \<noteq> hdr_xid (fst (port_reply 7 True 1)) \<or> t \<noteq> part_type (port_reply 7 True 1)) \<and> (is_last_reply m \<or> t \<in> {1, 3, 4, 5})"
    by (intro ballI exI [of _ 8] exI [of _ 4]) simp
  then show ?thesis
    using unfinished_stats_block [of "snd (con_handle plain_nexus (port_reply 7 True 1) up_con)" "port_reply 7 True 1" "[]"
        "replicate 1000 (port_reply 8 False 2)" plain_nexus] u stats_events_raw [of "[]" plain_nexus "port_reply 7 True 1"]
    by (simp add: c stats_events_def)
qed

end
