(* ===== verification/Controller_System.thy ===== *)
theory Controller_System
  imports Controller_Behaviour Switch_Behaviour
begin

text \<open>
  The controller's connection and the switch, joined: what one sends the other handles, message by message and in
  order.  The handshake between the two models, and the ports that the controller knows of when it has ended.  The
  messages go from one to the other as objects; by \<open>message_roundtrip\<close> of \<open>Messages\<close> their bytes would be read as the same
  objects, for ports whose addresses have six bytes and whose names have no zero byte.
\<close>

section \<open>Messages that pack\<close>

lemma pack_message_run:
  assumes "packs b"
  shows "\<exists>x i. pack_message None b c = (Inr (\<lparr>hdr_version = OFP_VERSION, hdr_xid = x\<rparr>, b), c\<lparr>co_next_xid := i\<rparr>)"
proof -
  obtain bs where "msg_pack (\<lparr>hdr_version = OFP_VERSION, hdr_xid = word_of_nat (co_next_xid c)\<rparr>, b) = Inr bs"
    using assms by (auto simp: packs_def)
  then show ?thesis by (simp add: pack_message_def next_xid_def sm_run Let_def) blast
qed

lemma con_send_run:
  assumes "packs b" "\<not> co_disconnected c"
  shows "\<exists>x i. con_send None b c = (Inr (), c\<lparr>co_next_xid := i, co_sent := co_sent c @ [(\<lparr>hdr_version = OFP_VERSION, hdr_xid = x\<rparr>, b)]\<rparr>)"
proof -
  obtain x i where "pack_message None b c = (Inr (\<lparr>hdr_version = OFP_VERSION, hdr_xid = x\<rparr>, b), c\<lparr>co_next_xid := i\<rparr>)"
    using pack_message_run [OF assms(1)] by blast
  then show ?thesis using assms(2) by (intro exI [of _ x] exI [of _ i]) (simp add: con_send_def sm_run con_write_def sbind_def)
qed

lemma handshake_packs:
  "packs MHello" "packs MFeaturesRequest" "packs (MStatsRequest 0 SRDesc)" "packs MBarrierRequest" "packs MBarrierReply"
  "packs (MSetConfig 0 n)" "packs (MFlowMod clear_flows)"
proof -
  note d = packs_def msg_pack_def body_validate_def header_pack_def pack_nat_H_def
  show "packs MHello" "packs MFeaturesRequest" "packs (MStatsRequest 0 SRDesc)" "packs MBarrierRequest" "packs MBarrierReply"
    "packs (MSetConfig 0 n)"
    by (simp_all add: d)
  show "packs (MFlowMod clear_flows)"
    by (simp add: d clear_flows_def flow_mod_bytes_def flow_mod_len_def pack_actions_def)
qed

section \<open>The exchange\<close>

text \<open>
  One round: the switch handles everything that the connection has written, and the connection everything that the
  switch has sent.
\<close>

definition switch_after :: "nat \<Rightarrow> ofp_msg list \<Rightarrow> switch \<Rightarrow> switch" where
  "switch_after k ms s = fold (\<lambda>m s. snd (rx_message k m s)) ms s"

definition exchange :: "nat \<Rightarrow> nexus \<Rightarrow> con \<times> switch \<Rightarrow> con \<times> switch" where
  "exchange k nx cs = (case cs of (c, s) \<Rightarrow>
     (let s1 = switch_after k (co_sent c) s in (con_after nx (drop (length (sw_sent s)) (sw_sent s1)) (c\<lparr>co_sent := []\<rparr>), s1)))"

lemma switch_after_simps [simp]:
  "switch_after k [] s = s" "switch_after k (m # ms) s = switch_after k ms (snd (rx_message k m s))"
  "switch_after k (ms @ ms') s = switch_after k ms' (switch_after k ms s)"
  by (simp_all add: switch_after_def)

lemma switch_after_reachable: "switch_reachable k s \<Longrightarrow> switch_reachable k (switch_after k ms s)"
proof (induction ms arbitrary: s)
  case (Cons m ms)
  have "switch_reachable k (snd (rx_message k m s))" by (intro reachable_step [OF Cons.prems step_message]) (rule surjective_pairing)
  then show ?case by (simp add: Cons.IH)
qed simp

subsection \<open>What the connection does\<close>

lemma hello_run:
  assumes "\<not> co_up c" "\<not> co_features_asked c" "\<not> co_disconnected c"
  shows "\<exists>h1 h2 i. snd (con_handle nx (h, MHello) c) = c\<lparr>co_features_asked := True, co_next_xid := i,
    co_sent := co_sent c @ [(h1, MFeaturesRequest), (h2, MStatsRequest 0 SRDesc)]\<rparr>"
proof -
  obtain x i where 1: "pack_message None MFeaturesRequest (c\<lparr>co_features_asked := True\<rparr>) =
      (Inr (\<lparr>hdr_version = OFP_VERSION, hdr_xid = x\<rparr>, MFeaturesRequest), c\<lparr>co_features_asked := True, co_next_xid := i\<rparr>)"
    using pack_message_run [OF handshake_packs(2)] by blast
  obtain y j where 2: "pack_message None (MStatsRequest 0 SRDesc) (c\<lparr>co_features_asked := True, co_next_xid := i\<rparr>) =
      (Inr (\<lparr>hdr_version = OFP_VERSION, hdr_xid = y\<rparr>, MStatsRequest 0 SRDesc), c\<lparr>co_features_asked := True, co_next_xid := j\<rparr>)"
    using pack_message_run [OF handshake_packs(3), of "c\<lparr>co_features_asked := True, co_next_xid := i\<rparr>"] by auto
  have "con_handle nx (h, MHello) c = (Inr (), c\<lparr>co_features_asked := True, co_next_xid := j,
      co_sent := co_sent c @ [(\<lparr>hdr_version = OFP_VERSION, hdr_xid = x\<rparr>, MFeaturesRequest), (\<lparr>hdr_version = OFP_VERSION, hdr_xid = y\<rparr>, MStatsRequest 0 SRDesc)]\<rparr>)"
    using assms by (simp add: con_handle_def handshake_handle_def sm_run 1 2 con_write_def)
  then show ?thesis by (metis snd_conv)
qed

text \<open>What the connection writes once it knows the features, before its barrier.\<close>

definition settings :: "nexus \<Rightarrow> of_body list" where
  "settings nx = (case nx_miss_send_len nx of None \<Rightarrow> [] | Some n \<Rightarrow> [MSetConfig 0 n]) @ (if nx_clear_flows nx then [MFlowMod clear_flows] else [])"

lemma settings_run:
  assumes "\<not> co_disconnected c"
  shows "\<exists>ms i. sthen (case nx_miss_send_len nx of None \<Rightarrow> sret () | Some n \<Rightarrow> con_send None (MSetConfig 0 n))
     (if nx_clear_flows nx then con_send None (MFlowMod clear_flows) else sret ()) c =
     (Inr (), c\<lparr>co_next_xid := i, co_sent := co_sent c @ ms\<rparr>) \<and> map snd ms = settings nx"
proof -
  have 1: "\<exists>ms i. (case nx_miss_send_len nx of None \<Rightarrow> sret () | Some n \<Rightarrow> con_send None (MSetConfig 0 n)) c =
     (Inr (), c\<lparr>co_next_xid := i, co_sent := co_sent c @ ms\<rparr>) \<and> map snd ms = (case nx_miss_send_len nx of None \<Rightarrow> [] | Some n \<Rightarrow> [MSetConfig 0 n])"
  proof (cases "nx_miss_send_len nx")
    case None
    then show ?thesis by (intro exI [of _ "[]"] exI [of _ "co_next_xid c"]) (simp add: sm_run)
  next
    case (Some n)
    obtain x i where "con_send None (MSetConfig 0 n) c = (Inr (), c\<lparr>co_next_xid := i, co_sent := co_sent c @ [(\<lparr>hdr_version = OFP_VERSION, hdr_xid = x\<rparr>, MSetConfig 0 n)]\<rparr>)"
      using con_send_run [OF handshake_packs(6) assms, of n] by blast
    with Some show ?thesis by (intro exI [of _ "[(\<lparr>hdr_version = OFP_VERSION, hdr_xid = x\<rparr>, MSetConfig 0 n)]"] exI [of _ i]) simp
  qed
  have 2: "\<exists>ms i. (if nx_clear_flows nx then con_send None (MFlowMod clear_flows) else sret ()) c =
     (Inr (), c\<lparr>co_next_xid := i, co_sent := co_sent c @ ms\<rparr>) \<and> map snd ms = (if nx_clear_flows nx then [MFlowMod clear_flows] else [])"
    if d: "\<not> co_disconnected c" for c
  proof (cases "nx_clear_flows nx")
    case False
    then show ?thesis by (intro exI [of _ "[]"] exI [of _ "co_next_xid c"]) (simp add: sm_run)
  next
    case True
    obtain x i where "con_send None (MFlowMod clear_flows) c = (Inr (), c\<lparr>co_next_xid := i, co_sent := co_sent c @ [(\<lparr>hdr_version = OFP_VERSION, hdr_xid = x\<rparr>, MFlowMod clear_flows)]\<rparr>)"
      using con_send_run [OF handshake_packs(7) d] by blast
    with True show ?thesis by (intro exI [of _ "[(\<lparr>hdr_version = OFP_VERSION, hdr_xid = x\<rparr>, MFlowMod clear_flows)]"] exI [of _ i]) simp
  qed
  obtain ms i where m: "(case nx_miss_send_len nx of None \<Rightarrow> sret () | Some n \<Rightarrow> con_send None (MSetConfig 0 n)) c =
     (Inr (), c\<lparr>co_next_xid := i, co_sent := co_sent c @ ms\<rparr>)" "map snd ms = (case nx_miss_send_len nx of None \<Rightarrow> [] | Some n \<Rightarrow> [MSetConfig 0 n])"
    using 1 by blast
  obtain ns j where "(if nx_clear_flows nx then con_send None (MFlowMod clear_flows) else sret ()) (c\<lparr>co_next_xid := i, co_sent := co_sent c @ ms\<rparr>) =
     (Inr (), c\<lparr>co_next_xid := j, co_sent := co_sent c @ ms @ ns\<rparr>)" "map snd ns = (if nx_clear_flows nx then [MFlowMod clear_flows] else [])"
    using 2 [of "c\<lparr>co_next_xid := i, co_sent := co_sent c @ ms\<rparr>"] assms by auto
  with m show ?thesis by (intro exI [of _ "ms @ ns"] exI [of _ j]) (simp add: sthen_Inr settings_def)
qed

lemma features_run:
  assumes "\<not> co_up c" "\<not> co_disconnected c" "nx_found nx"
  shows "\<exists>ms x i. snd (con_handle nx (\<lparr>hdr_version = OFP_VERSION, hdr_xid = y\<rparr>, MFeaturesReply f) c) = (set_features f c)\<lparr>co_deferred := Some [], co_nexus := True,
      co_next_xid := i, co_barrier := Some (Some x), co_sent := co_sent c @ ms @ [(\<lparr>hdr_version = OFP_VERSION, hdr_xid = x\<rparr>, MBarrierRequest)]\<rparr> \<and>
    map snd ms = settings nx"
proof -
  let ?c = "(set_features f c)\<lparr>co_deferred := Some [], co_nexus := True\<rparr>"
  have d: "\<not> co_disconnected ?c" "co_sent ?c = co_sent c" "\<not> co_disconnected (set_features f c)" using assms(2) by (simp_all add: set_features_def Let_def)
  obtain ms i where s: "sthen (case nx_miss_send_len nx of None \<Rightarrow> sret () | Some n \<Rightarrow> con_send None (MSetConfig 0 n))
     (if nx_clear_flows nx then con_send None (MFlowMod clear_flows) else sret ()) ?c =
     (Inr (), ?c\<lparr>co_next_xid := i, co_sent := co_sent c @ ms\<rparr>)" "map snd ms = settings nx"
    using settings_run [OF d(1), of nx] d(2) by auto
  obtain x j where b: "pack_message None MBarrierRequest (?c\<lparr>co_next_xid := i, co_sent := co_sent c @ ms\<rparr>) =
     (Inr (\<lparr>hdr_version = OFP_VERSION, hdr_xid = x\<rparr>, MBarrierRequest), ?c\<lparr>co_sent := co_sent c @ ms, co_next_xid := j\<rparr>)"
    using pack_message_run [OF handshake_packs(4), of "?c\<lparr>co_next_xid := i, co_sent := co_sent c @ ms\<rparr>"] by auto
  have "con_handle nx (\<lparr>hdr_version = OFP_VERSION, hdr_xid = y\<rparr>, MFeaturesReply f) c =
     sthen (sthen (case nx_miss_send_len nx of None \<Rightarrow> sret () | Some n \<Rightarrow> con_send None (MSetConfig 0 n))
       (if nx_clear_flows nx then con_send None (MFlowMod clear_flows) else sret ()))
       (sbind (sget co_disconnected) (\<lambda>d. if d then smod (\<lambda>c. c\<lparr>co_barrier := Some None\<rparr>)
             else sbind (pack_message None MBarrierRequest) (\<lambda>b.
               sthen (smod (\<lambda>c. c\<lparr>co_barrier := Some (Some (hdr_xid (fst b)))\<rparr>)) (con_write [b])))) ?c"
    using assms by (simp add: con_handle_def handshake_handle_def handshake_features_def sm_run_simps sm_seq sthen_assoc)
  also have "\<dots> = (Inr (), ?c\<lparr>co_next_xid := j, co_barrier := Some (Some x), co_sent := co_sent c @ ms @ [(\<lparr>hdr_version = OFP_VERSION, hdr_xid = x\<rparr>, MBarrierRequest)]\<rparr>)"
    by (subst sthen_Inr, rule s(1)) (simp add: b sm_run con_write_def d(3))
  finally show ?thesis using s(2) by (metis snd_conv)
qed

lemma barrier_run:
  assumes "\<not> co_up c" "co_barrier c = Some (Some x)" "co_deferred c = Some []" "co_features c = Some f"
  shows "snd (con_handle nx (\<lparr>hdr_version = v, hdr_xid = x\<rparr>, MBarrierReply) c) = (nexus_connect c)\<lparr>co_up := True, co_events := co_events c @
    (True, ConnectionHandshakeComplete) # event_log nx (ConnectionUp (Some f)) @ event_log nx (FeaturesReceived f)\<rparr>"
  using assms by (simp add: con_handle_def handshake_handle_def sm_run finish_connecting_def nexus_connect_def)

lemma handshake_ignores:
  assumes "\<not> co_up c" "\<forall>m\<in>set ms. \<exists>f. snd m = MFlowRemoved f"
  shows "con_after nx ms c = c"
  using assms(2) by (induction ms) (use assms(1) in \<open>auto simp: con_handle_def handshake_handle_def sm_run\<close>)

subsection \<open>What the switch does\<close>

definition features_of :: "switch \<Rightarrow> features" where
  "features_of s = \<lparr>fe_datapath_id = sw_dpid s, fe_n_buffers = word_of_nat (sw_max_buffers s), fe_n_tables = 1,
     fe_capabilities = word_of_nat (capability_bits (sw_features s)), fe_actions = word_of_nat (action_bits (sw_features s)),
     fe_ports = map snd (sw_ports s)\<rparr>"

text \<open>A switch whose description and features fit into their messages.\<close>

definition presentable :: "switch \<Rightarrow> bool" where
  "presentable s \<longleftrightarrow> sw_max_buffers s < 2 ^ 32 \<and> capability_bits (sw_features s) < 2 ^ 32 \<and> action_bits (sw_features s) < 2 ^ 32 \<and>
     packs (MFeaturesReply (features_of s)) \<and> packs (MStatsReply 0 (RDesc (sw_desc s)))"

lemma features_of_view: "switch_ok s \<Longrightarrow> features_view (features_of s) = map_of (sw_ports s)"
proof
  fix n
  assume "switch_ok s"
  then have "\<forall>(no, p)\<in>set (sw_ports s). pp_port_no p = no" using in_port_table by fastforce
  moreover have "\<forall>(no, p)\<in>set ps. pp_port_no p = no \<Longrightarrow> find (\<lambda>p. pp_port_no p = n) (map snd ps) = map_of ps n" for ps :: "(16 word, phy_port) dict"
    by (induction ps) auto
  ultimately show "features_view (features_of s) n = map_of (sw_ports s) n" by (simp add: features_view_def features_of_def)
qed

lemma rx_hello_run:
  assumes "sw_connected s" "\<not> sw_has_sent_hello s"
  shows "\<exists>h'. snd (rx_message k (h, MHello) s) = s\<lparr>sw_has_sent_hello := True, sw_sent := sw_sent s @ [(h', MHello)]\<rparr>"
  using assms send_with_run [OF handshake_packs(1), of "s\<lparr>sw_has_sent_hello := True\<rparr>"]
  by (auto simp: rx_message_def send_hello_def sm_run Let_def)

lemma rx_features_run:
  assumes "sw_connected s" "presentable s"
  shows "snd (rx_message k (h, MFeaturesRequest) s) =
    s\<lparr>sw_sent := sw_sent s @ [(\<lparr>hdr_version = OFP_VERSION, hdr_xid = hdr_xid h\<rparr>, MFeaturesReply (features_of s))]\<rparr>"
  using assms send_with_run [of "MFeaturesReply (features_of s)" s "hdr_xid h"]
  by (simp add: rx_message_def rx_features_request_def presentable_def as_L_def sm_run Let_def features_of_def)

lemma rx_desc_run:
  assumes "sw_connected s" "presentable s"
  shows "snd (rx_message k (h, MStatsRequest fl SRDesc) s) =
    s\<lparr>sw_sent := sw_sent s @ [(\<lparr>hdr_version = OFP_VERSION, hdr_xid = hdr_xid h\<rparr>, MStatsReply 0 (RDesc (sw_desc s)))]\<rparr>"
  using assms send_with_run [of "MStatsReply 0 (RDesc (sw_desc s))" s "hdr_xid h"]
  by (simp add: rx_message_def rx_stats_request_def stats_handler_def presentable_def sm_run Let_def)

lemma rx_barrier_run:
  assumes "sw_connected s"
  shows "snd (rx_message k (h, MBarrierRequest) s) =
    s\<lparr>sw_sent := sw_sent s @ [(\<lparr>hdr_version = OFP_VERSION, hdr_xid = hdr_xid h\<rparr>, MBarrierReply)]\<rparr>"
  using assms send_with_run [OF handshake_packs(5), of s "hdr_xid h"] by (simp add: rx_message_def Let_def)

text \<open>
  The match of \<open>clear_flows\<close> is the widest one, but only among matches whose wildcards are defined bits: a match
  read from the wire keeps the others, and one that has them is not removed.
\<close>

definition defined_wildcards :: "ofp_match \<Rightarrow> bool" where
  "defined_wildcards m \<longleftrightarrow> mt_wildcards m AND OFPFW_ALL = mt_wildcards m"

lemma everything_matches:
  assumes "defined_wildcards m"
  shows "covers True match_init m"
proof -
  have absorb: "z OR ((w AND x) AND y) = z" if "z = x AND y" for w x y z :: "32 word"
    unfolding that by (intro bit_eqI) (auto simp: bit_simps)
  have "narrow_bits match_init = OFPFW_ALL AND NOT (OFPFW_NW_SRC_MASK OR OFPFW_NW_DST_MASK)" by (simp add: match_run)
  then have "narrow_bits match_init OR ((mt_wildcards m AND OFPFW_ALL) AND NOT (OFPFW_NW_SRC_MASK OR OFPFW_NW_DST_MASK)) = narrow_bits match_init"
    by (rule absorb)
  then have "narrower match_init m" using assms by (simp add: narrower_def defined_wildcards_def narrow_bits_def)
  moreover have "attrs_cover match_init m"
  proof -
    have "mt_in_port match_init = None" "mt_dl_vlan match_init = None" "mt_dl_src match_init = None" "mt_dl_dst match_init = None"
      "mt_dl_type match_init = None" "mt_nw_proto match_init = None" "mt_tp_src match_init = None" "mt_tp_dst match_init = None"
      "mt_dl_vlan_pcp match_init = None" "mt_nw_tos match_init = None" "get_nw_src match_init = (None, 0)" "get_nw_dst match_init = (None, 0)"
      by (simp_all add: match_run)
    then show ?thesis by (simp add: attrs_cover_def match_fail_def nw_within_ok_def)
  qed
  ultimately show ?thesis by (simp add: covers_def matches_decides)
qed

lemma undefined_wildcards_survive: "\<not> covers True match_init (match_init\<lparr>mt_wildcards := normalize_wildcards 0xffffffff\<rparr>)"
  by (simp add: match_run)

lemma rx_clear_run:
  assumes "switch_reachable k s" "sw_connected s"
    and "\<And>e. e \<in> set (sw_table s) \<Longrightarrow> wants_removed e \<Longrightarrow> packs (MFlowRemoved (to_flow_removed (sw_now s) OFPRR_DELETE e))"
    and "\<And>e. e \<in> set (sw_table s) \<Longrightarrow> defined_wildcards (te_match e)"
  shows "\<exists>i ms. snd (rx_message k (h, MFlowMod clear_flows) s) = s\<lparr>sw_table := [], sw_next_xid := i, sw_sent := sw_sent s @ ms\<rparr> \<and>
    (\<forall>m\<in>set ms. \<exists>f. snd m = MFlowRemoved f)"
proof -
  have all: "is_matched_by e match_init p False None" if "e \<in> set (sw_table s)" for e p
    using assms(4) [OF that]
    by (simp add: is_matched_by_def everything_matches)
  obtain i ms where d: "flow_mod_delete False clear_flows s = (Inr (), s\<lparr>
      sw_table := filter (\<lambda>e. \<not> is_matched_by e (fm_match clear_flows) (Some (fm_priority clear_flows)) False (stats_out_port (fm_out_port clear_flows))) (sw_table s),
      sw_next_xid := i, sw_sent := sw_sent s @ ms\<rparr>)"
    "map snd ms = map (\<lambda>e. MFlowRemoved (to_flow_removed (sw_now s) OFPRR_DELETE e)) (filter wants_removed
      (matching_entries (fm_match clear_flows) (Some (fm_priority clear_flows)) False (stats_out_port (fm_out_port clear_flows)) (sw_table s)))"
    using delete_run [OF assms(1-3), of False clear_flows] by auto
  have "\<forall>m\<in>set ms. \<exists>f. snd m = MFlowRemoved f"
  proof
    fix m
    assume "m \<in> set ms"
    then have "snd m \<in> set (map snd ms)" by simp
    then show "\<exists>f. snd m = MFlowRemoved f" unfolding d(2) by auto
  qed
  moreover have "rx_message k (h, MFlowMod clear_flows) s = (Inr (), s\<lparr>sw_table := [], sw_next_xid := i, sw_sent := sw_sent s @ ms\<rparr>)"
    using d(1) all by (auto simp: filter_empty_conv rx_message_def rx_flow_mod_def clear_flows_def stats_out_port_def OFPP_defs sm_run Let_def NO_BUFFER_def)
  ultimately show ?thesis by auto
qed

text \<open>The switch takes the settings of the connection.\<close>

definition settled :: "nexus \<Rightarrow> switch \<Rightarrow> switch \<Rightarrow> bool" where
  "settled nx s s' \<longleftrightarrow> (nx_clear_flows nx \<longrightarrow> sw_table s' = []) \<and> (\<not> nx_clear_flows nx \<longrightarrow> sw_table s' = sw_table s) \<and>
     (case nx_miss_send_len nx of None \<Rightarrow> sw_miss_send_len s' = sw_miss_send_len s | Some n \<Rightarrow> sw_miss_send_len s' = n) \<and>
     sw_ports s' = sw_ports s \<and> sw_connected s' = sw_connected s"

lemma rx_settings_run:
  assumes "switch_reachable k s" "sw_connected s"
    and "\<And>e. e \<in> set (sw_table s) \<Longrightarrow> wants_removed e \<Longrightarrow> packs (MFlowRemoved (to_flow_removed (sw_now s) OFPRR_DELETE e))"
    and "\<And>e. e \<in> set (sw_table s) \<Longrightarrow> defined_wildcards (te_match e)"
    and "map snd ms = settings nx"
  shows "\<exists>rs. settled nx s (switch_after k ms s) \<and> sw_sent (switch_after k ms s) = sw_sent s @ rs \<and>
    (\<forall>m\<in>set rs. \<exists>f. snd m = MFlowRemoved f)"
proof -
  define cs ns where "cs = (case nx_miss_send_len nx of None \<Rightarrow> [] | Some n \<Rightarrow> [MSetConfig 0 n])"
    and "ns = (if nx_clear_flows nx then [MFlowMod clear_flows] else [])"
  from assms(5) obtain ms1 ms2 where ms: "ms = ms1 @ ms2" "map snd ms1 = cs" "map snd ms2 = ns"
    by (auto simp: settings_def cs_def ns_def map_eq_append_conv)
  let ?s = "switch_after k ms1 s"
  have 1: "switch_reachable k ?s \<and> sw_table ?s = sw_table s \<and> sw_now ?s = sw_now s \<and> sw_ports ?s = sw_ports s \<and>
      sw_connected ?s = sw_connected s \<and> sw_sent ?s = sw_sent s \<and>
      (case nx_miss_send_len nx of None \<Rightarrow> sw_miss_send_len ?s = sw_miss_send_len s | Some n \<Rightarrow> sw_miss_send_len ?s = n)"
  proof (cases "nx_miss_send_len nx")
    case None
    with ms(2) assms(1) show ?thesis by (simp add: cs_def)
  next
    case (Some n)
    then obtain h where "ms1 = [(h, MSetConfig 0 n)]" using ms(2) by (cases ms1) (auto simp: cs_def)
    moreover have "rx_message k (h, MSetConfig 0 n) s = (Inr (), s\<lparr>sw_miss_send_len := n, sw_config_flags := 0\<rparr>)" for h
      by (simp add: rx_message_def sm_run Let_def)
    moreover from this have "switch_reachable k (s\<lparr>sw_miss_send_len := n, sw_config_flags := 0\<rparr>)"
      by (intro reachable_step [OF assms(1) step_message])
    ultimately show ?thesis using Some by simp
  qed
  show ?thesis
  proof (cases "nx_clear_flows nx")
    case False
    with ms(3) 1 show ?thesis by (intro exI [of _ "[]"]) (simp add: ns_def ms(1) settled_def split: option.splits)
  next
    case True
    then obtain h where h: "ms2 = [(h, MFlowMod clear_flows)]" using ms(3) by (cases ms2) (auto simp: ns_def)
    obtain i rs where "snd (rx_message k (h, MFlowMod clear_flows) ?s) = ?s\<lparr>sw_table := [], sw_next_xid := i, sw_sent := sw_sent ?s @ rs\<rparr>"
      "\<forall>m\<in>set rs. \<exists>f. snd m = MFlowRemoved f"
      using rx_clear_run [of k ?s h] 1 assms(2-4) by auto
    with 1 True show ?thesis by (intro exI [of _ rs]) (simp add: h ms(1) settled_def split: option.splits)
  qed
qed

text \<open>The second round: the switch describes itself, and the connection answers with its settings and a barrier.\<close>

lemma second_round:
  assumes "\<not> co_up c" "\<not> co_disconnected c" "pc_chain (co_original c) = None" "co_sent c = [(h1, MFeaturesRequest), (h2, MStatsRequest 0 SRDesc)]"
    and "sw_connected s" "presentable s" "nx_found nx"
  shows "\<exists>c' x ms rs. exchange k nx (c, s) = (c', s\<lparr>sw_sent := sw_sent s @ rs\<rparr>) \<and> \<not> co_up c' \<and> \<not> co_disconnected c' \<and> co_id c' = co_id c \<and>
    co_barrier c' = Some (Some x) \<and> co_deferred c' = Some [] \<and> co_features c' = Some (features_of s) \<and> co_dpid c' = Some (sw_dpid s) \<and>
    co_description c' = Some (RDesc (sw_desc s)) \<and> pc_view (co_ports c') = features_view (features_of s) \<and>
    co_sent c' = ms @ [(\<lparr>hdr_version = OFP_VERSION, hdr_xid = x\<rparr>, MBarrierRequest)] \<and> map snd ms = settings nx"
proof -
  let ?f = "features_of s" and ?c = "c\<lparr>co_sent := []\<rparr>"
  let ?s1 = "s\<lparr>sw_sent := sw_sent s @ [(\<lparr>hdr_version = OFP_VERSION, hdr_xid = hdr_xid h1\<rparr>, MFeaturesReply ?f)]\<rparr>"
  let ?rs = "[(\<lparr>hdr_version = OFP_VERSION, hdr_xid = hdr_xid h1\<rparr>, MFeaturesReply ?f), (\<lparr>hdr_version = OFP_VERSION, hdr_xid = hdr_xid h2\<rparr>, MStatsReply 0 (RDesc (sw_desc s)))]"
  have 1: "snd (rx_message k (h1, MFeaturesRequest) s) = ?s1" using rx_features_run [OF assms(5,6)] by simp
  have "presentable ?s1" using assms(6) by (simp add: presentable_def features_of_def)
  then have 2: "snd (rx_message k (h2, MStatsRequest 0 SRDesc) ?s1) = s\<lparr>sw_sent := sw_sent s @ ?rs\<rparr>"
    using rx_desc_run [of ?s1 k h2 0] assms(5) by simp
  obtain ms x i where f: "snd (con_handle nx (\<lparr>hdr_version = OFP_VERSION, hdr_xid = hdr_xid h1\<rparr>, MFeaturesReply ?f) ?c) =
      (set_features ?f ?c)\<lparr>co_deferred := Some [], co_nexus := True, co_next_xid := i, co_barrier := Some (Some x),
        co_sent := ms @ [(\<lparr>hdr_version = OFP_VERSION, hdr_xid = x\<rparr>, MBarrierRequest)]\<rparr>" "map snd ms = settings nx"
    using features_run [of ?c nx "hdr_xid h1" ?f] assms(1,2,7) by auto
  let ?c1 = "(set_features ?f ?c)\<lparr>co_deferred := Some [], co_nexus := True, co_next_xid := i, co_barrier := Some (Some x),
        co_sent := ms @ [(\<lparr>hdr_version = OFP_VERSION, hdr_xid = x\<rparr>, MBarrierRequest)]\<rparr>"
  have up: "\<not> co_up ?c1" using assms(1) by simp
  then have d: "snd (con_handle nx (h, MStatsReply 0 (RDesc (sw_desc s))) ?c1) = ?c1\<lparr>co_description := Some (RDesc (sw_desc s))\<rparr>" for h
    by (simp add: con_handle_def handshake_handle_def sm_run)
  have "exchange k nx (c, s) = (?c1\<lparr>co_description := Some (RDesc (sw_desc s))\<rparr>, s\<lparr>sw_sent := sw_sent s @ ?rs\<rparr>)"
    by (simp add: exchange_def Let_def assms(4) 1 2 f(1) d)
  moreover have "pc_view (co_ports ?c1) = features_view ?f" using set_features_view [of ?c ?f] assms(3) by simp
  ultimately show ?thesis using up f(2) assms(2)
    by (intro exI [of _ "?c1\<lparr>co_description := Some (RDesc (sw_desc s))\<rparr>"] exI [of _ x] exI [of _ ms] exI [of _ ?rs])
       (simp add: set_features_def Let_def features_of_def)
qed

text \<open>The third round: the switch takes the settings and answers the barrier.\<close>

lemma third_round:
  assumes "\<not> co_up c" "\<not> co_disconnected c" "co_barrier c = Some (Some x)" "co_deferred c = Some []" "co_features c = Some f"
    and "co_sent c = ms @ [(\<lparr>hdr_version = OFP_VERSION, hdr_xid = x\<rparr>, MBarrierRequest)]" "map snd ms = settings nx"
    and "switch_reachable k s" "sw_connected s"
    and "\<And>e. e \<in> set (sw_table s) \<Longrightarrow> wants_removed e \<Longrightarrow> packs (MFlowRemoved (to_flow_removed (sw_now s) OFPRR_DELETE e))"
    and "\<And>e. e \<in> set (sw_table s) \<Longrightarrow> defined_wildcards (te_match e)"
  shows "\<exists>c' s'. exchange k nx (c, s) = (c', s') \<and> co_up c' \<and> \<not> co_disconnected c' \<and> co_dpid c' = co_dpid c \<and>
    map_of (co_connections c') (co_dpid c) = Some (co_id c) \<and> co_description c' = co_description c \<and>
    co_ports c' = co_ports c \<and> settled nx s s'"
proof -
  let ?b = "\<lparr>hdr_version = OFP_VERSION, hdr_xid = x\<rparr>" and ?s1 = "switch_after k ms s" and ?c = "c\<lparr>co_sent := []\<rparr>"
  obtain rs where rs: "settled nx s ?s1" "sw_sent ?s1 = sw_sent s @ rs" "\<forall>m\<in>set rs. \<exists>f. snd m = MFlowRemoved f"
    using rx_settings_run [OF assms(8,9,10,11,7)] by blast
  have "snd (rx_message k (?b, MBarrierRequest) ?s1) = ?s1\<lparr>sw_sent := sw_sent s @ rs @ [(?b, MBarrierReply)]\<rparr>"
    using rx_barrier_run [of ?s1 k ?b] rs(1,2) assms(9) by (simp add: settled_def)
  moreover have "con_after nx rs ?c = ?c" using assms(1) rs(3) by (intro handshake_ignores) simp_all
  moreover have "snd (con_handle nx (?b, MBarrierReply) ?c) = (nexus_connect ?c)\<lparr>co_up := True, co_events := co_events ?c @
    (True, ConnectionHandshakeComplete) # event_log nx (ConnectionUp (Some f)) @ event_log nx (FeaturesReceived f)\<rparr>"
    using assms(1,3-5) by (intro barrier_run) simp_all
  ultimately have "exchange k nx (c, s) = ((nexus_connect ?c)\<lparr>co_up := True, co_events := co_events c @
    (True, ConnectionHandshakeComplete) # event_log nx (ConnectionUp (Some f)) @ event_log nx (FeaturesReceived f)\<rparr>, ?s1\<lparr>sw_sent := sw_sent s @ rs @ [(?b, MBarrierReply)]\<rparr>)"
    by (simp add: exchange_def Let_def assms(6))
  moreover have "settled nx s (?s1\<lparr>sw_sent := l\<rparr>)" for l using rs(1) by (auto simp: settled_def split: option.splits)
  ultimately show ?thesis using assms(2) by (simp add: nexus_connect_def map_of_d_set)
qed

text \<open>
  C2. The two models understand each other.  A connected switch and a new connection exchange what they have to say
  three times, and the connection is up: registered under the switch's datapath number, knowing the switch's
  description and exactly its ports; and the switch has taken the controller's settings, with an empty flow table
  if the nexus clears flows.
\<close>

theorem handshake_completes:
  assumes s: "switch_reachable k s" "sw_connected s" "\<not> sw_has_sent_hello s" "presentable s"
    and fl: "\<And>e. e \<in> set (sw_table s) \<Longrightarrow> wants_removed e \<Longrightarrow> packs (MFlowRemoved (to_flow_removed (sw_now s) OFPRR_DELETE e))"
      "\<And>e. e \<in> set (sw_table s) \<Longrightarrow> defined_wildcards (te_match e)"
    and nx: "nx_found nx"
  shows "\<exists>c' s'. (exchange k nx ^^ 3) (open_con i conns x, s) = (c', s') \<and> co_up c' \<and> \<not> co_disconnected c' \<and>
    co_dpid c' = Some (sw_dpid s) \<and> map_of (co_connections c') (Some (sw_dpid s)) = Some i \<and>
    co_description c' = Some (RDesc (sw_desc s)) \<and> pc_view (co_ports c') = map_of (sw_ports s') \<and> settled nx s s'"
proof -
  obtain y j where c0: "open_con i conns x = (new_con i conns x)\<lparr>co_next_xid := j, co_sent := [(\<lparr>hdr_version = OFP_VERSION, hdr_xid = y\<rparr>, MHello)]\<rparr>"
    using con_send_run [OF handshake_packs(1), of "new_con i conns x"] by (auto simp: open_con_def new_con_def)
  obtain h0 where s1: "snd (rx_message k (\<lparr>hdr_version = OFP_VERSION, hdr_xid = y\<rparr>, MHello) s) = s\<lparr>sw_has_sent_hello := True, sw_sent := sw_sent s @ [(h0, MHello)]\<rparr>"
    using rx_hello_run [OF s(2,3), of k] by blast
  let ?s1 = "s\<lparr>sw_has_sent_hello := True, sw_sent := sw_sent s @ [(h0, MHello)]\<rparr>"
  let ?n = "new_con i conns x"
  obtain h1 h2 j' where "snd (con_handle nx (h0, MHello) (?n\<lparr>co_next_xid := j, co_sent := []\<rparr>)) =
      ?n\<lparr>co_features_asked := True, co_next_xid := j', co_sent := [(h1, MFeaturesRequest), (h2, MStatsRequest 0 SRDesc)]\<rparr>"
    using hello_run [of "?n\<lparr>co_next_xid := j, co_sent := []\<rparr>" nx h0] by (auto simp: new_con_def)
  then have e1: "exchange k nx (open_con i conns x, s) =
      (?n\<lparr>co_features_asked := True, co_next_xid := j', co_sent := [(h1, MFeaturesRequest), (h2, MStatsRequest 0 SRDesc)]\<rparr>, ?s1)"
    by (simp add: exchange_def c0 s1 Let_def)
  let ?c1 = "?n\<lparr>co_features_asked := True, co_next_xid := j', co_sent := [(h1, MFeaturesRequest), (h2, MStatsRequest 0 SRDesc)]\<rparr>"
  have r1: "switch_reachable k ?s1" unfolding s1 [symmetric] by (intro reachable_step [OF s(1) step_message]) (rule surjective_pairing)
  obtain c2 y2 ms rs where 2: "exchange k nx (?c1, ?s1) = (c2, ?s1\<lparr>sw_sent := sw_sent ?s1 @ rs\<rparr>)"
    "\<not> co_up c2" "\<not> co_disconnected c2" "co_id c2 = co_id ?c1" "co_barrier c2 = Some (Some y2)" "co_deferred c2 = Some []"
    "co_features c2 = Some (features_of ?s1)" "co_dpid c2 = Some (sw_dpid ?s1)" "co_description c2 = Some (RDesc (sw_desc ?s1))"
    "pc_view (co_ports c2) = features_view (features_of ?s1)"
    "co_sent c2 = ms @ [(\<lparr>hdr_version = OFP_VERSION, hdr_xid = y2\<rparr>, MBarrierRequest)]" "map snd ms = settings nx"
    using second_round [of ?c1 h1 h2 ?s1 nx k] s nx by (auto simp: new_con_def presentable_def features_of_def)
  let ?s2 = "?s1\<lparr>sw_sent := sw_sent ?s1 @ rs\<rparr>"
  have "switch_after k (co_sent ?c1) ?s1 = ?s2" using 2(1) by (simp add: exchange_def Let_def)
  then have r2: "switch_reachable k ?s2" using switch_after_reachable [OF r1, of "co_sent ?c1"] by simp
  obtain c' s' where 3: "exchange k nx (c2, ?s2) = (c', s')" "co_up c'" "\<not> co_disconnected c'" "co_dpid c' = co_dpid c2"
    "map_of (co_connections c') (co_dpid c2) = Some (co_id c2)" "co_description c' = co_description c2" "co_ports c' = co_ports c2"
    "settled nx ?s2 s'"
    using third_round [OF 2(2,3,5,6,7,11,12) r2] s(2) fl by auto
  have "(exchange k nx ^^ 3) (open_con i conns x, s) = (c', s')" using e1 2(1) 3(1) by (simp add: numeral_3_eq_3)
  moreover have "features_view (features_of ?s1) = map_of (sw_ports s)" using features_of_view [OF switch_reachable_ok [OF r1]] by simp
  moreover have "settled nx s s'" "sw_ports s' = sw_ports s" using 3(8) by (simp_all add: settled_def split: option.splits)
  ultimately show ?thesis using 2 3 by (intro exI [of _ c'] exI [of _ s']) (simp add: new_con_def)
qed

text \<open>A switch with two ports that has just been connected, and a nexus that clears flows.\<close>

definition fresh_switch :: switch where "fresh_switch = snd (set_connection two_port_switch)"

definition clearing_nexus :: nexus where "clearing_nexus = plain_nexus\<lparr>nx_clear_flows := True, nx_miss_send_len := Some 128\<rparr>"

theorem handshake_completes_witness:
  "\<exists>c' s'. (exchange 1 clearing_nexus ^^ 3) (open_con 4 [] 1, fresh_switch) = (c', s') \<and> co_up c' \<and> co_dpid c' = Some 1 \<and>
     map_of (co_connections c') (Some 1) = Some 4 \<and> pc_view (co_ports c') = [2 \<mapsto> plain_port 2, 1 \<mapsto> plain_port 1] \<and> sw_miss_send_len s' = 128"
proof -
  have f: "sw_ports fresh_switch = [(1, plain_port 1), (2, plain_port 2)]" "sw_table fresh_switch = []" "sw_connected fresh_switch"
    "\<not> sw_has_sent_hello fresh_switch" "sw_dpid fresh_switch = 1" "sw_max_buffers fresh_switch = 2" "sw_features fresh_switch = default_features"
    "sw_desc fresh_switch = sw_desc small_switch"
    by (simp_all add: fresh_switch_def set_connection_def sm_run two_port_switch_def add_port_def small_switch_def blank_switch_def
        send_port_status_def send_def plain_port_def)
  have bits: "capability_bits default_features = 7" "action_bits default_features = 4095" by code_simp+
  have "switch_reachable 1 fresh_switch"
    unfolding fresh_switch_def by (rule reachable_step [OF two_port_switch_reachable]) (rule step_connect [OF surjective_pairing])
  moreover have "presentable fresh_switch"
    by (simp add: presentable_def features_of_def f bits packs_def msg_pack_def body_validate_def header_pack_def pack_nat_H_def
        phy_port_pack_def plain_port_def desc_pack_def small_switch_def blank_switch_def desc_valid_def ascii_def OFP_MAX_PORT_NAME_LEN_def)
  ultimately show ?thesis
    using handshake_completes [of 1 fresh_switch clearing_nexus 4 "[]" 1] f
    by (auto simp: clearing_nexus_def plain_nexus_def settled_def)
qed

end
