(* ===== verification/Deferred.thy ===== *)
theory Deferred
  imports Prelude "HOL-Library.Sublist"
begin

text \<open>
  \<open>openflow/of_01.py\<close>: \<open>Connection.send\<close> and \<open>DeferredSender\<close>, the thread that writes what a socket did not take.
  The two threads are a step relation: the lock covers a whole round of the thread, and the other side calls
  \<open>send\<close>.  A socket is what it answers to each \<open>send\<close>; \<open>PIPE_BUF\<close>, a positive constant of the platform, is \<open>Suc k\<close>.
\<close>

section \<open>State\<close>

text \<open>
  The queues by connection, the bytes each socket took and the connections that are closed; and two ghosts: what was asked
  for, and whether bytes of a connection that stays open were given up, because its socket reported an exceptional
  condition, its queue was killed, or its \<open>send\<close> raised something that is no socket error.
\<close>

record sender =
  sd_queues :: "(nat, bytes list) dict"
  sd_sending :: bool
  sd_wire :: "nat \<Rightarrow> bytes"
  sd_closed :: "nat \<Rightarrow> bool"
  sd_asked :: "nat \<Rightarrow> bytes"
  sd_lost :: "nat \<Rightarrow> bool"

datatype outcome = Sent nat | Again | Failed | Unknown

section \<open>Operations\<close>

function sliceup :: "nat \<Rightarrow> bytes \<Rightarrow> bytes list" where
  "sliceup k data =
     (if length data > Suc k then take (Suc k) data # sliceup k (drop (Suc k) data)
      else if length data > 0 then [data] else [])"
  by pat_completeness auto
termination by (relation "measure (\<lambda>(k, data). length data)") auto

declare sliceup.simps [simp del]

definition queue_of :: "sender \<Rightarrow> nat \<Rightarrow> bytes list" where
  "queue_of s c = (case map_of (sd_queues s) c of None \<Rightarrow> [] | Some q \<Rightarrow> q)"

definition deferred_send :: "nat \<Rightarrow> nat \<Rightarrow> bytes \<Rightarrow> sender \<Rightarrow> sender" where
  "deferred_send k c data s = s\<lparr>sd_sending := True, sd_queues := d_set c (queue_of s c @ sliceup k data) (sd_queues s)\<rparr>"

text \<open>
  \<open>Connection.send\<close>, with the answer of the socket if it is asked.  A socket error other than \<open>EAGAIN\<close> closes the connection;
  any other exception goes to the caller and leaves the connection as it was.
\<close>

definition take_wire :: "nat \<Rightarrow> bytes \<Rightarrow> sender \<Rightarrow> sender" where
  "take_wire c data s = s\<lparr>sd_wire := (sd_wire s)(c := sd_wire s c @ data)\<rparr>"

definition close_con :: "nat \<Rightarrow> sender \<Rightarrow> sender" where
  "close_con c s = s\<lparr>sd_closed := (sd_closed s)(c := True)\<rparr>"

definition lose :: "nat \<Rightarrow> sender \<Rightarrow> sender" where
  "lose c s = s\<lparr>sd_lost := (sd_lost s)(c := True)\<rparr>"

definition send_bytes :: "nat \<Rightarrow> outcome \<Rightarrow> nat \<Rightarrow> bytes \<Rightarrow> sender \<Rightarrow> sender" where
  "send_bytes k answer c data s =
     (if sd_closed s c then s
      else let s = s\<lparr>sd_asked := (sd_asked s)(c := sd_asked s c @ data)\<rparr> in
        if sd_sending s then deferred_send k c data s
        else (case answer of
            Sent l \<Rightarrow> let s = take_wire c (take l data) s in if l \<noteq> length data then deferred_send k c (drop l data) s else s
          | Again \<Rightarrow> deferred_send k c data s
          | Failed \<Rightarrow> close_con c s
          | Unknown \<Rightarrow> lose c s))"

text \<open>The inner loop of \<open>run\<close>: what was written, and what is left unless the socket failed.\<close>

fun write_queue :: "outcome list \<Rightarrow> bytes list \<Rightarrow> bytes \<times> bytes list \<times> bool" where
  "write_queue answers [] = ([], [], True)"
| "write_queue [] q = ([], q, True)"
| "write_queue (Sent l # answers) (d # q) =
     (if l \<noteq> length d then (take l d, drop l d # q, True)
      else case write_queue answers q of (w, r, ok) \<Rightarrow> (d @ w, r, ok))"
| "write_queue (Failed # answers) q = ([], q, False)"
| "write_queue (_ # answers) q = ([], q, True)"

text \<open>A connection whose socket can be written: the round of \<open>run\<close> for it.\<close>

definition write_con :: "outcome list \<Rightarrow> nat \<Rightarrow> sender \<Rightarrow> sender" where
  "write_con answers c s =
     (case map_of (sd_queues s) c of
        None \<Rightarrow> s
      | Some q \<Rightarrow>
          (case write_queue answers q of (w, r, ok) \<Rightarrow>
             let s1 = take_wire c w s in
             if \<not> ok then (close_con c s1)\<lparr>sd_queues := d_del c (sd_queues s)\<rparr>
             else if r = [] then
               let s2 = s1\<lparr>sd_queues := d_del c (sd_queues s)\<rparr> in
               if sd_queues s2 = [] then s2\<lparr>sd_sending := False\<rparr> else s2
             else s1\<lparr>sd_queues := d_set c r (sd_queues s)\<rparr>))"

text \<open>A connection whose socket reports an exceptional condition: its queue is dropped, and that is all.\<close>

definition exceptional :: "nat \<Rightarrow> sender \<Rightarrow> sender" where
  "exceptional c s = lose c (s\<lparr>sd_queues := d_del c (sd_queues s)\<rparr>)"

text \<open>\<open>kill\<close>, which no code calls.\<close>

definition kill :: "nat \<Rightarrow> sender \<Rightarrow> sender" where
  "kill c s = lose c (s\<lparr>sd_queues := d_del c (sd_queues s)\<rparr>)"

section \<open>Slices\<close>

lemma concat_sliceup [simp]: "concat (sliceup k data) = data"
  by (induction k data rule: sliceup.induct) (subst sliceup.simps, auto)

lemma sliceup_pieces: "d \<in> set (sliceup k data) \<Longrightarrow> 0 < length d \<and> length d \<le> Suc k"
proof (induction k data rule: sliceup.induct)
  case (1 k data)
  show ?case using 1 by (subst (asm) (2) sliceup.simps) (auto split: if_splits)
qed

lemma write_queue_splits:
  "write_queue answers q = (w, r, ok) \<Longrightarrow> w @ concat r = concat q"
  by (induction answers q arbitrary: w rule: write_queue.induct) (auto split: if_splits prod.splits)

lemma write_queue_pieces:
  "write_queue answers q = (w, r, ok) \<Longrightarrow> \<forall>d\<in>set q. length d \<le> n \<Longrightarrow> \<forall>d\<in>set r. length d \<le> n"
  by (induction answers q arbitrary: w rule: write_queue.induct) (fastforce split: if_splits prod.splits)+

section \<open>All interleavings\<close>

definition sender_init :: sender where
  "sender_init = \<lparr>sd_queues = [], sd_sending = False, sd_wire = (\<lambda>_. []), sd_closed = (\<lambda>_. False), sd_asked = (\<lambda>_. []), sd_lost = (\<lambda>_. False)\<rparr>"

inductive sender_step :: "nat \<Rightarrow> sender \<Rightarrow> sender \<Rightarrow> bool" for k :: nat where
  step_send: "sender_step k s (send_bytes k answer c data s)"
| step_write: "sender_step k s (write_con answers c s)"
| step_close: "sender_step k s (close_con c s)"
| step_exceptional: "sender_step k s (exceptional c s)"
| step_kill: "sender_step k s (kill c s)"

definition sender_ok :: "nat \<Rightarrow> sender \<Rightarrow> bool" where
  "sender_ok k s \<longleftrightarrow> (sd_queues s \<noteq> [] \<longrightarrow> sd_sending s) \<and>
     (\<forall>c. subseq (sd_wire s c @ concat (queue_of s c)) (sd_asked s c) \<and>
       (\<not> sd_lost s c \<longrightarrow> prefix (sd_wire s c @ concat (queue_of s c)) (sd_asked s c)) \<and>
       (\<not> sd_lost s c \<longrightarrow> \<not> sd_closed s c \<longrightarrow> sd_asked s c = sd_wire s c @ concat (queue_of s c)) \<and>
       (\<forall>d\<in>set (queue_of s c). length d \<le> Suc k))"

lemma queue_simps [simp]:
  "queue_of (s\<lparr>sd_queues := d_set c q d\<rparr>) = (\<lambda>c'. if c' = c then q else queue_of (s\<lparr>sd_queues := d\<rparr>) c')"
  "queue_of (s\<lparr>sd_queues := d_del c d\<rparr>) = (\<lambda>c'. if c' = c then [] else queue_of (s\<lparr>sd_queues := d\<rparr>) c')"
  by (auto simp: queue_of_def map_of_d_set map_of_d_del)

lemma queue_one [simp]: "queue_of (s\<lparr>sd_queues := [(c, q)]\<rparr>) = (\<lambda>c'. if c' = c then q else [])"
  by (auto simp: queue_of_def)

lemma queue_fields [simp]:
  "queue_of (s\<lparr>sd_sending := b\<rparr>) = queue_of s" "queue_of (s\<lparr>sd_wire := w\<rparr>) = queue_of s" "queue_of (s\<lparr>sd_asked := a\<rparr>) = queue_of s"
  "queue_of (s\<lparr>sd_closed := g\<rparr>) = queue_of s" "queue_of (s\<lparr>sd_queues := sd_queues s\<rparr>) = queue_of s"
  by (auto simp: queue_of_def)

lemma no_queue: "sd_queues s = [] \<Longrightarrow> queue_of s c = []"
  by (simp add: queue_of_def)

lemma lost_fields [simp]: "queue_of (s\<lparr>sd_lost := g\<rparr>) = queue_of s"
  by (rule ext) (simp add: queue_of_def)

lemma subseq_front: "subseq (xs @ ys) zs \<Longrightarrow> subseq xs zs"
  by (meson prefix_imp_subseq prefixI subseq_order.trans)

lemma subseq_prefix_append: "subseq xs ys \<Longrightarrow> subseq xs (ys @ zs)"
  by (meson prefix_imp_subseq prefixI subseq_order.trans)

lemma subseq_behind: "subseq xs ys \<Longrightarrow> subseq (xs @ zs) (ys @ zs)" "subseq xs ys \<Longrightarrow> subseq xs (ys @ zs)"
  by (simp_all add: subseq_append' subseq_prefix_append)

lemma sender_okI:
  assumes "sender_ok k s" "sd_queues s' \<noteq> [] \<Longrightarrow> sd_sending s'"
    and "\<And>c'. c' \<noteq> c \<Longrightarrow> sd_wire s' c' = sd_wire s c' \<and> queue_of s' c' = queue_of s c' \<and> sd_asked s' c' = sd_asked s c' \<and>
      sd_lost s' c' = sd_lost s c' \<and> sd_closed s' c' = sd_closed s c'"
    and "subseq (sd_wire s' c @ concat (queue_of s' c)) (sd_asked s' c)"
    and "\<not> sd_lost s' c \<Longrightarrow> prefix (sd_wire s' c @ concat (queue_of s' c)) (sd_asked s' c)"
    and "\<not> sd_lost s' c \<Longrightarrow> \<not> sd_closed s' c \<Longrightarrow> sd_asked s' c = sd_wire s' c @ concat (queue_of s' c)"
    and "\<forall>d\<in>set (queue_of s' c). length d \<le> Suc k"
  shows "sender_ok k s'"
  unfolding sender_ok_def
proof (intro conjI allI)
  fix c'
  show "subseq (sd_wire s' c' @ concat (queue_of s' c')) (sd_asked s' c')"
    "\<not> sd_lost s' c' \<longrightarrow> prefix (sd_wire s' c' @ concat (queue_of s' c')) (sd_asked s' c')"
    "\<not> sd_lost s' c' \<longrightarrow> \<not> sd_closed s' c' \<longrightarrow> sd_asked s' c' = sd_wire s' c' @ concat (queue_of s' c')"
    "\<forall>d\<in>set (queue_of s' c'). length d \<le> Suc k"
    using assms(1,4-7) assms(3) [of c'] by (cases "c' = c"; simp add: sender_ok_def)+
qed (use assms(2) in simp)

lemma sender_okD:
  assumes "sender_ok k s"
  shows "sd_queues s \<noteq> [] \<or> queue_of s c \<noteq> [] \<Longrightarrow> sd_sending s" "subseq (sd_wire s c @ concat (queue_of s c)) (sd_asked s c)"
    "\<not> sd_lost s c \<Longrightarrow> prefix (sd_wire s c @ concat (queue_of s c)) (sd_asked s c)"
    "\<not> sd_lost s c \<Longrightarrow> \<not> sd_closed s c \<Longrightarrow> sd_asked s c = sd_wire s c @ concat (queue_of s c)"
    "\<forall>d\<in>set (queue_of s c). length d \<le> Suc k"
  using assms no_queue [of s c] by (auto simp: sender_ok_def)

lemma deferred_ok:
  assumes "sender_ok k s" "\<not> sd_closed s c"
  shows "sender_ok k (deferred_send k c data (s\<lparr>sd_asked := (sd_asked s)(c := sd_asked s c @ data)\<rparr>))"
  by (rule sender_okI [OF assms(1), where c = c])
    (use sender_okD [OF assms(1), of c] assms(2) in \<open>auto simp: deferred_send_def subseq_behind simp flip: append_assoc dest: sliceup_pieces\<close>)

lemma send_ok:
  assumes "sender_ok k s"
  shows "sender_ok k (send_bytes k answer c data s)"
proof (cases "sd_closed s c \<or> sd_sending s")
  case True
  then show ?thesis using assms deferred_ok [OF assms] by (auto simp: send_bytes_def Let_def)
next
  case False
  then have q: "sd_queues s = []" using assms by (auto simp: sender_ok_def)
  note q' = no_queue [OF q]
  note ok = sender_okD [OF assms, of c]
  show ?thesis
  proof (cases answer)
    case (Sent l)
    have w: "subseq (sd_wire s c @ data) (sd_asked s c @ data)" using ok(2) by (simp add: q' subseq_behind)
    then have "subseq (sd_wire s c @ take l data @ drop l data) (sd_asked s c @ data)" by simp
    then show ?thesis
      using Sent False
      by (intro sender_okI [OF assms, where c = c])
        (use ok q q' in \<open>auto simp: send_bytes_def Let_def take_wire_def deferred_send_def dest: sliceup_pieces\<close>)
  next
    case Again
    then show ?thesis using False deferred_ok [OF assms] by (simp add: send_bytes_def)
  qed (intro sender_okI [OF assms, where c = c]; use ok False q q' in \<open>auto simp: send_bytes_def close_con_def lose_def subseq_behind\<close>)+
qed

lemma write_ok:
  assumes "sender_ok k s"
  shows "sender_ok k (write_con answers c s)"
proof (cases "map_of (sd_queues s) c")
  case (Some q)
  obtain w r ok where w: "write_queue answers q = (w, r, ok)" by (cases "write_queue answers q")
  have q: "queue_of s c = q" using Some by (simp add: queue_of_def)
  have 1: "concat q = w @ concat r" using write_queue_splits [OF w] by simp
  note ok = sender_okD [OF assms, of c, unfolded q 1]
  have 2: "\<forall>d\<in>set r. length d \<le> Suc k" using write_queue_pieces [OF w] ok(5) sender_okD(5) [OF assms, of c] q by blast
  have s: "sd_sending s" using ok(1) Some by fastforce
  let ?s1 = "take_wire c w s"
  have kept: "sender_ok k (?s1\<lparr>sd_queues := d_set c r (sd_queues s)\<rparr>)"
    by (rule sender_okI [OF assms, where c = c]) (use ok 2 s in \<open>auto simp: take_wire_def\<close>)
  have gone: "sender_ok k (?s1\<lparr>sd_queues := d_del c (sd_queues s)\<rparr>)" if "r = []"
    by (rule sender_okI [OF assms, where c = c]) (use ok s that in \<open>auto simp: take_wire_def\<close>)
  have quiet: "sender_ok k (?s1\<lparr>sd_queues := [], sd_sending := False\<rparr>)" if "r = []" "d_del c (sd_queues s) = []"
    using gone [OF that(1)] unfolding that(2) by (simp add: sender_ok_def)
  have failed: "sender_ok k ((close_con c ?s1)\<lparr>sd_queues := d_del c (sd_queues s)\<rparr>)"
    by (rule sender_okI [OF assms, where c = c])
      (use ok(2,3) s subseq_front [where xs = "sd_wire s c @ w" and ys = "concat r" and zs = "sd_asked s c"] append_prefixD [where xs = "sd_wire s c @ w" and ys = "concat r" and zs = "sd_asked s c"] in
        \<open>auto simp: take_wire_def close_con_def\<close>)
  show ?thesis using kept gone quiet failed Some by (simp add: write_con_def w Let_def)
qed (use assms in \<open>simp add: write_con_def\<close>)

lemma lose_ok: "sender_ok k s \<Longrightarrow> sender_ok k (lose c (s\<lparr>sd_queues := d_del c (sd_queues s)\<rparr>))"
proof -
  assume ok: "sender_ok k s"
  have "sd_queues s \<noteq> []" if "d_del c (sd_queues s) \<noteq> []" using that by (auto simp: d_del_def)
  then show ?thesis
    by (intro sender_okI [OF ok, where c = c])
      (use sender_okD [OF ok, of c] subseq_front [where xs = "sd_wire s c" and ys = "concat (queue_of s c)" and zs = "sd_asked s c"] in \<open>auto simp: lose_def\<close>)
qed

lemma sender_ok_step: "sender_step k s s' \<Longrightarrow> sender_ok k s \<Longrightarrow> sender_ok k s'"
proof (induction rule: sender_step.induct)
  case (step_close s c)
  then show ?case using sender_okD [OF step_close] by (intro sender_okI [OF step_close, where c = c]) (auto simp: close_con_def)
qed (auto simp: exceptional_def kill_def intro: send_ok write_ok lose_ok)

lemma sender_ok_reachable: "(sender_step k)\<^sup>*\<^sup>* sender_init s \<Longrightarrow> sender_ok k s"
proof (induction rule: rtranclp_induct)
  case base
  show ?case by (simp add: sender_ok_def sender_init_def queue_of_def)
qed (rule sender_ok_step)

lemma write_queue_all: "write_queue (map (\<lambda>d. Sent (length d)) q) q = (concat q, [], True)"
  by (induction q) auto

text \<open>
  C25. However the main thread's sends, the thread's rounds, closing, exceptional conditions and kills interleave, and
  whatever the sockets answer: what a socket has taken, followed by what is queued for it, is in the order in which it was
  asked for, with nothing twice and nothing invented, and queued in pieces of at most \<open>PIPE_BUF\<close> bytes.  As long as no queue of
  the connection was given up, and no exception that is no socket error was raised, the socket has taken a prefix of what it
  was asked to send; and if it is open, all that is missing is queued, and a round in which the socket takes everything
  delivers it.
\<close>

theorem stream_in_order:
  assumes "(sender_step k)\<^sup>*\<^sup>* sender_init s"
  shows "subseq (sd_wire s c @ concat (queue_of s c)) (sd_asked s c) \<and> (\<forall>d\<in>set (queue_of s c). length d \<le> Suc k) \<and>
    (\<not> sd_lost s c \<longrightarrow> prefix (sd_wire s c) (sd_asked s c)) \<and>
    (\<not> sd_lost s c \<longrightarrow> \<not> sd_closed s c \<longrightarrow> sd_wire s c @ concat (queue_of s c) = sd_asked s c \<and>
       sd_wire (write_con (map (\<lambda>d. Sent (length d)) (queue_of s c)) c s) c = sd_asked s c)"
proof -
  note ok = sender_okD [OF sender_ok_reachable [OF assms], of c]
  have "sd_wire (write_con (map (\<lambda>d. Sent (length d)) (queue_of s c)) c s) c = sd_wire s c @ concat (queue_of s c)"
    by (auto simp: write_con_def write_queue_all take_wire_def Let_def queue_of_def split: option.splits)
  then show ?thesis using ok by (auto dest: append_prefixD)
qed

lemmas sender_run = write_con_def send_bytes_def exceptional_def lose_def sender_init_def deferred_send_def take_wire_def queue_of_def d_del_def
  sliceup.simps Let_def

definition half_sent :: sender where "half_sent = send_bytes 3 Again 0 [5] (send_bytes 3 (Sent 2) 0 [1, 2, 3, 4] sender_init)"

theorem stream_in_order_witness:
  "sd_wire half_sent 0 = [1, 2] \<and> sd_wire (write_con (map (\<lambda>d. Sent (length d)) (queue_of half_sent 0)) 0 half_sent) 0 = [1, 2, 3, 4, 5]"
proof -
  have "(sender_step 3)\<^sup>*\<^sup>* sender_init half_sent"
    unfolding half_sent_def by (rule rtranclp.rtrancl_into_rtrancl [OF r_into_rtranclp]) (rule step_send)+
  moreover have "sd_wire half_sent 0 = [1, 2]" "\<not> sd_closed half_sent 0" "\<not> sd_lost half_sent 0" "sd_asked half_sent 0 = [1, 2, 3, 4, 5]"
    unfolding half_sent_def by (simp_all add: sender_run)
  ultimately show ?thesis using stream_in_order [of 3 half_sent 0] by simp
qed

text \<open>
  An exceptional condition breaks this: the queue of a connection that stays open is dropped, and the bytes that
  follow are sent without those before them.
\<close>

lemma exceptional_gap:
  defines "s \<equiv> write_con [Sent 2] 0 (send_bytes 3 Again 0 [8, 9] (exceptional 0 half_sent))"
  shows "sd_wire s 0 = [1, 2, 8, 9]" "sd_asked s 0 = [1, 2, 3, 4, 5, 8, 9]" "\<not> sd_closed s 0"
  unfolding s_def half_sent_def
  by (simp_all add: sender_run)

end
