(* ===== verification/Connection.thy ===== *)
theory Connection
  imports Messages
begin

text \<open>
  The two readers that cut a byte stream into OpenFlow messages: \<open>OFConnection.read\<close> of
  \<open>pox/pox/datapaths/switch.py\<close>, the switch side, and \<open>Connection.read\<close> of \<open>pox/pox/openflow/of_01.py\<close>, the
  controller side.  Bytes arrive in chunks of any size.  The message handler is a parameter with a state of its
  own; an exception in it is logged and reading goes on, as in both sources.  Both loops can run forever, so they
  are partial functions: \<open>None\<close> is a call that does not return.
\<close>

section \<open>A reader of frames\<close>

text \<open>\<open>_push_receive_data\<close> and \<open>recv\<close>: a chunk is appended to what is left over, and the reader runs.\<close>

fun feed :: "(bytes \<Rightarrow> 's \<Rightarrow> (bytes \<times> 's) option) \<Rightarrow> bytes list \<Rightarrow> bytes \<Rightarrow> 's \<Rightarrow> (bytes \<times> 's) option" where
  "feed rd [] buf s = Some (buf, s)"
| "feed rd (c # cs) buf s = (case rd (buf @ c) s of None \<Rightarrow> None | Some (buf', s') \<Rightarrow> feed rd cs buf' s')"

definition sendable :: "ofp_msg \<Rightarrow> bool" where
  "sendable m \<longleftrightarrow> msg_ok m \<and> hdr_version (fst m) = OFP_VERSION"

lemma packed_frame:
  assumes "sendable m" "msg_pack m = Inr bs"
  shows "8 \<le> length bs" "bs ! 0 = OFP_VERSION" "bs ! 1 = header_type (snd m)" "unat (u16_at (bs @ r) 2) = length bs"
    "msg_unpack (header_type (snd m)) (bs @ r) = Inr (msg_sent m, length bs)"
proof -
  have "body_ok (snd m)" "msg_pack (fst m, snd m) = Inr bs" using assms by (simp_all add: sendable_def msg_ok_def)
  note p = msg_unpack_pack [OF this]
  show "8 \<le> length bs" "bs ! 1 = header_type (snd m)" "unat (u16_at (bs @ r) 2) = length bs"
    "msg_unpack (header_type (snd m)) (bs @ r) = Inr (msg_sent m, length bs)"
    using p [of r] by (simp_all add: msg_sent_def)
  show "bs ! 0 = OFP_VERSION"
    using assms by (cases m) (auto simp: msg_pack_def header_pack_def sendable_def)
qed

locale frame_reader =
  fixes rd :: "bytes \<Rightarrow> 's \<Rightarrow> (bytes \<times> 's) option"
    and handle :: "ofp_msg \<Rightarrow> 's \<Rightarrow> 's"
  assumes whole: "sendable m \<Longrightarrow> msg_pack m = Inr bs \<Longrightarrow> rd (bs @ r) s = rd r (handle (msg_sent m) s)"
    and partial: "sendable m \<Longrightarrow> msg_pack m = Inr (p @ q) \<Longrightarrow> q \<noteq> [] \<Longrightarrow> rd p s = Some (p, s)"
    and empty: "rd [] s = Some ([], s)"
begin

lemma read_frames:
  "list_all sendable ms \<Longrightarrow> enc_all msg_pack ms = Inr bs \<Longrightarrow>
   rd (bs @ r) s = rd r (fold handle (map msg_sent ms) s)"
  by (induction ms arbitrary: bs s) (auto simp: whole)

text \<open>What has arrived is some whole messages and a proper beginning of the next one.\<close>

lemma arrived:
  "enc_all msg_pack ms = Inr (a @ b) \<Longrightarrow>
   \<exists>ms1 ms2 bs p. ms = ms1 @ ms2 \<and> enc_all msg_pack ms1 = Inr bs \<and> a = bs @ p \<and> enc_all msg_pack ms2 = Inr (p @ b) \<and>
     (p = [] \<or> (\<exists>m ms3 q. ms2 = m # ms3 \<and> q \<noteq> [] \<and> msg_pack m = Inr (p @ q)))"
proof (induction ms arbitrary: a)
  case Nil
  then show ?case by simp
next
  case (Cons m ms)
  then obtain f fs where f: "msg_pack m = Inr f" "enc_all msg_pack ms = Inr fs" "a @ b = f @ fs" by auto
  show ?case
  proof (cases "length f \<le> length a")
    case True
    obtain a' where a: "a = f @ a'" "fs = a' @ b" using f(3) True by (auto simp: append_eq_append_conv2)
    then obtain ms1 ms2 bs p where "ms = ms1 @ ms2" "enc_all msg_pack ms1 = Inr bs" "a' = bs @ p" "enc_all msg_pack ms2 = Inr (p @ b)"
      "p = [] \<or> (\<exists>m ms3 q. ms2 = m # ms3 \<and> q \<noteq> [] \<and> msg_pack m = Inr (p @ q))"
      using Cons.IH [of a'] f(2) by auto
    then show ?thesis
      using f(1) a by (intro exI [of _ "m # ms1"] exI [of _ ms2] exI [of _ "f @ bs"] exI [of _ p]) auto
  next
    case False
    obtain q where "f = a @ q" "q \<noteq> []" using f(3) False by (auto simp: append_eq_append_conv2)
    then show ?thesis
      using f Cons.prems by (intro exI [of _ "[]"] exI [of _ "m # ms"] exI [of _ "[]"] exI [of _ a]) auto
  qed
qed

lemma feed_frames:
  "list_all sendable ms \<Longrightarrow> enc_all msg_pack ms = Inr (buf @ concat cs) \<Longrightarrow>
     buf = [] \<or> (\<exists>m ms3 q. ms = m # ms3 \<and> q \<noteq> [] \<and> msg_pack m = Inr (buf @ q)) \<Longrightarrow>
   feed rd cs buf s = Some ([], fold handle (map msg_sent ms) s)"
proof (induction cs arbitrary: ms buf s)
  case Nil
  have "ms = []"
  proof (rule ccontr)
    assume "ms \<noteq> []"
    then obtain m ms' where m: "ms = m # ms'" by (cases ms) auto
    with Nil obtain f fs where "msg_pack m = Inr f" "buf = f @ fs" "sendable m" by auto
    with Nil.prems(3) m packed_frame(1) [of m f] show False by auto
  qed
  with Nil show ?case by auto
next
  case (Cons c cs)
  from Cons.prems(2) have e: "enc_all msg_pack ms = Inr ((buf @ c) @ concat cs)" by simp
  obtain ms1 ms2 bs p where s: "ms = ms1 @ ms2" "enc_all msg_pack ms1 = Inr bs" "buf @ c = bs @ p"
      "enc_all msg_pack ms2 = Inr (p @ concat cs)" "p = [] \<or> (\<exists>m ms3 q. ms2 = m # ms3 \<and> q \<noteq> [] \<and> msg_pack m = Inr (p @ q))"
    using arrived [OF e] by (elim exE conjE) (rule that)
  have ok: "list_all sendable ms1" "list_all sendable ms2" using Cons.prems(1) s(1) by auto
  have "rd (buf @ c) s = rd p (fold handle (map msg_sent ms1) s)"
    unfolding s(3) by (rule read_frames [OF ok(1) s(2)])
  also have "rd p t = Some (p, t)" for t
    using s(5) ok(2) by (auto simp: empty partial)
  finally have "rd (buf @ c) s = Some (p, fold handle (map msg_sent ms1) s)" .
  with Cons.IH [OF ok(2) s(4,5)] show ?case by (simp add: s(1))
qed

end

text \<open>The loop: turns are taken until one gives a result.\<close>

partial_function (option) turns ::
  "(bytes \<Rightarrow> 's \<Rightarrow> 'r result option \<times> bytes \<times> 's) \<Rightarrow> bytes \<Rightarrow> 's \<Rightarrow> ('r result \<times> bytes \<times> 's) option" where
  "turns rnd buf s =
     (case rnd buf s of
        (None, buf', s') \<Rightarrow> turns rnd buf' s'
      | (Some r, buf', s') \<Rightarrow> Some (r, buf', s'))"

declare turns.simps [code]

lemma turns_on: "rnd buf s = (None, buf', s') \<Longrightarrow> turns rnd buf s = turns rnd buf' s'"
  by (subst turns.simps) simp

lemma turns_end: "rnd buf s = (Some r, buf', s') \<Longrightarrow> turns rnd buf s = Some (r, buf', s')"
  by (subst turns.simps) simp

text \<open>A buffer on which a turn takes nothing and that it leaves in place is never finished.\<close>

lemma turns_stuck:
  assumes "\<And>s. \<exists>s'. rnd buf s = (None, buf, s')"
  shows "turns rnd buf s = None"
proof -
  have "rnd' = rnd \<longrightarrow> b \<noteq> buf" if "turns rnd' b s = Some r" for rnd' b s r
  proof (rule turns.raw_induct [OF _ that, where P = "\<lambda>rnd' b s r. rnd' = rnd \<longrightarrow> b \<noteq> buf"], intro impI notI)
    fix rd rnd' b s r
    assume ih: "\<And>rnd' b s r. rd rnd' b s = Some r \<Longrightarrow> rnd' = rnd \<longrightarrow> b \<noteq> buf"
      and ret: "(case rnd' b s of (None, buf', s') \<Rightarrow> rd rnd' buf' s' | (Some r, buf', s') \<Rightarrow> Some (r, buf', s')) = Some r"
      and eq: "rnd' = rnd" "b = buf"
    obtain s' where "rnd buf s = (None, buf, s')" using assms by blast
    with ih [of rnd buf s' r] ret eq show False by simp
  qed
  then show ?thesis by (metis not_None_eq)
qed

section \<open>\<open>OFConnection.read\<close>\<close>

record conn =
  cn_starting :: bool
  cn_shut :: bool

text \<open>\<open>_extract_message_xid\<close> on a message of at least four bytes.\<close>

definition extract_xid :: "bytes \<Rightarrow> 32 word" where
  "extract_xid message = (if 8 \<le> length message then of_be (take 4 (drop 4 message)) else 0)"

text \<open>
  One turn of the loop: it ends the call with a result, or reading goes on.  \<open>tx\<close> sends the error messages.
  The answer to a wrong version carries a text where bytes are needed, so it raises before the connection is closed.
\<close>

definition conn_error ::
  "(ofp_msg \<Rightarrow> ('s, unit) sm) \<Rightarrow> 16 word \<Rightarrow> nat \<Rightarrow> bytes \<Rightarrow> conn \<times> 's \<Rightarrow> unit result option \<times> bytes \<times> conn \<times> 's" where
  "conn_error tx code len message x =
     (case tx (\<lparr>hdr_version = OFP_VERSION, hdr_xid = extract_xid message\<rparr>, MError 1 code (take len message)) (snd x) of
        (Inl e, s') \<Rightarrow> (Some (Inl e), message, fst x, s')
      | (Inr _, s') \<Rightarrow> (None, drop len message, fst x, s'))"

definition conn_round ::
  "(ofp_msg \<Rightarrow> ('s, unit) sm) \<Rightarrow> (ofp_msg \<Rightarrow> ('s, unit) sm) \<Rightarrow> bytes \<Rightarrow> conn \<times> 's \<Rightarrow> unit result option \<times> bytes \<times> conn \<times> 's" where
  "conn_round h tx message x =
     (if length message < 4 then (Some (Inr ()), message, x)
      else if message ! 0 \<noteq> OFP_VERSION then
        (if cn_starting (fst x) then (Some (Inl TypeError), message, x)
         else (Some (Inr ()), message, (fst x)\<lparr>cn_shut := True\<rparr>, snd x))
      else let len = unat (u16_at message 2) in
        if length message < len then (Some (Inr ()), message, x)
        else if 21 < message ! 1 then conn_error tx 1 len message x
        else case msg_unpack (message ! 1) message of
          Inl e \<Rightarrow> (Some (Inl e), message, x)
        | Inr (m, new_offset) \<Rightarrow>
            if new_offset \<noteq> len then conn_error tx 6 len message x
            else (None, drop len message, (fst x)\<lparr>cn_starting := False\<rparr>, snd (h m (snd x))))"

definition conn_read ::
  "(ofp_msg \<Rightarrow> ('s, unit) sm) \<Rightarrow> (ofp_msg \<Rightarrow> ('s, unit) sm) \<Rightarrow> bytes \<Rightarrow> conn \<times> 's \<Rightarrow> (unit result \<times> bytes \<times> conn \<times> 's) option" where
  "conn_read h tx = turns (conn_round h tx)"

section \<open>\<open>Connection.read\<close> of the controller\<close>

text \<open>
  The loop reads from an offset into the buffer and cuts the buffer at the end; here the buffer is what is left.
  A call that raises or that gives the connection up (\<open>False\<close>) leaves the old buffer, which is never looked at again.
\<close>

definition ctl_round ::
  "(ofp_msg \<Rightarrow> ('s, unit) sm) \<Rightarrow> bytes \<Rightarrow> 's \<Rightarrow> bool result option \<times> bytes \<times> 's" where
  "ctl_round h buf s =
     (if length buf < 8 then (Some (Inr True), buf, s)
      else if buf ! 0 \<noteq> OFP_VERSION \<and> buf ! 1 \<noteq> 0 then (Some (Inr False), buf, s)
      else let len = unat (u16_at buf 2) in
        if length buf < len then (Some (Inr True), buf, s)
        else if 21 < buf ! 1 then (Some (Inl IndexError), buf, s)
        else case msg_unpack (buf ! 1) buf of
          Inl e \<Rightarrow> (Some (Inl e), buf, s)
        | Inr (m, new_offset) \<Rightarrow>
            if new_offset \<noteq> len then (Some (Inl AssertionError), buf, s)
            else (None, drop len buf, snd (h m s)))"

definition ctl_read ::
  "(ofp_msg \<Rightarrow> ('s, unit) sm) \<Rightarrow> bytes \<Rightarrow> 's \<Rightarrow> (bool result \<times> bytes \<times> 's) option" where
  "ctl_read h = turns (ctl_round h)"

section \<open>What both readers do\<close>

text \<open>A call that returns without an exception.\<close>

definition quiet :: "('r result \<times> 'a) option \<Rightarrow> 'a option" where
  "quiet r = (case r of Some (Inr _, x) \<Rightarrow> Some x | _ \<Rightarrow> None)"

lemma quiet_simps [simp]: "quiet (Some (Inr v, x)) = Some x" "quiet (Some (Inl e, x)) = None" "quiet None = None"
  by (simp_all add: quiet_def)

definition conn_handle :: "(ofp_msg \<Rightarrow> ('s, unit) sm) \<Rightarrow> ofp_msg \<Rightarrow> conn \<times> 's \<Rightarrow> conn \<times> 's" where
  "conn_handle h m x = ((fst x)\<lparr>cn_starting := False\<rparr>, snd (h m (snd x)))"

definition ctl_handle :: "(ofp_msg \<Rightarrow> ('s, unit) sm) \<Rightarrow> ofp_msg \<Rightarrow> 's \<Rightarrow> 's" where
  "ctl_handle h m s = snd (h m s)"

lemma u16_at_append: "4 \<le> length p \<Longrightarrow> u16_at (p @ r) 2 = u16_at p 2"
  by (simp add: u16_at_def py_slice_def)

lemma header_type_le: "header_type b \<le> 21"
  by (cases b) simp_all

lemma packed_head:
  assumes "sendable m" "msg_pack m = Inr (p @ q)" "4 \<le> length p"
  shows "p ! 0 = OFP_VERSION" "unat (u16_at p 2) = length p + length q"
  using packed_frame(2) [OF assms(1,2)] packed_frame(4) [OF assms(1,2), of "[]"] assms(3)
  by (simp_all add: nth_append u16_at_append split: if_splits)

lemma header_read_len: "header_read raw = Inr ((h, t, len), bs) \<Longrightarrow> len = unat (u16_at raw 2)"
  by (auto simp: header_read_def u16_at_def rd_B_def rd_H_def rd_word_def rd_bytes_def py_slice_def eval_nat_numeral split: if_splits list.splits)

lemma msg_unpack_len: "msg_unpack ty raw = Inr (m, n) \<Longrightarrow> n = unat (u16_at raw 2)"
  by (auto simp: msg_unpack_def header_read_len split: if_splits sum.splits)

interpretation sw_conn: frame_reader "\<lambda>b x. quiet (conn_read h tx b x)" "conn_handle h" for h tx
proof
  fix m bs r x
  assume m: "sendable m" "msg_pack m = Inr bs"
  note f = packed_frame [OF m]
  have l: "bs \<noteq> []" "Suc 0 < length bs" using f(1) by auto
  have "conn_round h tx (bs @ r) x = (None, r, conn_handle h (msg_sent m) x)"
    using l f(1,2,3) f(4,5) [of r] header_type_le [of "snd m"] by (simp add: conn_round_def conn_handle_def nth_append not_less [symmetric])
  then show "quiet (conn_read h tx (bs @ r) x) = quiet (conn_read h tx r (conn_handle h (msg_sent m) x))"
    by (simp add: conn_read_def turns_on)
next
  fix m p q x
  assume m: "sendable m" "msg_pack m = Inr (p @ q)" "(q :: bytes) \<noteq> []"
  have "conn_round h tx p x = (Some (Inr ()), p, x)"
    using packed_head [OF m(1,2)] m(3) by (auto simp: conn_round_def Let_def not_less)
  then show "quiet (conn_read h tx p x) = Some (p, x)" by (simp add: conn_read_def turns_end)
next
  fix x
  show "quiet (conn_read h tx [] x) = Some ([], x)" by (simp add: conn_read_def conn_round_def turns_end)
qed

interpretation ctl_conn: frame_reader "\<lambda>b x. quiet (ctl_read h b x)" "ctl_handle h" for h
proof
  fix m bs r x
  assume m: "sendable m" "msg_pack m = Inr bs"
  note f = packed_frame [OF m]
  have l: "bs \<noteq> []" "Suc 0 < length bs" using f(1) by auto
  have "ctl_round h (bs @ r) x = (None, r, ctl_handle h (msg_sent m) x)"
    using l f(1,2,3) f(4,5) [of r] header_type_le [of "snd m"] by (simp add: ctl_round_def ctl_handle_def nth_append not_less [symmetric])
  then show "quiet (ctl_read h (bs @ r) x) = quiet (ctl_read h r (ctl_handle h (msg_sent m) x))"
    by (simp add: ctl_read_def turns_on)
next
  fix m p q x
  assume m: "sendable m" "msg_pack m = Inr (p @ q)" "(q :: bytes) \<noteq> []"
  have "ctl_round h p x = (Some (Inr True), p, x)"
    using packed_head [OF m(1,2)] m(3) by (auto simp: ctl_round_def Let_def not_less)
  then show "quiet (ctl_read h p x) = Some (p, x)" by (simp add: ctl_read_def turns_end)
next
  fix x
  show "quiet (ctl_read h [] x) = Some ([], x)" by (simp add: ctl_read_def ctl_round_def turns_end)
qed

text \<open>
  C19. Whatever way the network cuts the stream into chunks, both readers hand every message over exactly once, in
  the order it was sent, and keep nothing back; a message that is not all there waits for the rest.
\<close>

theorem chunks_do_not_matter:
  assumes "list_all sendable ms" "enc_all msg_pack ms = Inr (concat cs)"
  shows "feed (\<lambda>b x. quiet (conn_read h tx b x)) cs [] (c, s) = Some ([], fold (conn_handle h) (map msg_sent ms) (c, s)) \<and>
    feed (\<lambda>b x. quiet (ctl_read h' b x)) cs [] t = Some ([], fold (ctl_handle h') (map msg_sent ms) t)"
  using assms by (simp add: sw_conn.feed_frames ctl_conn.feed_frames)

definition two_barriers :: "ofp_msg list" where
  "two_barriers = [(\<lparr>hdr_version = OFP_VERSION, hdr_xid = 7\<rparr>, MBarrierRequest), (\<lparr>hdr_version = OFP_VERSION, hdr_xid = 8\<rparr>, MBarrierReply)]"

definition three_chunks :: "bytes list" where
  "three_chunks = [[1, 18, 0], [8, 0, 0, 0, 7, 1, 19], [0, 8, 0, 0, 0, 8]]"

lemma two_barriers_run:
  "list_all sendable two_barriers" "enc_all msg_pack two_barriers = Inr (concat three_chunks)"
  by code_simp+

theorem chunks_do_not_matter_witness:
  "feed (\<lambda>b x. quiet (conn_read (\<lambda>m s. (Inr (), s @ [hdr_xid (fst m)])) (\<lambda>m s. (Inr (), s)) b x)) three_chunks []
     (\<lparr>cn_starting = True, cn_shut = False\<rparr>, []) =
   Some ([], \<lparr>cn_starting = False, cn_shut = False\<rparr>, [7, 8])"
  using chunks_do_not_matter [OF two_barriers_run, of "\<lambda>m s. (Inr (), s @ [hdr_xid (fst m)])" "\<lambda>m s. (Inr (), s)"
      "\<lparr>cn_starting = True, cn_shut = False\<rparr>" "[]" "\<lambda>m s. (Inr (), s)" "()"]
  by (simp add: two_barriers_def conn_handle_def msg_sent_def)

section \<open>When the readers return\<close>

text \<open>Every frame the reader will look at is at least one byte long.\<close>

function frames_advance :: "bytes \<Rightarrow> bool" where
  "frames_advance buf =
     (if length buf < 4 \<or> buf ! 0 \<noteq> OFP_VERSION \<or> length buf < unat (u16_at buf 2) then True
      else if unat (u16_at buf 2) = 0 then False
      else frames_advance (drop (unat (u16_at buf 2)) buf))"
  by pat_completeness auto
termination by (relation "measure length") auto

declare frames_advance.simps [simp del]

lemma frames_advance_drop:
  assumes "frames_advance buf" "4 \<le> length buf" "buf ! 0 = OFP_VERSION" "unat (u16_at buf 2) \<le> length buf"
  shows "0 < unat (u16_at buf 2)" "frames_advance (drop (unat (u16_at buf 2)) buf)"
  using assms by (simp_all add: frames_advance.simps [of buf] not_less [symmetric] split: if_splits)

text \<open>A turn that does not end the call takes the frame off the buffer.\<close>

lemma conn_round_consumes:
  assumes "conn_round h tx buf x = (None, buf', x')"
  shows "4 \<le> length buf" "buf ! 0 = OFP_VERSION" "unat (u16_at buf 2) \<le> length buf" "buf' = drop (unat (u16_at buf 2)) buf"
  using assms
  by (auto simp: conn_round_def conn_error_def Let_def not_less split: if_splits sum.splits prod.splits)

text \<open>
  C38. If no frame claims to be of length zero, \<open>OFConnection.read\<close> comes back, whatever the bytes are and
  whatever the handler does.
\<close>

theorem conn_read_returns: "frames_advance buf \<Longrightarrow> \<exists>r. conn_read h tx buf x = Some r"
proof (induction buf arbitrary: x rule: measure_induct_rule [where f = length])
  case (less buf)
  obtain r buf' x' where r: "conn_round h tx buf x = (r, buf', x')" by (cases "conn_round h tx buf x") auto
  show ?case
  proof (cases r)
    case None
    note c = conn_round_consumes [OF r [unfolded None]]
    have "length buf' < length buf" "frames_advance buf'"
      using frames_advance_drop [OF less.prems c(1,2,3)] c by auto
    then show ?thesis using less.IH [of buf' x'] r None by (simp add: conn_read_def turns_on)
  next
    case (Some v)
    then show ?thesis using r by (simp add: conn_read_def turns_end)
  qed
qed

theorem conn_read_returns_witness:
  "\<exists>r. conn_read (\<lambda>m s. (Inr (), s)) (\<lambda>m s. (Inr (), s)) [1, 200, 0, 9, 0, 0, 0, 7, 5, 1, 2, 0, 8] (\<lparr>cn_starting = True, cn_shut = False\<rparr>, ()) = Some r"
  by (rule conn_read_returns) code_simp

text \<open>
  A hello or a message of no known type with length zero is taken off the buffer by taking nothing, so the same
  frame is read again, for ever; \<open>OFConnection.read\<close> answers the unknown type with an error each time.
\<close>

definition zero_frame :: "bytes \<Rightarrow> bool" where
  "zero_frame buf \<longleftrightarrow> 8 \<le> length buf \<and> buf ! 0 = OFP_VERSION \<and> buf ! 1 = 0 \<and> u16_at buf 2 = 0"

lemma zero_frame_unpack: "zero_frame buf \<Longrightarrow> \<exists>h. msg_unpack 0 buf = Inr ((h, MHello), 0)"
  by (cases buf; cases "tl buf")
     (auto simp: zero_frame_def msg_unpack_def header_read_def rd_B_def rd_H_def rd_L_def rd_word_def rd_bytes_def
       u16_at_def py_slice_def eval_nat_numeral)

lemma rounds_zero:
  assumes "zero_frame buf"
  shows "\<exists>x'. conn_round h tx buf x = (None, buf, x')" "\<exists>s'. ctl_round h' buf s = (None, buf, s')"
proof -
  obtain hd where "msg_unpack 0 buf = Inr ((hd, MHello), 0)" using zero_frame_unpack [OF assms] by blast
  then show "\<exists>x'. conn_round h tx buf x = (None, buf, x')" "\<exists>s'. ctl_round h' buf s = (None, buf, s')"
    using assms by (auto simp: conn_round_def ctl_round_def zero_frame_def)
qed

text \<open>
  C39. Eight bytes are enough to hang either side: a hello that says it is of length zero is never taken off the
  buffer, and neither reader comes back.
\<close>

theorem zero_frame_hangs: "zero_frame buf \<Longrightarrow> conn_read h tx buf x = None \<and> ctl_read h' buf s = None"
  unfolding conn_read_def ctl_read_def by (intro conjI turns_stuck rounds_zero)

theorem zero_frame_hangs_witness:
  "conn_read (\<lambda>m s. (Inr (), s)) (\<lambda>m s. (Inr (), s)) [1, 0, 0, 0, 0, 0, 0, 0] (\<lparr>cn_starting = True, cn_shut = False\<rparr>, ()) = None \<and>
   ctl_read (\<lambda>m s. (Inr (), s)) [1, 0, 0, 0, 0, 0, 0, 0] () = None"
  by (rule zero_frame_hangs) code_simp

text \<open>
  The branch for messages whose unpacker read another length than the header's is never taken: every
  \<open>unpack\<close> that returns has compared the two.
\<close>

lemma bad_length_unreachable: "msg_unpack ty message = Inr (m, new_offset) \<Longrightarrow> new_offset = unat (u16_at message 2)"
  by (rule msg_unpack_len)

end
