(* ===== verification/LLDP.thy ===== *)
theory LLDP
  imports Packet
begin

text \<open>
  LLDP packets (\<open>pox/pox/lib/packet/lldp.py\<close>) and the LLC and SNAP header (\<open>llc.py\<close>).  A TLV is a constructor of
  \<open>tlv\<close> per class; \<open>tlv_pack\<close> is \<open>pack\<close> with the \<open>_pack_data\<close> of the class, \<open>parse_data\<close> its \<open>_parse_data\<close>, \<open>next_tlv\<close>
  and \<open>lldp_parse\<close> the methods of \<open>lldp\<close>, which answer \<open>parsed\<close> with the TLVs read so far.  The exceptions
  \<open>MalformedException\<close> and \<open>TruncatedException\<close> are \<open>RuntimeError\<close>s, as in \<open>packet_utils.py\<close>.
\<close>

section \<open>TLVs\<close>

datatype tlv =
    TChassisId byte bytes
  | TPortId byte bytes
  | TTtl "16 word"
  | TEnd
  | TPortDescription bytes
  | TSystemName bytes
  | TSystemDescription bytes
  | TSystemCapabilities "bool list" "bool list"
  | TManagementAddress byte bytes byte "32 word" bytes
  | TOrganizationallySpecific bytes byte bytes
  | TUnknown "7 word" bytes

fun tlv_type :: "tlv \<Rightarrow> 7 word" where
  "tlv_type TEnd = 0"
| "tlv_type (TChassisId _ _) = 1"
| "tlv_type (TPortId _ _) = 2"
| "tlv_type (TTtl _) = 3"
| "tlv_type (TPortDescription _) = 4"
| "tlv_type (TSystemName _) = 5"
| "tlv_type (TSystemDescription _) = 6"
| "tlv_type (TSystemCapabilities _ _) = 7"
| "tlv_type (TManagementAddress _ _ _ _ _) = 8"
| "tlv_type (TOrganizationallySpecific _ _ _) = 127"
| "tlv_type (TUnknown t _) = t"

text \<open>The capability bits: \<open>for i in range(0, 16)\<close>, which indexes both lists.\<close>

definition caps_of :: "16 word \<Rightarrow> bool list" where
  "caps_of w = map (bit w) [0..<16]"

definition caps_word :: "bool list \<Rightarrow> 16 word result" where
  "caps_word cs =
     (if length cs < 16 then Inl IndexError
      else Inr (fold (\<lambda>i w. if cs ! i then w OR push_bit i 1 else w) [0..<16] 0))"

fun pack_data :: "tlv \<Rightarrow> bytes result" where
  "pack_data (TChassisId s i) = Inr (s # i)"
| "pack_data (TPortId s i) = Inr (s # i)"
| "pack_data (TTtl t) = Inr (pack_H t)"
| "pack_data TEnd = Inr []"
| "pack_data (TPortDescription p) = Inr p"
| "pack_data (TSystemName p) = Inr p"
| "pack_data (TSystemDescription p) = Inr p"
| "pack_data (TSystemCapabilities cs en) =
     rbind (caps_word cs) (\<lambda>c. rbind (caps_word en) (\<lambda>e. Inr (pack_H c @ pack_H e)))"
| "pack_data (TManagementAddress sub addr num_sub num oid) =
     rbind (pack_nat_B (length addr + 1)) (\<lambda>l. rbind (pack_nat_B (length oid)) (\<lambda>ol.
       Inr (l @ [sub] @ addr @ [num_sub] @ pack_L num @ ol @ oid)))"
| "pack_data (TOrganizationallySpecific oui sub p) = Inr (take 3 (oui @ pad 3) @ [sub] @ p)"
| "pack_data (TUnknown _ p) = Inr p"

definition tlv_pack :: "tlv \<Rightarrow> bytes result" where
  "tlv_pack t = rbind (pack_data t) (\<lambda>d.
     Inr (pack_H (push_bit 9 (ucast (tlv_type t)) OR (of_nat (length d) AND 0x1ff)) @ d))"

text \<open>
  \<open>_parse_data\<close> of the class that \<open>tlv_parsers\<close> has for the type.  \<open>management_address\<close> applies \<open>ord\<close> to \<open>data[0]\<close>, which
  is an integer.
\<close>

definition parse_data :: "7 word \<Rightarrow> bytes \<Rightarrow> tlv result" where
  "parse_data ty d =
     (if ty = 0 then (if d \<noteq> [] then Inl RuntimeError else Inr TEnd)
      else if ty = 1 then (if length d < 2 then Inl RuntimeError else Inr (TChassisId (hd d) (tl d)))
      else if ty = 2 then (if length d < 2 then Inl RuntimeError else Inr (TPortId (hd d) (tl d)))
      else if ty = 3 then (if length d \<noteq> 2 then Inl RuntimeError else Inr (TTtl (of_be d)))
      else if ty = 4 then Inr (TPortDescription d)
      else if ty = 5 then Inr (TSystemName d)
      else if ty = 6 then Inr (TSystemDescription d)
      else if ty = 7 then
        (if length d \<noteq> 4 then Inl StructError
         else Inr (TSystemCapabilities (caps_of (of_be (take 2 d))) (caps_of (of_be (drop 2 d)))))
      else if ty = 8 then Inl (if d = [] then IndexError else TypeError)
      else if ty = 127 then
        (if length d < 4 then Inl StructError else Inr (TOrganizationallySpecific (take 3 d) (d ! 3) (drop 4 d)))
      else Inr (TUnknown ty d))"

text \<open>
  \<open>next_tlv\<close> compares the length of the data with what is left including the two bytes of the header, and \<open>parse\<close>
  raises when the data is short.  The answer \<open>None\<close> is a warning in the log and \<open>None\<close> in the code; a TLV comes with
  the bytes after it.
\<close>

definition next_tlv :: "bytes \<Rightarrow> (tlv \<times> bytes) option result" where
  "next_tlv arr =
     (if length arr < 2 then Inr None
      else let typelen = of_be (take 2 arr) :: 16 word; n = unat (typelen AND 0x1ff) in
        if length arr < n then Inr None
        else let d = take n (drop 2 arr) in
          if length d < n then Inl RuntimeError
          else rbind (parse_data (ucast (drop_bit 9 typelen)) d) (\<lambda>t. Inr (Some (t, drop (2 + n) arr))))"

lemma next_tlv_shorter: "next_tlv arr = Inr (Some (t, r)) \<Longrightarrow> length r < length arr"
  by (auto simp: next_tlv_def Let_def split: if_splits)

section \<open>The packet\<close>

text \<open>The loop over the TLVs after the third, and the whole of \<open>parse\<close>: \<open>parsed\<close> and \<open>tlvs\<close>.\<close>

function lldp_rest :: "bytes \<Rightarrow> tlv list \<Rightarrow> (bool \<times> tlv list) result" where
  "lldp_rest raw tlvs =
     (case next_tlv raw of
        Inl e \<Rightarrow> Inl e
      | Inr None \<Rightarrow> Inr (False, tlvs)
      | Inr (Some (t, r)) \<Rightarrow>
          if tlv_type t = 0 then Inr (True, tlvs @ [t])
          else if r = [] then Inr (False, tlvs @ [t])
          else lldp_rest r (tlvs @ [t]))"
  by pat_completeness auto
termination by (relation "measure (\<lambda>(raw, _). length raw)") (auto simp: next_tlv_shorter)

declare lldp_rest.simps [simp del]

text \<open>One of the three mandatory TLVs: stop unless it has the type.\<close>

definition expect_tlv :: "7 word \<Rightarrow> bytes \<Rightarrow> tlv list \<Rightarrow> (bytes \<Rightarrow> tlv list \<Rightarrow> (bool \<times> tlv list) result) \<Rightarrow> (bool \<times> tlv list) result" where
  "expect_tlv ty raw tlvs k =
     rbind (next_tlv raw) (\<lambda>x.
       case x of None \<Rightarrow> Inr (False, tlvs)
       | Some (t, r) \<Rightarrow> if tlv_type t \<noteq> ty then Inr (False, tlvs @ [t]) else k r (tlvs @ [t]))"

definition lldp_parse :: "bytes \<Rightarrow> (bool \<times> tlv list) result" where
  "lldp_parse raw =
     (if length raw < 14 then Inr (False, [])
      else expect_tlv 1 raw [] (\<lambda>r ts. expect_tlv 2 r ts (\<lambda>r ts. expect_tlv 3 r ts lldp_rest)))"

definition lldp_hdr :: "tlv list \<Rightarrow> bytes result" where
  "lldp_hdr ts = enc_all tlv_pack ts"

section \<open>Round trip\<close>

text \<open>What a TLV has to satisfy for its data to come back.\<close>

fun tlv_ok :: "tlv \<Rightarrow> bool" where
  "tlv_ok (TChassisId s i) \<longleftrightarrow> 0 < length i \<and> length i < 511"
| "tlv_ok (TPortId s i) \<longleftrightarrow> 0 < length i \<and> length i < 511"
| "tlv_ok (TTtl t) \<longleftrightarrow> True"
| "tlv_ok TEnd \<longleftrightarrow> True"
| "tlv_ok (TPortDescription p) \<longleftrightarrow> length p < 512"
| "tlv_ok (TSystemName p) \<longleftrightarrow> length p < 512"
| "tlv_ok (TSystemDescription p) \<longleftrightarrow> length p < 512"
| "tlv_ok (TSystemCapabilities cs en) \<longleftrightarrow> length cs = 16 \<and> length en = 16"
| "tlv_ok (TManagementAddress _ _ _ _ _) \<longleftrightarrow> False"
| "tlv_ok (TOrganizationallySpecific oui sub p) \<longleftrightarrow> length oui = 3 \<and> length p < 508"
| "tlv_ok (TUnknown t p) \<longleftrightarrow> t \<notin> {0, 1, 2, 3, 4, 5, 6, 7, 8, 127} \<and> length p < 512"

lemma bit_fold_caps:
  "bit (fold (\<lambda>i w. if cs ! i then w OR push_bit i 1 else w) xs (w :: 16 word)) k \<longleftrightarrow>
   bit w k \<or> (k < 16 \<and> k \<in> set xs \<and> cs ! k)"
  by (induction xs arbitrary: w) (auto simp: bit_simps)

lemma caps_of_word: "length cs = 16 \<Longrightarrow> caps_word cs = Inr w \<Longrightarrow> caps_of w = cs"
  by (rule nth_equalityI) (auto simp: caps_of_def caps_word_def bit_fold_caps)

lemma tlv_header:
  fixes ty :: "7 word"
  assumes "n < 512"
  defines "h \<equiv> push_bit 9 (ucast ty) OR (of_nat n AND 0x1ff) :: 16 word"
  shows "unat (h AND 0x1ff) = n" "ucast (drop_bit 9 h) = ty"
proof -
  have m: "(0x1ff :: 16 word) = mask 9" by (simp add: mask_eq_exp_minus_1)
  have "h AND 0x1ff = take_bit 9 (of_nat n)"
    unfolding h_def m by (rule bit_eqI) (auto simp: bit_simps)
  also have "\<dots> = of_nat n"
    using assms(1) by (simp only: take_bit_of_nat) (simp add: take_bit_nat_eq_self)
  finally have "h AND 0x1ff = of_nat n" .
  then show "unat (h AND 0x1ff) = n"
    using assms(1) by (simp add: unsigned_of_nat take_bit_nat_eq_self)
  show "ucast (drop_bit 9 h) = ty"
    unfolding h_def m by (rule bit_eqI) (auto simp: bit_simps dest: bit_imp_le_length)
qed

lemma pack_data_ok:
  "tlv_ok t \<Longrightarrow> \<exists>d. pack_data t = Inr d \<and> length d < 512 \<and> parse_data (tlv_type t) d = Inr t"
proof (cases t)
  case (TSystemCapabilities cs en)
  assume "tlv_ok t"
  with TSystemCapabilities obtain c e where "caps_word cs = Inr c" "caps_word en = Inr e" "length cs = 16" "length en = 16"
    by (simp add: caps_word_def)
  then show ?thesis using TSystemCapabilities by (simp add: parse_data_def caps_of_word)
next
  case (TOrganizationallySpecific oui sub p)
  assume "tlv_ok t"
  with TOrganizationallySpecific show ?thesis by (auto simp: parse_data_def nth_append)
qed (auto simp: parse_data_def pack_of_be)

lemma next_tlv_pack:
  assumes "tlv_ok t" "tlv_pack t = Inr b"
  shows "next_tlv (b @ r) = Inr (Some (t, r))" "2 \<le> length b"
proof -
  obtain d where d: "pack_data t = Inr d" "length d < 512" "parse_data (tlv_type t) d = Inr t"
    using pack_data_ok [OF assms(1)] by blast
  define h :: "16 word" where "h = push_bit 9 (ucast (tlv_type t)) OR (of_nat (length d) AND 0x1ff)"
  have b: "b = pack_H h @ d" using assms(2) d(1) by (simp add: tlv_pack_def h_def)
  have "unat (h AND 0x1ff) = length d" "ucast (drop_bit 9 h) = tlv_type t"
    unfolding h_def using tlv_header [OF d(2)] by blast+
  then show "next_tlv (b @ r) = Inr (Some (t, r))" "2 \<le> length b"
    using d(3) by (simp_all add: b next_tlv_def Let_def)
qed

lemma tlv_pack_ok: "tlv_ok t \<Longrightarrow> \<exists>b. tlv_pack t = Inr b"
  using pack_data_ok [of t] by (auto simp: tlv_pack_def)

lemma tlv_pack_short: "tlv_ok t \<Longrightarrow> tlv_pack t = Inr b \<Longrightarrow> length b < 514"
  using pack_data_ok [of t] by (auto simp: tlv_pack_def)

lemma tlvs_pack_short: "list_all tlv_ok ts \<Longrightarrow> enc_all tlv_pack ts = Inr b \<Longrightarrow> length b \<le> 514 * length ts"
proof (induction ts arbitrary: b)
  case (Cons t ts)
  then obtain x y where "tlv_pack t = Inr x" "enc_all tlv_pack ts = Inr y" "b = x @ y" by auto
  with Cons tlv_pack_short [of t x] show ?case by fastforce
qed simp

lemma tlvs_pack_ok: "list_all tlv_ok ts \<Longrightarrow> \<exists>b. enc_all tlv_pack ts = Inr b"
  by (induction ts) (auto dest: tlv_pack_ok)

lemma lldp_rest_pack:
  assumes "list_all tlv_ok ts" "TEnd \<notin> set ts" "enc_all tlv_pack (ts @ [TEnd]) = Inr bs"
  shows "lldp_rest (bs @ r) acc = Inr (True, acc @ ts @ [TEnd])"
  using assms
proof (induction ts arbitrary: bs acc)
  case Nil
  then obtain b where b: "tlv_pack TEnd = Inr b" "bs = b" by auto
  show ?case
    by (subst lldp_rest.simps) (simp add: b next_tlv_pack(1) [OF _ b(1)])
next
  case (Cons t ts)
  then obtain b bs' where b: "tlv_pack t = Inr b" "enc_all tlv_pack (ts @ [TEnd]) = Inr bs'" "bs = b @ bs'"
    by auto
  have ty: "tlv_type t \<noteq> 0"
    using Cons.prems by (cases t) auto
  have "pack_H w \<noteq> []" for w
    by (metis length_pack(1) list.size(3) zero_neq_numeral)
  with b(2) have "bs' \<noteq> []" by (cases ts) (auto simp: tlv_pack_def)
  then show ?case
    using Cons b ty by (subst lldp_rest.simps) (simp add: next_tlv_pack(1) [OF _ b(1), of "bs' @ r", simplified])
qed

lemma pack_data_length:
  "tlv_pack (TChassisId s i) = Inr b \<Longrightarrow> length b = 3 + length i"
  "tlv_pack (TPortId s i) = Inr b \<Longrightarrow> length b = 3 + length i"
  "tlv_pack (TTtl w) = Inr b \<Longrightarrow> length b = 4"
  "tlv_pack TEnd = Inr b \<Longrightarrow> length b = 2"
  by (auto simp: tlv_pack_def)

lemma enc_all_append: "enc_all enc (xs @ ys) = rbind (enc_all enc xs) (\<lambda>a. rbind (enc_all enc ys) (\<lambda>b. Inr (a @ b)))"
  by (induction xs) (simp_all add: rbind_def split: sum.splits)

lemma lldp_parse_hdr:
  assumes "0 < length i" "length i < 511" "0 < length j" "length j < 511" "list_all tlv_ok ts" "TEnd \<notin> set ts"
    and "lldp_hdr (TChassisId s i # TPortId p j # TTtl w # ts @ [TEnd]) = Inr bs"
  shows "lldp_parse (bs @ r) = Inr (True, TChassisId s i # TPortId p j # TTtl w # ts @ [TEnd])"
proof -
  obtain a b c d where abcd: "tlv_pack (TChassisId s i) = Inr a" "tlv_pack (TPortId p j) = Inr b" "tlv_pack (TTtl w) = Inr c"
      "enc_all tlv_pack (ts @ [TEnd]) = Inr d" "bs = a @ b @ c @ d"
    using assms(7) by (auto simp: lldp_hdr_def)
  obtain e f where "d = e @ f" "tlv_pack TEnd = Inr f"
    using abcd(4) by (auto simp: enc_all_append)
  then have len: "14 \<le> length (bs @ r)"
    using assms(1,3) abcd(5) pack_data_length(1) [OF abcd(1)] pack_data_length(2) [OF abcd(2)] pack_data_length(3) [OF abcd(3)]
      pack_data_length(4) [of f] by (simp del: length_greater_0_conv)
  have n: "next_tlv (bs @ r) = Inr (Some (TChassisId s i, b @ c @ d @ r))" "next_tlv (b @ c @ d @ r) = Inr (Some (TPortId p j, c @ d @ r))"
     "next_tlv (c @ d @ r) = Inr (Some (TTtl w, d @ r))"
    using next_tlv_pack(1) [OF _ abcd(1), of "b @ c @ d @ r"] next_tlv_pack(1) [OF _ abcd(2), of "c @ d @ r"]
      next_tlv_pack(1) [OF _ abcd(3), of "d @ r"] assms(1-4) by (simp_all add: abcd(5))
  show ?thesis
    using len by (simp add: lldp_parse_def expect_tlv_def n lldp_rest_pack [OF assms(5,6) abcd(4)])
qed

text \<open>
  C27. An LLDP packet with its three mandatory TLVs, further TLVs of any class but a management address, and the end TLV
  is parsed as it was packed, whatever follows it (for instance the padding of a frame).
\<close>

theorem lldp_roundtrip:
  assumes "list_all tlv_ok (TChassisId s i # TPortId p j # TTtl w # ts)" "TEnd \<notin> set ts"
  shows "\<exists>bs. lldp_hdr (TChassisId s i # TPortId p j # TTtl w # ts @ [TEnd]) = Inr bs \<and>
    lldp_parse (bs @ r) = Inr (True, TChassisId s i # TPortId p j # TTtl w # ts @ [TEnd])"
proof -
  obtain bs where bs: "lldp_hdr (TChassisId s i # TPortId p j # TTtl w # ts @ [TEnd]) = Inr bs"
    using tlvs_pack_ok [of "TChassisId s i # TPortId p j # TTtl w # ts @ [TEnd]"] assms(1) by (auto simp: lldp_hdr_def)
  then show ?thesis using lldp_parse_hdr [OF _ _ _ _ _ assms(2) bs] assms(1) by simp
qed

theorem lldp_roundtrip_witness:
  "\<exists>bs. lldp_hdr [TChassisId 4 [2, 0, 0, 0, 0, 1], TPortId 2 [49], TTtl 120, TSystemCapabilities (replicate 16 True) (replicate 16 False), TUnknown 9 [5], TEnd]
     = Inr bs \<and> fst (projr (lldp_parse (bs @ [0, 0])))"
  using lldp_roundtrip [of 4 "[2, 0, 0, 0, 0, 1]" 2 "[49]" 120 "[TSystemCapabilities (replicate 16 True) (replicate 16 False), TUnknown 9 [5]]" "[0, 0]"]
  by auto

text \<open>A management address is packed but never read; a TLV that ends within two bytes of the end of the packet raises.\<close>

lemma management_address_raises:
  assumes "length d < 512" "d \<noteq> []"
  shows "next_tlv (pack_H (push_bit 9 8 OR (of_nat (length d) AND 0x1ff)) @ d @ r) = Inl TypeError"
  using tlv_header [OF assms(1), of 8] assms(2) by (simp add: next_tlv_def Let_def parse_data_def)

lemma cut_tlv_raises:
  fixes ty :: "7 word"
  assumes "length d + 1 < 512"
  shows "next_tlv (pack_H (push_bit 9 (ucast ty) OR (of_nat (length d + 1) AND 0x1ff)) @ d) = Inl RuntimeError"
  using tlv_header [OF assms, of ty] by (simp add: next_tlv_def Let_def)

section \<open>LLC and SNAP\<close>

text \<open>
  \<open>llc.parse\<close> and \<open>llc.hdr\<close>.  The test \<open>self.oui == '\0\0\0'\<close> compares bytes with a string and is false in Python 3,
  so what follows the header is always kept as bytes.
\<close>

record llc =
  llc_parsed :: bool
  llc_length :: nat
  llc_dsap :: "byte option"
  llc_ssap :: "byte option"
  llc_control :: nat
  llc_oui :: "bytes option"
  llc_eth_type :: "16 word"
  llc_next :: bytes

definition new_llc :: llc where
  "new_llc = \<lparr>llc_parsed = False, llc_length = 3, llc_dsap = None, llc_ssap = None, llc_control = 0, llc_oui = None,
     llc_eth_type = 0xffff, llc_next = []\<rparr>"

definition llc_snap :: "bytes \<Rightarrow> llc \<Rightarrow> llc" where
  "llc_snap raw h =
     (let n = llc_length h in
      if the (llc_ssap h) AND 0xfe = 0xaa \<and> the (llc_dsap h) AND 0xfe = 0xaa then
        (if length raw < n + 5 then h
         else h\<lparr>llc_oui := Some (py_slice n (n + 3) raw), llc_eth_type := u16_at raw (n + 3), llc_length := n + 5,
                llc_parsed := True, llc_next := drop (n + 5) raw\<rparr>)
      else h\<lparr>llc_parsed := True, llc_next := drop n raw\<rparr>)"

definition llc_parse :: "bytes \<Rightarrow> llc" where
  "llc_parse raw =
     (if length raw < 3 then new_llc
      else
        let c = raw ! 2;
            h = new_llc\<lparr>llc_dsap := Some (raw ! 0), llc_ssap := Some (raw ! 1), llc_control := unat c\<rparr> in
        if c AND 1 = 0 \<or> c AND 3 = 2 then
          (if length raw < 4 then h
           else llc_snap raw (h\<lparr>llc_control := unat c OR push_bit 8 (unat (raw ! 3)), llc_length := 4\<rparr>))
        else llc_snap raw h)"

definition llc_hdr :: "llc \<Rightarrow> bytes result" where
  "llc_hdr h =
     (case (llc_dsap h, llc_ssap h) of
        (Some d, Some s) \<Rightarrow>
          rbind (if llc_length h = 3 \<or> llc_length h = 8 then pack_nat_B (llc_control h)
                 else Inr [word_of_nat (llc_control h), word_of_nat (drop_bit 8 (llc_control h))]) (\<lambda>c.
          Inr ([d, s] @ c @ (case llc_oui h of None \<Rightarrow> [] | Some oui \<Rightarrow> oui @ pack_H (llc_eth_type h))))
      | _ \<Rightarrow> Inl StructError)"

text \<open>\<open>_get_effective_ethertype\<close> of an LLC header: a VLAN type asks the bytes after it, which raises and is caught.\<close>

definition llc_ethertype :: "bytes \<Rightarrow> 16 word" where
  "llc_ethertype raw =
     (let h = llc_parse raw in if \<not> llc_parsed h \<or> llc_eth_type h = 0x8100 then 0xffff else llc_eth_type h)"

lemma two_bytes_word: "word_of_nat (unat b OR push_bit 8 (unat c)) = (b :: byte)"
  "word_of_nat (drop_bit 8 (unat b) OR drop_bit 8 (push_bit 8 (unat c))) = (c :: byte)"
  by (rule bit_eqI, auto simp: bit_simps dest: bit_imp_le_length)+

lemma take_take_drop: "take a x @ take b (drop a x) @ drop (a + b) x = x"
  by (metis append_take_drop_id drop_drop add.commute)

lemma snap_bytes:
  assumes "n + 5 \<le> length raw"
  shows "py_slice n (n + 3) raw @ pack_H (u16_at raw (n + 3)) @ drop (n + 5) raw = drop n raw"
proof -
  have "pack_H (u16_at raw (n + 3)) = take 2 (drop 3 (drop n raw))"
    using assms by (simp add: py_slice_def u16_at_def pack_of_be add.commute)
  then show ?thesis
    using take_take_drop [of 3 "drop n raw" 2] by (simp add: py_slice_def add.commute)
qed

text \<open>The control field of \<open>n - 2\<close> bytes, as it was read.\<close>

definition control_bytes :: "nat \<Rightarrow> bytes \<Rightarrow> nat \<Rightarrow> bool" where
  "control_bytes n raw c \<longleftrightarrow> n = 3 \<and> n \<le> length raw \<and> c = unat (raw ! 2) \<or>
     n = 4 \<and> n \<le> length raw \<and> c = unat (raw ! 2) OR push_bit 8 (unat (raw ! 3))"

lemma control_packed:
  assumes "control_bytes n raw c" "m = n \<or> m = n + 5"
  shows "\<exists>cb. (if m = 3 \<or> m = 8 then pack_nat_B c else Inr [word_of_nat c, word_of_nat (drop_bit 8 c)]) = Inr cb \<and>
     raw ! 0 # raw ! 1 # cb @ drop n raw = raw"
proof -
  obtain x y z r where raw: "raw = x # y # z # r"
    using assms(1) by (auto simp: control_bytes_def Suc_le_length_iff eval_nat_numeral)
  then show ?thesis
    using assms by (cases r) (auto simp: control_bytes_def pack_nat_B_def two_bytes_word)
qed

lemma llc_snap_roundtrip:
  assumes "llc_parsed (llc_snap raw h)" "control_bytes (llc_length h) raw (llc_control h)" "\<not> llc_parsed h" "llc_oui h = None"
    and "llc_dsap h = Some (raw ! 0)" "llc_ssap h = Some (raw ! 1)"
  shows "\<exists>b. llc_hdr (llc_snap raw h) = Inr b \<and> b @ llc_next (llc_snap raw h) = raw"
proof (cases "llc_oui (llc_snap raw h)")
  case None
  then have s: "llc_snap raw h = h\<lparr>llc_parsed := True, llc_next := drop (llc_length h) raw\<rparr>"
    using assms by (auto simp: llc_snap_def Let_def split: if_splits)
  show ?thesis
    using control_packed [OF assms(2), of "llc_length h"] assms by (auto simp: s llc_hdr_def)
next
  case (Some oui)
  let ?n = "llc_length h"
  have n: "?n + 5 \<le> length raw"
    and s: "llc_snap raw h = h\<lparr>llc_oui := Some (py_slice ?n (?n + 3) raw), llc_eth_type := u16_at raw (?n + 3), llc_length := ?n + 5,
                llc_parsed := True, llc_next := drop (?n + 5) raw\<rparr>"
    using assms Some by (auto simp: llc_snap_def Let_def split: if_splits)
  show ?thesis
    using control_packed [OF assms(2), of "?n + 5"] snap_bytes [OF n] assms by (auto simp: s llc_hdr_def)
qed

lemma llc_roundtrip:
  assumes "llc_parsed (llc_parse raw)"
  shows "\<exists>b. llc_hdr (llc_parse raw) = Inr b \<and> b @ llc_next (llc_parse raw) = raw"
  using assms unfolding llc_parse_def Let_def
  by (auto split: if_splits intro!: llc_snap_roundtrip simp: control_bytes_def new_llc_def)

end
