(* ===== verification/Discovery.thy ===== *)
theory Discovery
  imports LLDP Flow_Table Util Complex_Main
begin

text \<open>
  Topology discovery (\<open>pox/pox/openflow/discovery.py\<close>).  \<open>LLDPSender\<close> is the record \<open>lldp_sender\<close>; its queues are
  \<open>ls_this\<close> and \<open>ls_next\<close>, its timer the pair of an interval and a chunk size, and \<open>sendToDPID\<close> is recorded in
  \<open>ls_sent\<close>.  \<open>Discovery\<close> is the record \<open>disc\<close> with the dictionary \<open>adjacency\<close>; what the listeners of \<open>LinkEvent\<close> do is
  the argument \<open>on_link\<close>, which may change the state that extends the record.  Times are nanoseconds, as in
  \<open>Flow_Table\<close>; text is kept as its UTF-8 bytes, and the digits that \<open>int\<close> reads are the ASCII ones.
\<close>

section \<open>Links\<close>

datatype link = Link (dpid1: int) (port1: int) (dpid2: int) (port2: int)

definition link_end :: "link \<Rightarrow> (int \<times> int) \<times> (int \<times> int)" where
  "link_end l = ((dpid1 l, port1 l), (dpid2 l, port2 l))"

definition flipped :: "link \<Rightarrow> link" where
  "flipped l = Link (dpid2 l) (port2 l) (dpid1 l) (port1 l)"

definition pair_le :: "int \<times> int \<Rightarrow> int \<times> int \<Rightarrow> bool" where
  "pair_le a b \<longleftrightarrow> fst a < fst b \<or> fst a = fst b \<and> snd a \<le> snd b"

definition uni :: "link \<Rightarrow> link" where
  "uni l = (case link_end l of (a, b) \<Rightarrow>
     if pair_le a b then Link (fst a) (snd a) (fst b) (snd b) else Link (fst b) (snd b) (fst a) (snd a))"

definition port_for_dpid :: "link \<Rightarrow> int \<Rightarrow> int option" where
  "port_for_dpid l d = (if dpid1 l = d then Some (port1 l) else if dpid2 l = d then Some (port2 l) else None)"

lemma flipped_simps [simp]:
  "dpid1 (flipped l) = dpid2 l" "port1 (flipped l) = port2 l" "dpid2 (flipped l) = dpid1 l" "port2 (flipped l) = port1 l"
  "flipped (flipped l) = l"
  by (simp_all add: flipped_def)

lemma uni_flipped: "uni (flipped l) = uni l"
  by (cases l) (auto simp: uni_def link_end_def pair_le_def)

section \<open>Discovery packets\<close>

definition NDP_MULTICAST :: eth_addr where "NDP_MULTICAST = [0x01, 0x23, 0x20, 0, 0, 0x01]"

definition LLDP_ETHERTYPE :: "16 word" where "LLDP_ETHERTYPE = 0x88cc"

definition dpid_text :: "64 word \<Rightarrow> bytes" where
  "dpid_text dpid = ascii ''dpid:'' @ digits_of 16 (unat dpid)"

definition discovery_tlvs :: "64 word \<Rightarrow> 16 word \<Rightarrow> 16 word \<Rightarrow> tlv list" where
  "discovery_tlvs dpid port_num ttl =
     [TChassisId 7 (dpid_text dpid), TPortId 2 (digits_of 10 (unat port_num)), TTtl ttl,
      TSystemDescription (dpid_text dpid), TEnd]"

definition create_discovery_packet :: "64 word \<Rightarrow> 16 word \<Rightarrow> eth_addr \<Rightarrow> 16 word \<Rightarrow> bytes result" where
  "create_discovery_packet dpid port_num port_addr ttl =
     rbind (lldp_hdr (discovery_tlvs dpid port_num ttl)) (\<lambda>body.
       Inr (eth_hdr \<lparr>eth_meta = \<lparr>m_parsed = False, m_raw = None\<rparr>, eth_dst = NDP_MULTICAST, eth_src = port_addr,
              eth_type = LLDP_ETHERTYPE, eth_next = PNone\<rparr> @ body))"

text \<open>\<open>create_packet_out\<close>: the transaction number is the one that the message takes when it is packed.\<close>

definition discovery_out :: "16 word \<Rightarrow> bytes \<Rightarrow> packet_out" where
  "discovery_out port_num frame =
     \<lparr>po_buffer_id = NO_BUFFER, po_in_port = OFPP_NONE, po_actions = [ActOutput port_num 0xffff], po_data = frame\<rparr>"

definition create_packet_out :: "32 word \<Rightarrow> 64 word \<Rightarrow> 16 word \<Rightarrow> eth_addr \<Rightarrow> 16 word \<Rightarrow> bytes result" where
  "create_packet_out xid dpid port_num port_addr ttl =
     rbind (create_discovery_packet dpid port_num port_addr ttl) (\<lambda>frame.
       msg_pack (\<lparr>hdr_version = OFP_VERSION, hdr_xid = xid\<rparr>, MPacketOut (discovery_out port_num frame)))"

section \<open>The sender\<close>

record send_item =
  si_dpid :: "64 word"
  si_port :: "16 word"
  si_packet :: bytes

record lldp_sender =
  ls_this :: "send_item list"
  ls_next :: "send_item list"
  ls_chunk :: rat
  ls_timer :: "rat option"
  ls_ttl :: "16 word"
  ls_cycle :: rat
  ls_sent :: "(64 word \<times> bytes) list"

type_synonym 'a lldpm = "(lldp_sender, 'a) sm"

definition new_sender :: "rat \<Rightarrow> 16 word \<Rightarrow> lldp_sender" where
  "new_sender send_cycle_time ttl = \<lparr>ls_this = [], ls_next = [], ls_chunk = 1, ls_timer = None, ls_ttl = ttl,
     ls_cycle = send_cycle_time, ls_sent = []\<rparr>"

definition sends_per_sec :: rat where "sends_per_sec = 15"

text \<open>\<open>_set_timer\<close>: the interval of the timer and how many packets it sends at a time.\<close>

definition set_timer :: "lldp_sender \<Rightarrow> lldp_sender" where
  "set_timer s =
     (let n = of_nat (length (ls_this s) + length (ls_next s)) :: rat in
      if n = 0 then s\<lparr>ls_timer := None\<rparr>
      else let interval = ls_cycle s / n in
        if interval < 1 / sends_per_sec
        then s\<lparr>ls_chunk := n / ls_cycle s / sends_per_sec, ls_timer := Some (1 / sends_per_sec)\<rparr>
        else s\<lparr>ls_chunk := 1, ls_timer := Some interval\<rparr>)"

abbreviation timer_if :: "bool \<Rightarrow> lldp_sender \<Rightarrow> lldp_sender" where
  "timer_if b s \<equiv> if b then set_timer s else s"

definition del_switch :: "64 word \<Rightarrow> bool \<Rightarrow> lldp_sender \<Rightarrow> lldp_sender" where
  "del_switch dpid timer s = timer_if timer
     (s\<lparr>ls_this := filter (\<lambda>p. si_dpid p \<noteq> dpid) (ls_this s), ls_next := filter (\<lambda>p. si_dpid p \<noteq> dpid) (ls_next s)\<rparr>)"

definition other_port :: "64 word \<Rightarrow> 16 word \<Rightarrow> send_item \<Rightarrow> bool" where
  "other_port dpid port_num p \<longleftrightarrow> si_dpid p \<noteq> dpid \<or> si_port p \<noteq> port_num"

definition del_port :: "64 word \<Rightarrow> 16 word \<Rightarrow> bool \<Rightarrow> lldp_sender \<Rightarrow> lldp_sender" where
  "del_port dpid port_num timer s =
     (if OFPP_MAX < port_num then s
      else timer_if timer (s\<lparr>ls_this := filter (other_port dpid port_num) (ls_this s),
                             ls_next := filter (other_port dpid port_num) (ls_next s)\<rparr>))"

definition send_to :: "64 word \<Rightarrow> bytes \<Rightarrow> lldp_sender \<Rightarrow> lldp_sender" where
  "send_to dpid b s = s\<lparr>ls_sent := ls_sent s @ [(dpid, b)]\<rparr>"

definition sender_add_port :: "32 word \<Rightarrow> 64 word \<Rightarrow> 16 word \<Rightarrow> eth_addr \<Rightarrow> bool \<Rightarrow> unit lldpm" where
  "sender_add_port xid dpid port_num port_addr timer =
     (if OFPP_MAX < port_num then sret ()
      else sthen (smod (del_port dpid port_num False))
        (sbind (sget ls_ttl) (\<lambda>ttl. sbind (slift (create_packet_out xid dpid port_num port_addr ttl)) (\<lambda>packet.
         smod (\<lambda>s. send_to dpid packet (timer_if timer
           (s\<lparr>ls_next := \<lparr>si_dpid = dpid, si_port = port_num, si_packet = packet\<rparr> # ls_next s\<rparr>)))))))"

text \<open>The handlers of the OpenFlow events.  The numbers of new messages come from a counter, here the argument \<open>xid\<close>.\<close>

definition sender_port_status :: "32 word \<Rightarrow> 64 word \<Rightarrow> byte \<Rightarrow> phy_port \<Rightarrow> unit lldpm" where
  "sender_port_status xid dpid reason desc =
     (if reason = 0 then sender_add_port xid dpid (pp_port_no desc) (pp_hw_addr desc) True
      else if reason = 1 then smod (del_port dpid (pp_port_no desc) True)
      else if reason = 2 \<and> pp_config desc AND 1 = 0
      then sender_add_port xid dpid (pp_port_no desc) (pp_hw_addr desc) False
      else sret ())"

definition sender_connection_up :: "(nat \<Rightarrow> 32 word) \<Rightarrow> 64 word \<Rightarrow> phy_port list \<Rightarrow> unit lldpm" where
  "sender_connection_up xid dpid ports =
     sthen (smod (del_switch dpid False))
       (sthen (sfor (enumerate 0 ports) (\<lambda>(i, p). sender_add_port (xid i) dpid (pp_port_no p) (pp_hw_addr p) False))
         (smod set_timer))"

definition sender_connection_down :: "64 word \<Rightarrow> unit lldpm" where
  "sender_connection_down dpid = smod (del_switch dpid True)"

text \<open>One turn of the loop of \<open>_timer_handler\<close>, and the handler; \<open>rnd\<close> is what \<open>random()\<close> gives.\<close>

definition send_item_step :: "unit lldpm" where
  "send_item_step s0 =
     (let s = (if ls_this s0 = [] then s0\<lparr>ls_this := ls_next s0, ls_next := []\<rparr> else s0) in
      case ls_this s of [] \<Rightarrow> (Inl IndexError, s)
      | i # r \<Rightarrow> (Inr (), send_to (si_dpid i) (si_packet i) (s\<lparr>ls_this := r, ls_next := ls_next s @ [i]\<rparr>)))"

fun send_items :: "nat \<Rightarrow> unit lldpm" where
  "send_items 0 = sret ()"
| "send_items (Suc n) = sthen send_item_step (send_items n)"

definition timer_handler :: "rat \<Rightarrow> unit lldpm" where
  "timer_handler rnd s =
     (let num = nat \<lfloor>ls_chunk s\<rfloor>; fpart = frac (ls_chunk s) in send_items (if rnd < fpart then num + 1 else num) s)"

section \<open>What the sender keeps and does\<close>

text \<open>The two lists together are a queue that turns: the abstract sender sends its head and puts it at the end.\<close>

definition queue :: "lldp_sender \<Rightarrow> send_item list" where "queue s = ls_this s @ ls_next s"

definition item_sent :: "send_item \<Rightarrow> 64 word \<times> bytes" where "item_sent i = (si_dpid i, si_packet i)"

definition item_key :: "send_item \<Rightarrow> 64 word \<times> 16 word" where "item_key i = (si_dpid i, si_port i)"

lemma send_item_step_run:
  assumes "queue s = i # r"
  shows "\<exists>s'. send_item_step s = (Inr (), s') \<and> queue s' = r @ [i] \<and> ls_sent s' = ls_sent s @ [item_sent i] \<and>
    ls_ttl s' = ls_ttl s \<and> ls_timer s' = ls_timer s"
  using assms by (cases "ls_this s") (auto simp: send_item_step_def queue_def send_to_def item_sent_def)

lemma send_items_run:
  "queue s = xs @ ys \<Longrightarrow> \<exists>s'. send_items (length xs) s = (Inr (), s') \<and> queue s' = ys @ xs \<and>
     ls_sent s' = ls_sent s @ map item_sent xs \<and> ls_ttl s' = ls_ttl s"
proof (induction xs arbitrary: s ys)
  case (Cons i xs)
  obtain s1 where s1: "send_item_step s = (Inr (), s1)" "queue s1 = xs @ (ys @ [i])"
      "ls_sent s1 = ls_sent s @ [item_sent i]" "ls_ttl s1 = ls_ttl s"
    using send_item_step_run [of s i "xs @ ys"] Cons.prems by auto
  from Cons.IH [OF s1(2)] s1 show ?case by (auto simp: sm_run)
qed (simp add: sm_run)

text \<open>Every port is in the queue once, with a packet that was built for it.\<close>

definition item_ok :: "16 word \<Rightarrow> send_item \<Rightarrow> bool" where
  "item_ok ttl i \<longleftrightarrow> si_port i \<le> OFPP_MAX \<and>
     (\<exists>xid addr. create_packet_out xid (si_dpid i) (si_port i) addr ttl = Inr (si_packet i))"

definition lldp_sender_ok :: "16 word \<Rightarrow> lldp_sender \<Rightarrow> bool" where
  "lldp_sender_ok ttl s \<longleftrightarrow> ls_ttl s = ttl \<and> distinct (map item_key (queue s)) \<and> (\<forall>i \<in> set (queue s). item_ok ttl i)"

lemma set_timer_fields [simp]:
  "ls_this (set_timer s) = ls_this s" "ls_next (set_timer s) = ls_next s" "ls_ttl (set_timer s) = ls_ttl s"
  "ls_sent (set_timer s) = ls_sent s" "ls_cycle (set_timer s) = ls_cycle s"
  by (simp_all add: set_timer_def Let_def)

lemma turn_fields [simp]:
  "queue (set_timer s) = queue s" "queue (send_to d p s) = queue s" "ls_ttl (send_to d p s) = ls_ttl s"
  "queue (del_switch dpid b s) = filter (\<lambda>p. si_dpid p \<noteq> dpid) (queue s)" "ls_ttl (del_switch dpid b s) = ls_ttl s"
  "queue (del_port dpid n b s) = (if OFPP_MAX < n then queue s else filter (other_port dpid n) (queue s))"
  "ls_ttl (del_port dpid n b s) = ls_ttl s"
  by (simp_all add: queue_def send_to_def del_switch_def del_port_def)

lemma sender_ok_filter: "lldp_sender_ok ttl s \<Longrightarrow> queue s' = filter P (queue s) \<Longrightarrow> ls_ttl s' = ls_ttl s \<Longrightarrow> lldp_sender_ok ttl s'"
  by (simp add: lldp_sender_ok_def distinct_map_filter)

lemma sender_ok_same: "queue s' = queue s \<Longrightarrow> ls_ttl s' = ls_ttl s \<Longrightarrow> lldp_sender_ok ttl s \<Longrightarrow> lldp_sender_ok ttl s'"
  by (simp add: lldp_sender_ok_def)

lemma sender_ok_timer [simp]: "lldp_sender_ok ttl (set_timer s) = lldp_sender_ok ttl s" "lldp_sender_ok ttl (send_to d p s) = lldp_sender_ok ttl s"
  by (simp_all add: lldp_sender_ok_def)

lemma sender_ok_dels: "lldp_sender_ok ttl s \<Longrightarrow> lldp_sender_ok ttl (del_switch dpid b s)" "lldp_sender_ok ttl s \<Longrightarrow> lldp_sender_ok ttl (del_port dpid n b s)"
  by (rule sender_ok_filter, simp_all) (cases "OFPP_MAX < n", simp add: del_port_def, rule sender_ok_filter, simp_all)

lemma sender_ok_insert:
  assumes "lldp_sender_ok ttl s" "item_ok ttl i" "item_key i \<notin> item_key ` set (queue s)"
  shows "lldp_sender_ok ttl (s\<lparr>ls_next := i # ls_next s\<rparr>)"
  using assms by (auto simp: lldp_sender_ok_def queue_def)

lemma add_port_queue:
  assumes "n \<le> OFPP_MAX" "create_packet_out xid dpid n addr (ls_ttl s) = Inr p"
  shows "queue (snd (sender_add_port xid dpid n addr b s)) =
    filter (other_port dpid n) (ls_this s) @ \<lparr>si_dpid = dpid, si_port = n, si_packet = p\<rparr> # filter (other_port dpid n) (ls_next s)"
  using assms by (auto simp: sender_add_port_def sm_run queue_def del_port_def send_to_def not_less)

lemma keeps_add_port: "keeps (lldp_sender_ok ttl) (sender_add_port xid dpid n addr b)"
proof -
  have "lldp_sender_ok ttl (snd (sender_add_port xid dpid n addr b s))" if ok: "lldp_sender_ok ttl s" for s
  proof (cases "OFPP_MAX < n")
    case False
    define s1 where "s1 = del_port dpid n False s"
    have s1: "lldp_sender_ok ttl s1" "ls_ttl s1 = ttl" "(dpid, n) \<notin> item_key ` set (queue s1)"
      using sender_ok_dels(2) [OF ok, of dpid n False] False
      by (auto simp: s1_def lldp_sender_ok_def item_key_def other_port_def)
    show ?thesis
    proof (cases "create_packet_out xid dpid n addr ttl")
      case (Inl e)
      then show ?thesis using False s1 by (simp add: sender_add_port_def sm_run s1_def)
    next
      case (Inr p)
      define i where "i = \<lparr>si_dpid = dpid, si_port = n, si_packet = p\<rparr>"
      have "item_ok ttl i" using Inr False by (auto simp: item_ok_def i_def)
      moreover have "item_key i \<notin> item_key ` set (queue s1)" using s1(3) by (simp add: i_def item_key_def)
      ultimately have "lldp_sender_ok ttl (s1\<lparr>ls_next := i # ls_next s1\<rparr>)"
        using sender_ok_insert s1(1) by blast
      then show ?thesis
        using Inr False s1(2) by (simp add: sender_add_port_def sm_run s1_def i_def)
    qed
  qed (simp add: sender_add_port_def sm_run ok)
  then show ?thesis by (simp add: keeps_def)
qed

lemma keeps_send_step: "keeps (lldp_sender_ok ttl) send_item_step"
proof -
  have "lldp_sender_ok ttl (snd (send_item_step s))" if ok: "lldp_sender_ok ttl s" for s
  proof (cases "queue s")
    case Nil
    then have "queue (snd (send_item_step s)) = queue s" "ls_ttl (snd (send_item_step s)) = ls_ttl s"
      by (simp_all add: send_item_step_def queue_def)
    then show ?thesis using ok sender_ok_same by blast
  next
    case (Cons i r)
    then show ?thesis
      using send_item_step_run [OF Cons] ok by (auto simp: lldp_sender_ok_def)
  qed
  then show ?thesis by (simp add: keeps_def)
qed

lemma keeps_send_items: "keeps (lldp_sender_ok ttl) (send_items n)"
  by (induction n) (auto intro: keep keeps_send_step)

lemma keeps_sender:
  "keeps (lldp_sender_ok ttl) (sender_port_status xid dpid reason desc)"
  "keeps (lldp_sender_ok ttl) (sender_connection_up xids dpid ports)"
  "keeps (lldp_sender_ok ttl) (sender_connection_down dpid)"
  "keeps (lldp_sender_ok ttl) (timer_handler rnd)"
     apply (auto simp: sender_port_status_def intro!: keep keeps_add_port keeps_smod sender_ok_dels)[]
    apply (auto simp: sender_connection_up_def intro!: keep keeps_add_port keeps_smod sender_ok_dels)[]
   apply (auto simp: sender_connection_down_def intro!: keeps_smod sender_ok_dels)[]
  using keeps_send_items by (auto simp: keeps_def timer_handler_def Let_def)

text \<open>All that happens to a sender, in any order.\<close>

inductive lldp_sender_step :: "lldp_sender \<Rightarrow> lldp_sender \<Rightarrow> bool" where
  port_status: "lldp_sender_step s (snd (sender_port_status xid dpid reason desc s))"
| connection_up: "lldp_sender_step s (snd (sender_connection_up xids dpid ports s))"
| connection_down: "lldp_sender_step s (snd (sender_connection_down dpid s))"
| timer: "lldp_sender_step s (snd (timer_handler rnd s))"

inductive_cases lldp_sender_stepE: "lldp_sender_step s s'"

lemma sender_step_ok: "lldp_sender_step s s' \<Longrightarrow> lldp_sender_ok ttl s \<Longrightarrow> lldp_sender_ok ttl s'"
  by (erule lldp_sender_stepE) (use keeps_sender in \<open>auto simp: keeps_def\<close>)

lemma sender_reachable_ok: "lldp_sender_step\<^sup>*\<^sup>* s s' \<Longrightarrow> lldp_sender_ok ttl s \<Longrightarrow> lldp_sender_ok ttl s'"
  by (induction rule: rtranclp_induct) (auto intro: sender_step_ok)

lemma new_sender_ok: "lldp_sender_ok ttl (new_sender cyc ttl)"
  by (simp add: lldp_sender_ok_def new_sender_def queue_def)

text \<open>The timer is set so that a cycle takes \<open>send_cycle_time\<close>.\<close>

lemma timer_rate:
  assumes "queue s \<noteq> []" "0 < ls_cycle s"
  shows "\<exists>i. ls_timer (set_timer s) = Some i \<and> ls_chunk (set_timer s) * ls_cycle s = of_nat (length (queue s)) * i"
proof -
  have "(of_nat (length (ls_this s) + length (ls_next s)) :: rat) \<noteq> 0"
    using assms(1) by (simp add: queue_def del: of_nat_add)
  then show ?thesis
    using assms(2) by (cases "ls_cycle s / of_nat (length (ls_this s) + length (ls_next s)) < 1 / sends_per_sec")
      (simp_all add: set_timer_def Let_def sends_per_sec_def queue_def exI [of _ "1 / 15 :: rat"] del: of_nat_add)
qed

section \<open>Reading a discovery packet\<close>

text \<open>
  What the handler asks of \<open>event.parsed\<close>: the effective type, the destination and the LLDP packet that \<open>find\<close>
  gives, that is, one that was parsed.  A tag is entered, what follows an LLC header is bytes.
\<close>

function inner_view :: "16 word \<Rightarrow> bytes \<Rightarrow> (16 word \<times> tlv list option) result" where
  "inner_view ty raw =
     (if ty = 0x8100 then (if length raw < 4 then Inr (0xffff, None) else inner_view (u16_at raw 2) (drop 4 raw))
      else if ty = LLDP_ETHERTYPE then rbind (lldp_parse raw) (\<lambda>(ok, ts). Inr (ty, if ok then Some ts else None))
      else if ty < 1536 then Inr (llc_ethertype raw, None)
      else Inr (ty, None))"
  by pat_completeness auto
termination by (relation "measure (\<lambda>(ty, raw). length raw)") auto

declare inner_view.simps [simp del]

definition frame_view :: "bytes \<Rightarrow> (16 word \<times> eth_addr \<times> tlv list option) result" where
  "frame_view raw =
     (if length raw < 14 then Inr (0xffff, EMPTY_ETH, None)
      else rbind (inner_view (u16_at raw 12) (drop 14 raw)) (\<lambda>(ty, l). Inr (ty, py_slice 0 6 raw, l)))"

text \<open>\<open>bytes.decode()\<close> raises unless the bytes are UTF-8.\<close>

definition cont :: "byte \<Rightarrow> bool" where "cont b \<longleftrightarrow> b AND 0xc0 = 0x80"

fun is_utf8 :: "bytes \<Rightarrow> bool" where
  "is_utf8 [] = True"
| "is_utf8 (a # r) =
     (if a < 0x80 then is_utf8 r
      else if 0xc2 \<le> a \<and> a \<le> 0xdf then (case r of b # r \<Rightarrow> cont b \<and> is_utf8 r | _ \<Rightarrow> False)
      else if 0xe0 \<le> a \<and> a \<le> 0xef then
        (case r of b # c # r \<Rightarrow> cont b \<and> cont c \<and> (a = 0xe0 \<longrightarrow> 0xa0 \<le> b) \<and> (a = 0xed \<longrightarrow> b < 0xa0) \<and> is_utf8 r | _ \<Rightarrow> False)
      else if 0xf0 \<le> a \<and> a \<le> 0xf4 then
        (case r of b # c # d # r \<Rightarrow> cont b \<and> cont c \<and> cont d \<and> (a = 0xf0 \<longrightarrow> 0x90 \<le> b) \<and> (a = 0xf4 \<longrightarrow> b < 0x90) \<and> is_utf8 r
         | _ \<Rightarrow> False)
      else False)"

definition starts_with :: "bytes \<Rightarrow> bytes \<Rightarrow> bool" where
  "starts_with p s \<longleftrightarrow> take (length p) s = p"

text \<open>\<open>lookInSysDesc\<close>: the first system description decides.\<close>

definition line_dpid :: "bytes \<Rightarrow> int option" where
  "line_dpid line =
     (if starts_with (ascii ''dpid:'') line then (case py_int 16 (drop 5 line) of Inl _ \<Rightarrow> None | Inr n \<Rightarrow> Some n) else None)"

fun first_dpid :: "bytes list \<Rightarrow> int option" where
  "first_dpid [] = None"
| "first_dpid (l # ls) = (case line_dpid l of None \<Rightarrow> first_dpid ls | Some n \<Rightarrow> Some n)"

fun sys_desc_dpid :: "tlv list \<Rightarrow> int option result" where
  "sys_desc_dpid [] = Inr None"
| "sys_desc_dpid (TSystemDescription p # ts) =
     (if \<not> is_utf8 p then Inl ValueError
      else case first_dpid (split_on 10 p) of
        Some n \<Rightarrow> Inr (Some n)
      | None \<Rightarrow> Inr (if length p = 8 then Some (uint (of_be p :: 64 word)) else None))"
| "sys_desc_dpid (t # ts) = sys_desc_dpid ts"

text \<open>
  The chassis TLV.  For a MAC address the code adds a string and bytes; the exception is caught, and no number comes
  out of it.
\<close>

fun chassis_dpid :: "tlv \<Rightarrow> int option" where
  "chassis_dpid (TChassisId sub i) = (if sub = 7 then line_dpid i else None)"
| "chassis_dpid _ = None"

definition originator_dpid :: "tlv list \<Rightarrow> int option result" where
  "originator_dpid ts = rbind (sys_desc_dpid (drop 3 ts)) (\<lambda>d. Inr (case d of None \<Rightarrow> chassis_dpid (ts ! 0) | Some n \<Rightarrow> Some n))"

definition is_digits :: "bytes \<Rightarrow> bool" where
  "is_digits s \<longleftrightarrow> s \<noteq> [] \<and> list_all (\<lambda>c. 48 \<le> c \<and> c \<le> 57) s"

fun originator_port :: "tlv \<Rightarrow> int option" where
  "originator_port (TPortId sub i) =
     (if sub \<noteq> 2 then None
      else if is_digits i then (case py_int 10 i of Inl _ \<Rightarrow> None | Inr n \<Rightarrow> Some n)
      else if length i = 2 then Some (uint (of_be i :: 16 word))
      else None)"
| "originator_port _ = None"

section \<open>Discovery\<close>

record disc_conf =
  dc_eat_early :: bool
  dc_explicit_drop :: bool
  dc_install_flow :: bool
  dc_link_timeout :: nat

text \<open>The messages that the component sends itself are recorded in \<open>di_sent\<close>, under the number of the connection.\<close>

record disc =
  di_adjacency :: "(link, nat) dict"
  di_sent :: "(int \<times> of_body) list"

record disc_in =
  in_dpid :: "64 word"
  in_port :: "16 word"
  in_buffer_id :: "32 word option"
  in_connect_time :: "nat option"
  in_data :: bytes

type_synonym ('a, 'b) dm = "('a disc_scheme, 'b) sm"
type_synonym 'a link_listener = "bool \<Rightarrow> link \<Rightarrow> 'a disc_scheme \<Rightarrow> 'a disc_scheme"

definition disc_send :: "int \<Rightarrow> of_body \<Rightarrow> ('a, unit) dm" where
  "disc_send dpid b = smod (\<lambda>s. s\<lparr>di_sent := di_sent s @ [(dpid, b)]\<rparr>)"

definition lldp_flow :: flow_mod where
  "lldp_flow = \<lparr>fm_match = set_dl_dst (Some NDP_MULTICAST) (set_dl_type (Some LLDP_ETHERTYPE) match_init), fm_cookie = 0, fm_command = 0,
     fm_idle_timeout = 0, fm_hard_timeout = 0, fm_priority = 65000, fm_buffer_id = NO_BUFFER, fm_out_port = OFPP_NONE,
     fm_flags = 0, fm_actions = [ActOutput OFPP_CONTROLLER 0xffff], fm_data = None\<rparr>"

definition disc_connection_up :: "disc_conf \<Rightarrow> 64 word \<Rightarrow> ('a, unit) dm" where
  "disc_connection_up cf dpid = (if dc_install_flow cf then disc_send (uint dpid) (MFlowMod lldp_flow) else sret ())"

text \<open>\<open>_delete_links\<close> tells the listeners of every link first, and removes the links after that.\<close>

definition delete_links :: "'a link_listener \<Rightarrow> link list \<Rightarrow> ('a, unit) dm" where
  "delete_links on_link ls =
     sthen (smod (\<lambda>s. fold (on_link False) ls s))
       (smod (\<lambda>s. s\<lparr>di_adjacency := fold d_del ls (di_adjacency s)\<rparr>))"

definition disc_connection_down :: "'a link_listener \<Rightarrow> 64 word \<Rightarrow> ('a, unit) dm" where
  "disc_connection_down on_link dpid = sbind (sget (\<lambda>s. map fst (di_adjacency s))) (\<lambda>ls.
     delete_links on_link (filter (\<lambda>l. dpid1 l = uint dpid \<or> dpid2 l = uint dpid) ls))"

definition link_expired :: "disc_conf \<Rightarrow> nat \<Rightarrow> link \<times> nat \<Rightarrow> bool" where
  "link_expired cf now p \<longleftrightarrow> snd p + dc_link_timeout cf * seconds < now"

definition expire_links :: "disc_conf \<Rightarrow> 'a link_listener \<Rightarrow> nat \<Rightarrow> ('a, unit) dm" where
  "expire_links cf on_link now = sbind (sget (\<lambda>s. map fst (filter (link_expired cf now) (di_adjacency s)))) (\<lambda>expired.
     if expired = [] then sret () else delete_links on_link expired)"

text \<open>Whether the connection is so young that a cycle of discovery may not be over, with the time in nanoseconds.\<close>

definition too_young :: "disc_conf \<Rightarrow> nat \<Rightarrow> nat \<Rightarrow> bool" where
  "too_young cf now connect_time \<longleftrightarrow> now < connect_time + dc_link_timeout cf * (seconds div 2) + seconds"

definition see_link :: "'a link_listener \<Rightarrow> nat \<Rightarrow> link \<Rightarrow> ('a, unit) dm" where
  "see_link on_link now l = sbind (sget di_adjacency) (\<lambda>adj.
     sthen (smod (\<lambda>s. s\<lparr>di_adjacency := d_set l now (di_adjacency s)\<rparr>))
       (if l \<in> set (map fst adj) then sret () else smod (on_link True l)))"

text \<open>The handler answers whether it halts the event.\<close>

definition disc_packet_in ::
    "disc_conf \<Rightarrow> (int \<Rightarrow> bool) \<Rightarrow> 'a link_listener \<Rightarrow> nat \<Rightarrow> disc_in \<Rightarrow> ('a, bool) dm" where
  "disc_packet_in cf known on_link now ev =
     sbind (slift (frame_view (in_data ev))) (\<lambda>(ty, dst, l).
     if ty \<noteq> LLDP_ETHERTYPE \<or> dst \<noteq> NDP_MULTICAST then
       sret (dc_eat_early cf \<and>
         (case in_connect_time ev of None \<Rightarrow> False | Some t \<Rightarrow> t \<noteq> 0 \<and> too_young cf now t))
     else
       sthen (case in_buffer_id ev of
                Some b \<Rightarrow> if dc_explicit_drop cf
                  then disc_send (uint (in_dpid ev)) (MPacketOut \<lparr>po_buffer_id = b, po_in_port = in_port ev, po_actions = [], po_data = []\<rparr>)
                  else sret ()
              | None \<Rightarrow> sret ())
       (case l of
          None \<Rightarrow> sret True
        | Some ts \<Rightarrow>
          if length ts < 3 then sret True
          else if tlv_type (ts ! 0) \<noteq> 1 \<or> tlv_type (ts ! 1) \<noteq> 2 \<or> tlv_type (ts ! 2) \<noteq> 3 then sret True
          else sbind (slift (originator_dpid ts)) (\<lambda>d.
            (case d of None \<Rightarrow> sret True
             | Some dpid \<Rightarrow>
                if \<not> known dpid then sret True
                else (case originator_port (ts ! 1) of None \<Rightarrow> sret True
                  | Some port \<Rightarrow>
                      if (uint (in_dpid ev), uint (in_port ev)) = (dpid, port) then sret True
                      else sthen (see_link on_link now (Link dpid port (uint (in_dpid ev)) (uint (in_port ev)))) (sret True))))))"

definition is_edge_port :: "(link, nat) dict \<Rightarrow> int \<Rightarrow> int \<Rightarrow> bool" where
  "is_edge_port adj dpid port \<longleftrightarrow>
     list_all (\<lambda>(l, _). \<not> (dpid1 l = dpid \<and> port1 l = port) \<and> \<not> (dpid2 l = dpid \<and> port2 l = port)) adj"

section \<open>A packet that was sent is read back\<close>

lemma length_digits_of: "2 \<le> base \<Longrightarrow> n < base ^ k \<Longrightarrow> 0 < k \<Longrightarrow> length (digits_of base n) \<le> k"
proof (induction k arbitrary: n)
  case (Suc k)
  show ?case
  proof (cases "n < base")
    case True
    then show ?thesis by (simp add: digits_of.simps [of base n])
  next
    case False
    then have "0 < k" using Suc.prems by (cases k) auto
    moreover have "n div base < base ^ k"
      using Suc.prems by (simp add: div_less_iff_less_mult mult.commute)
    ultimately show ?thesis
      using Suc.IH [of "n div base"] Suc.prems False by (simp add: digits_of.simps [of base n])
  qed
qed simp

lemma digits_of_Nil [simp]: "digits_of base n \<noteq> []"
  by (subst digits_of.simps) simp

lemma digit_char_ascii: "d < 16 \<Longrightarrow> digit_char d < 0x80 \<and> digit_char d \<noteq> 10 \<and> (d < 10 \<longrightarrow> 48 \<le> digit_char d \<and> digit_char d \<le> 57)"
proof -
  have "list_all (\<lambda>d. digit_char d < 0x80 \<and> digit_char d \<noteq> 10 \<and> (d < 10 \<longrightarrow> 48 \<le> digit_char d \<and> digit_char d \<le> 57)) [0..<16]"
    by code_simp
  then show "d < 16 \<Longrightarrow> ?thesis" by (simp add: list_all_iff)
qed

lemma dec_digits:
  assumes "2 \<le> base" "base \<le> 16"
  shows "c \<in> set (digits_of base n) \<Longrightarrow> c < 0x80 \<and> c \<noteq> 10" "base \<le> 10 \<Longrightarrow> is_digits (digits_of base n)"
proof -
  obtain ds where ds: "digits_of base n = map digit_char ds" "list_all (\<lambda>d. d < base) ds"
    using digits_of_map [OF assms(1)] by blast
  then show "c \<in> set (digits_of base n) \<Longrightarrow> c < 0x80 \<and> c \<noteq> 10"
    using assms(2) digit_char_ascii by (fastforce simp: list_all_iff)
  show "is_digits (digits_of base n)" if "base \<le> 10"
  proof -
    have "48 \<le> digit_char d \<and> digit_char d \<le> 57" if "d \<in> set ds" for d
      using ds(2) that \<open>base \<le> 10\<close> digit_char_ascii [of d] by (auto simp: list_all_iff)
    then show ?thesis
      using digits_of_Nil [of base n] by (auto simp: is_digits_def list_all_iff ds(1) simp del: digits_of_Nil)
  qed
qed

lemma is_utf8_ascii: "\<forall>c \<in> set s. c < 0x80 \<Longrightarrow> is_utf8 s"
  by (induction s) auto

lemma split_on_none: "sep \<notin> set s \<Longrightarrow> split_on sep s = [s]"
  by (induction s) auto

lemma dpid_text_chars: "c \<in> set (dpid_text dpid) \<Longrightarrow> c < 0x80 \<and> c \<noteq> 10"
  using dec_digits(1) [of 16 c "unat dpid"] by (auto simp: dpid_text_def ascii_def)

lemma dpid_text_length: "length (dpid_text dpid) \<le> 21"
proof -
  have "unat dpid < 16 ^ 16" by (rule order_less_le_trans [OF unsigned_less]) simp
  then have "length (digits_of 16 (unat dpid)) \<le> 16" by (rule length_digits_of [rotated]) simp_all
  then show ?thesis by (simp add: dpid_text_def ascii_def)
qed

lemma line_dpid_text: "line_dpid (dpid_text dpid) = Some (uint dpid)"
  by (simp add: line_dpid_def dpid_text_def starts_with_def ascii_def py_int_digits_of)

lemma originator_dpid_sent: "originator_dpid (discovery_tlvs dpid n ttl) = Inr (Some (uint dpid))"
proof -
  have "split_on 10 (dpid_text dpid) = [dpid_text dpid]" "is_utf8 (dpid_text dpid)"
    using dpid_text_chars [of _ dpid] by (auto intro: split_on_none is_utf8_ascii)
  then show ?thesis
    by (simp add: originator_dpid_def discovery_tlvs_def line_dpid_text)
qed

lemma originator_port_sent: "originator_port (discovery_tlvs dpid n ttl ! 1) = Some (uint n)"
  by (simp add: discovery_tlvs_def dec_digits py_int_digits_of)

lemma discovery_tlvs_ok: "list_all tlv_ok (discovery_tlvs dpid n ttl)"
proof -
  have "unat n < 10 ^ 5" by (rule order_less_le_trans [OF unsigned_less]) simp
  then have n: "length (digits_of 10 (unat n)) \<le> 5" by (rule length_digits_of [rotated]) simp_all
  have d: "length (dpid_text dpid) < 511" "0 < length (dpid_text dpid)"
    using dpid_text_length [of dpid] by (auto simp: dpid_text_def ascii_def)
  show ?thesis
    using n d by (simp add: discovery_tlvs_def)
qed

lemma discovery_tlvs_parsed:
  "\<exists>body. lldp_hdr (discovery_tlvs dpid n ttl) = Inr body \<and> lldp_parse (body @ r) = Inr (True, discovery_tlvs dpid n ttl)"
proof -
  have "unat n < 10 ^ 5" by (rule order_less_le_trans [OF unsigned_less]) simp
  then have n: "length (digits_of 10 (unat n)) \<le> 5" by (rule length_digits_of [rotated]) simp_all
  have d: "length (dpid_text dpid) < 511" "0 < length (dpid_text dpid)"
    using dpid_text_length [of dpid] by (auto simp: dpid_text_def ascii_def)
  obtain body where b: "lldp_hdr (discovery_tlvs dpid n ttl) = Inr body"
    unfolding lldp_hdr_def using tlvs_pack_ok [OF discovery_tlvs_ok] by blast
  moreover have "lldp_parse (body @ r) = Inr (True, discovery_tlvs dpid n ttl)"
    using lldp_parse_hdr [of "dpid_text dpid" "digits_of 10 (unat n)" "[TSystemDescription (dpid_text dpid)]" 7 2 ttl body r] b n d
    by (simp add: discovery_tlvs_def)
  ultimately show ?thesis by blast
qed

lemma create_discovery_packet_view:
  assumes "length addr = 6"
  shows "\<exists>frame. create_discovery_packet dpid n addr ttl = Inr frame \<and>
    frame_view (frame @ r) = Inr (LLDP_ETHERTYPE, NDP_MULTICAST, Some (discovery_tlvs dpid n ttl))"
proof -
  obtain body where b: "lldp_hdr (discovery_tlvs dpid n ttl) = Inr body"
      "lldp_parse (body @ r) = Inr (True, discovery_tlvs dpid n ttl)"
    using discovery_tlvs_parsed by blast
  let ?frame = "NDP_MULTICAST @ addr @ pack_H LLDP_ETHERTYPE @ body"
  have "create_discovery_packet dpid n addr ttl = Inr ?frame"
    using b(1) assms by (simp add: create_discovery_packet_def eth_hdr_def fmt_6s_def NDP_MULTICAST_def)
  moreover have u: "u16_at (?frame @ r) 12 = LLDP_ETHERTYPE" "drop 14 (?frame @ r) = body @ r" "py_slice 0 6 (?frame @ r) = NDP_MULTICAST"
    using assms by (simp_all add: u16_at_def py_slice_def NDP_MULTICAST_def)
  have i: "inner_view LLDP_ETHERTYPE (body @ r) = Inr (LLDP_ETHERTYPE, Some (discovery_tlvs dpid n ttl))"
    by (subst inner_view.simps) (simp add: b(2), simp add: LLDP_ETHERTYPE_def)
  have l: "\<not> length (?frame @ r) < 14"
    using assms by (simp add: NDP_MULTICAST_def)
  have "frame_view (?frame @ r) = Inr (LLDP_ETHERTYPE, NDP_MULTICAST, Some (discovery_tlvs dpid n ttl))"
    unfolding frame_view_def u using l i by (simp only: if_False rbind_simps case_prod_conv)
  ultimately show ?thesis by blast
qed

lemma create_packet_out_ok:
  assumes "length addr = 6"
  shows "\<exists>frame p. create_discovery_packet dpid n addr ttl = Inr frame \<and> create_packet_out xid dpid n addr ttl = Inr p"
proof -
  obtain frame body where f: "create_discovery_packet dpid n addr ttl = Inr frame" "lldp_hdr (discovery_tlvs dpid n ttl) = Inr body"
      "length frame = 14 + length body"
    using create_discovery_packet_view [OF assms, of dpid n ttl "[]"] assms
    by (auto simp: create_discovery_packet_def eth_hdr_def fmt_6s_def NDP_MULTICAST_def)
  have "length body \<le> 514 * 5"
    using tlvs_pack_short [OF discovery_tlvs_ok, of dpid n ttl body] f(2) by (simp add: lldp_hdr_def discovery_tlvs_def)
  then have "length frame < 3000" using f(3) by simp
  then show ?thesis
    using f(1) by (simp add: create_packet_out_def msg_pack_def body_validate_def discovery_out_def packet_out_len_def
        header_pack_def packet_out_bytes_def pack_actions_def act_pack_def pack_nat_H_def output_body_def)
qed

section \<open>The links are the wires\<close>

definition link_on :: "64 word \<times> 16 word \<Rightarrow> 64 word \<times> 16 word \<Rightarrow> link" where
  "link_on a b = Link (uint (fst a)) (uint (snd a)) (uint (fst b)) (uint (snd b))"

definition drop_lldp :: "disc_conf \<Rightarrow> disc_in \<Rightarrow> ('a, unit) dm" where
  "drop_lldp cf ev =
     (case in_buffer_id ev of
        Some b \<Rightarrow> if dc_explicit_drop cf
          then disc_send (uint (in_dpid ev)) (MPacketOut \<lparr>po_buffer_id = b, po_in_port = in_port ev, po_actions = [], po_data = []\<rparr>)
          else sret ()
      | None \<Rightarrow> sret ())"

lemma drop_lldp_run: "\<exists>s'. drop_lldp cf ev s = (Inr (), s') \<and> di_adjacency s' = di_adjacency s"
  by (simp add: drop_lldp_def disc_send_def sm_run split: option.split)

lemma discovery_tlvs_simps [simp]:
  "length (discovery_tlvs d n ttl) = 5" "tlv_type (discovery_tlvs d n ttl ! 0) = 1" "tlv_type (discovery_tlvs d n ttl ! Suc 0) = 2"
  "tlv_type (discovery_tlvs d n ttl ! 2) = 3"
  by (simp_all add: discovery_tlvs_def)

lemma slift_bind: "sbind (slift (Inr x)) f = f x"
  by (rule ext) (simp add: sm_run)

lemma disc_packet_in_frame:
  assumes "create_discovery_packet d n addr ttl = Inr frame" "length addr = 6" "in_data ev = frame @ r"
  shows "disc_packet_in cf known on_link now ev s = sthen (drop_lldp cf ev)
     (if \<not> known (uint d) \<or> (in_dpid ev, in_port ev) = (d, n) then sret True
      else sthen (see_link on_link now (link_on (d, n) (in_dpid ev, in_port ev))) (sret True)) s"
proof -
  have v: "frame_view (in_data ev) = Inr (LLDP_ETHERTYPE, NDP_MULTICAST, Some (discovery_tlvs d n ttl))"
    using create_discovery_packet_view [OF assms(2), of d n ttl r] assms(1,3) by auto
  show ?thesis
    unfolding disc_packet_in_def v drop_lldp_def [symmetric]
    by (simp flip: word_uint_eq_iff add: link_on_def slift_bind originator_dpid_sent originator_port_sent originator_port_sent [unfolded One_nat_def])
qed

text \<open>A listener of \<open>LinkEvent\<close>, which may look at the time, does not change the adjacency itself.\<close>

locale link_listener =
  fixes on_link :: "nat \<Rightarrow> bool \<Rightarrow> link \<Rightarrow> 'a disc_scheme \<Rightarrow> 'a disc_scheme"
  assumes keeps_adjacency: "di_adjacency (on_link now b l s) = di_adjacency s"
begin

lemma told_adjacency: "di_adjacency (fold (on_link now b) ls s) = di_adjacency s"
  by (induction ls arbitrary: s) (simp_all add: keeps_adjacency)

lemma delete_links_run:
  "delete_links (on_link now) ls s =
     (Inr (), (fold (on_link now False) ls s)\<lparr>di_adjacency := fold d_del ls (di_adjacency s)\<rparr>)"
  by (simp add: delete_links_def sm_run told_adjacency)

lemma see_link_run:
  "\<exists>s'. see_link (on_link now) now l s = (Inr (), s') \<and> di_adjacency s' = d_set l now (di_adjacency s)"
  by (simp add: see_link_def sm_run keeps_adjacency)

end

lemma fold_d_del: "fold d_del ls d = filter (\<lambda>(k, v). k \<notin> set ls) d"
  by (induction ls arbitrary: d) (auto simp: d_del_def split_def intro!: filter_cong)

text \<open>
  What happens to the component between the ports of the network.  \<open>wire t a b\<close>: at the time \<open>t\<close> what leaves the port \<open>a\<close>
  arrives at the port \<open>b\<close>.  The frames that come in are discovery packets, which have gone over a wire (and may have
  been padded), and others.
\<close>

inductive disc_step ::
    "disc_conf \<Rightarrow> (nat \<Rightarrow> 'a link_listener) \<Rightarrow> (nat \<Rightarrow> 64 word \<times> 16 word \<Rightarrow> 64 word \<times> 16 word \<Rightarrow> bool) \<Rightarrow>
     nat \<times> 'a disc_scheme \<Rightarrow> nat \<times> 'a disc_scheme \<Rightarrow> bool"
  for cf on_link wire where
  later: "t \<le> t' \<Longrightarrow> disc_step cf on_link wire (t, s) (t', s)"
| discovery_frame: "create_discovery_packet d n addr ttl = Inr frame \<Longrightarrow> length addr = 6 \<Longrightarrow> in_data ev = frame @ r \<Longrightarrow>
    wire t (d, n) (in_dpid ev, in_port ev) \<Longrightarrow>
    disc_step cf on_link wire (t, s) (t, snd (disc_packet_in cf known (on_link t) t ev s))"
| other_frame: "frame_view (in_data ev) = Inr (ty, dst, l) \<Longrightarrow> ty \<noteq> LLDP_ETHERTYPE \<or> dst \<noteq> NDP_MULTICAST \<Longrightarrow>
    disc_step cf on_link wire (t, s) (t, snd (disc_packet_in cf known (on_link t) t ev s))"
| expire: "disc_step cf on_link wire (t, s) (t, snd (expire_links cf (on_link t) t s))"
| disc_up: "disc_step cf on_link wire (t, s) (t, snd (disc_connection_up cf d s))"
| disc_down: "disc_step cf on_link wire (t, s) (t, snd (disc_connection_down (on_link t) d s))"

text \<open>Every link was a wire at the time of its stamp, and does not lead to the port it comes from.\<close>

definition was_wire :: "(nat \<Rightarrow> 64 word \<times> 16 word \<Rightarrow> 64 word \<times> 16 word \<Rightarrow> bool) \<Rightarrow> link \<times> nat \<Rightarrow> bool" where
  "was_wire wire e \<longleftrightarrow> (\<exists>a b. fst e = link_on a b \<and> wire (snd e) a b \<and> a \<noteq> b)"

definition adjacency_ok :: "(nat \<Rightarrow> 64 word \<times> 16 word \<Rightarrow> 64 word \<times> 16 word \<Rightarrow> bool) \<Rightarrow> nat \<Rightarrow> (link, nat) dict \<Rightarrow> bool" where
  "adjacency_ok wire t adj \<longleftrightarrow> d_ok adj \<and> (\<forall>e \<in> set adj. snd e \<le> t \<and> was_wire wire e)"

lemma adjacency_ok_later: "adjacency_ok wire t adj \<Longrightarrow> t \<le> t' \<Longrightarrow> adjacency_ok wire t' adj"
  by (fastforce simp: adjacency_ok_def)

lemma adjacency_ok_filter: "adjacency_ok wire t adj \<Longrightarrow> adjacency_ok wire t (filter P adj)"
  by (auto simp: adjacency_ok_def d_ok_def distinct_map_filter)

lemma set_d_set: "e \<in> set (d_set k v d) \<Longrightarrow> e = (k, v) \<or> e \<in> set d"
  by (induction k v d rule: d_set.induct) (auto split: if_splits)

lemma was_wireI: "wire t a b \<Longrightarrow> a \<noteq> b \<Longrightarrow> was_wire wire (link_on a b, t)"
  unfolding was_wire_def by (metis fst_conv snd_conv)

lemma adjacency_ok_set:
  "adjacency_ok wire t adj \<Longrightarrow> wire t a b \<Longrightarrow> a \<noteq> b \<Longrightarrow> adjacency_ok wire t (d_set (link_on a b) t adj)"
  by (auto simp: adjacency_ok_def d_ok_d_set was_wireI dest!: set_d_set)

context link_listener
begin

lemma packet_in_adjacency:
  assumes "create_discovery_packet d n addr ttl = Inr frame" "length addr = 6" "in_data ev = frame @ r"
  shows "\<exists>s'. disc_packet_in cf known (on_link now) now ev s = (Inr True, s') \<and> di_adjacency s' =
    (if \<not> known (uint d) \<or> (in_dpid ev, in_port ev) = (d, n) then di_adjacency s
     else d_set (link_on (d, n) (in_dpid ev, in_port ev)) now (di_adjacency s))"
proof -
  obtain s1 where s1: "drop_lldp cf ev s = (Inr (), s1)" "di_adjacency s1 = di_adjacency s"
    using drop_lldp_run by blast
  obtain s2 where "see_link (on_link now) now (link_on (d, n) (in_dpid ev, in_port ev)) s1 = (Inr (), s2)"
      "di_adjacency s2 = d_set (link_on (d, n) (in_dpid ev, in_port ev)) now (di_adjacency s1)"
    using see_link_run by blast
  with s1 show ?thesis
    unfolding disc_packet_in_frame [OF assms] by (simp add: sm_run)
qed

lemma other_packet_in:
  assumes "frame_view (in_data ev) = Inr (ty, dst, l)" "ty \<noteq> LLDP_ETHERTYPE \<or> dst \<noteq> NDP_MULTICAST"
  shows "snd (disc_packet_in cf known (on_link now) now ev s) = s"
  using assms(2) unfolding disc_packet_in_def assms(1) by (simp add: slift_bind sm_run)

lemma expired_adjacency:
  assumes "d_ok (di_adjacency s)"
  shows "di_adjacency (snd (expire_links cf (on_link now) now s)) = filter (\<lambda>e. \<not> link_expired cf now e) (di_adjacency s)"
proof -
  let ?adj = "di_adjacency s"
  have "l \<in> set (map fst (filter (link_expired cf now) ?adj)) \<longleftrightarrow> link_expired cf now (l, t)" if "(l, t) \<in> set ?adj" for l t
    using assms that by (force simp: d_ok_def dest: eq_key_imp_eq_value)
  then have "filter (\<lambda>(k, v). k \<notin> set (map fst (filter (link_expired cf now) ?adj))) ?adj = filter (\<lambda>e. \<not> link_expired cf now e) ?adj"
    by (intro filter_cong) auto
  then show ?thesis
    by (auto simp: expire_links_def sm_run delete_links_run fold_d_del filter_empty_conv intro!: filter_True [symmetric])
qed

lemma down_adjacency:
  "di_adjacency (snd (disc_connection_down (on_link t) d s)) = filter (\<lambda>(l, _). dpid1 l \<noteq> uint d \<and> dpid2 l \<noteq> uint d) (di_adjacency s)"
  by (auto simp: disc_connection_down_def sm_run delete_links_run fold_d_del intro!: filter_cong) force+

lemma adjacency_ok_expire:
  "adjacency_ok wire t (di_adjacency s) \<Longrightarrow> adjacency_ok wire t (di_adjacency (snd (expire_links cf (on_link now) now s)))"
  by (simp add: expired_adjacency adjacency_ok_filter adjacency_ok_def [THEN iffD1])

lemma disc_step_ok:
  assumes "disc_step cf on_link wire p p'" "adjacency_ok wire (fst p) (di_adjacency (snd p))"
  shows "adjacency_ok wire (fst p') (di_adjacency (snd p'))"
  using assms
proof (cases rule: disc_step.cases)
  case (discovery_frame d n addr ttl frame ev r t s known)
  obtain s' where s': "disc_packet_in cf known (on_link t) t ev s = (Inr True, s')" "di_adjacency s' =
      (if \<not> known (uint d) \<or> (in_dpid ev, in_port ev) = (d, n) then di_adjacency s
       else d_set (link_on (d, n) (in_dpid ev, in_port ev)) t (di_adjacency s))"
    using packet_in_adjacency [OF discovery_frame(3-5)] by blast
  show ?thesis
    using assms(2) adjacency_ok_set [of wire t "di_adjacency s" "(d, n)" "(in_dpid ev, in_port ev)"] discovery_frame(6)
    by (auto simp: discovery_frame(1,2) s')
qed (auto simp: other_packet_in adjacency_ok_expire down_adjacency adjacency_ok_filter disc_connection_up_def disc_send_def sm_run
    elim: adjacency_ok_later)

lemma adjacency_reachable:
  assumes "(disc_step cf on_link wire)\<^sup>*\<^sup>* p p'" "adjacency_ok wire (fst p) (di_adjacency (snd p))"
  shows "adjacency_ok wire (fst p') (di_adjacency (snd p'))"
  using assms by (induction rule: rtranclp_induct) (auto intro: disc_step_ok)

lemma expired_is_recent:
  assumes "adjacency_ok wire t (di_adjacency s)" "(l, t0) \<in> set (di_adjacency (snd (expire_links cf (on_link t) t s)))"
  shows "t0 \<le> t \<and> t \<le> t0 + dc_link_timeout cf * seconds \<and> was_wire wire (l, t0)"
  using assms by (auto simp: adjacency_ok_def expired_adjacency link_expired_def)

end

end
