(* ===== verification/Spanning_Tree.thy ===== *)
theory Spanning_Tree
  imports Discovery
begin

text \<open>
  The spanning tree over the links that discovery has found (\<open>_calc_spanning_tree\<close> of
  \<open>pox/pox/openflow/spanning_tree.py\<close>).  \<open>adj\<close> is a dictionary of dictionaries; an inner value is a list of links until
  the links are culled and a port number after that (\<open>cell\<close>).  The order in which Python iterates over the set of
  switches is an argument, the list \<open>sws\<close>.  The result maps a switch to its neighbours in the tree with the ports that
  lead there.
\<close>

section \<open>The adjacency\<close>

datatype cell = CLinks "link list" | CPort int

type_synonym adj = "(int, (int, cell) dict) dict"

definition adj_row :: "adj \<Rightarrow> int \<Rightarrow> (int, cell) dict" where
  "adj_row adj s = (case map_of adj s of None \<Rightarrow> [] | Some r \<Rightarrow> r)"

definition cell_at :: "adj \<Rightarrow> int \<Rightarrow> int \<Rightarrow> cell option" where
  "cell_at adj a b = map_of (adj_row adj a) b"

definition adj_put :: "int \<Rightarrow> int \<Rightarrow> cell \<Rightarrow> adj \<Rightarrow> adj" where
  "adj_put a b c adj = d_set a (d_set b c (adj_row adj a)) adj"

definition adj_del :: "int \<Rightarrow> int \<Rightarrow> adj \<Rightarrow> adj" where
  "adj_del a b adj = d_set a (d_del b (adj_row adj a)) adj"

definition add_link :: "link \<Rightarrow> adj \<Rightarrow> adj" where
  "add_link l adj = adj_put (dpid1 l) (dpid2 l)
     (CLinks (case cell_at adj (dpid1 l) (dpid2 l) of Some (CLinks ls) \<Rightarrow> ls @ [l] | _ \<Rightarrow> [l])) adj"

definition adj_of :: "link list \<Rightarrow> adj" where
  "adj_of ls = fold add_link ls []"

section \<open>Culling\<close>

text \<open>One round of the two loops over the switches.\<close>

definition cull_pair :: "link list \<Rightarrow> int \<times> int \<Rightarrow> adj \<Rightarrow> adj result" where
  "cull_pair links p adj =
     (case p of (s1, s2) \<Rightarrow>
        (case cell_at adj s1 s2 of
          None \<Rightarrow> Inr adj
        | Some (CPort _) \<Rightarrow> Inr adj
        | Some (CLinks ls) \<Rightarrow>
            if s1 = s2 then Inl AssertionError
            else (case find (\<lambda>l. flipped l \<in> set links) ls of
                Some l \<Rightarrow> Inr (adj_put s2 s1 (CPort (port2 l)) (adj_put s1 s2 (CPort (port1 l)) adj))
              | None \<Rightarrow>
                  let adj' = adj_del s1 s2 adj in
                  Inr (if cell_at adj' s2 s1 = None then adj' else adj_del s2 s1 adj'))))"

fun cull :: "link list \<Rightarrow> (int \<times> int) list \<Rightarrow> adj \<Rightarrow> adj result" where
  "cull links [] adj = Inr adj"
| "cull links (p # ps) adj = rbind (cull_pair links p adj) (cull links ps)"

section \<open>The search\<close>

type_synonym tree = "(int, (int \<times> cell) set) dict"

definition tree_add :: "int \<Rightarrow> int \<times> cell \<Rightarrow> tree \<Rightarrow> tree" where
  "tree_add v x tr = d_set v (insert x (case map_of tr v of None \<Rightarrow> {} | Some xs \<Rightarrow> xs)) tr"

definition cell_or_empty :: "adj \<Rightarrow> int \<Rightarrow> int \<Rightarrow> cell" where
  "cell_or_empty adj a b = (case cell_at adj a b of None \<Rightarrow> CLinks [] | Some c \<Rightarrow> c)"

fun visit :: "adj \<Rightarrow> int \<Rightarrow> (int \<times> cell) list \<Rightarrow> tree \<Rightarrow> int list \<Rightarrow> tree \<times> int list" where
  "visit adj v [] tr new = (tr, new)"
| "visit adj v ((w, p) # its) tr new =
     (if w \<in> set (map fst tr) then visit adj v its tr new
      else visit adj v its (tree_add w (v, cell_or_empty adj w v) (tree_add v (w, p) tr)) (new @ [w]))"

text \<open>The loop; \<open>q\<close> is the queue with the sorted \<open>more\<close> in front of it.\<close>

function (sequential) search :: "adj \<Rightarrow> int list \<Rightarrow> int list \<Rightarrow> tree \<Rightarrow> tree" where
  "search adj [] seen tr = tr"
| "search adj (v # q) seen tr =
     (if v \<in> set seen then search adj q seen tr
      else case visit adj v (adj_row adj v) tr [] of (tr', new) \<Rightarrow> search adj (sort new @ q) (v # seen) tr')"
  by pat_completeness auto
termination
proof (relation "measures [\<lambda>(adj, q, seen, tr). card (set (map fst adj) - set seen), \<lambda>(adj, q, seen, tr). length q]", goal_cases)
  case (3 adj v q seen tr tr' new)
  have "length (sort new @ q) < length (v # q)" if "v \<notin> set (map fst adj)"
  proof -
    have "adj_row adj v = []" using that by (simp add: adj_row_def map_of_eq_None_iff [THEN iffD2])
    then have "new = []" using 3(2) by simp
    then show ?thesis by simp
  qed
  moreover have "card (set (map fst adj) - set (v # seen)) < card (set (map fst adj) - set seen)" if "v \<in> set (map fst adj)"
    using that 3(1) by (intro psubset_card_mono) auto
  moreover have "set (map fst adj) - set (v # seen) = set (map fst adj) - set seen" if "v \<notin> set (map fst adj)"
    using that by auto
  ultimately show ?case by (cases "v \<in> set (map fst adj)") simp_all
qed simp_all

definition switches_of :: "link list \<Rightarrow> int set" where
  "switches_of links = set (map dpid1 links) \<union> set (map dpid2 links)"

definition calc_spanning_tree :: "int list \<Rightarrow> link list \<Rightarrow> tree result" where
  "calc_spanning_tree sws links =
     rbind (cull links (List.product sws sws) (adj_of links)) (\<lambda>adj. Inr (search adj (sort sws) [] []))"

section \<open>What culling leaves\<close>

definition between :: "int \<Rightarrow> int \<Rightarrow> link \<Rightarrow> bool" where
  "between a b l \<longleftrightarrow> dpid1 l = a \<and> dpid2 l = b"

text \<open>The links that were seen in both directions, and the pairs of switches that they join.\<close>

definition both_ways :: "link list \<Rightarrow> link set" where
  "both_ways links = {l \<in> set links. flipped l \<in> set links}"

definition joined :: "link list \<Rightarrow> (int \<times> int) set" where
  "joined links = (\<lambda>l. (dpid1 l, dpid2 l)) ` both_ways links"

definition adj_ok :: "adj \<Rightarrow> bool" where
  "adj_ok adj \<longleftrightarrow> (\<forall>s. d_ok (adj_row adj s))"

lemma between_flipped: "between a b l \<Longrightarrow> between b a (flipped l)"
  by (simp add: between_def)

lemma both_ways_flipped: "l \<in> both_ways links \<Longrightarrow> flipped l \<in> both_ways links"
  by (simp add: both_ways_def)

lemma sym_joined: "sym (joined links)"
proof (rule symI)
  fix a b assume "(a, b) \<in> joined links"
  then obtain l where "l \<in> both_ways links" "a = dpid1 l" "b = dpid2 l" by (auto simp: joined_def)
  then show "(b, a) \<in> joined links"
    unfolding joined_def by (intro image_eqI [of _ _ "flipped l"]) (simp_all add: both_ways_flipped)
qed

lemma joined_iff: "(a, b) \<in> joined links \<longleftrightarrow> (\<exists>l \<in> both_ways links. between a b l)"
  by (auto simp: joined_def between_def image_iff)

lemma adj_row_set: "adj_row (d_set s r adj) x = (if x = s then r else adj_row adj x)"
  by (simp add: adj_row_def map_of_d_set)

lemma cell_at_simps [simp]:
  "cell_at [] a b = None"
  "cell_at (adj_put a b c adj) x y = (if x = a \<and> y = b then Some c else cell_at adj x y)"
  "cell_at (adj_del a b adj) x y = (if x = a \<and> y = b then None else cell_at adj x y)"
  by (simp_all add: cell_at_def adj_put_def adj_del_def adj_row_set map_of_d_set map_of_d_del) (simp add: adj_row_def)

lemma adj_ok_simps [simp]: "adj_ok []" "adj_ok adj \<Longrightarrow> adj_ok (adj_put a b c adj)" "adj_ok adj \<Longrightarrow> adj_ok (adj_del a b adj)"
  by (simp_all add: adj_ok_def adj_put_def adj_del_def adj_row_set d_ok_d_set d_ok_d_del) (simp add: adj_row_def d_ok_def)

lemma adj_of_links:
  "cell_at (adj_of links) a b = (if filter (between a b) links = [] then None else Some (CLinks (filter (between a b) links))) \<and>
   adj_ok (adj_of links)"
proof (induction links arbitrary: a b rule: rev_induct)
  case (snoc l links)
  have "adj_of (links @ [l]) = add_link l (adj_of links)" by (simp add: adj_of_def)
  then show ?case
    using snoc.IH [of "dpid1 l" "dpid2 l"] snoc.IH [of a b] by (auto simp: add_link_def between_def [of _ _ l])
qed (simp add: adj_of_def)

text \<open>
  The invariant of culling.  A list of links is the one of the beginning; a port belongs to a link seen both ways, and
  the opposite entry to its other end; no pair that is joined is lost.
\<close>

definition cell_ok :: "link list \<Rightarrow> adj \<Rightarrow> int \<Rightarrow> int \<Rightarrow> bool" where
  "cell_ok links adj a b \<longleftrightarrow>
     (case cell_at adj a b of
        None \<Rightarrow> (a, b) \<notin> joined links
      | Some (CLinks ls) \<Rightarrow> ls = filter (between a b) links \<and> ls \<noteq> []
      | Some (CPort p) \<Rightarrow> \<exists>l \<in> both_ways links. between a b l \<and> port1 l = p \<and> cell_at adj b a = Some (CPort (port2 l)))"

definition culling :: "link list \<Rightarrow> adj \<Rightarrow> bool" where
  "culling links adj \<longleftrightarrow> adj_ok adj \<and> (\<forall>a b. cell_ok links adj a b)"

definition culled_at :: "adj \<Rightarrow> int \<times> int \<Rightarrow> bool" where
  "culled_at adj p \<longleftrightarrow> (\<forall>ls. cell_at adj (fst p) (snd p) \<noteq> Some (CLinks ls))"

lemma culling_start: "culling links (adj_of links)"
  using adj_of_links [of links]
  by (auto simp: culling_def cell_ok_def joined_iff both_ways_def filter_empty_conv)

lemma culling_update:
  assumes "culling links adj" "adj_ok adj'" "\<And>a b. (a, b) \<noteq> (s1, s2) \<Longrightarrow> (a, b) \<noteq> (s2, s1) \<Longrightarrow> cell_at adj' a b = cell_at adj a b"
    and "cell_ok links adj' s1 s2" "cell_ok links adj' s2 s1"
  shows "culling links adj'"
proof -
  have "cell_ok links adj' a b" for a b
  proof (cases "(a, b) = (s1, s2) \<or> (a, b) = (s2, s1)")
    case False
    then have "cell_at adj' a b = cell_at adj a b" "cell_at adj' b a = cell_at adj b a"
      using assms(3) by auto
    then have "cell_ok links adj' a b = cell_ok links adj a b"
      by (simp only: cell_ok_def)
    then show ?thesis using assms(1) by (simp add: culling_def)
  qed (use assms(4,5) in auto)
  then show ?thesis using assms(2) by (simp add: culling_def)
qed

lemma culled_update:
  "(\<And>a b. (a, b) \<noteq> (s1, s2) \<Longrightarrow> (a, b) \<noteq> (s2, s1) \<Longrightarrow> cell_at adj' a b = cell_at adj a b) \<Longrightarrow>
   culled_at adj' (s1, s2) \<Longrightarrow> culled_at adj' (s2, s1) \<Longrightarrow> culled_at adj p \<Longrightarrow> culled_at adj' p"
  by (cases p) (metis culled_at_def fst_conv snd_conv)

lemma find_in: "find P xs = Some x \<Longrightarrow> x \<in> set xs \<and> P x"
  by (induction xs) (auto split: if_splits)

lemma cull_pair_ok:
  assumes "culling links adj" "s1 \<noteq> s2"
  shows "\<exists>adj'. cull_pair links (s1, s2) adj = Inr adj' \<and> culling links adj' \<and> culled_at adj' (s1, s2) \<and>
    (\<forall>p. culled_at adj p \<longrightarrow> culled_at adj' p)"
proof (cases "\<exists>ls. cell_at adj s1 s2 = Some (CLinks ls)")
  case False
  then show ?thesis
    using assms by (auto simp: cull_pair_def culled_at_def split: option.split cell.split)
next
  case True
  then obtain ls where ls: "cell_at adj s1 s2 = Some (CLinks ls)" by blast
  have adj_ok: "adj_ok adj" and eq: "ls = filter (between s1 s2) links"
    using assms(1) ls by (auto simp: culling_def cell_ok_def dest!: spec2 [of _ s1 s2])
  show ?thesis
  proof (cases "find (\<lambda>l. flipped l \<in> set links) ls")
    case None
    then have n: "(s1, s2) \<notin> joined links"
      using eq by (auto simp: find_None_iff joined_iff both_ways_def)
    then have n': "(s2, s1) \<notin> joined links" using sym_joined [of links] by (blast dest: symD)
    define adj' where "adj' = (let d = adj_del s1 s2 adj in if cell_at d s2 s1 = None then d else adj_del s2 s1 d)"
    have c: "cell_at adj' a b = (if (a, b) = (s1, s2) \<or> (a, b) = (s2, s1) then None else cell_at adj a b)" for a b
      using assms(2) by (auto simp: adj'_def Let_def)
    have "culling links adj'"
      by (rule culling_update [OF assms(1), of _ s1 s2]) (use adj_ok n n' assms(2) in \<open>auto simp: c cell_ok_def\<close>, auto simp: adj'_def Let_def)
    moreover have "cull_pair links (s1, s2) adj = Inr adj'"
      using ls None assms(2) by (simp add: cull_pair_def adj'_def Let_def)
    ultimately show ?thesis by (auto simp: culled_at_def c)
  next
    case (Some l)
    then have "l \<in> set ls" "flipped l \<in> set links"
      using find_in [OF Some] by simp_all
    then have l: "l \<in> both_ways links" "between s1 s2 l"
      using eq by (auto simp: both_ways_def)
    define adj' where "adj' = adj_put s2 s1 (CPort (port2 l)) (adj_put s1 s2 (CPort (port1 l)) adj)"
    have c: "cell_at adj' a b = (if (a, b) = (s1, s2) then Some (CPort (port1 l)) else if (a, b) = (s2, s1) then Some (CPort (port2 l))
        else cell_at adj a b)" for a b
      using assms(2) by (auto simp: adj'_def)
    have port: "cell_ok links adj' a b"
      if "r \<in> both_ways links" "between a b r" "cell_at adj' a b = Some (CPort (port1 r))" "cell_at adj' b a = Some (CPort (port2 r))"
      for a b r
      unfolding cell_ok_def that(3,4) option.case cell.case using that(1,2) by (intro bexI [of _ r] conjI refl)
    have "culling links adj'"
    proof (rule culling_update [OF assms(1), of _ s1 s2])
      show "adj_ok adj'" using adj_ok by (simp add: adj'_def)
      show "cell_ok links adj' s1 s2" using l assms(2) by (intro port [of l]) (simp_all add: c)
      show "cell_ok links adj' s2 s1" using both_ways_flipped [OF l(1)] between_flipped [OF l(2)] assms(2)
        by (intro port [of "flipped l"]) (simp_all add: c)
      show "cell_at adj' a b = cell_at adj a b" if "(a, b) \<noteq> (s1, s2)" "(a, b) \<noteq> (s2, s1)" for a b
        using that by (simp only: c if_False)
    qed
    moreover have "cull_pair links (s1, s2) adj = Inr adj'"
      using ls Some assms(2) by (simp add: cull_pair_def adj'_def)
    ultimately show ?thesis by (auto simp: culled_at_def c)
  qed
qed

definition no_self_links :: "link list \<Rightarrow> bool" where
  "no_self_links links \<longleftrightarrow> list_all (\<lambda>l. dpid1 l \<noteq> dpid2 l) links"

lemma culling_no_self:
  assumes "culling links adj" "no_self_links links"
  shows "cell_at adj s s = None"
proof (cases "cell_at adj s s")
  case (Some c)
  have "cell_ok links adj s s" using assms(1) by (simp add: culling_def)
  moreover have "\<not> between s s l" if "l \<in> set links" for l
    using assms(2) that by (auto simp: no_self_links_def list_all_iff between_def)
  ultimately show ?thesis
    using Some by (cases c) (auto simp: cell_ok_def filter_empty_conv both_ways_def)
qed

lemma cull_pair_any:
  assumes "culling links adj" "no_self_links links"
  shows "\<exists>adj'. cull_pair links p adj = Inr adj' \<and> culling links adj' \<and> culled_at adj' p \<and> (\<forall>p. culled_at adj p \<longrightarrow> culled_at adj' p)"
proof (cases "fst p = snd p")
  case True
  then show ?thesis
    using assms culling_no_self [OF assms, of "fst p"] by (cases p) (auto simp: cull_pair_def culled_at_def)
next
  case False
  then show ?thesis using cull_pair_ok [OF assms(1), of "fst p" "snd p"] by simp
qed

lemma cull_ok:
  assumes "culling links adj" "no_self_links links"
  shows "\<exists>adj'. cull links ps adj = Inr adj' \<and> culling links adj' \<and> (\<forall>p \<in> set ps. culled_at adj' p) \<and>
    (\<forall>p. culled_at adj p \<longrightarrow> culled_at adj' p)"
  using assms(1)
proof (induction ps arbitrary: adj)
  case (Cons p ps)
  obtain adj1 where adj1: "cull_pair links p adj = Inr adj1" "culling links adj1" "culled_at adj1 p"
      "\<forall>p. culled_at adj p \<longrightarrow> culled_at adj1 p"
    using cull_pair_any [OF Cons.prems assms(2)] by blast
  from Cons.IH [OF adj1(2)] adj1 show ?case by (auto simp del: split_paired_All)
qed simp

text \<open>The links after culling: one port for each pair that is joined, the two ends of one link.\<close>

definition single_links :: "link list \<Rightarrow> adj \<Rightarrow> bool" where
  "single_links links adj \<longleftrightarrow> adj_ok adj \<and> (\<forall>a b.
     (cell_at adj a b \<noteq> None) = ((a, b) \<in> joined links) \<and>
     (\<forall>c. cell_at adj a b = Some c \<longrightarrow>
       (\<exists>l \<in> both_ways links. between a b l \<and> c = CPort (port1 l) \<and> cell_at adj b a = Some (CPort (port2 l)))))"

lemma culled_single:
  assumes "no_self_links links" "switches_of links \<subseteq> set sws"
  shows "\<exists>adj. cull links (List.product sws sws) (adj_of links) = Inr adj \<and> single_links links adj"
proof -
  obtain adj where adj: "cull links (List.product sws sws) (adj_of links) = Inr adj" "culling links adj"
      "\<forall>p \<in> set sws \<times> set sws. culled_at adj p"
    using cull_ok [OF culling_start assms(1), of "List.product sws sws"] by auto
  have "(cell_at adj a b \<noteq> None) = ((a, b) \<in> joined links) \<and>
     (\<forall>c. cell_at adj a b = Some c \<longrightarrow>
       (\<exists>l \<in> both_ways links. between a b l \<and> c = CPort (port1 l) \<and> cell_at adj b a = Some (CPort (port2 l))))" for a b
  proof -
    have ok: "cell_ok links adj a b" using adj(2) by (simp add: culling_def)
    show ?thesis
    proof (cases "cell_at adj a b")
      case None
      then show ?thesis using ok by (simp add: cell_ok_def)
    next
      case (Some c)
      show ?thesis
      proof (cases c)
        case (CLinks ls)
        then obtain l where "l \<in> set links" "between a b l"
          using ok Some by (auto simp: cell_ok_def filter_empty_conv)
        then have "(a, b) \<in> set sws \<times> set sws"
          using assms(2) by (auto simp: switches_of_def between_def)
        then show ?thesis using adj(3) Some CLinks by (auto simp: culled_at_def)
      next
        case (CPort p)
        then show ?thesis using ok Some by (auto simp: cell_ok_def joined_iff)
      qed
    qed
  qed
  then show ?thesis using adj by (auto simp: single_links_def culling_def)
qed

section \<open>What the search finds\<close>

text \<open>Growing a set of edges by leaves only: no cycles.\<close>

inductive forest :: "('a \<times> 'a) set \<Rightarrow> bool" where
  no_edges: "forest {}"
| leaf: "forest E \<Longrightarrow> w \<notin> Field E \<Longrightarrow> v \<noteq> w \<Longrightarrow> forest (insert (v, w) (insert (w, v) E))"

lemma forest_sym: "forest E \<Longrightarrow> sym E"
  by (induction rule: forest.induct) (auto simp: sym_def)

lemma forest_bridge:
  assumes "forest E" "(a, b) \<in> E"
  shows "(a, b) \<notin> (E - {(a, b), (b, a)})\<^sup>*"
  using assms
proof (induction arbitrary: a b rule: forest.induct)
  case (leaf E w v)
  let ?E = "insert (v, w) (insert (w, v) E)"
  have w: "(x, w) \<notin> E" "(w, x) \<notin> E" for x
    using leaf.hyps(2) by (auto simp: Field_def)
  show ?case
  proof (cases "(a, b) \<in> {(v, w), (w, v)}")
    case True
    have "(x, y) \<in> (?E - {(a, b), (b, a)})\<^sup>* \<Longrightarrow> (x = w) = (y = w)" for x y
      by (induction rule: rtrancl_induct) (use w True in auto)
    then show ?thesis using True leaf.hyps(3) by blast
  next
    case False
    then have ab: "(a, b) \<in> E" "a \<noteq> w" "b \<noteq> w"
      using leaf.prems w by auto
    have "if x = w then (a, v) \<in> (E - {(a, b), (b, a)})\<^sup>* else (a, x) \<in> (E - {(a, b), (b, a)})\<^sup>*"
      if "(a, x) \<in> (?E - {(a, b), (b, a)})\<^sup>*" for x
      using that
    proof (induction rule: rtrancl_induct)
      case base
      then show ?case using ab by simp
    next
      case (step y z)
      show ?case
      proof (cases "(y, z) \<in> E")
        case True
        then have "y \<noteq> w" "z \<noteq> w" "(y, z) \<in> E - {(a, b), (b, a)}" using w step.hyps(2) by auto
        then show ?thesis using step.IH by (simp add: rtrancl.rtrancl_into_rtrancl)
      qed (use step leaf.hyps(3) in auto)
    qed
    then show ?thesis using ab leaf.IH by (metis (full_types))
  qed
qed simp

definition tree_at :: "tree \<Rightarrow> int \<Rightarrow> (int \<times> cell) set" where
  "tree_at tr v = (case map_of tr v of None \<Rightarrow> {} | Some xs \<Rightarrow> xs)"

definition tree_edges :: "tree \<Rightarrow> (int \<times> int) set" where
  "tree_edges tr = {(v, w). \<exists>p. (w, p) \<in> tree_at tr v}"

lemma tree_at_add [simp]: "tree_at (tree_add v x tr) u = (if u = v then insert x (tree_at tr v) else tree_at tr u)"
  by (simp add: tree_at_def tree_add_def map_of_d_set)

lemma keys_tree_add [simp]: "fst ` set (tree_add v x tr) = insert v (fst ` set tr)"
  using keys_d_set [of v _ tr] by (simp add: tree_add_def)

lemma tree_edges_add [simp]: "tree_edges (tree_add v (w, p) tr) = insert (v, w) (tree_edges tr)"
  by (auto simp: tree_edges_def split: if_splits)

definition tree_ok :: "adj \<Rightarrow> tree \<Rightarrow> bool" where
  "tree_ok adj tr \<longleftrightarrow> forest (tree_edges tr) \<and> fst ` set tr = Field (tree_edges tr) \<and>
     (\<forall>v w p. (w, p) \<in> tree_at tr v \<longrightarrow> cell_at adj v w = Some p)"

definition adj_edges :: "adj \<Rightarrow> (int \<times> int) set" where
  "adj_edges adj = {(a, b). cell_at adj a b \<noteq> None}"

lemma tree_ok_leaf:
  assumes "tree_ok adj tr" "w \<notin> fst ` set tr" "v \<noteq> w" "cell_at adj v w = Some p" "cell_at adj w v = Some p'"
  shows "tree_ok adj (tree_add w (v, p') (tree_add v (w, p) tr))"
proof -
  have "forest (insert (v, w) (insert (w, v) (tree_edges tr)))"
    using assms by (intro leaf) (auto simp: tree_ok_def)
  moreover have "Field (insert (v, w) (insert (w, v) E)) = insert v (insert w (Field E))" for E
    by (auto simp: Field_def)
  ultimately show ?thesis
    using assms by (auto simp: tree_ok_def insert_commute)
qed

lemma visit_ok:
  assumes "tree_ok adj tr" "\<And>w p. (w, p) \<in> set its \<Longrightarrow> cell_at adj v w = Some p" "sym (adj_edges adj)" "v \<notin> fst ` set its"
  shows "\<exists>tr' N. visit adj v its tr new = (tr', new @ N) \<and> tree_ok adj tr' \<and> set N = fst ` set its - fst ` set tr \<and>
    tree_edges tr' = tree_edges tr \<union> {v} \<times> set N \<union> set N \<times> {v}"
  using assms
proof (induction its arbitrary: tr new)
  case (Cons it its)
  obtain w p where it: "it = (w, p)" by (cases it)
  show ?case
  proof (cases "w \<in> fst ` set tr")
    case True
    then have "visit adj v (it # its) tr new = visit adj v its tr new" "fst ` set (it # its) - fst ` set tr = fst ` set its - fst ` set tr"
      by (auto simp: it)
    then show ?thesis using Cons.IH [of tr new] Cons.prems by (simp only:) auto
  next
    case False
    have "cell_at adj w v \<noteq> None"
      using Cons.prems(2) [of w p] Cons.prems(3) it by (auto simp: adj_edges_def sym_def)
    then obtain p' where p': "cell_at adj w v = Some p'" by blast
    define tr1 where "tr1 = tree_add w (v, p') (tree_add v (w, p) tr)"
    have "tree_ok adj tr1"
      unfolding tr1_def using Cons.prems False it p' by (intro tree_ok_leaf) auto
    then obtain tr' N where N: "visit adj v its tr1 (new @ [w]) = (tr', (new @ [w]) @ N)" "tree_ok adj tr'"
        "set N = fst ` set its - fst ` set tr1" "tree_edges tr' = tree_edges tr1 \<union> {v} \<times> set N \<union> set N \<times> {v}"
      using Cons.IH [of tr1 "new @ [w]"] Cons.prems by auto
    have "set (w # N) = fst ` set (it # its) - fst ` set tr"
      using N(3) False Cons.prems(4) it by (auto simp: tr1_def)
    moreover have "tree_edges tr' = tree_edges tr \<union> {v} \<times> set (w # N) \<union> set (w # N) \<times> {v}"
      using N(4) by (auto simp: tr1_def)
    moreover have "visit adj v (it # its) tr new = (tr', new @ (w # N))"
      using N(1) False it p' by (simp add: tr1_def cell_or_empty_def)
    ultimately show ?thesis using N(2) by blast
  qed
qed simp

text \<open>
  The invariant of the loop.  A front part \<open>f\<close> of the queue holds the switches of the tree whose neighbours have not
  been looked at; they belong to one component, and every other switch of the tree is finished.
\<close>

definition front_ok :: "adj \<Rightarrow> (int \<times> int) set \<Rightarrow> int set \<Rightarrow> int set \<Rightarrow> bool" where
  "front_ok adj E seen f \<longleftrightarrow> f \<subseteq> Field E \<and> Field E \<subseteq> seen \<union> f \<and> (\<forall>a \<in> f. \<forall>b \<in> f. (a, b) \<in> E\<^sup>*) \<and>
     (\<forall>a \<in> seen. \<forall>b. (a, b) \<in> adj_edges adj \<longrightarrow> (a, b) \<in> E\<^sup>*)"

definition search_inv :: "adj \<Rightarrow> int list \<Rightarrow> int list \<Rightarrow> tree \<Rightarrow> bool" where
  "search_inv adj q seen tr \<longleftrightarrow> tree_ok adj tr \<and> Field (adj_edges adj) \<subseteq> set seen \<union> set q \<and>
     (\<exists>f r. q = f @ r \<and> front_ok adj (tree_edges tr) (set seen) (set f))"

text \<open>The neighbours of the next switch that are in the tree already are connected to it there.\<close>

lemma front_next:
  assumes "front_ok adj E seen f" "v \<notin> seen" "sym E" "sym (adj_edges adj)" "v \<in> f \<or> f = {}" "(v, w) \<in> adj_edges adj" "w \<in> Field E" "v \<noteq> w"
  shows "(v, w) \<in> E\<^sup>*"
proof (cases "w \<in> seen")
  case True
  then have "(w, v) \<in> E\<^sup>*" using assms(1,4,6) by (auto simp: front_ok_def dest: symD)
  then show ?thesis using assms(3) by (metis sym_rtrancl symD)
next
  case False
  then have "w \<in> f" using assms(1,7) by (auto simp: front_ok_def)
  then show ?thesis using assms(1,5) by (auto simp: front_ok_def)
qed

lemma front_root:
  assumes "front_ok adj E seen {}" "v \<notin> seen" "sym (adj_edges adj)" "(v, w) \<in> adj_edges adj" "v \<noteq> w"
  shows "w \<notin> Field E"
proof
  assume w: "w \<in> Field E"
  then have "(w, v) \<in> E\<^sup>*" using assms(1,3,4) by (auto simp: front_ok_def dest: symD)
  then have "v \<in> Field E" using assms(5) by (metis FieldI2 rtranclE)
  then show False using assms(1,2) by (auto simp: front_ok_def)
qed

lemma search_step:
  assumes "search_inv adj (v # q) seen tr" "v \<notin> set seen" "adj_ok adj" "sym (adj_edges adj)" "\<And>s. cell_at adj s s = None"
    and "visit adj v (adj_row adj v) tr [] = (tr', new)"
  shows "search_inv adj (sort new @ q) (v # seen) tr'"
proof -
  let ?E = "tree_edges tr" and ?E' = "tree_edges tr'" and ?its = "adj_row adj v"
  obtain f r where fr: "v # q = f @ r" "front_ok adj ?E (set seen) (set f)"
    and ok: "tree_ok adj tr" and fld: "Field (adj_edges adj) \<subseteq> set seen \<union> set (v # q)"
    using assms(1) unfolding search_inv_def by blast
  have row: "(w, p) \<in> set ?its \<Longrightarrow> cell_at adj v w = Some p" for w p
    using assms(3) by (auto simp: adj_ok_def d_ok_def cell_at_def)
  have its: "fst ` set ?its = {w. (v, w) \<in> adj_edges adj}"
    by (auto simp: adj_edges_def cell_at_def map_of_eq_None_iff image_iff)
  have v: "v \<notin> fst ` set ?its" using assms(5) [of v] by (simp add: its adj_edges_def)
  obtain N where N: "tree_ok adj tr'" "set new = fst ` set ?its - Field ?E"
      "?E' = ?E \<union> {v} \<times> set new \<union> set new \<times> {v}"
    using visit_ok [OF ok row assms(4) v, of "[]"] assms(6) ok by (auto simp: tree_ok_def)
  have symE: "sym ?E" "sym ?E'" using ok N(1) by (simp_all add: tree_ok_def forest_sym)
  have sub: "?E\<^sup>* \<subseteq> ?E'\<^sup>*" by (rule rtrancl_mono) (use N(3) in auto)
  have new: "w \<in> set new \<Longrightarrow> (v, w) \<in> ?E'\<^sup>*" for w using N(3) by auto
  define g where "g = (if f = [] then {} else set (tl f))"
  have g: "f = [] \<or> (\<exists>f'. f = v # f' \<and> g = set f')" using fr(1) by (cases f) (auto simp: g_def)
  have cls: "(v, w) \<in> ?E'\<^sup>*" if "(v, w) \<in> adj_edges adj" for w
  proof (cases "w \<in> Field ?E")
    case True
    moreover have "v \<noteq> w" using that v its by auto
    ultimately have "(v, w) \<in> ?E\<^sup>*"
      using front_next [OF fr(2) assms(2) symE(1) assms(4) _ that] g by auto
    then show ?thesis using sub by blast
  next
    case False
    then show ?thesis using new that its N(2) by auto
  qed
  have conn: "(v, a) \<in> ?E'\<^sup>*" if "a \<in> set new \<union> g" for a
    using that new g fr(2) sub by (auto simp: front_ok_def g_def)
  have "(a, b) \<in> ?E'\<^sup>*" if "a \<in> set new \<union> g" "b \<in> set new \<union> g" for a b
    using conn [OF that(1)] conn [OF that(2)] symE(2) by (metis rtrancl_trans sym_rtrancl symD)
  moreover have "Field ?E' = Field ?E \<union> (if new = [] then {} else insert v (set new))"
    using N(3) by (cases new) (auto simp: Field_def)
  ultimately have "front_ok adj ?E' (set (v # seen)) (set new \<union> g)"
    using fr(2) g sub cls by (auto simp: front_ok_def g_def)
  moreover have "\<exists>f' r'. q = f' @ r' \<and> set f' = g"
    using fr(1) by (cases f) (auto simp: g_def)
  ultimately have "\<exists>f' r'. sort new @ q = f' @ r' \<and> front_ok adj ?E' (set (v # seen)) (set f')"
    by (metis append.assoc set_append set_sort)
  then show ?thesis using N(1) fld by (auto simp: search_inv_def)
qed

lemma search_skip:
  assumes "search_inv adj (v # q) seen tr" "v \<in> set seen"
  shows "search_inv adj q seen tr"
proof -
  obtain f r where fr: "v # q = f @ r" "front_ok adj (tree_edges tr) (set seen) (set f)"
    using assms(1) unfolding search_inv_def by blast
  have "front_ok adj (tree_edges tr) (set seen) (set (tl f))"
    using fr assms(2) by (cases f) (auto simp: front_ok_def)
  moreover have "q = tl f @ (if f = [] then tl r else r)"
    using fr(1) by (cases f) auto
  moreover have "Field (adj_edges adj) \<subseteq> set seen \<union> set q" "tree_ok adj tr"
    using assms by (auto simp: search_inv_def)
  ultimately show ?thesis unfolding search_inv_def by blast
qed

lemma search_ok:
  assumes "search_inv adj q seen tr" "adj_ok adj" "sym (adj_edges adj)" "\<And>s. cell_at adj s s = None"
  shows "tree_ok adj (search adj q seen tr) \<and> adj_edges adj \<subseteq> (tree_edges (search adj q seen tr))\<^sup>*"
  using assms
proof (induction adj q seen tr rule: search.induct)
  case (1 adj seen tr)
  then show ?case by (auto simp: search_inv_def front_ok_def Field_def)
next
  case (2 adj v q seen tr)
  show ?case
  proof (cases "v \<in> set seen")
    case True
    then show ?thesis using 2 search_skip by simp
  next
    case False
    obtain tr' new where vis: "visit adj v (adj_row adj v) tr [] = (tr', new)" by fastforce
    show ?thesis
      using 2(2) [OF False vis [symmetric]] search_step [OF 2(3) False 2(4,5,6) vis] 2(4,5,6) False vis by simp
  qed
qed

lemma visit_d_ok: "d_ok tr \<Longrightarrow> d_ok (fst (visit adj v its tr new))"
  by (induction adj v its tr new rule: visit.induct) (simp_all add: tree_add_def d_ok_d_set)

lemma search_d_ok: "d_ok tr \<Longrightarrow> d_ok (search adj q seen tr)"
proof (induction adj q seen tr rule: search.induct)
  case (2 adj v q seen tr)
  obtain tr' new where vis: "visit adj v (adj_row adj v) tr [] = (tr', new)" by fastforce
  then have "d_ok tr'" using visit_d_ok [OF 2(3), of adj v "adj_row adj v" "[]"] by simp
  then show ?case using 2(1,3) 2(2) [OF _ vis [symmetric]] vis by simp
qed simp

lemma single_links_cell: "single_links links adj \<Longrightarrow> (cell_at adj a b \<noteq> None) = ((a, b) \<in> joined links)"
  unfolding single_links_def by blast

lemma single_links_edges: "single_links links adj \<Longrightarrow> adj_edges adj = joined links"
  unfolding adj_edges_def by (simp only: single_links_cell) simp

text \<open>
  The tree has a path between two switches exactly if links seen in both directions lead from one to the other, has no
  cycle (each of its edges is a bridge), and an edge stands for one link: its two ports are the two ends.
\<close>

definition spans :: "link list \<Rightarrow> tree \<Rightarrow> bool" where
  "spans links tr \<longleftrightarrow>
     (tree_edges tr)\<^sup>* = (joined links)\<^sup>* \<and> forest (tree_edges tr) \<and> tree_edges tr \<subseteq> joined links \<and>
     (\<forall>a b p. (b, p) \<in> tree_at tr a \<longrightarrow>
       (\<exists>l \<in> both_ways links. between a b l \<and> p = CPort (port1 l) \<and> tree_at tr b \<inter> {a} \<times> UNIV = {(a, CPort (port2 l))}))"

lemma calc_spans:
  assumes "no_self_links links" "set sws = switches_of links"
  shows "\<exists>tr. calc_spanning_tree sws links = Inr tr \<and> spans links tr \<and> d_ok tr \<and> fst ` set tr = Field (tree_edges tr)"
proof -
  obtain adj where adj: "cull links (List.product sws sws) (adj_of links) = Inr adj" "single_links links adj"
    using culled_single [OF assms(1), of sws] assms(2) by auto
  have edges: "adj_edges adj = joined links" using single_links_edges [OF adj(2)] .
  have self: "cell_at adj s s = None" for s
  proof -
    have "(s, s) \<notin> joined links"
      using assms(1) by (auto simp: joined_iff no_self_links_def list_all_iff both_ways_def between_def)
    then show ?thesis using single_links_cell [OF adj(2), of s s] by blast
  qed
  have "joined links \<subseteq> set sws \<times> set sws"
    using assms(2) by (auto simp: joined_def both_ways_def switches_of_def)
  then have "search_inv adj (sort sws) [] []"
    by (auto simp: search_inv_def tree_ok_def tree_edges_def tree_at_def forest.no_edges edges Field_def front_ok_def intro!: exI [of _ "[]"])
  then have tr: "tree_ok adj (search adj (sort sws) [] [])" "joined links \<subseteq> (tree_edges (search adj (sort sws) [] []))\<^sup>*"
    using search_ok [of adj "sort sws" "[]" "[]"] adj(2) self sym_joined edges by (auto simp: single_links_def)
  define tr where "tr = search adj (sort sws) [] []"
  have "calc_spanning_tree sws links = Inr tr"
    by (simp add: calc_spanning_tree_def adj(1) tr_def)
  moreover have sub: "tree_edges tr \<subseteq> joined links"
    using tr(1) by (auto simp: tr_def tree_ok_def tree_edges_def adj_edges_def simp flip: edges)
  moreover have "(tree_edges tr)\<^sup>* = (joined links)\<^sup>*"
    by (rule rtrancl_subset [OF sub, symmetric]) (use tr(2) in \<open>simp add: tr_def\<close>)
  moreover have "\<exists>l \<in> both_ways links. between a b l \<and> p = CPort (port1 l) \<and> tree_at tr b \<inter> {a} \<times> UNIV = {(a, CPort (port2 l))}"
    if e: "(b, p) \<in> tree_at tr a" for a b p
  proof -
    have lab: "(w, c) \<in> tree_at tr v \<Longrightarrow> cell_at adj v w = Some c" for v w c
      using tr(1) by (simp add: tr_def tree_ok_def)
    obtain l where l: "l \<in> both_ways links" "between a b l" "p = CPort (port1 l)" "cell_at adj b a = Some (CPort (port2 l))"
      using adj(2) lab [OF e] unfolding single_links_def by blast
    have "(b, a) \<in> tree_edges tr"
      using tr(1) e by (auto simp: tr_def tree_ok_def dest!: forest_sym symD [of _ a b]) (auto simp: tree_edges_def)
    then have "tree_at tr b \<inter> {a} \<times> UNIV = {(a, CPort (port2 l))}"
      using lab l(4) by (fastforce simp: tree_edges_def)
    then show ?thesis using l by blast
  qed
  moreover have "forest (tree_edges tr)" "fst ` set tr = Field (tree_edges tr)" using tr(1) by (simp_all add: tr_def tree_ok_def)
  moreover have "d_ok tr" unfolding tr_def by (rule search_d_ok) (simp add: d_ok_def)
  ultimately show ?thesis by (auto simp: spans_def)
qed

section \<open>A cable between two ports of one switch\<close>

lemma cull_pair_self:
  "cell_at adj s s = Some (CLinks ls) \<Longrightarrow> p \<noteq> (s, s) \<Longrightarrow> cull_pair links p adj = Inr adj' \<Longrightarrow> cell_at adj' s s = Some (CLinks ls)"
  by (auto simp: cull_pair_def Let_def split: prod.splits option.splits cell.splits if_splits)

lemma cull_pair_error: "cull_pair links p adj = Inl e \<Longrightarrow> e = AssertionError"
  by (auto simp: cull_pair_def Let_def split: prod.splits option.splits cell.splits if_splits)

lemma cull_self:
  assumes "cell_at adj s s = Some (CLinks ls)" "(s, s) \<in> set ps"
  shows "cull links ps adj = Inl AssertionError"
  using assms
proof (induction ps arbitrary: adj)
  case (Cons p ps)
  show ?case
  proof (cases "cull_pair links p adj")
    case (Inl e)
    then show ?thesis using cull_pair_error by simp
  next
    case (Inr adj')
    then have "p \<noteq> (s, s)" using Cons.prems(1) by (auto simp: cull_pair_def)
    then show ?thesis using Cons Inr cull_pair_self [OF Cons.prems(1) _ Inr] by auto
  qed
qed simp

lemma self_link_raises:
  assumes "l \<in> set links" "dpid1 l = dpid2 l" "set sws = switches_of links"
  shows "calc_spanning_tree sws links = Inl AssertionError"
proof -
  have "cell_at (adj_of links) (dpid1 l) (dpid1 l) = Some (CLinks (filter (between (dpid1 l) (dpid1 l)) links))"
    using adj_of_links [of links "dpid1 l" "dpid1 l"] assms(1,2) by (auto simp: filter_empty_conv between_def)
  moreover have "(dpid1 l, dpid1 l) \<in> set (List.product sws sws)"
    using assms by (auto simp: switches_of_def)
  ultimately show ?thesis
    by (simp add: calc_spanning_tree_def cull_self)
qed

end
