(* ===== verification/Spanning_Tree_App.thy ===== *)
theory Spanning_Tree_App
  imports Spanning_Tree Switch
begin

text \<open>
  The component of \<open>pox/pox/openflow/spanning_tree.py\<close>: it listens to \<open>LinkEvent\<close> of discovery and \<open>ConnectionUp\<close>, and
  sets the \<open>NO_FLOOD\<close> bit of the ports that are neither on the tree nor edge ports.  Its state extends the one of
  discovery: \<open>_prev\<close>, the connections of the nexus, \<open>_dirty_switches\<close> and the timers it has started.  The iteration order
  of the set of switches is the argument \<open>order\<close>.
\<close>

section \<open>State and operations\<close>

record con_view =
  cv_ports :: "phy_port list"
  cv_connect_time :: "nat option"

record stp = disc +
  sp_prev :: "int \<Rightarrow> int \<Rightarrow> bool option"
  sp_cons :: "(int, con_view) dict"
  sp_dirty :: "int list"
  sp_hold_timers :: "int list"

record stp_conf =
  sc_no_flood :: bool
  sc_hold_down :: bool
  sc_disc :: disc_conf
  sc_order :: "link list \<Rightarrow> int list"

type_synonym 'b st = "(stp, 'b) sm"

definition links_now :: "'a disc_scheme \<Rightarrow> link list" where "links_now s = map fst (di_adjacency s)"

text \<open>\<open>_invalidate_ports\<close> starts a timer for \<open>_check_ports\<close> unless one is running.\<close>

definition invalidate_ports :: "int \<Rightarrow> unit st" where
  "invalidate_ports dpid = smod (\<lambda>s. if dpid \<in> set (sp_dirty s) then s else s\<lparr>sp_dirty := sp_dirty s @ [dpid]\<rparr>)"

definition check_ports :: "int \<Rightarrow> unit st" where
  "check_ports dpid = sthen (smod (\<lambda>s. s\<lparr>sp_dirty := filter (\<lambda>d. d \<noteq> dpid) (sp_dirty s)\<rparr>))
     (sbind (sget sp_cons) (\<lambda>cons. case map_of cons dpid of
        None \<Rightarrow> sret ()
      | Some _ \<Rightarrow> sthen (disc_send dpid MBarrierRequest) (disc_send dpid MFeaturesRequest)))"

definition flood_mod :: "phy_port \<Rightarrow> bool \<Rightarrow> of_body" where
  "flood_mod p flood = MPortMod \<lparr>pm_port_no = pp_port_no p, pm_hw_addr = pp_hw_addr p,
     pm_config = (if flood then 0 else OFPPC_NO_FLOOD), pm_mask = OFPPC_NO_FLOOD, pm_advertise = 0\<rparr>"

definition set_prev :: "int \<Rightarrow> int \<Rightarrow> bool \<Rightarrow> stp \<Rightarrow> stp" where
  "set_prev sw n b s = s\<lparr>sp_prev := (sp_prev s)(sw := (sp_prev s sw)(n := Some b))\<rparr>"

text \<open>What a port should do, and one port of the loop of \<open>_update_tree\<close>.\<close>

definition wants_flood :: "(link, nat) dict \<Rightarrow> (int \<times> cell) set \<Rightarrow> int \<Rightarrow> int \<Rightarrow> bool" where
  "wants_flood adj ports sw n \<longleftrightarrow> CPort n \<in> snd ` ports \<or> is_edge_port adj sw n"

definition update_port :: "int \<Rightarrow> (int \<times> cell) set \<Rightarrow> phy_port \<Rightarrow> unit st" where
  "update_port sw ports p =
     (if pp_port_no p < OFPP_MAX then
        sbind (sget (\<lambda>s. (wants_flood (di_adjacency s) ports sw (uint (pp_port_no p)), sp_prev s sw (uint (pp_port_no p))))) (\<lambda>(flood, old).
          if old = Some flood then sret ()
          else sthen (smod (set_prev sw (uint (pp_port_no p)) flood))
            (sthen (disc_send sw (flood_mod p flood)) (invalidate_ports sw)))
      else sret ())"

definition update_switch :: "stp_conf \<Rightarrow> nat \<Rightarrow> int option \<Rightarrow> int \<times> (int \<times> cell) set \<Rightarrow> unit st" where
  "update_switch cf now force_dpid e =
     (case e of (sw, ports) \<Rightarrow> sbind (sget (\<lambda>s. map_of (sp_cons s) sw)) (\<lambda>con.
        case con of None \<Rightarrow> sret ()
        | Some c \<Rightarrow>
            (case cv_connect_time c of
               None \<Rightarrow> sret ()
             | Some t \<Rightarrow>
                 if sc_hold_down cf \<and> too_young (sc_disc cf) now t \<and> force_dpid \<noteq> Some sw then sret ()
                 else sfor (cv_ports c) (update_port sw ports))))"

text \<open>Nothing between \<open>try\<close> and \<open>except\<close> raises in the model: \<open>con.send\<close> does not.\<close>

definition update_tree :: "stp_conf \<Rightarrow> nat \<Rightarrow> int option \<Rightarrow> unit st" where
  "update_tree cf now force_dpid =
     sbind (sget links_now) (\<lambda>links.
     sbind (slift (calc_spanning_tree (sc_order cf links) links)) (\<lambda>tree.
       sfor tree (update_switch cf now force_dpid)))"

definition st_link_event :: "stp_conf \<Rightarrow> nat \<Rightarrow> bool \<Rightarrow> link \<Rightarrow> unit st" where
  "st_link_event cf now added l =
     sbind (sget sp_prev) (\<lambda>prev.
       if prev (dpid1 l) (port1 l) = Some False \<and> prev (dpid2 l) (port2 l) = Some False
       then sret () else update_tree cf now None)"

definition st_connection_up :: "stp_conf \<Rightarrow> 64 word \<Rightarrow> phy_port list \<Rightarrow> unit st" where
  "st_connection_up cf dpid ports = (let d = uint dpid in
     sthen (smod (\<lambda>s. s\<lparr>sp_prev := (sp_prev s)(d := (\<lambda>_. None))\<rparr>))
      (sthen
        (if sc_no_flood cf then
           sthen (sfor ports (\<lambda>p.
             if OFPP_MAX \<le> pp_port_no p then sret ()
             else sthen (smod (set_prev d (uint (pp_port_no p)) False)) (disc_send d (flood_mod p False))))
             (invalidate_ports d)
         else sret ())
        (if sc_hold_down cf then smod (\<lambda>s. s\<lparr>sp_hold_timers := sp_hold_timers s @ [d]\<rparr>) else sret ())))"

text \<open>\<open>raiseEventNoErrors\<close> runs the handler and drops what it raises.\<close>

definition on_link :: "stp_conf \<Rightarrow> nat \<Rightarrow> bool \<Rightarrow> link \<Rightarrow> stp \<Rightarrow> stp" where
  "on_link cf now added l s = snd (st_link_event cf now added l s)"

section \<open>What an update does\<close>

lemma keeps_adjacency [keep]:
  "keeps (\<lambda>s. P (di_adjacency s)) (disc_send d m :: unit st)"
  "keeps (\<lambda>s. P (di_adjacency s)) (invalidate_ports d)"
  "keeps (\<lambda>s. P (di_adjacency s)) (smod (set_prev sw n b))"
  by (auto simp: keeps_def disc_send_def invalidate_ports_def set_prev_def sm_run)

lemma keeps_adjacency_update: "keeps (\<lambda>s. P (di_adjacency s)) (update_tree cf now force)"
  unfolding update_tree_def update_switch_def update_port_def
  by (auto intro!: keep)

lemma on_link_adjacency: "di_adjacency (on_link cf now added l s) = di_adjacency s"
proof -
  have "keeps (\<lambda>t. di_adjacency t = di_adjacency s) (st_link_event cf now added l)"
    unfolding st_link_event_def by (auto intro!: keep keeps_adjacency_update)
  then show ?thesis by (simp add: on_link_def keeps_def)
qed

interpretation st: link_listener "on_link cf"
  by unfold_locales (rule on_link_adjacency)

text \<open>The ports that an update looks at, and the value it gives them.\<close>

definition port_of :: "phy_port list \<Rightarrow> int \<Rightarrow> bool" where
  "port_of ps n \<longleftrightarrow> (\<exists>p \<in> set ps. pp_port_no p < OFPP_MAX \<and> n = uint (pp_port_no p))"

definition same_view :: "stp \<Rightarrow> stp \<Rightarrow> bool" where
  "same_view s s' \<longleftrightarrow> di_adjacency s' = di_adjacency s \<and> sp_cons s' = sp_cons s"

lemma update_port_run:
  "\<exists>s'. update_port sw ports p s = (Inr (), s') \<and> same_view s s' \<and>
     sp_prev s' = (if pp_port_no p < OFPP_MAX
       then (sp_prev s)(sw := (sp_prev s sw)(uint (pp_port_no p) := Some (wants_flood (di_adjacency s) ports sw (uint (pp_port_no p)))))
       else sp_prev s)"
  by (auto simp: update_port_def sm_run disc_send_def invalidate_ports_def set_prev_def same_view_def fun_upd_idem)

lemma update_ports_run:
  "\<exists>s'. sfor ps (update_port sw ports) s = (Inr (), s') \<and> same_view s s' \<and>
     (\<forall>a n. sp_prev s' a n = (if a = sw \<and> port_of ps n then Some (wants_flood (di_adjacency s) ports sw n) else sp_prev s a n))"
proof (induction ps arbitrary: s)
  case (Cons p ps)
  obtain s1 where s1: "update_port sw ports p s = (Inr (), s1)" "same_view s s1"
     "sp_prev s1 = (if pp_port_no p < OFPP_MAX
       then (sp_prev s)(sw := (sp_prev s sw)(uint (pp_port_no p) := Some (wants_flood (di_adjacency s) ports sw (uint (pp_port_no p)))))
       else sp_prev s)"
    using update_port_run by blast
  obtain s2 where "sfor ps (update_port sw ports) s1 = (Inr (), s2)" "same_view s1 s2"
     "\<forall>a n. sp_prev s2 a n = (if a = sw \<and> port_of ps n then Some (wants_flood (di_adjacency s1) ports sw n) else sp_prev s1 a n)"
    using Cons.IH by blast
  with s1 show ?case
    by (auto simp: sm_run same_view_def port_of_def)
qed (simp add: sm_run same_view_def port_of_def)

text \<open>The switches that an update reaches: connected, up, and not held down.\<close>

definition reached :: "stp_conf \<Rightarrow> nat \<Rightarrow> int option \<Rightarrow> stp \<Rightarrow> int \<Rightarrow> int \<Rightarrow> bool" where
  "reached cf now force s a n \<longleftrightarrow>
     (case map_of (sp_cons s) a of None \<Rightarrow> False
      | Some c \<Rightarrow> port_of (cv_ports c) n \<and>
         (case cv_connect_time c of None \<Rightarrow> False
          | Some t \<Rightarrow> \<not> (sc_hold_down cf \<and> too_young (sc_disc cf) now t \<and> force \<noteq> Some a)))"

lemma reached_same: "same_view s s' \<Longrightarrow> reached cf now force s' = reached cf now force s"
  by (intro ext) (simp add: reached_def same_view_def)

lemma update_switch_run:
  "\<exists>s'. update_switch cf now force (sw, ports) s = (Inr (), s') \<and> same_view s s' \<and>
     (\<forall>a n. sp_prev s' a n =
       (if a = sw \<and> reached cf now force s sw n then Some (wants_flood (di_adjacency s) ports sw n) else sp_prev s a n))"
proof (cases "map_of (sp_cons s) sw")
  case (Some c)
  obtain s' where "sfor (cv_ports c) (update_port sw ports) s = (Inr (), s')" "same_view s s'"
     "\<forall>a n. sp_prev s' a n = (if a = sw \<and> port_of (cv_ports c) n then Some (wants_flood (di_adjacency s) ports sw n) else sp_prev s a n)"
    using update_ports_run by blast
  then show ?thesis
    using Some by (cases "cv_connect_time c") (auto simp: update_switch_def sm_run reached_def same_view_def)
qed (simp add: update_switch_def sm_run reached_def same_view_def)

lemma update_switches_run:
  assumes "d_ok tr"
  shows "\<exists>s'. sfor tr (update_switch cf now force) s = (Inr (), s') \<and> same_view s s' \<and>
     (\<forall>a n. sp_prev s' a n =
       (if a \<in> fst ` set tr \<and> reached cf now force s a n then Some (wants_flood (di_adjacency s) (tree_at tr a) a n) else sp_prev s a n))"
  using assms
proof (induction tr arbitrary: s)
  case (Cons e tr)
  obtain sw ports where e: "e = (sw, ports)" by (cases e)
  obtain s1 where s1: "update_switch cf now force (sw, ports) s = (Inr (), s1)" "same_view s s1"
     "\<forall>a n. sp_prev s1 a n =
       (if a = sw \<and> reached cf now force s sw n then Some (wants_flood (di_adjacency s) ports sw n) else sp_prev s a n)"
    using update_switch_run by blast
  have d: "d_ok tr" "sw \<notin> fst ` set tr" using Cons.prems e by (simp_all add: d_ok_def)
  obtain s2 where s2: "sfor tr (update_switch cf now force) s1 = (Inr (), s2)" "same_view s1 s2"
     "\<forall>a n. sp_prev s2 a n = (if a \<in> fst ` set tr \<and> reached cf now force s1 a n
        then Some (wants_flood (di_adjacency s1) (tree_at tr a) a n) else sp_prev s1 a n)"
    using Cons.IH [OF d(1)] by blast
  have "tree_at (e # tr) a = (if a = sw then ports else tree_at tr a)" for a
    by (simp add: e tree_at_def)
  moreover have "di_adjacency s1 = di_adjacency s" "reached cf now force s1 = reached cf now force s" "same_view s s2"
    using s1(2) s2(2) by (simp_all add: reached_same) (simp_all add: same_view_def)
  ultimately have "\<forall>a n. sp_prev s2 a n = (if a \<in> fst ` set (e # tr) \<and> reached cf now force s a n
        then Some (wants_flood (di_adjacency s) (tree_at (e # tr) a) a n) else sp_prev s a n)"
    using s1(3) s2(3) d(2) by (simp add: e)
  moreover have "sfor (e # tr) (update_switch cf now force) s = (Inr (), s2)"
    using s1(1) s2(1) by (simp add: sm_run e)
  ultimately show ?case using \<open>same_view s s2\<close> by blast
qed (simp add: sm_run same_view_def)

section \<open>Flooding goes over a tree\<close>

text \<open>The links over which both ends flood, and the switches that a link joins.\<close>

definition flood_links :: "stp \<Rightarrow> link set" where
  "flood_links s = {l \<in> both_ways (links_now s). sp_prev s (dpid1 l) (port1 l) = Some True \<and> sp_prev s (dpid2 l) (port2 l) = Some True}"

definition ends :: "link \<Rightarrow> int \<times> int" where "ends l = (dpid1 l, dpid2 l)"

text \<open>A port has one cable.\<close>

definition point_to_point :: "link list \<Rightarrow> bool" where
  "point_to_point links \<longleftrightarrow> (\<forall>l \<in> set links. \<forall>l' \<in> set links. dpid1 l = dpid1 l' \<and> port1 l = port1 l' \<longrightarrow> l = l')"

lemma link_not_edge: "l \<in> set (map fst adj) \<Longrightarrow> \<not> is_edge_port adj (dpid1 l) (port1 l)"
  by (auto simp: is_edge_port_def list_all_iff)

lemma update_tree_run:
  assumes "set (sc_order cf (links_now s)) = switches_of (links_now s)" "no_self_links (links_now s)"
  shows "\<exists>tr s'. update_tree cf now force s = (Inr (), s') \<and> spans (links_now s) tr \<and> same_view s s' \<and>
    (\<forall>a n. sp_prev s' a n = (if a \<in> Field (tree_edges tr) \<and> reached cf now force s a n
       then Some (wants_flood (di_adjacency s) (tree_at tr a) a n) else sp_prev s a n))"
proof -
  obtain tr where tr: "calc_spanning_tree (sc_order cf (links_now s)) (links_now s) = Inr tr" "spans (links_now s) tr" "d_ok tr"
     "fst ` set tr = Field (tree_edges tr)"
    using calc_spans [OF assms(2,1)] by blast
  then show ?thesis
    using update_switches_run [OF tr(3), of cf now force s] by (auto simp: update_tree_def sm_run)
qed

lemma joined_in_tree: "spans links tr \<Longrightarrow> no_self_links links \<Longrightarrow> l \<in> both_ways links \<Longrightarrow> dpid1 l \<in> Field (tree_edges tr)"
proof -
  assume a: "spans links tr" "no_self_links links" "l \<in> both_ways links"
  then have "(dpid1 l, dpid2 l) \<in> (tree_edges tr)\<^sup>*" "dpid1 l \<noteq> dpid2 l"
    by (auto simp: spans_def joined_def no_self_links_def list_all_iff both_ways_def)
  then show ?thesis by (metis FieldI1 converse_rtranclE)
qed

lemma link_port_floods:
  assumes "spans links tr" "point_to_point links" "l \<in> both_ways links" "set (map fst adj) = set links"
  shows "wants_flood adj (tree_at tr (dpid1 l)) (dpid1 l) (port1 l) \<longleftrightarrow> (dpid2 l, CPort (port1 l)) \<in> tree_at tr (dpid1 l)"
proof -
  have l: "l \<in> set links" using assms(3) by (simp add: both_ways_def)
  have "w = dpid2 l" if w: "(w, CPort (port1 l)) \<in> tree_at tr (dpid1 l)" for w
  proof -
    obtain r where "r \<in> both_ways links" "between (dpid1 l) w r" "port1 r = port1 l"
      using assms(1) w unfolding spans_def by (metis cell.inject(2))
    then show ?thesis
      using assms(2) l by (metis between_def both_ways_def mem_Collect_eq point_to_point_def)
  qed
  then have "CPort (port1 l) \<in> snd ` tree_at tr (dpid1 l) \<longleftrightarrow> (dpid2 l, CPort (port1 l)) \<in> tree_at tr (dpid1 l)"
    by force
  then show ?thesis
    using link_not_edge [of l adj] assms(4) l by (simp add: wants_flood_def)
qed

lemma tree_port_link:
  assumes "spans links tr" "(b, p) \<in> tree_at tr a"
  obtains r where "r \<in> both_ways links" "between a b r" "p = CPort (port1 r)" "(a, CPort (port2 r)) \<in> tree_at tr b"
    "\<And>c. (a, c) \<in> tree_at tr b \<Longrightarrow> c = CPort (port2 r)"
proof -
  obtain r where r: "r \<in> both_ways links" "between a b r" "p = CPort (port1 r)" "tree_at tr b \<inter> {a} \<times> UNIV = {(a, CPort (port2 r))}"
    using assms unfolding spans_def by blast
  then have "(a, c) \<in> tree_at tr b \<longleftrightarrow> c = CPort (port2 r)" for c by blast
  then show thesis using that r by blast
qed

lemma both_tree_ports_imp:
  assumes "spans links tr" "point_to_point links" "l \<in> both_ways links" "(dpid2 l, CPort (port1 l)) \<in> tree_at tr (dpid1 l)"
  shows "(dpid1 l, CPort (port2 l)) \<in> tree_at tr (dpid2 l)"
proof -
  obtain r where r: "r \<in> both_ways links" "between (dpid1 l) (dpid2 l) r" "port1 r = port1 l"
      "(dpid1 l, CPort (port2 r)) \<in> tree_at tr (dpid2 l)"
    using tree_port_link [OF assms(1,4)] by (metis cell.inject(2))
  have "r = l"
    using assms(2,3) r(1-3) by (auto simp: point_to_point_def both_ways_def between_def)
  then show ?thesis using r by simp
qed

lemma both_tree_ports:
  assumes "spans links tr" "point_to_point links" "l \<in> both_ways links"
  shows "(dpid2 l, CPort (port1 l)) \<in> tree_at tr (dpid1 l) \<longleftrightarrow> (dpid1 l, CPort (port2 l)) \<in> tree_at tr (dpid2 l)"
  using both_tree_ports_imp [OF assms] both_tree_ports_imp [OF assms(1,2) both_ways_flipped [OF assms(3)]] by auto

lemma tree_port_unique:
  assumes "spans links tr" "(w, c) \<in> tree_at tr v" "(w, c') \<in> tree_at tr v"
  shows "c = c'"
proof -
  obtain r where "(v, CPort (port2 r)) \<in> tree_at tr w" using tree_port_link [OF assms(1,2)] by metis
  then show ?thesis using tree_port_link [OF assms(1)] assms(2,3) by metis
qed

text \<open>After an update that reaches every port of a link, the links that flood are the edges of a spanning tree.\<close>

lemma update_tree_floods:
  assumes "set (sc_order cf (links_now s)) = switches_of (links_now s)" "no_self_links (links_now s)" "point_to_point (links_now s)"
    and "\<forall>l \<in> both_ways (links_now s). reached cf now force s (dpid1 l) (port1 l)"
  shows "\<exists>s'. update_tree cf now force s = (Inr (), s') \<and> links_now s' = links_now s \<and>
    inj_on ends (flood_links s') \<and> forest (ends ` flood_links s') \<and> (ends ` flood_links s')\<^sup>* = (joined (links_now s))\<^sup>* \<and>
    (\<forall>l \<in> both_ways (links_now s) - flood_links s'. sp_prev s' (dpid1 l) (port1 l) = Some False)"
proof -
  let ?L = "links_now s"
  obtain tr s' where u: "update_tree cf now force s = (Inr (), s')" "spans ?L tr" "same_view s s'"
    and prev: "\<And>a n. sp_prev s' a n = (if a \<in> Field (tree_edges tr) \<and> reached cf now force s a n
       then Some (wants_flood (di_adjacency s) (tree_at tr a) a n) else sp_prev s a n)"
    using update_tree_run [OF assms(1,2)] by blast
  have L: "links_now s' = ?L" using u(3) by (simp add: same_view_def links_now_def)
  have p1: "sp_prev s' (dpid1 l) (port1 l) = Some ((dpid2 l, CPort (port1 l)) \<in> tree_at tr (dpid1 l))" if "l \<in> both_ways ?L" for l
    using joined_in_tree [OF u(2) assms(2) that] assms(4) that link_port_floods [OF u(2) assms(3) that, of "di_adjacency s"]
    by (simp add: prev links_now_def)
  have p2: "sp_prev s' (dpid2 l) (port2 l) = Some ((dpid1 l, CPort (port2 l)) \<in> tree_at tr (dpid2 l))" if "l \<in> both_ways ?L" for l
    using p1 [OF both_ways_flipped [OF that]] by simp
  have fl: "flood_links s' = {l \<in> both_ways ?L. (dpid2 l, CPort (port1 l)) \<in> tree_at tr (dpid1 l)}"
    using p1 p2 both_tree_ports [OF u(2) assms(3)] by (auto simp: flood_links_def L)
  have "ends ` flood_links s' = tree_edges tr"
  proof (rule set_eqI, clarify)
    fix a b
    show "(a, b) \<in> ends ` flood_links s' \<longleftrightarrow> (a, b) \<in> tree_edges tr"
    proof
      assume "(a, b) \<in> tree_edges tr"
      then obtain p where p: "(b, p) \<in> tree_at tr a" by (auto simp: tree_edges_def)
      then obtain r where "r \<in> both_ways ?L" "between a b r" "(b, CPort (port1 r)) \<in> tree_at tr a"
        by (rule tree_port_link [OF u(2)]) (use p in simp)
      then show "(a, b) \<in> ends ` flood_links s'"
        by (intro image_eqI [of _ _ r]) (auto simp: fl ends_def between_def)
    qed (auto simp: fl ends_def tree_edges_def)
  qed
  moreover have "inj_on ends (flood_links s')"
  proof (rule inj_onI)
    fix l r assume lr: "l \<in> flood_links s'" "r \<in> flood_links s'" "ends l = ends r"
    then have e: "dpid1 l = dpid1 r" "dpid2 l = dpid2 r" by (simp_all add: ends_def)
    have t: "(dpid2 l, CPort (port1 l)) \<in> tree_at tr (dpid1 l)" "(dpid2 l, CPort (port1 r)) \<in> tree_at tr (dpid1 l)"
      using lr(1,2) e by (simp_all add: fl)
    have "port1 l = port1 r" using tree_port_unique [OF u(2) t] by simp
    moreover have "l \<in> set ?L" "r \<in> set ?L" using lr(1,2) by (simp_all add: fl both_ways_def)
    ultimately show "l = r" using assms(3) e(1) unfolding point_to_point_def by blast
  qed
  ultimately show ?thesis
    using u(1,2) p1 L by (auto simp: spans_def fl)
qed

section \<open>What the switches are told\<close>

text \<open>
  What a message says about flooding over port \<open>n\<close> of switch \<open>sw\<close>: a switch takes a port modification when it names one of
  its ports with the address of that port, and sets the bits of the mask to those of \<open>config\<close>.  The addresses that the
  ports really have are the argument \<open>hw\<close>.
\<close>

definition tells :: "(int \<Rightarrow> int \<Rightarrow> eth_addr) \<Rightarrow> int \<Rightarrow> int \<Rightarrow> int \<times> of_body \<Rightarrow> bool option" where
  "tells hw sw n m =
     (case m of
        (d, MPortMod pm) \<Rightarrow>
          if d = sw \<and> uint (pm_port_no pm) = n \<and> pm_hw_addr pm = hw sw n \<and> bits_set (pm_mask pm) OFPPC_NO_FLOOD
          then Some (\<not> bits_set (pm_config pm) OFPPC_NO_FLOOD) else None
      | _ \<Rightarrow> None)"

definition told :: "(int \<Rightarrow> int \<Rightarrow> eth_addr) \<Rightarrow> stp \<Rightarrow> int \<Rightarrow> int \<Rightarrow> bool option" where
  "told hw s sw n = fold (\<lambda>m t. case tells hw sw n m of None \<Rightarrow> t | Some b \<Rightarrow> Some b) (di_sent s) None"

definition told_links :: "(int \<Rightarrow> int \<Rightarrow> eth_addr) \<Rightarrow> stp \<Rightarrow> link set" where
  "told_links hw s = {l \<in> both_ways (links_now s). told hw s (dpid1 l) (port1 l) = Some True \<and> told hw s (dpid2 l) (port2 l) = Some True}"

text \<open>The nexus knows the addresses of the ports.\<close>

definition known_hw :: "(int \<Rightarrow> int \<Rightarrow> eth_addr) \<Rightarrow> int \<Rightarrow> phy_port list \<Rightarrow> bool" where
  "known_hw hw sw ps \<longleftrightarrow> (\<forall>p\<in>set ps. pp_hw_addr p = hw sw (uint (pp_port_no p)))"

definition synced :: "(int \<Rightarrow> int \<Rightarrow> eth_addr) \<Rightarrow> stp \<Rightarrow> bool" where
  "synced hw s \<longleftrightarrow> (\<forall>sw n b. sp_prev s sw n = Some b \<longrightarrow> told hw s sw n = Some b) \<and>
     (\<forall>sw c. map_of (sp_cons s) sw = Some c \<longrightarrow> known_hw hw sw (cv_ports c))"

text \<open>
  What happens to the component: discovery changes its adjacency and tells of links, switches connect, what the nexus
  knows of them changes, its timers run, and other components send messages that are no port modifications.
\<close>

inductive st_step :: "(int \<Rightarrow> int \<Rightarrow> eth_addr) \<Rightarrow> stp_conf \<Rightarrow> stp \<Rightarrow> stp \<Rightarrow> bool" for hw cf where
  st_adjacency: "st_step hw cf s (s\<lparr>di_adjacency := adj\<rparr>)"
| st_link: "st_step hw cf s (on_link cf now added l s)"
| st_up: "known_hw hw (uint dpid) ports \<Longrightarrow> st_connection_up cf dpid ports s = (r, s') \<Longrightarrow> st_step hw cf s s'"
| st_cons: "(\<And>sw c. map_of cons sw = Some c \<Longrightarrow> known_hw hw sw (cv_ports c)) \<Longrightarrow> st_step hw cf s (s\<lparr>sp_cons := cons\<rparr>)"
| st_hold_timer: "update_tree cf now force s = (r, s') \<Longrightarrow> st_step hw cf s s'"
| st_check: "check_ports d s = (r, s') \<Longrightarrow> st_step hw cf s s'"
| st_other: "(\<And>pm. b \<noteq> MPortMod pm) \<Longrightarrow> disc_send d b s = (r, s') \<Longrightarrow> st_step hw cf s s'"

lemma told_send: "di_sent s' = di_sent s @ [m] \<Longrightarrow> told hw s' sw n = (case tells hw sw n m of None \<Rightarrow> told hw s sw n | Some b \<Rightarrow> Some b)"
  by (simp add: told_def split: option.split)

lemma tells_flood_mod:
  "pp_hw_addr p = hw d (uint (pp_port_no p)) \<Longrightarrow>
   tells hw sw n (d, flood_mod p b) = (if d = sw \<and> uint (pp_port_no p) = n then Some b else None)"
  by (auto simp: tells_def flood_mod_def bits_set_def OFPPC_NO_FLOOD_def)

lemma told_cong: "di_sent s' = di_sent s \<Longrightarrow> told hw s' = told hw s"
  by (intro ext) (simp add: told_def)

lemma synced_cong: "di_sent s' = di_sent s \<Longrightarrow> sp_prev s' = sp_prev s \<Longrightarrow> sp_cons s' = sp_cons s \<Longrightarrow> synced hw s' = synced hw s"
  by (simp add: synced_def told_cong [of s' s])

text \<open>A port is set in \<open>_prev\<close> and the switch is told.\<close>

lemma synced_flood_mod:
  assumes "pp_hw_addr p = hw d (uint (pp_port_no p))"
  shows "keeps (synced hw) (sthen (smod (set_prev d (uint (pp_port_no p)) b)) (disc_send d (flood_mod p b)))"
proof -
  have "synced hw s'" if "synced hw s" "s' = set_prev d (uint (pp_port_no p)) b s\<lparr>di_sent := di_sent s @ [(d, flood_mod p b)]\<rparr>" for s s'
  proof -
    have "told hw s' sw n = (if d = sw \<and> uint (pp_port_no p) = n then Some b else told hw s sw n)" for sw n
      using told_send [of s' s "(d, flood_mod p b)" hw sw n] by (simp add: that(2) set_prev_def tells_flood_mod [where hw = hw and d = d, OF assms])
    then show ?thesis using that by (auto simp: synced_def set_prev_def)
  qed
  then show ?thesis by (simp add: keeps_def sm_run disc_send_def set_prev_def)
qed

lemma synced_other: "(\<And>pm. b \<noteq> MPortMod pm) \<Longrightarrow> keeps (synced hw) (disc_send d b)"
proof -
  assume b: "\<And>pm. b \<noteq> MPortMod pm"
  have "told hw (s\<lparr>di_sent := di_sent s @ [(d, b)]\<rparr>) sw n = told hw s sw n" for s sw n
    using told_send [of "s\<lparr>di_sent := di_sent s @ [(d, b)]\<rparr>" s "(d, b)" hw sw n] b
    by (auto simp: tells_def split: of_body.splits)
  then show ?thesis by (simp add: keeps_def disc_send_def sm_run synced_def)
qed

lemma synced_invalidate: "keeps (synced hw) (invalidate_ports d)"
  unfolding invalidate_ports_def by (intro keeps_smod) (auto elim!: iffD1 [OF synced_cong, rotated -1])

lemma synced_update_port: "pp_hw_addr p = hw sw (uint (pp_port_no p)) \<Longrightarrow> keeps (synced hw) (update_port sw ports p)"
  unfolding update_port_def sthen_regroup by (intro keep synced_flood_mod synced_invalidate) (auto intro!: keep synced_flood_mod synced_invalidate)

lemma synced_update_switch: "keeps (synced hw) (update_switch cf now force e)"
proof -
  obtain sw ports where e: "e = (sw, ports)" by (cases e)
  have "synced hw (snd (update_switch cf now force e s))" if s: "synced hw s" for s
  proof (cases "map_of (sp_cons s) sw")
    case (Some c)
    then have hw: "pp_hw_addr p = hw sw (uint (pp_port_no p))" if "p \<in> set (cv_ports c)" for p
      using s that by (auto simp: synced_def known_hw_def)
    have "keeps (synced hw) (sfor ps (update_port sw ports))" if "set ps \<subseteq> set (cv_ports c)" for ps
      using that
    proof (induction ps)
      case (Cons p ps)
      then show ?case using hw [of p] synced_update_port [of p hw sw ports] by (auto intro!: keep)
    qed (auto intro: keep)
    then show ?thesis using s Some by (cases "cv_connect_time c") (auto simp: update_switch_def e sm_run keeps_def)
  qed (simp add: update_switch_def e sm_run s)
  then show ?thesis by (simp add: keeps_def)
qed

lemma synced_update_tree: "keeps (synced hw) (update_tree cf now force)"
  unfolding update_tree_def by (intro keep synced_update_switch)

lemma synced_on_link: "synced hw s \<Longrightarrow> synced hw (on_link cf now added l s)"
proof -
  have "keeps (synced hw) (st_link_event cf now added l)"
    unfolding st_link_event_def by (intro keep synced_update_tree)
  then show "synced hw s \<Longrightarrow> ?thesis" by (simp add: on_link_def keeps_def)
qed

lemma synced_adjacency: "synced hw (s\<lparr>di_adjacency := adj\<rparr>) = synced hw s"
  by (rule synced_cong) simp_all

lemma synced_connection_up:
  assumes "known_hw hw (uint dpid) ports"
  shows "keeps (synced hw) (st_connection_up cf dpid ports)"
proof -
  have loop: "keeps (synced hw) (sfor ps (\<lambda>p. if OFPP_MAX \<le> pp_port_no p then sret ()
          else sthen (smod (set_prev (uint dpid) (uint (pp_port_no p)) False)) (disc_send (uint dpid) (flood_mod p False))))"
    if "set ps \<subseteq> set ports" for ps
    using that
  proof (induction ps)
    case (Cons p ps)
    then have "pp_hw_addr p = hw (uint dpid) (uint (pp_port_no p))" using assms by (auto simp: known_hw_def)
    then show ?case using Cons by (auto intro!: keep synced_flood_mod)
  qed (auto intro: keep)
  have "keeps (synced hw) (smod (\<lambda>s. s\<lparr>sp_prev := (sp_prev s)(d := (\<lambda>_. None))\<rparr>))" for d
    by (intro keeps_smod) (auto simp: synced_def told_cong [of "s\<lparr>sp_prev := x\<rparr>" s for s x])
  moreover have "keeps (synced hw) (smod (\<lambda>s. s\<lparr>sp_hold_timers := sp_hold_timers s @ [d]\<rparr>))" for d
    by (intro keeps_smod) (auto elim!: iffD1 [OF synced_cong, rotated -1])
  ultimately show ?thesis
    unfolding st_connection_up_def Let_def by (intro keeps_sthen keeps_if keeps_basic synced_invalidate loop subset_refl)
qed

lemma synced_step: "st_step hw cf s s' \<Longrightarrow> synced hw s \<Longrightarrow> synced hw s'"
proof (induction rule: st_step.induct)
  case (st_check d s r s')
  have "keeps (synced hw) (check_ports d)"
    unfolding check_ports_def
    by (auto intro!: keep synced_other keeps_smod elim!: iffD1 [OF synced_cong, rotated -1])
  with st_check show ?case by (metis keepsD)
next
  case (st_up dpid ports s r s')
  then show ?case using keepsD [OF synced_connection_up [OF st_up.hyps(1)] _ st_up.hyps(2)] by blast
next
  case (st_cons cons s)
  then show ?case by (auto simp: synced_def told_cong [of "s\<lparr>sp_cons := cons\<rparr>" s])
next
  case (st_hold_timer now force s r s')
  then show ?case using keepsD [OF synced_update_tree] by blast
next
  case (st_other b d s r s')
  then show ?case using keepsD [OF synced_other [OF st_other.hyps(1)] _ st_other.hyps(2)] by blast
qed (simp_all add: synced_adjacency synced_on_link)

lemma synced_reachable: "(st_step hw cf)\<^sup>*\<^sup>* s s' \<Longrightarrow> synced hw s \<Longrightarrow> synced hw s'"
  by (induction rule: rtranclp_induct) (auto intro: synced_step)

lemma told_links_synced:
  assumes "synced hw s" "\<forall>l \<in> both_ways (links_now s) - flood_links s. sp_prev s (dpid1 l) (port1 l) = Some False"
  shows "told_links hw s = flood_links s" "\<forall>l \<in> both_ways (links_now s) - flood_links s. told hw s (dpid1 l) (port1 l) = Some False"
proof -
  have told: "sp_prev s a n = Some b \<Longrightarrow> told hw s a n = Some b" for a n b using assms(1) by (simp add: synced_def)
  show no: "\<forall>l \<in> both_ways (links_now s) - flood_links s. told hw s (dpid1 l) (port1 l) = Some False" using assms(2) told by blast
  have "l \<in> told_links hw s" if "l \<in> flood_links s" for l using that told by (auto simp: flood_links_def told_links_def)
  moreover have "l \<in> flood_links s" if "l \<in> told_links hw s" for l using that no by (force simp: told_links_def)
  ultimately show "told_links hw s = flood_links s" by blast
qed

text \<open>The software switch takes a port modification of this component as \<open>tells\<close> says.\<close>

lemma sfor_one:
  assumes "\<And>i. i \<in> set us \<union> set vs \<Longrightarrow> f i = sret ()" "f a s = (Inr (), s')"
  shows "sfor (us @ a # vs) f s = (Inr (), s')"
proof -
  have none: "sfor ys f t = (Inr (), t)" if "\<forall>i\<in>set ys. f i = sret ()" for ys t using that by (induction ys) (simp_all add: sm_run)
  have "sfor (ys @ a # vs) f s = sfor (a # vs) f s" if "\<forall>i\<in>set ys. f i = sret ()" for ys
    using that by (induction ys) (simp_all add: sm_run)
  then have "sfor (us @ a # vs) f s = sfor (a # vs) f s" using assms(1) by blast
  then show ?thesis using assms none [of vs s'] by (simp add: sm_run)
qed

lemma flood_mod_taken:
  assumes "flood_mod p b = MPortMod pm" "map_of (sw_ports s) (pp_port_no p) = Some q" "pp_hw_addr q = pp_hw_addr p"
  shows "\<exists>s' q'. rx_port_mod pm ofp s = (Inr (), s') \<and> map_of (sw_ports s') (pp_port_no p) = Some q' \<and>
    (bits_set (pp_config q') OFPPC_NO_FLOOD \<longleftrightarrow> \<not> b)"
proof -
  have pm: "pm = \<lparr>pm_port_no = pp_port_no p, pm_hw_addr = pp_hw_addr p, pm_config = (if b then 0 else OFPPC_NO_FLOOD),
      pm_mask = OFPPC_NO_FLOOD, pm_advertise = 0\<rparr>" using assms(1) by (simp add: flood_mod_def)
  let ?f = "\<lambda>i. let c = push_bit i 1 in if bits_set (pm_mask pm) c then set_port_config_bit (pm_port_no pm) c (pm_config pm AND c) else sret ()"
  let ?v = "if b then 0 else OFPPC_NO_FLOOD"
  let ?q = "snd (set_config ?v OFPPC_NO_FLOOD q)"
  have others: "?f i = sret ()" if "i \<in> set [0..<4] \<union> set [5..<32]" for i
  proof -
    have "i < 32" "i \<noteq> 4" using that by auto
    then have "OFPPC_NO_FLOOD AND push_bit i 1 = 0"
      unfolding OFPPC_NO_FLOOD_def by (auto simp: less_Suc_eq numeral_eq_Suc)
    then show ?thesis by (simp add: Let_def bits_set_def pm)
  qed
  have four: "push_bit 4 1 = OFPPC_NO_FLOOD" "bits_set OFPPC_NO_FLOOD OFPPC_NO_FLOOD" "OFPPC_NO_FLOOD \<noteq> OFPPC_NO_STP" "OFPPC_NO_FLOOD = 16"
      "?v AND OFPPC_NO_FLOOD = ?v" "OFPPC_NO_FLOOD \<noteq> OFPPC_PORT_DOWN"
    by (simp_all add: OFPPC_NO_FLOOD_def OFPPC_NO_STP_def OFPPC_PORT_DOWN_def bits_set_def)
  have run: "?f 4 s = (Inr (), sw_ports_update (d_set (pp_port_no p) ?q) s)"
    using assms(2) four by (simp add: Let_def pm set_port_config_bit_def change_port_def sm_run split: prod.split)
  have bit: "bits_set (pp_config ?q) OFPPC_NO_FLOOD \<longleftrightarrow> \<not> b"
    by (simp add: set_config_def bits_set_def Let_def word_bw_assocs OFPPC_NO_FLOOD_def word_ao_dist)
  have "[0..<32] = [0..<4] @ 4 # [5..<32]" by (simp add: upt_rec)
  then have "sfor [0..<32] ?f s = (Inr (), sw_ports_update (d_set (pp_port_no p) ?q) s)"
    using sfor_one [of "[0..<4]" "[5..<32]" ?f 4, OF others run] by simp
  moreover have "rx_port_mod pm ofp s = sfor [0..<32] ?f s" proof -
    have "pm_port_no pm = pp_port_no p" "pm_hw_addr pm = pp_hw_addr p" by (simp_all add: pm)
    then show ?thesis using assms(2,3) by (simp add: rx_port_mod_def sm_run)
  qed
  ultimately have "rx_port_mod pm ofp s = (Inr (), sw_ports_update (d_set (pp_port_no p) ?q) s)" by simp
  then show ?thesis using bit by (simp add: map_of_d_set)
qed

section \<open>Updates that change nothing\<close>

lemma sfor_same: "(\<And>x. x \<in> set xs \<Longrightarrow> f x s = (Inr (), s)) \<Longrightarrow> sfor xs f s = (Inr (), s)"
  by (induction xs) (simp_all add: sm_run)

lemma update_switch_same:
  assumes "\<And>n. reached cf now force s sw n \<Longrightarrow> sp_prev s sw n = Some (wants_flood (di_adjacency s) ports sw n)"
  shows "update_switch cf now force (sw, ports) s = (Inr (), s)"
proof (cases "map_of (sp_cons s) sw")
  case (Some c)
  have "update_port sw ports p s = (Inr (), s)" if "reached cf now force s sw (uint (pp_port_no p)) \<or> \<not> pp_port_no p < OFPP_MAX" for p
    using assms [of "uint (pp_port_no p)"] that by (auto simp: update_port_def sm_run)
  moreover have "reached cf now force s sw (uint (pp_port_no p)) \<or> \<not> pp_port_no p < OFPP_MAX"
    if "p \<in> set (cv_ports c)" "cv_connect_time c = Some t" "\<not> (sc_hold_down cf \<and> too_young (sc_disc cf) now t \<and> force \<noteq> Some sw)" for p t
    using Some that by (auto simp: reached_def port_of_def)
  ultimately show ?thesis
    using Some by (cases "cv_connect_time c") (auto simp: update_switch_def sm_run intro!: sfor_same)
qed (simp add: update_switch_def sm_run)

lemma tree_at_in: "d_ok tr \<Longrightarrow> (sw, ports) \<in> set tr \<Longrightarrow> tree_at tr sw = ports"
  by (simp add: tree_at_def d_ok_def)

lemma update_tree_twice:
  assumes "update_tree cf now force s = (Inr (), s')"
  shows "update_tree cf now force s' = (Inr (), s')"
proof -
  obtain tr where tr: "calc_spanning_tree (sc_order cf (links_now s)) (links_now s) = Inr tr"
    using assms by (auto simp: update_tree_def sbind_def sm_run split: sum.splits)
  have "d_ok tr"
    using tr search_d_ok [of "[]"] by (auto simp: calc_spanning_tree_def rbind_def d_ok_def split: sum.splits)
  obtain s1 where s1: "sfor tr (update_switch cf now force) s = (Inr (), s1)" "same_view s s1"
     "\<forall>a n. sp_prev s1 a n = (if a \<in> fst ` set tr \<and> reached cf now force s a n
        then Some (wants_flood (di_adjacency s) (tree_at tr a) a n) else sp_prev s a n)"
    using update_switches_run [OF \<open>d_ok tr\<close>] by blast
  have s1': "s1 = s'" using assms s1(1) by (simp add: update_tree_def sm_run tr)
  have v: "links_now s' = links_now s" "di_adjacency s' = di_adjacency s" "reached cf now force s' = reached cf now force s"
    using s1(2) reached_same [OF s1(2)] by (simp_all add: s1' same_view_def links_now_def)
  have "sfor tr (update_switch cf now force) s' = (Inr (), s')"
  proof (rule sfor_same)
    fix e assume e: "e \<in> set tr"
    obtain sw ports where "e = (sw, ports)" by (cases e)
    with e show "update_switch cf now force e s' = (Inr (), s')"
      using s1(3) tree_at_in [OF \<open>d_ok tr\<close>, of sw ports]
      by (auto simp: v s1' intro!: update_switch_same rev_image_eqI)
  qed
  then show ?thesis by (simp add: update_tree_def sm_run v tr)
qed

text \<open>Without the hold-down, the time and the forced switch do not matter.\<close>

lemma update_tree_timeless: "\<not> sc_hold_down cf \<Longrightarrow> update_tree cf now force = update_tree cf now' force'"
proof -
  assume "\<not> sc_hold_down cf"
  then have "update_switch cf now force = update_switch cf now' force'"
    by (intro ext) (auto simp: update_switch_def sm_run split: option.split)
  then show ?thesis by (simp add: update_tree_def)
qed

lemma on_link_synced:
  assumes "\<not> sc_hold_down cf" "update_tree cf t force s = (Inr (), s')"
  shows "on_link cf now added l s' = s'"
  using update_tree_twice [OF assms(2)] update_tree_timeless [OF assms(1), of now None t force]
  by (simp add: on_link_def st_link_event_def sm_run)

lemma disabled_link_ignored:
  "sp_prev s (dpid1 l) (port1 l) = Some False \<Longrightarrow> sp_prev s (dpid2 l) (port2 l) = Some False \<Longrightarrow> on_link cf now added l s = s"
  by (simp add: on_link_def st_link_event_def sm_run)

lemma delete_links_synced:
  assumes "\<not> sc_hold_down cf" "update_tree cf t force s = (Inr (), s')"
  shows "delete_links (on_link cf now) ls s' = (Inr (), s'\<lparr>di_adjacency := fold d_del ls (di_adjacency s')\<rparr>)"
proof -
  have "fold (on_link cf now False) ls s' = s'"
    using on_link_synced [OF assms] by (induction ls) simp_all
  then show ?thesis by (simp add: st.delete_links_run)
qed

section \<open>The component over discovery\<close>

lemma links_now_new: "l \<notin> set (links_now s) \<Longrightarrow> links_now (s\<lparr>di_adjacency := d_set l now (di_adjacency s)\<rparr>) = links_now s @ [l]"
proof -
  have "l \<notin> fst ` set d \<Longrightarrow> map fst (d_set l now d) = map fst d @ [l]" for d :: "(link, nat) dict"
    by (induction d) auto
  then show "l \<notin> set (links_now s) \<Longrightarrow> ?thesis" by (simp add: links_now_def)
qed

text \<open>
  C8. When discovery finds a link that it did not have, and the component reaches both ends of every link, then flooding
  between switches, as the port modifications that were sent have set it, goes over a spanning tree: two switches are
  joined by flooding links exactly if links seen in both directions join them, the flooding links have no cycle, no two of
  them join the same switches, and the switches have been told not to flood over the ports of all other links seen in both
  directions.  This is so in every state that the component reaches, provided that a port has one cable, no cable joins two
  ports of one switch, the two ends of the new link are not both disabled (then the component ignores it), the nexus
  knows the addresses of the ports, and no other component sends port modifications.
\<close>

theorem flooding_is_a_tree:
  assumes "(st_step hw cf)\<^sup>*\<^sup>* s0 s" "sp_prev s0 = (\<lambda>_ _. None)" "\<forall>(sw, c)\<in>set (sp_cons s0). known_hw hw sw (cv_ports c)"
    and "l \<notin> set (links_now s)" "L = links_now s @ [l]"
    and "sp_prev s (dpid1 l) (port1 l) \<noteq> Some False \<or> sp_prev s (dpid2 l) (port2 l) \<noteq> Some False"
    and "set (sc_order cf L) = switches_of L" "no_self_links L" "point_to_point L"
    and "\<forall>r \<in> both_ways L. reached cf now None s (dpid1 r) (port1 r)"
  shows "\<exists>s'. see_link (on_link cf now) now l s = (Inr (), s') \<and> links_now s' = L \<and>
    inj_on ends (told_links hw s') \<and> forest (ends ` told_links hw s') \<and> (ends ` told_links hw s')\<^sup>* = (joined L)\<^sup>* \<and>
    (\<forall>r \<in> both_ways L - told_links hw s'. told hw s' (dpid1 r) (port1 r) = Some False)"
proof -
  have "synced hw s0" using assms(2,3) by (auto simp: synced_def dest: map_of_SomeD)
  then have sync: "synced hw s" by (rule synced_reachable [OF assms(1)])
  define s1 where "s1 = s\<lparr>di_adjacency := d_set l now (di_adjacency s)\<rparr>"
  have L: "links_now s1 = L" using links_now_new [OF assms(4)] by (simp add: s1_def assms(5))
  have r: "reached cf now None s1 = reached cf now None s" by (intro ext) (simp add: reached_def s1_def)
  have prev: "sp_prev s1 = sp_prev s" by (simp add: s1_def)
  obtain s' where s': "update_tree cf now None s1 = (Inr (), s')" "links_now s' = L" "inj_on ends (flood_links s')"
      "forest (ends ` flood_links s')" "(ends ` flood_links s')\<^sup>* = (joined L)\<^sup>*"
      "\<forall>r \<in> both_ways L - flood_links s'. sp_prev s' (dpid1 r) (port1 r) = Some False"
    using update_tree_floods [of cf s1 now None] assms(7-10) by (auto simp: L r)
  have "synced hw s'" using keepsD [OF synced_update_tree _ s'(1)] sync by (simp add: s1_def synced_adjacency)
  then have "told_links hw s' = flood_links s'" "\<forall>r \<in> both_ways L - told_links hw s'. told hw s' (dpid1 r) (port1 r) = Some False"
    using told_links_synced [of hw s'] s'(2,6) by simp_all
  moreover have "see_link (on_link cf now) now l s = (Inr (), on_link cf now True l s1)"
    using assms(4) by (simp add: see_link_def sm_run s1_def links_now_def)
  moreover have "on_link cf now True l s1 = s'"
    using assms(6) s'(1) by (auto simp: on_link_def st_link_event_def sm_run prev)
  ultimately show ?thesis using s'(2-5) by (intro exI [of _ s']) simp
qed

text \<open>Three switches in a ring, of which the last direction of the last link is found now.\<close>

definition ring_links :: "link list" where
  "ring_links = [Link 1 1 2 1, Link 2 1 1 1, Link 1 2 3 1, Link 3 1 1 2, Link 2 2 3 2]"

definition port_named :: "16 word \<Rightarrow> phy_port" where
  "port_named n = \<lparr>pp_port_no = n, pp_hw_addr = [2, 0, 0, 0, 0, 1], pp_name = [], pp_config = 0, pp_state = 0, pp_curr = 0,
     pp_advertised = 0, pp_supported = 0, pp_peer = 0\<rparr>"

definition net_state :: "(link, nat) dict \<Rightarrow> int list \<Rightarrow> stp" where
  "net_state adj sws = \<lparr>di_adjacency = adj, di_sent = [], sp_prev = (\<lambda>_ _. None),
     sp_cons = map (\<lambda>d. (d, \<lparr>cv_ports = [port_named 1, port_named 2], cv_connect_time = Some 1\<rparr>)) sws, sp_dirty = [], sp_hold_timers = []\<rparr>"

definition plain_conf :: stp_conf where
  "plain_conf = \<lparr>sc_no_flood = False, sc_hold_down = False,
     sc_disc = \<lparr>dc_eat_early = False, dc_explicit_drop = True, dc_install_flow = True, dc_link_timeout = 10\<rparr>,
     sc_order = (\<lambda>ls. sort (remdups (map dpid1 ls @ map dpid2 ls)))\<rparr>"

lemma plain_order: "set (sc_order plain_conf L) = switches_of L"
  by (simp add: plain_conf_def switches_of_def)

lemma net_state_prev: "sp_prev (net_state adj sws) a n \<noteq> Some False"
  by (simp add: net_state_def)

lemma net_state_reached:
  "a \<in> set sws \<Longrightarrow> n = 1 \<or> n = 2 \<Longrightarrow> reached plain_conf now force (net_state adj sws) a n"
  by (auto simp: reached_def net_state_def map_of_map_restrict plain_conf_def port_of_def port_named_def OFPP_MAX_def
      split: option.split)

abbreviation one_address :: "int \<Rightarrow> int \<Rightarrow> eth_addr" where "one_address \<equiv> \<lambda>_ _. [2, 0, 0, 0, 0, 1]"

lemma net_state_hw: "\<forall>(sw, c)\<in>set (sp_cons (net_state adj sws)). known_hw one_address sw (cv_ports c)"
  by (auto simp: net_state_def known_hw_def port_named_def)

theorem flooding_is_a_tree_witness:
  "\<exists>s'. see_link (on_link plain_conf 5) 5 (Link 3 2 2 2) (net_state (map (\<lambda>l. (l, 0)) ring_links) [1, 2, 3]) = (Inr (), s') \<and>
     forest (ends ` told_links one_address s') \<and> (1, 2) \<in> (ends ` told_links one_address s')\<^sup>* \<and> (2, 3) \<in> (ends ` told_links one_address s')\<^sup>*"
proof -
  let ?L = "ring_links @ [Link 3 2 2 2]" and ?s = "net_state (map (\<lambda>l. (l, 0)) ring_links) [1, 2, 3]"
  have L: "links_now ?s = ring_links" by (simp add: links_now_def net_state_def ring_links_def)
  have r: "\<forall>r \<in> both_ways ?L. reached plain_conf 5 None ?s (dpid1 r) (port1 r)"
    by (auto simp: both_ways_def ring_links_def intro!: net_state_reached)
  have ns: "no_self_links ?L" and pp: "point_to_point ?L" and nl: "Link 3 2 2 2 \<notin> set ring_links"
    by (simp add: no_self_links_def ring_links_def, simp add: point_to_point_def ring_links_def, simp add: ring_links_def)
  have p: "sp_prev ?s = (\<lambda>_ _. None)" by (simp add: net_state_def)
  have "\<exists>s'. see_link (on_link plain_conf 5) 5 (Link 3 2 2 2) ?s = (Inr (), s') \<and> links_now s' = ?L \<and>
    inj_on ends (told_links one_address s') \<and> forest (ends ` told_links one_address s') \<and>
    (ends ` told_links one_address s')\<^sup>* = (joined ?L)\<^sup>* \<and>
    (\<forall>r \<in> both_ways ?L - told_links one_address s'. told one_address s' (dpid1 r) (port1 r) = Some False)"
    by (rule flooding_is_a_tree [OF rtranclp.rtrancl_refl p net_state_hw _ _ _ plain_order ns pp r])
      (simp_all only: L nl net_state_prev not_False_eq_True simp_thms)
  then obtain s' where s': "see_link (on_link plain_conf 5) 5 (Link 3 2 2 2) ?s = (Inr (), s')" "forest (ends ` told_links one_address s')"
      "(ends ` told_links one_address s')\<^sup>* = (joined ?L)\<^sup>*"
    by blast
  have "Link 1 1 2 1 \<in> both_ways ?L" "Link 2 2 3 2 \<in> both_ways ?L"
    by (simp_all add: both_ways_def ring_links_def flipped_def)
  then have "(1, 2) \<in> joined ?L" "(2, 3) \<in> joined ?L"
    using joined_iff [of 1 2 ?L] joined_iff [of 2 3 ?L] by (force simp: between_def)+
  with s' show ?thesis by blast
qed

text \<open>
  C9. Once an update has been made (and changes are not held down), links that time out change nothing about flooding:
  the listener is told while the links are still in the adjacency, computes the tree it has, and sends nothing.  Only
  the adjacency becomes smaller.
\<close>

theorem lost_link_unnoticed:
  assumes "\<not> sc_hold_down cf" "update_tree cf t force s = (Inr (), s')" "d_ok (di_adjacency s')"
  shows "expire_links dcf (on_link cf now) now s' =
    (Inr (), s'\<lparr>di_adjacency := filter (\<lambda>e. \<not> link_expired dcf now e) (di_adjacency s')\<rparr>)"
proof -
  let ?ls = "map fst (filter (link_expired dcf now) (di_adjacency s'))"
  have e: "expire_links dcf (on_link cf now) now s' = (Inr (), s'\<lparr>di_adjacency := fold d_del ?ls (di_adjacency s')\<rparr>)"
    by (simp add: expire_links_def sm_run delete_links_synced [OF assms(1,2)])
  moreover have "di_adjacency (snd (expire_links dcf (on_link cf now) now s')) = filter (\<lambda>e. \<not> link_expired dcf now e) (di_adjacency s')"
    by (rule st.expired_adjacency [OF assms(3)])
  ultimately show ?thesis by simp
qed

text \<open>
  Two cables between two switches: flooding goes over the first.  When it is lost, the second stays disabled and
  nothing joins the switches, although the second link is there.
\<close>

definition two_cables :: "(link, nat) dict" where
  "two_cables = [(Link 1 1 2 1, 0), (Link 2 1 1 1, 0), (Link 1 2 2 2, 14 * seconds), (Link 2 2 1 2, 14 * seconds)]"

lemma two_cables_tree: "calc_spanning_tree [1, 2] (map fst two_cables) = Inr [(1, {(2, CPort 1)}), (2, {(1, CPort 1)})]"
  by code_simp

lemma two_cables_update:
  "\<exists>s'. update_tree plain_conf 5 None (net_state two_cables [1, 2]) = (Inr (), s') \<and> same_view (net_state two_cables [1, 2]) s' \<and>
     sp_prev s' 1 1 = Some True \<and> sp_prev s' 1 2 = Some False \<and> sp_prev s' 2 1 = Some True \<and> sp_prev s' 2 2 = Some False"
proof -
  let ?s = "net_state two_cables [1, 2]" and ?tr = "[(1, {(2, CPort 1)}), (2, {(1, CPort 1)})] :: tree"
  have L: "links_now ?s = map fst two_cables" by (simp add: links_now_def net_state_def)
  have ord: "sc_order plain_conf (map fst two_cables) = [1, 2]" by (simp add: plain_conf_def two_cables_def)
  have "d_ok ?tr" by (simp add: d_ok_def)
  from update_switches_run [OF this, of plain_conf 5 None ?s]
  obtain s' where s': "sfor ?tr (update_switch plain_conf 5 None) ?s = (Inr (), s')" "same_view ?s s'"
     "\<forall>a n. sp_prev s' a n = (if a \<in> fst ` set ?tr \<and> reached plain_conf 5 None ?s a n
        then Some (wants_flood (di_adjacency ?s) (tree_at ?tr a) a n) else sp_prev ?s a n)"
    by blast
  have r: "reached plain_conf 5 None ?s a n" if "a = 1 \<or> a = 2" "n = 1 \<or> n = 2" for a n
    using that by (auto intro: net_state_reached)
  have w: "wants_flood (di_adjacency ?s) {(b, CPort 1)} a n = (n = 1)" if "a = 1 \<or> a = 2" "n = 1 \<or> n = 2" for a b n
    using that by (auto simp: wants_flood_def is_edge_port_def net_state_def two_cables_def)
  have "sp_prev s' a n = Some (n = 1)" if "a = 1 \<or> a = 2" "n = 1 \<or> n = 2" for a n
    using s'(3) r [OF that] w [OF that] that by (auto simp: tree_at_def)
  then have "sp_prev s' 1 1 = Some True" "sp_prev s' 1 2 = Some False" "sp_prev s' 2 1 = Some True" "sp_prev s' 2 2 = Some False"
    by simp_all
  moreover have "update_tree plain_conf 5 None ?s = (Inr (), s')"
    using s'(1) by (simp add: update_tree_def sm_run L ord two_cables_tree)
  ultimately show ?thesis using s'(2) by blast
qed

theorem lost_link_unnoticed_witness:
  "\<exists>s' s''. update_tree plain_conf 5 None (net_state two_cables [1, 2]) = (Inr (), s') \<and>
     expire_links (sc_disc plain_conf) (on_link plain_conf (15 * seconds)) (15 * seconds) s' = (Inr (), s'') \<and>
     (1, 2) \<in> joined (links_now s'') \<and> flood_links s'' = {}"
proof -
  obtain s' where s': "update_tree plain_conf 5 None (net_state two_cables [1, 2]) = (Inr (), s')"
      "same_view (net_state two_cables [1, 2]) s'"
      "sp_prev s' 1 1 = Some True" "sp_prev s' 1 2 = Some False" "sp_prev s' 2 1 = Some True" "sp_prev s' 2 2 = Some False"
    using two_cables_update by blast
  have adj: "di_adjacency s' = two_cables" using s'(2) by (simp add: same_view_def net_state_def)
  let ?s = "s'\<lparr>di_adjacency := filter (\<lambda>e. \<not> link_expired (sc_disc plain_conf) (15 * seconds) e) two_cables\<rparr>"
  have e: "expire_links (sc_disc plain_conf) (on_link plain_conf (15 * seconds)) (15 * seconds) s' = (Inr (), ?s)"
    using lost_link_unnoticed [OF _ s'(1), of "sc_disc plain_conf" "15 * seconds"]
    by (simp add: adj plain_conf_def) (simp add: two_cables_def d_ok_def)
  have L: "links_now ?s = [Link 1 2 2 2, Link 2 2 1 2]"
    by (simp add: links_now_def two_cables_def link_expired_def plain_conf_def seconds_def)
  have b: "both_ways (links_now ?s) = {Link 1 2 2 2, Link 2 2 1 2}"
    unfolding L by (auto simp: both_ways_def flipped_def)
  have "flood_links ?s = {}" "(1, 2) \<in> joined (links_now ?s)"
    unfolding flood_links_def joined_def b using s'(4,6) by auto
  then show ?thesis using s'(1) e by blast
qed

section \<open>Discovery, with this listener\<close>

text \<open>
  C10. Whatever happens to the component, starting without links: after a check for dead links, every link of the
  adjacency is one that really existed between two different ports when its last packet came, and that was no longer
  than the timeout ago.
\<close>

theorem links_are_wires:
  assumes "(disc_step (sc_disc cf) (on_link cf) wire)\<^sup>*\<^sup>* (t0, s0) (t, s)" "di_adjacency s0 = []"
    and "(l, t1) \<in> set (di_adjacency (snd (expire_links (sc_disc cf) (on_link cf t) t s)))"
  shows "t1 \<le> t \<and> t \<le> t1 + dc_link_timeout (sc_disc cf) * seconds \<and> (\<exists>a b. l = link_on a b \<and> wire t1 a b \<and> a \<noteq> b)"
proof -
  have "adjacency_ok wire t (di_adjacency s)"
    using st.adjacency_reachable [OF assms(1)] assms(2) by (simp add: adjacency_ok_def d_ok_def)
  then show ?thesis
    using st.expired_is_recent [OF _ assms(3)] by (fastforce simp: was_wire_def)
qed

text \<open>
  C11. A packet that the sender builds for a port, when it comes in at another port, adds exactly the link from that port
  to this one, stamped with the time, provided that the sending switch is connected; the event is halted.
\<close>

theorem discovered_link:
  assumes "create_discovery_packet d n addr ttl = Inr frame" "length addr = 6" "in_data ev = frame @ padding"
    and "known (uint d)" "(in_dpid ev, in_port ev) \<noteq> (d, n)"
  shows "\<exists>s'. disc_packet_in dcf known (on_link cf now) now ev s = (Inr True, s') \<and>
    map_of (di_adjacency s') = (map_of (di_adjacency s))(link_on (d, n) (in_dpid ev, in_port ev) \<mapsto> now)"
  using st.packet_in_adjacency [OF assms(1-3), of dcf known cf now s] assms(4,5) by (auto simp: map_of_d_set)

definition sample_in :: "bytes \<Rightarrow> disc_in" where
  "sample_in frame = \<lparr>in_dpid = 7, in_port = 3, in_buffer_id = None, in_connect_time = Some 1, in_data = frame @ [0, 0]\<rparr>"

lemma sample_packet:
  obtains frame where "create_discovery_packet 0x10000000000002 1 [2, 0, 0, 0, 0, 9] 120 = Inr frame"
  using create_discovery_packet_view [of "[2, 0, 0, 0, 0, 9]" "0x10000000000002" 1 120 "[]"] by auto

definition sample_wire :: "nat \<Rightarrow> 64 word \<times> 16 word \<Rightarrow> 64 word \<times> 16 word \<Rightarrow> bool" where
  "sample_wire t a b \<longleftrightarrow> a = (0x10000000000002, 1) \<and> b = (7, 3)"

theorem discovered_link_witness:
  "\<exists>frame s'. create_discovery_packet 0x10000000000002 1 [2, 0, 0, 0, 0, 9] 120 = Inr frame \<and>
     disc_packet_in (sc_disc plain_conf) (\<lambda>_. True) (on_link plain_conf 5) 5 (sample_in frame) (net_state [] [1, 2]) = (Inr True, s') \<and>
     map_of (di_adjacency s') (Link 0x10000000000002 1 7 3) = Some 5"
proof -
  obtain frame where f: "create_discovery_packet 0x10000000000002 1 [2, 0, 0, 0, 0, 9] 120 = Inr frame"
    using sample_packet by blast
  have d: "in_data (sample_in frame) = frame @ [0, 0]" "(in_dpid (sample_in frame), in_port (sample_in frame)) = (7, 3)"
    by (simp_all add: sample_in_def)
  have "link_on (0x10000000000002, 1) (7, 3) = Link 0x10000000000002 1 7 3" by (simp add: link_on_def)
  then show ?thesis
    using f discovered_link [OF f _ d(1), of "\<lambda>_. True" "sc_disc plain_conf" plain_conf 5 "net_state [] [1, 2]"] unfolding d(2) by auto
qed

theorem links_are_wires_witness:
  "\<exists>s t1. (Link 0x10000000000002 1 7 3, t1) \<in> set (di_adjacency (snd (expire_links (sc_disc plain_conf) (on_link plain_conf 5) 5 s))) \<and>
     t1 \<le> 5 \<and> (\<exists>a b. Link 0x10000000000002 1 7 3 = link_on a b \<and> sample_wire t1 a b)"
proof -
  obtain frame where f: "create_discovery_packet 0x10000000000002 1 [2, 0, 0, 0, 0, 9] 120 = Inr frame"
    using sample_packet by blast
  let ?s0 = "net_state [] [1, 2]" and ?ev = "sample_in frame" and ?l = "Link 0x10000000000002 1 7 3"
  define s where "s = snd (disc_packet_in (sc_disc plain_conf) (\<lambda>_. True) (on_link plain_conf 5) 5 ?ev ?s0)"
  have d: "in_data ?ev = frame @ [0, 0]" "(in_dpid ?ev, in_port ?ev) = (7, 3)"
    by (simp_all add: sample_in_def)
  have "disc_step (sc_disc plain_conf) (on_link plain_conf) sample_wire (5, ?s0) (5, s)"
    unfolding s_def by (rule disc_step.discovery_frame [OF f _ d(1)]) (simp_all add: d(2) sample_wire_def)
  then have reach: "(disc_step (sc_disc plain_conf) (on_link plain_conf) sample_wire)\<^sup>*\<^sup>* (5, ?s0) (5, s)"
    by (rule r_into_rtranclp)
  have l: "link_on (0x10000000000002, 1) (7, 3) = ?l" by (simp add: link_on_def)
  have adj0: "di_adjacency ?s0 = []" by (simp add: net_state_def)
  obtain s' where "disc_packet_in (sc_disc plain_conf) (\<lambda>_. True) (on_link plain_conf 5) 5 ?ev ?s0 = (Inr True, s')"
      "di_adjacency s' = d_set ?l 5 (di_adjacency ?s0)"
    using st.packet_in_adjacency [OF f _ d(1), of "sc_disc plain_conf" "\<lambda>_. True" plain_conf 5 ?s0] unfolding d(2) l by auto
  then have adj: "di_adjacency s = [(?l, 5)]" by (simp add: s_def net_state_def)
  then have m: "(?l, 5) \<in> set (di_adjacency (snd (expire_links (sc_disc plain_conf) (on_link plain_conf 5) 5 s)))"
    by (subst st.expired_adjacency) (simp_all add: d_ok_def link_expired_def)
  show ?thesis
    using m links_are_wires [OF reach _ m] adj0 by blast
qed

text \<open>
  C26. In every state that the sender of discovery packets reaches, as many sends as there are ports in its queue send the
  packet of every port once, in the order of the queue, and leave the queue as it was; the packets are those that were
  built for these ports, and no port is there twice.
\<close>

theorem every_port_once_per_cycle:
  assumes "lldp_sender_step\<^sup>*\<^sup>* (new_sender cyc ttl) s" "queue s \<noteq> []"
  shows "\<exists>s'. send_items (length (queue s)) s = (Inr (), s') \<and> queue s' = queue s \<and>
    ls_sent s' = ls_sent s @ map item_sent (queue s) \<and>
    distinct (map item_key (queue s)) \<and> list_all (item_ok ttl) (queue s)"
proof -
  have "lldp_sender_ok ttl s"
    using sender_reachable_ok [OF assms(1)] new_sender_ok by blast
  then show ?thesis
    using send_items_run [of s "queue s" "[]"] by (auto simp: lldp_sender_ok_def list_all_iff)
qed

theorem every_port_once_per_cycle_witness:
  "\<exists>s s'. lldp_sender_step\<^sup>*\<^sup>* (new_sender 5 120) s \<and> map item_key (queue s) = [(2, 1)] \<and>
     send_items 1 s = (Inr (), s') \<and> length (ls_sent s') = length (ls_sent s) + 1"
proof -
  let ?n = "new_sender 5 120"
  define s where "s = snd (sender_port_status 7 2 0 (port_named 1) ?n)"
  obtain p where p: "create_packet_out 7 2 1 [2, 0, 0, 0, 0, 1] 120 = Inr p"
    using create_packet_out_ok [of "[2, 0, 0, 0, 0, 1]"] by force
  have reach: "lldp_sender_step\<^sup>*\<^sup>* ?n s"
    unfolding s_def by (rule r_into_rtranclp) (rule lldp_sender_step.port_status)
  have "queue s = [\<lparr>si_dpid = 2, si_port = 1, si_packet = p\<rparr>]"
    using add_port_queue [of 1 7 2 "[2, 0, 0, 0, 0, 1]" ?n p True] p
    by (simp add: s_def sender_port_status_def port_named_def new_sender_def OFPP_MAX_def)
  with every_port_once_per_cycle [OF reach] reach show ?thesis
    by (auto simp: item_key_def)
qed

end
