(* ===== verification/L2_Learning.thy ===== *)
theory L2_Learning
  imports PBFT_System Discovery
begin

text \<open>
  The learning switch (\<open>pox/pox/forwarding/l2_learning.py\<close>): the table of one \<open>LearningSwitch\<close> and its handler of
  packet-ins, whose messages are recorded in \<open>lw_sent\<close> after \<open>pack\<close> has accepted them; and the learning switch joined
  to the software switch.
\<close>

section \<open>The learning switch\<close>

record learning =
  lw_transparent :: bool
  lw_macs :: "(eth_addr, 16 word) dict"
  lw_hold_expired :: bool
  lw_connect_time :: nat
  lw_sent :: "of_body list"

type_synonym 'a lw = "(learning, 'a) sm"

definition new_learning :: "nat \<Rightarrow> nat \<Rightarrow> bool \<Rightarrow> learning" where
  "new_learning flood_delay connect_time transparent = \<lparr>lw_transparent = transparent, lw_macs = [],
     lw_hold_expired = (flood_delay = 0), lw_connect_time = connect_time, lw_sent = []\<rparr>"

definition lw_send :: "of_body \<Rightarrow> unit lw" where
  "lw_send b = sthen (slift (rbind (msg_pack (\<lparr>hdr_version = OFP_VERSION, hdr_xid = 0\<rparr>, b)) (\<lambda>_. Inr ())))
     (smod (\<lambda>s. s\<lparr>lw_sent := lw_sent s @ [b]\<rparr>))"

text \<open>The setter \<open>ofp_packet_out.data\<close> for a packet-in, and a flow modification with a packet-in as data.\<close>

definition resend :: "packet_in \<Rightarrow> packet_out \<Rightarrow> packet_out result" where
  "resend m po =
     (if pi_buffer_id m = NO_BUFFER then
        rbind (py_assert (is_complete m)) (\<lambda>_. Inr (po\<lparr>po_buffer_id := NO_BUFFER, po_data := pi_data m, po_in_port := pi_in_port m\<rparr>))
      else Inr (po\<lparr>po_buffer_id := pi_buffer_id m, po_data := [], po_in_port := pi_in_port m\<rparr>))"

definition lw_send_flow :: "flow_mod \<Rightarrow> unit lw" where
  "lw_send_flow f =
     (case flow_mod_with_data f of (f', po) \<Rightarrow>
        sthen (lw_send (MFlowMod f'))
          (case po of None \<Rightarrow> sret () | Some p \<Rightarrow> sthen (lw_send MBarrierRequest) (lw_send (MPacketOut p))))"

definition new_packet_out :: "action list \<Rightarrow> packet_out" where
  "new_packet_out as = \<lparr>po_buffer_id = NO_BUFFER, po_in_port = OFPP_NONE, po_actions = as, po_data = []\<rparr>"

definition new_flow_mod :: "ofp_match \<Rightarrow> 16 word \<Rightarrow> 16 word \<Rightarrow> action list \<Rightarrow> flow_mod" where
  "new_flow_mod m idle hard as = \<lparr>fm_match = m, fm_cookie = 0, fm_command = 0, fm_idle_timeout = idle, fm_hard_timeout = hard,
     fm_priority = 32768, fm_buffer_id = NO_BUFFER, fm_out_port = OFPP_NONE, fm_flags = 0, fm_actions = as, fm_data = None\<rparr>"

definition lw_flood :: "nat \<Rightarrow> nat \<Rightarrow> packet_in \<Rightarrow> unit lw" where
  "lw_flood flood_delay now m = sbind (sget lw_connect_time) (\<lambda>t.
     let late = flood_delay * seconds \<le> now - t in
     sthen (if late then smod (\<lambda>s. s\<lparr>lw_hold_expired := True\<rparr>) else sret ())
       (sbind (slift (resend m (new_packet_out (if late then [ActOutput OFPP_FLOOD 0xffff] else [])))) (\<lambda>po.
         lw_send (MPacketOut (po\<lparr>po_in_port := pi_in_port m\<rparr>)))))"

definition lw_drop :: "(16 word \<times> 16 word) option \<Rightarrow> ethernet \<Rightarrow> packet_in \<Rightarrow> unit lw" where
  "lw_drop duration packet m =
     (case duration of
        Some (idle, hard) \<Rightarrow> lw_send (MFlowMod ((new_flow_mod (match_from_packet packet None False) idle hard [])\<lparr>fm_buffer_id := pi_buffer_id m\<rparr>))
      | None \<Rightarrow>
          if pi_buffer_id m \<noteq> NO_BUFFER
          then lw_send (MPacketOut ((new_packet_out [])\<lparr>po_buffer_id := pi_buffer_id m, po_in_port := pi_in_port m\<rparr>))
          else sret ())"

definition learned_flow :: "ethernet \<Rightarrow> packet_in \<Rightarrow> 16 word \<Rightarrow> flow_mod" where
  "learned_flow packet m port =
     (new_flow_mod (match_from_packet packet (Some (pi_in_port m)) False) 10 30 [ActOutput port 0xffff])\<lparr>fm_data := Some m\<rparr>"

definition lw_packet_in :: "packet_lib \<Rightarrow> nat \<Rightarrow> nat \<Rightarrow> packet_in \<Rightarrow> unit lw" where
  "lw_packet_in L flood_delay now m =
     (let packet = eth_parse L (pi_data m) in
      sthen (smod (\<lambda>s. s\<lparr>lw_macs := d_set (eth_src packet) (pi_in_port m) (lw_macs s)\<rparr>))
      (sbind (sget lw_transparent) (\<lambda>transparent.
        if \<not> transparent \<and> (eth_type packet = LLDP_TYPE \<or> isBridgeFiltered (eth_dst packet)) then lw_drop None packet m
        else if isMulticast (eth_dst packet) then lw_flood flood_delay now m
        else sbind (sget (\<lambda>s. map_of (lw_macs s) (eth_dst packet))) (\<lambda>p.
          case p of
            None \<Rightarrow> lw_flood flood_delay now m
          | Some port \<Rightarrow>
              if port = pi_in_port m then lw_drop (Some (10, 10)) packet m
              else lw_send_flow (learned_flow packet m port)))))"

section \<open>The pieces of a learned path\<close>

text \<open>A packet that no flow matches is buffered and reported with all its bytes.\<close>

lemma table_miss_run:
  assumes "switch_ok s" "sw_connected s" "length (sw_packet_buffer s) < sw_max_buffers s"
    and "map_of (sw_ports s) ip = Some p" "\<not> not_received (sw_config_flags s) p (sw_packets s ! r)"
    and "\<not> bits_set (pp_config p) OFPPC_NO_PACKET_IN"
    and "eth_pack (lib_little (sw_lib s)) (sw_packets s ! r) = Inr d" "length d < 65000" "length d \<le> unat (sw_miss_send_len s)"
    and "entry_for (sw_packets s ! r) ip (sw_table s) = None"
  shows "\<exists>st i b h. rx_packet_once rx r ip None s =
      (Inr (), s\<lparr>sw_port_stats := st, sw_lookup_count := sw_lookup_count s + 1, sw_packet_buffer := b,
         sw_sent := sw_sent s @ [(h, MPacketIn \<lparr>pi_in_port = ip, pi_buffer_id = word_of_nat i, pi_reason = 0, pi_data = d,
           pi_total_len = None\<rparr>)]\<rparr>) \<and>
    0 < i \<and> i \<le> sw_max_buffers s \<and> i - 1 < length b \<and> b ! (i - 1) = Some (r, ip)"
proof -
  have st: "map_of (sw_port_stats s) ip \<noteq> None" using assms(1,4) by (auto simp: switch_ok_def ports_within_def)
  obtain st1 where 1: "count_port ip (\<lambda>x. x\<lparr>ps_rx_packets := Suc (ps_rx_packets x)\<rparr>) s = (Inr (), s\<lparr>sw_port_stats := st1\<rparr>)"
    "\<forall>n. map_of st1 n = None \<longleftrightarrow> map_of (sw_port_stats s) n = None"
    using count_port_run [OF st] by fastforce
  then obtain st2 where 2: "count_port ip (\<lambda>x. x\<lparr>ps_rx_bytes := ps_rx_bytes x + length d\<rparr>) (s\<lparr>sw_port_stats := st1\<rparr>) =
      (Inr (), s\<lparr>sw_port_stats := st2\<rparr>)"
    using count_port_run [of "s\<lparr>sw_port_stats := st1\<rparr>" ip] st by fastforce
  let ?s = "s\<lparr>sw_port_stats := st2, sw_lookup_count := sw_lookup_count s + 1\<rparr>"
  obtain i b where b: "buffer_packet r ip ?s = (Inr (Some i), ?s\<lparr>sw_packet_buffer := b\<rparr>)" "0 < i" "i \<le> sw_max_buffers s"
    "i - 1 < length b" "b ! (i - 1) = Some (r, ip)"
    using buffer_packet_run [of ?s r ip] assms(3) by auto
  let ?m = "\<lparr>pi_in_port = ip, pi_buffer_id = word_of_nat i, pi_reason = 0, pi_data = d, pi_total_len = None\<rparr>"
  have "packs (MPacketIn ?m)" using assms(8) by (intro packet_in_packs) simp_all
  then have "send (Some 0) (MPacketIn ?m) (?s\<lparr>sw_packet_buffer := b\<rparr>) =
      (Inr (), ?s\<lparr>sw_packet_buffer := b, sw_sent := sw_sent s @ [(\<lparr>hdr_version = OFP_VERSION, hdr_xid = 0\<rparr>, MPacketIn ?m)]\<rparr>)"
    using send_with_run [of "MPacketIn ?m" "?s\<lparr>sw_packet_buffer := b\<rparr>"] assms(2) by simp
  then have "rx_packet_once rx r ip None s =
      (Inr (), ?s\<lparr>sw_packet_buffer := b, sw_sent := sw_sent s @ [(\<lparr>hdr_version = OFP_VERSION, hdr_xid = 0\<rparr>, MPacketIn ?m)]\<rparr>)"
    using assms(9) b(1)
    by (simp add: rx_packet_once_def packet_bytes_def sm_run assms(4-7,10) 1 2 table_miss_def sbind_Inr send_packet_in_def)
  with b(2-) show ?thesis by blast
qed

text \<open>An entry put into a table in which nothing matches a packet is the one that is found for it.\<close>

lemma entry_for_added:
  assumes "entry_for e ip t = None" "covers False (te_match x) (match_from_packet e (Some ip) True)"
  shows "entry_for e ip (add_entry x t) = Some x"
proof -
  let ?P = "\<lambda>e'. covers False (te_match e') (match_from_packet e (Some ip) True)"
  have none: "\<not> ?P y" if "y \<in> set t" for y
    using assms(1) that by (auto simp: entry_for_def entry_for_packet_def find_None_iff)
  define n where "n = insert_position (effective_priority x) t 0 (length t)"
  have "find ?P (take n t) = None" using none by (auto simp: find_None_iff dest: in_set_takeD)
  moreover have "find P (xs @ ys) = (case find P xs of None \<Rightarrow> find P ys | Some y \<Rightarrow> Some y)" for P :: "table_entry \<Rightarrow> bool" and xs ys
    by (induction xs) auto
  ultimately show ?thesis
    using assms(2) by (simp add: entry_for_def entry_for_packet_def add_entry_def Let_def flip: n_def)
qed

lemma entry_for_fewer: "entry_for e ip t = None \<Longrightarrow> entry_for e ip (filter P t) = None"
  by (auto simp: entry_for_def entry_for_packet_def find_None_iff)

text \<open>The match of a packet has its wildcards in normal form, and its addresses are those of the packet.\<close>

definition tidy :: "ofp_match \<Rightarrow> bool" where
  "tidy m \<longleftrightarrow> normalize_wildcards (mt_wildcards m) = mt_wildcards m"

lemma tidyI:
  assumes "\<And>n. bit (mt_wildcards m) 13 \<Longrightarrow> 8 \<le> n \<Longrightarrow> n < 13 \<Longrightarrow> \<not> bit (mt_wildcards m) n"
    and "\<And>n. bit (mt_wildcards m) 19 \<Longrightarrow> 14 \<le> n \<Longrightarrow> n < 19 \<Longrightarrow> \<not> bit (mt_wildcards m) n"
  shows "tidy m"
  unfolding tidy_def
proof (rule bit_eqI)
  fix n
  show "bit (normalize_wildcards (mt_wildcards m)) n = bit (mt_wildcards m) n"
  proof (cases "8 \<le> n \<and> n < 14 \<and> bit (mt_wildcards m) 13")
    case True
    then have "n = 13 \<or> n < 13" by linarith
    with True show ?thesis using assms(1) [of n] by (auto simp add: bit_normalize)
  next
    case no: False
    show ?thesis
    proof (cases "14 \<le> n \<and> n < 20 \<and> bit (mt_wildcards m) 19")
      case True
      then have "n = 19 \<or> n < 19" by linarith
      with True no show ?thesis using assms(2) [of n] by (auto simp add: bit_normalize)
    next
      case False
      with no show ?thesis by (simp only: bit_normalize if_False)
    qed
  qed
qed

lemma tidyD:
  assumes "tidy m"
  shows "bit (mt_wildcards m) 13 \<Longrightarrow> 8 \<le> n \<Longrightarrow> n < 13 \<Longrightarrow> \<not> bit (mt_wildcards m) n"
    and "bit (mt_wildcards m) 19 \<Longrightarrow> 14 \<le> n \<Longrightarrow> n < 19 \<Longrightarrow> \<not> bit (mt_wildcards m) n"
  using bit_normalize [of "mt_wildcards m" n] assms by (auto simp: tidy_def)

lemma tidy_fewer:
  assumes "tidy m" and "\<And>n. 8 \<le> n \<Longrightarrow> n < 20 \<Longrightarrow> bit (mt_wildcards m') n \<Longrightarrow> bit (mt_wildcards m) n"
  shows "tidy m'"
proof (rule tidyI)
  fix n
  show "\<not> bit (mt_wildcards m') n" if "bit (mt_wildcards m') 13" "8 \<le> n" "n < 13"
    using tidyD(1) [OF assms(1), of n] assms(2) [of n] assms(2) [of 13] that by linarith
  show "\<not> bit (mt_wildcards m') n" if "bit (mt_wildcards m') 19" "14 \<le> n" "n < 19"
    using tidyD(2) [OF assms(1), of n] assms(2) [of n] assms(2) [of 19] that by linarith
qed

lemma tidy_attr: "tidy m \<Longrightarrow> (\<And>n. 8 \<le> n \<Longrightarrow> n < 20 \<Longrightarrow> \<not> bit b n) \<Longrightarrow> tidy (set_attr b d put v m)"
  by (erule tidy_fewer) (simp add: bit_set_attr split: if_splits)

lemma tidy_setters [simp]:
  "tidy m \<Longrightarrow> tidy (set_in_port a m)" "tidy m \<Longrightarrow> tidy (set_dl_src b m)" "tidy m \<Longrightarrow> tidy (set_dl_dst b m)"
  "tidy m \<Longrightarrow> tidy (set_dl_vlan a m)" "tidy m \<Longrightarrow> tidy (set_dl_vlan_pcp c m)" "tidy m \<Longrightarrow> tidy (set_dl_type a m)"
  "tidy m \<Longrightarrow> tidy (set_nw_tos c m)" "tidy m \<Longrightarrow> tidy (set_nw_proto c m)" "tidy m \<Longrightarrow> tidy (set_tp_src a m)"
  "tidy m \<Longrightarrow> tidy (set_tp_dst a m)"
  by (simp_all add: mt_setters tidy_attr)

lemma tidy_nw [simp]: "tidy m \<Longrightarrow> tidy (put_nw_src (Some (i, 32)) m)" "tidy m \<Longrightarrow> tidy (put_nw_dst (Some (i, 32)) m)"
  using bit_put_nw(1) [of "Some i" m] bit_put_nw(2) [of "Some i" m] by (auto elim!: tidy_fewer split: if_splits)

lemma tidy_init [simp]: "tidy match_init"
  by (simp add: tidy_def match_init_def normalize_idem)

text \<open>The addresses of the match are those of the packet, whatever else it holds.\<close>

lemma setters_keep_macs:
  "macs_ok (set_in_port a m) = macs_ok m" "macs_ok (set_dl_vlan a m) = macs_ok m" "macs_ok (set_dl_vlan_pcp c m) = macs_ok m"
  "macs_ok (set_dl_type a m) = macs_ok m" "macs_ok (set_nw_tos c m) = macs_ok m" "macs_ok (set_nw_proto c m) = macs_ok m"
  "macs_ok (set_tp_src a m) = macs_ok m" "macs_ok (set_tp_dst a m) = macs_ok m" "macs_ok (put_nw_src x m) = macs_ok m"
  "macs_ok (put_nw_dst x m) = macs_ok m"
  by (cases a; cases c; cases x; simp add: macs_ok_def mt_setters set_attr_def put_nw_src_def put_nw_dst_def case_prod_unfold)+

lemma l3_keeps:
  "macs_ok (match_l3 sf p m) = macs_ok m" "tidy m \<Longrightarrow> tidy (match_l3 sf p m)"
  by (simp_all add: match_l3_def match_l4_def Let_def setters_keep_macs split: payload.split)

lemma from_packet_tidy: "tidy (match_from_packet e ip sf)"
  by (simp add: from_packet_l2 l3_keeps split: prod.split option.split)

lemma from_packet_macs:
  assumes "length (eth_src e) = 6" "length (eth_dst e) = 6"
  shows "macs_ok (match_from_packet e ip sf)"
proof -
  have "macs_ok (set_dl_dst (Some (eth_dst e)) (set_dl_src (Some (eth_src e)) m))" for m
    using assms by (simp add: macs_ok_def set_dl_src_def set_dl_dst_def set_attr_def)
  then show ?thesis by (simp add: from_packet_l2 l3_keeps setters_keep_macs split: prod.split)
qed

lemma covers_equal: "match_eq a b \<Longrightarrow> covers c a b"
  by (simp add: covers_def matches_with_wildcards_def)

text \<open>Packets whose types say what they hold, as those that were parsed: their matches have all prerequisites.\<close>

definition layered :: "ethernet \<Rightarrow> bool" where
  "layered e \<longleftrightarrow>
     (case l2_view e of (ty, _, _, n) \<Rightarrow>
        (case n of
           PIpv4 _ ip x \<Rightarrow> ty = 0x0800 \<and> (l4_ports x \<noteq> None \<longrightarrow> ip_protocol ip \<in> {1, 6, 17})
         | PArp _ a _ \<Rightarrow> ty = 0x0806
         | _ \<Rightarrow> True))"

text \<open>The part of \<open>from_packet\<close> up to the Ethernet header, and its wildcards.\<close>

definition l2_match :: "ethernet \<Rightarrow> 16 word option \<Rightarrow> 16 word \<times> 16 word \<times> byte \<Rightarrow> ofp_match" where
  "l2_match e ip = (\<lambda>(ty, vid, pcp). set_dl_vlan_pcp (Some pcp) (set_dl_vlan (Some vid) (set_dl_type (Some ty)
     (set_dl_dst (Some (eth_dst e)) (set_dl_src (Some (eth_src e))
       (case ip of None \<Rightarrow> match_init | Some _ \<Rightarrow> set_in_port ip match_init))))))"

lemma l2_match_bits:
  "bit (mt_wildcards (l2_match e ip (ty, vid, pcp))) n \<longleftrightarrow> n \<notin> {1, 2, 3, 4, 20} \<and> (n = 0 \<longrightarrow> ip = None) \<and> bit (mt_wildcards match_init) n"
  "h_dl_type (l2_match e ip (ty, vid, pcp)) = ty"
  by (cases ip; force simp: l2_match_def mt_setters bit_set_attr) (cases ip; simp add: l2_match_def mt_setters set_attr_def)

lemma init_bits: "bit (mt_wildcards match_init) n \<longleftrightarrow> n < 8 \<or> n = 13 \<or> n = 19 \<or> n = 20 \<or> n = 21"
  by (auto simp: match_init_def bit_normalize)

lemma bit_put_full:
  "bit (mt_wildcards (put_nw_src (Some (i, 32)) m)) n \<longleftrightarrow> \<not> (8 \<le> n \<and> n < 14) \<and> bit (mt_wildcards m) n"
  "bit (mt_wildcards (put_nw_dst (Some (i, 32)) m)) n \<longleftrightarrow> \<not> (14 \<le> n \<and> n < 20) \<and> bit (mt_wildcards m) n"
  using bit_put_nw(1) [of "Some i" m n] bit_put_nw(2) [of "Some i" m n] by simp_all

lemma prereqs_bits:
  "prereqs_ok m \<longleftrightarrow>
     (let ip = \<not> bit (mt_wildcards m) 4 \<and> h_dl_type m = 0x0800; arp = \<not> bit (mt_wildcards m) 4 \<and> h_dl_type m = 0x0806 in
      (\<not> ip \<and> \<not> arp \<longrightarrow> bit (mt_wildcards m) 5 \<and> bit (mt_wildcards m) 13 \<and> bit (mt_wildcards m) 19) \<and>
      (\<not> ip \<longrightarrow> bit (mt_wildcards m) 21) \<and>
      (\<not> (ip \<and> \<not> bit (mt_wildcards m) 5 \<and> h_nw_proto m \<in> {1, 6, 17}) \<longrightarrow> bit (mt_wildcards m) 6 \<and> bit (mt_wildcards m) 7))"
  by (auto simp: prereqs_ok_def mt_attrs attr_def Let_def is_tp_proto_def mt_nw_src_def mt_nw_dst_def get_nw_src_def get_nw_dst_def)

lemma from_packet_prereqs: "layered e \<Longrightarrow> prereqs_ok (match_from_packet e ip False)"
proof -
  assume l: "layered e"
  obtain ty vid pcp n where v: "l2_view e = (ty, vid, pcp, n)" by (cases "l2_view e") auto
  have m: "match_from_packet e ip False = match_l3 False n (l2_match e ip (ty, vid, pcp))"
    by (simp add: from_packet_l2 v l2_match_def)
  note defs = m prereqs_bits Let_def match_l3_def match_l4_def l2_match_bits init_bits bit_put_full mt_setters bit_set_attr
  show ?thesis
  proof (cases n)
    case (PIpv4 mi h x)
    then have "ty = 0x0800" "l4_ports x \<noteq> None \<longrightarrow> ip_protocol h \<in> {1, 6, 17}" using l by (simp_all add: layered_def v)
    then show ?thesis by (cases x) (simp_all add: PIpv4 defs l4_ports_def set_attr_def put_nw_src_def put_nw_dst_def bit_and_iff bit_not_iff)
  next
    case (PArp mi a x)
    then have "ty = 0x0806" using l by (simp add: layered_def v)
    then show ?thesis by (simp add: PArp defs set_attr_def put_nw_src_def put_nw_dst_def bit_and_iff bit_not_iff)
  qed (simp_all add: defs)
qed

section \<open>The learned path\<close>

text \<open>The flow modification that the application sends for a known destination, and what the switch reads.\<close>

definition path_flow :: "ethernet \<Rightarrow> packet_in \<Rightarrow> 16 word \<Rightarrow> flow_mod" where
  "path_flow e m q = (learned_flow e m q)\<lparr>fm_buffer_id := pi_buffer_id m, fm_data := None\<rparr>"

lemma path_flow_packs: "packs (MFlowMod (path_flow e m q))"
  by (simp add: packs_def msg_pack_def body_validate_def path_flow_def learned_flow_def new_flow_mod_def header_pack_def
      flow_mod_len_def pack_nat_H_def flow_mod_bytes_def pack_actions_def act_pack_def)

lemma lw_send_run:
  "packs b \<Longrightarrow> lw_send b l = (Inr (), l\<lparr>lw_sent := lw_sent l @ [b]\<rparr>)"
  by (auto simp: lw_send_def sm_run packs_def)

lemma known_destination_run:
  assumes "eth_parse L (pi_data m) = e" "pi_buffer_id m \<noteq> NO_BUFFER" "map_of (lw_macs l) (eth_dst e) = Some q"
    and "eth_dst e \<noteq> eth_src e" "q \<noteq> pi_in_port m" "\<not> isMulticast (eth_dst e)"
    and "lw_transparent l \<or> eth_type e \<noteq> LLDP_TYPE \<and> \<not> isBridgeFiltered (eth_dst e)"
  shows "lw_packet_in L fd now m l =
    (Inr (), l\<lparr>lw_macs := d_set (eth_src e) (pi_in_port m) (lw_macs l), lw_sent := lw_sent l @ [MFlowMod (path_flow e m q)]\<rparr>)"
proof -
  have "flow_mod_with_data (learned_flow e m q) = (path_flow e m q, None)"
    using assms(2) by (simp add: flow_mod_with_data_def learned_flow_def is_complete_def path_flow_def)
  then show ?thesis
    using assms by (auto simp: lw_packet_in_def sm_run lw_send_flow_def lw_send_run [OF path_flow_packs] map_of_d_set)
qed

lemma buffer_word:
  assumes "i < 2 ^ 32 - 1"
  shows "unat (word_of_nat i :: 32 word) = i" "word_of_nat i \<noteq> NO_BUFFER"
proof -
  show u: "unat (word_of_nat i :: 32 word) = i" using assms by (simp add: unsigned_of_nat take_bit_nat_eq_self)
  then show "word_of_nat i \<noteq> NO_BUFFER" using assms by (auto simp: NO_BUFFER_def)
qed

text \<open>One output action, and a packet that is in the buffer.\<close>

lemma output_run:
  assumes "map_of (sw_ports s) q = Some p" "forwards p" "q < OFPP_MAX" "q \<noteq> ip" "packet_packs r s"
    and "map_of (sw_port_stats s) q \<noteq> None" "0 \<in> set (sf_acts (sw_features s))"
  shows "\<exists>st. process_actions rx [ActOutput q x] r ip ofp s =
    (Inr (), s\<lparr>sw_port_stats := st, sw_output := sw_output s @ [(q, sw_packets s ! r)]\<rparr>) \<and>
    (\<forall>n. map_of st n = None \<longleftrightarrow> map_of (sw_port_stats s) n = None)"
proof -
  obtain st where "real_send r ip False q s = (Inr (), s\<lparr>sw_port_stats := st, sw_output := sw_output s @ [(q, sw_packets s ! r)]\<rparr>)"
    "\<forall>n. map_of st n = None \<longleftrightarrow> map_of (sw_port_stats s) n = None"
    using real_send_run [OF assms(1) _ assms(5,6), of ip False] assms(2,4) by auto
  then show ?thesis
    using assms(3,7) by (intro exI [of _ st]) (simp add: sm_run action_handled_def run_action_def sthen_Inr output_packet_def)
qed

text \<open>A packet whose flow has one output goes out there, and nothing is said to the controller.\<close>

lemma path_packet_run:
  assumes ok: "switch_ok s" and p: "map_of (sw_ports s) ip = Some p"
    and e: "\<not> not_received (sw_config_flags s) p (sw_packets s ! r)" "packet_packs r s"
    and t: "entry_for (sw_packets s ! r) ip (sw_table s) = Some t" "te_actions t = [ActOutput q x]"
    and q: "map_of (sw_ports s) q = Some pq" "forwards pq" "q < OFPP_MAX" "q \<noteq> ip" "0 \<in> set (sf_acts (sw_features s))"
  shows "\<exists>s'. rx_packet (Suc k) r ip None s = (Inr (), s') \<and> sw_sent s' = sw_sent s \<and> sw_output s' = sw_output s @ [(q, sw_packets s ! r)]"
proof -
  have st: "map_of (sw_port_stats s) ip \<noteq> None" "map_of (sw_port_stats s) q \<noteq> None"
    using ok p q(1) by (auto simp: switch_ok_def ports_within_def)
  obtain st1 l where hit: "rx_packet_once (again k) r ip None s = process_actions (again k) (te_actions t) r ip None (s\<lparr>sw_port_stats := st1,
      sw_lookup_count := sw_lookup_count s + 1, sw_matched_count := sw_matched_count s + 1,
      sw_table := update_entry (te_oid t) (touch_packet l (sw_now s)) (sw_table s)\<rparr>)"
    and st1: "\<forall>no. map_of (sw_port_stats s) no \<noteq> None \<longrightarrow> map_of st1 no \<noteq> None"
    using rx_packet_hit [OF p st(1) e t(1)] by blast
  let ?s = "s\<lparr>sw_port_stats := st1, sw_lookup_count := sw_lookup_count s + 1, sw_matched_count := sw_matched_count s + 1,
      sw_table := update_entry (te_oid t) (touch_packet l (sw_now s)) (sw_table s)\<rparr>"
  obtain st2 where "process_actions (again k) [ActOutput q x] r ip None ?s =
      (Inr (), ?s\<lparr>sw_port_stats := st2, sw_output := sw_output s @ [(q, sw_packets s ! r)]\<rparr>)"
    using output_run [of ?s q pq ip r "again k" x None] q e(2) st(2) st1 by (auto simp: packet_packs_def)
  then show ?thesis using hit t(2) by simp
qed

text \<open>The switch carries out the flow modification: the entry is in the table, the buffered packet has left.\<close>

lemma path_flow_run:
  assumes s: "switch_ok s" "0 \<in> set (sf_acts (sw_features s))" "length (sw_table s) < unat (sw_max_entries s)"
    and q: "map_of (sw_ports s) q = Some pq" "forwards pq" "q < OFPP_MAX" "q \<noteq> ip" and pk: "packet_packs r s"
    and b: "0 < i" "i < 2 ^ 32 - 1" "i - 1 < length (sw_packet_buffer s)" "sw_packet_buffer s ! (i - 1) = Some (r, ip)"
    and m: "pi_buffer_id m = word_of_nat i"
  shows "\<exists>st e' P. rx_message k (msg_sent (h, MFlowMod (path_flow e m q))) s =
      (Inr (), s\<lparr>sw_table := add_entry e' (filter P (sw_table s)), sw_next_oid := sw_next_oid s + 1,
         sw_port_stats := st, sw_output := sw_output s @ [(q, sw_packets s ! r)], sw_packet_buffer := (sw_packet_buffer s)[i - 1 := None]\<rparr>) \<and>
    te_match e' = match_sent True (match_from_packet e (Some (pi_in_port m)) False) \<and> te_actions e' = [ActOutput q 0] \<and>
    (\<forall>n. map_of st n = None \<longleftrightarrow> map_of (sw_port_stats s) n = None)"
proof -
  let ?f = "path_flow e m q\<lparr>fm_match := match_sent True (match_from_packet e (Some (pi_in_port m)) False), fm_actions := [ActOutput q 0]\<rparr>"
  have nc: "q \<noteq> OFPP_CONTROLLER" using q(3) by (auto simp: OFPP_defs)
  have sent: "msg_sent (h, MFlowMod (path_flow e m q)) = (h, MFlowMod ?f)"
    using nc by (simp add: msg_sent_def path_flow_def learned_flow_def new_flow_mod_def)
  have f: "fm_command ?f = 0" "fm_flags ?f = 0" "fm_buffer_id ?f = word_of_nat i" "fm_actions ?f = [ActOutput q 0]"
    using m by (simp_all add: path_flow_def learned_flow_def new_flow_mod_def)
  have "length (not_replaced ?f (sw_table s)) \<le> length (sw_table s)" by (simp add: not_replaced_def)
  then have "\<not> add_refused ?f s" using s(3) f(2) by (simp add: add_refused_def bits_set_def)
  moreover define e' where "e' = new_entry ?f s"
  ultimately have add: "flow_mod_add ?f ofp s = (Inr (), s\<lparr>sw_table := add_entry e' (not_replaced ?f (sw_table s)), sw_next_oid := sw_next_oid s + 1\<rparr>)" for ofp
    using flow_mod_add_run [OF s(1), of ?f ofp] by simp
  let ?s = "s\<lparr>sw_table := add_entry e' (not_replaced ?f (sw_table s)), sw_next_oid := sw_next_oid s + 1\<rparr>"
  have e': "te_match e' = fm_match ?f" "te_actions e' = [ActOutput q 0]" by (simp_all add: e'_def new_entry_def from_flow_mod_def)
  have stq: "map_of (sw_port_stats ?s) q \<noteq> None"
    using s(1) q(1) by (auto simp: switch_ok_def ports_within_def)
  obtain st where out: "process_actions (again k) [ActOutput q 0] r ip (Some (h, MFlowMod ?f)) ?s =
    (Inr (), ?s\<lparr>sw_port_stats := st, sw_output := sw_output s @ [(q, sw_packets s ! r)]\<rparr>)"
    "\<forall>n. map_of st n = None \<longleftrightarrow> map_of (sw_port_stats s) n = None"
    using output_run [of ?s q pq ip r "again k" 0 "Some (h, MFlowMod ?f)"] q pk stq s(2) by (auto simp: packet_packs_def)
  note u = buffer_word(1) [OF b(2)]
  then have n: "word_of_nat i \<noteq> (0 :: 32 word)" "word_of_nat i \<noteq> NO_BUFFER" using b(1) buffer_word(2) [OF b(2)] by auto
  have "rx_message k (h, MFlowMod ?f) s = (Inr (), ?s\<lparr>sw_port_stats := st, sw_output := sw_output s @ [(q, sw_packets s ! r)],
      sw_packet_buffer := (sw_packet_buffer s)[i - 1 := None]\<rparr>)"
    using b(3,4) out(1)
    by (simp add: rx_message_def rx_flow_mod_def f add sthen_Inr n process_from_buffer_def sm_run u del: process_actions.simps)
  moreover have "not_replaced ?f (sw_table s) = filter (\<lambda>x. \<not> is_matched_by x (fm_match ?f) (Some (fm_priority ?f)) True None) (sw_table s)"
    using f(1) by (simp add: not_replaced_def)
  ultimately show ?thesis using e' out(2) unfolding sent by (intro exI [of _ st] exI [of _ e'] exI) simp
qed

text \<open>
  C5. A learned path, over the wire.  A switch reports a packet that no flow matches; its destination is known at
  another port.  The application answers with one flow modification; the switch that reads it sends the buffered
  packet out of that port, frees the buffer and reports nothing; and when the same packet arrives again it leaves
  through that port at once, and the controller hears nothing of it.  The match of the packet must not depend on the
  treatment of fragments: the application builds it with the ports of the packet, the switch looks it up without.
\<close>

theorem learned_path:
  assumes s: "switch_reachable n s" "sw_connected s" "0 \<in> set (sf_acts (sw_features s))" "length (sw_table s) < unat (sw_max_entries s)"
    and room: "length (sw_packet_buffer s) < sw_max_buffers s" "sw_max_buffers s < 2 ^ 32 - 1"
    and port: "map_of (sw_ports s) ip = Some p" "\<not> not_received (sw_config_flags s) p e" "\<not> bits_set (pp_config p) OFPPC_NO_PACKET_IN"
    and pkt: "r < length (sw_packets s)" "sw_packets s ! r = e" "eth_pack (lib_little (sw_lib s)) e = Inr d" "length d < 65000" "length d \<le> unat (sw_miss_send_len s)"
      "eth_parse L d = e" "layered e" "length (eth_src e) = 6" "length (eth_dst e) = 6"
    and miss: "entry_for e ip (sw_table s) = None" "match_from_packet e (Some ip) False = match_from_packet e (Some ip) True"
    and known: "map_of (lw_macs l) (eth_dst e) = Some q" "eth_dst e \<noteq> eth_src e" "q \<noteq> ip" "\<not> isMulticast (eth_dst e)"
      "lw_transparent l \<or> eth_type e \<noteq> LLDP_TYPE \<and> \<not> isBridgeFiltered (eth_dst e)"
    and out: "map_of (sw_ports s) q = Some pq" "forwards pq" "q < OFPP_MAX"
  shows "\<exists>s1 h m0 m l1 f s2 s3.
    rx_packet (Suc k) r ip None s = (Inr (), s1) \<and> sw_sent s1 = sw_sent s @ [(h, MPacketIn m0)] \<and> sw_output s1 = sw_output s \<and>
    body_sent (MPacketIn m0) = MPacketIn m \<and>
    lw_packet_in L flood_delay now m l = (Inr (), l1) \<and> lw_sent l1 = lw_sent l @ [MFlowMod f] \<and> map_of (lw_macs l1) (eth_src e) = Some ip \<and>
    rx_message k (msg_sent (hdr, MFlowMod f)) s1 = (Inr (), s2) \<and> sw_sent s2 = sw_sent s1 \<and> sw_output s2 = sw_output s @ [(q, e)] \<and>
    sw_packet_buffer s2 ! (unat (pi_buffer_id m) - 1) = None \<and>
    rx_packet (Suc k) r ip None s2 = (Inr (), s3) \<and> sw_sent s3 = sw_sent s2 \<and> sw_output s3 = sw_output s @ [(q, e), (q, e)]"
proof -
  have ok: "switch_ok s" by (rule switch_reachable_ok [OF s(1)])
  have miss': "entry_for (sw_packets s ! r) ip (sw_table s) = None" "\<not> not_received (sw_config_flags s) p (sw_packets s ! r)"
    "eth_pack (lib_little (sw_lib s)) (sw_packets s ! r) = Inr d" using miss(1) port(2) pkt by simp_all
  obtain st i b h where rx: "rx_packet_once (again k) r ip None s =
      (Inr (), s\<lparr>sw_port_stats := st, sw_lookup_count := sw_lookup_count s + 1, sw_packet_buffer := b,
         sw_sent := sw_sent s @ [(h, MPacketIn \<lparr>pi_in_port = ip, pi_buffer_id = word_of_nat i, pi_reason = 0, pi_data = d,
           pi_total_len = None\<rparr>)]\<rparr>)"
    and i: "0 < i" "i \<le> sw_max_buffers s" "i - 1 < length b" "b ! (i - 1) = Some (r, ip)"
    using table_miss_run [OF ok s(2) room(1) port(1) miss'(2) port(3) miss'(3) pkt(4,5) miss'(1)] by blast
  define s1 where "s1 = s\<lparr>sw_port_stats := st, sw_lookup_count := sw_lookup_count s + 1, sw_packet_buffer := b,
         sw_sent := sw_sent s @ [(h, MPacketIn \<lparr>pi_in_port = ip, pi_buffer_id = word_of_nat i, pi_reason = 0, pi_data = d,
           pi_total_len = None\<rparr>)]\<rparr>"
  have rx1: "rx_packet (Suc k) r ip None s = (Inr (), s1)" using rx by (simp add: s1_def)
  have ok1: "switch_ok s1"
    using keepsD [OF rx_packet_keeps, of r s "Suc k" ip None "Inr ()" s1] ok pkt(1) rx1 by (simp add: live_def)
  define m where "m = \<lparr>pi_in_port = ip, pi_buffer_id = word_of_nat i, pi_reason = 0, pi_data = d, pi_total_len = Some (length d)\<rparr>"
  have nb: "unat (word_of_nat i :: 32 word) = i" "word_of_nat i \<noteq> NO_BUFFER" using buffer_word [of i] i(2) room(2) by simp_all
  have l1: "lw_packet_in L flood_delay now m l =
      (Inr (), l\<lparr>lw_macs := d_set (eth_src e) ip (lw_macs l), lw_sent := lw_sent l @ [MFlowMod (path_flow e m q)]\<rparr>)"
    using known_destination_run [of L m e l q] pkt(6) nb known by (simp add: m_def)
  have pk: "packet_packs r s1" using miss'(3) by (simp add: packet_packs_def s1_def)
  obtain st2 e' P where msg: "rx_message k (msg_sent (hdr, MFlowMod (path_flow e m q))) s1 =
      (Inr (), s1\<lparr>sw_table := add_entry e' (filter P (sw_table s1)), sw_next_oid := sw_next_oid s1 + 1, sw_port_stats := st2,
         sw_output := sw_output s1 @ [(q, sw_packets s1 ! r)], sw_packet_buffer := (sw_packet_buffer s1)[i - 1 := None]\<rparr>)"
    and e': "te_match e' = match_sent True (match_from_packet e (Some (pi_in_port m)) False)" "te_actions e' = [ActOutput q 0]"
    and st2: "\<forall>n. map_of st2 n = None \<longleftrightarrow> map_of (sw_port_stats s1) n = None"
    using path_flow_run [OF ok1 _ _ _ out(2,3) known(3) pk i(1), where m = m and k = k and h = hdr and e = e] s(3,4) out(1) i room(2)
    by (auto simp: s1_def m_def)
  define s2 where "s2 = s1\<lparr>sw_table := add_entry e' (filter P (sw_table s1)), sw_next_oid := sw_next_oid s1 + 1, sw_port_stats := st2,
         sw_output := sw_output s1 @ [(q, sw_packets s1 ! r)], sw_packet_buffer := (sw_packet_buffer s1)[i - 1 := None]\<rparr>"
  have "match_eq (te_match e') (match_from_packet e (Some ip) True)"
    using match_sent_eq [of "match_from_packet e (Some ip) False" True] from_packet_macs [of e] from_packet_prereqs [OF pkt(7), of "Some ip"]
      from_packet_tidy [of e] pkt(8,9) miss(2) by (simp add: e'(1) m_def tidy_def)
  then have found: "entry_for e ip (sw_table s2) = Some e'"
    using entry_for_added [OF entry_for_fewer [OF miss(1)] covers_equal] by (simp add: s2_def s1_def)
  have ports: "map_of (sw_ports s2) ip = Some p" "map_of (sw_ports s2) q = Some pq" using port(1) out(1) by (simp_all add: s2_def s1_def)
  have ok2: "switch_ok s2"
    using keepsD [OF rx_message_keeps ok1 msg] by (simp add: s2_def)
  have pk2: "packet_packs r s2" using pk by (simp add: packet_packs_def s2_def)
  have e2: "sw_packets s2 ! r = e" "\<not> not_received (sw_config_flags s2) p (sw_packets s2 ! r)" "0 \<in> set (sf_acts (sw_features s2))"
    "entry_for (sw_packets s2 ! r) ip (sw_table s2) = Some e'" using found port(2) pkt(2) s(3) by (simp_all add: s2_def s1_def)
  obtain s3 where rx3: "rx_packet (Suc k) r ip None s2 = (Inr (), s3)" "sw_sent s3 = sw_sent s2" "sw_output s3 = sw_output s2 @ [(q, e)]"
    using path_packet_run [OF ok2 ports(1) e2(2) pk2 e2(4) e'(2) ports(2) out(2,3) known(3) e2(3)] e2(1) by auto
  show ?thesis
    using rx1 l1 msg rx3 pkt(2) i nb
    by (intro exI [of _ s1] exI [of _ h] exI [of _ "\<lparr>pi_in_port = ip, pi_buffer_id = word_of_nat i, pi_reason = 0, pi_data = d, pi_total_len = None\<rparr>"]
        exI [of _ m] exI [of _ "l\<lparr>lw_macs := d_set (eth_src e) ip (lw_macs l), lw_sent := lw_sent l @ [MFlowMod (path_flow e m q)]\<rparr>"]
        exI [of _ "path_flow e m q"] exI [of _ s2] exI [of _ s3])
      (simp add: s2_def s1_def m_def total_len_def map_of_d_set del: rx_packet.simps)
qed

section \<open>A concrete run\<close>

definition host_frame :: ethernet where
  "host_frame = eth_parse no_lib ([2, 0, 0, 0, 0, 9] @ [2, 0, 0, 0, 0, 7] @ [9, 0] @ [1, 2, 3])"

text \<open>A connected switch that has met the frame before, at a port that it does not have.\<close>

definition learning_switch :: switch where
  "learning_switch = (snd (set_connection two_port_switch))\<lparr>sw_packets := [plain_frame, host_frame]\<rparr>"

lemma learning_switch_reachable: "switch_reachable 1 learning_switch"
proof -
  let ?s = "snd (set_connection two_port_switch)"
  have 1: "switch_reachable 1 ?s"
    by (rule reachable_step [OF two_port_switch_reachable]) (rule step_connect [OF surjective_pairing])
  have "sbind (new_packet host_frame) (\<lambda>a. rx_packet 1 a 9 None) ?s = (Inr (), learning_switch)"
    by (simp add: new_packet_def sm_run rx_packet_once_def set_connection_def two_ports two_port_fields learning_switch_def)
  then show ?thesis by (intro reachable_step [OF 1] step_packet)
qed

lemma host_frame_fields: "eth_dst host_frame = [2, 0, 0, 0, 0, 9]" "eth_src host_frame = [2, 0, 0, 0, 0, 7]" "eth_type host_frame = 0x0900"
  "eth_next host_frame = PBytes [1, 2, 3]" "m_parsed (eth_meta host_frame)"
  by (simp_all add: host_frame_def eth_parse_def py_slice_def u16_at_def of_be_def parse_next.simps)

lemma host_frame_bytes: "eth_pack le host_frame = Inr ([2, 0, 0, 0, 0, 9] @ [2, 0, 0, 0, 0, 7] @ [9, 0] @ [1, 2, 3])"
proof -
  have "pack_H 0x0900 = [9, 0]" by code_simp
  then show ?thesis by (simp add: eth_pack_def unparsed_raw_def eth_hdr_def fmt_6s_def host_frame_fields pack_payload.simps)
qed

theorem learned_path_witness:
  "\<exists>s1 h m0 m l1 f s2 s3.
    rx_packet 5 1 1 None learning_switch = (Inr (), s1) \<and> sw_sent s1 = [(h, MPacketIn m0)] \<and> body_sent (MPacketIn m0) = MPacketIn m \<and>
    lw_packet_in no_lib 0 0 m ((new_learning 0 0 False)\<lparr>lw_macs := [([2, 0, 0, 0, 0, 9], 2)]\<rparr>) = (Inr (), l1) \<and> lw_sent l1 = [MFlowMod f] \<and>
    rx_message 4 (msg_sent (\<lparr>hdr_version = OFP_VERSION, hdr_xid = 9\<rparr>, MFlowMod f)) s1 = (Inr (), s2) \<and> sw_output s2 = [(2, host_frame)] \<and>
    rx_packet 5 1 1 None s2 = (Inr (), s3) \<and> sw_sent s3 = sw_sent s2 \<and> sw_output s3 = [(2, host_frame), (2, host_frame)]"
proof -
  note f = two_port_fields two_ports learning_switch_def set_connection_def sm_run
  let ?l = "(new_learning 0 0 False)\<lparr>lw_macs := [([2, 0, 0, 0, 0, 9], 2)]\<rparr>"
  have more: "sw_sent two_port_switch = []" "sw_output two_port_switch = []" "sw_miss_send_len two_port_switch = 64"
    by (simp_all add: two_port_switch_def add_port_def small_switch_def blank_switch_def sm_run send_port_status_def send_def plain_port_def)
  have s: "sw_connected learning_switch" "0 \<in> set (sf_acts (sw_features learning_switch))" "length (sw_table learning_switch) < unat (sw_max_entries learning_switch)"
    "length (sw_packet_buffer learning_switch) < sw_max_buffers learning_switch" "sw_max_buffers learning_switch < 2 ^ 32 - 1"
    "map_of (sw_ports learning_switch) 1 = Some (plain_port 1)" "map_of (sw_ports learning_switch) 2 = Some (plain_port 2)"
    by (simp_all add: f default_features_def)
  have p: "\<not> not_received (sw_config_flags learning_switch) (plain_port 1) host_frame" "\<not> bits_set (pp_config (plain_port 1)) OFPPC_NO_PACKET_IN"
    "forwards (plain_port 2)" "(2 :: 16 word) < OFPP_MAX"
    by (simp_all add: f not_received_def bits_set_def plain_port_def fragment_dropped_def forwards_def OFPP_defs)
  have e: "1 < length (sw_packets learning_switch)" "sw_packets learning_switch ! 1 = host_frame"
    "eth_pack (lib_little (sw_lib learning_switch)) host_frame = Inr ([2, 0, 0, 0, 0, 9] @ [2, 0, 0, 0, 0, 7] @ [9, 0] @ [1, 2, 3])"
    "length ([2, 0, 0, 0, 0, 9] @ [2, 0, 0, 0, 0, 7] @ [9, 0] @ [1, 2, 3] :: bytes) < 65000"
    "length ([2, 0, 0, 0, 0, 9] @ [2, 0, 0, 0, 0, 7] @ [9, 0] @ [1, 2, 3] :: bytes) \<le> unat (sw_miss_send_len learning_switch)"
    "layered host_frame" "length (eth_src host_frame) = 6" "length (eth_dst host_frame) = 6"
    "entry_for host_frame 1 (sw_table learning_switch) = None"
    by (simp_all add: f more host_frame_fields host_frame_bytes layered_def l2_view_def entry_for_def entry_for_packet_def)
  have m: "match_from_packet host_frame (Some 1) False = match_from_packet host_frame (Some 1) True"
    by (simp add: from_packet_l2 l2_view_def host_frame_fields match_l3_def)
  have l: "map_of (lw_macs ?l) (eth_dst host_frame) = Some 2" "eth_dst host_frame \<noteq> eth_src host_frame" "(2 :: 16 word) \<noteq> 1"
    "\<not> isMulticast (eth_dst host_frame)" "lw_transparent ?l \<or> eth_type host_frame \<noteq> LLDP_TYPE \<and> \<not> isBridgeFiltered (eth_dst host_frame)"
    by (simp_all add: host_frame_fields isMulticast_def isBridgeFiltered_def LLDP_TYPE_def)
  have "Suc 4 = 5" "sw_sent learning_switch = []" "sw_output learning_switch = []" "lw_sent ?l = []"
    by (simp_all add: f more new_learning_def)
  with learned_path [OF learning_switch_reachable s(1-6) p(1,2) e(1-5) host_frame_def [symmetric] e(6-9) m l s(7) p(3,4),
      of 4 0 0 "\<lparr>hdr_version = OFP_VERSION, hdr_xid = 9\<rparr>"]
  show ?thesis by (smt (verit) append_Nil)
qed

text \<open>The same switch with a flow that does not match: the packet waits in the buffer.\<close>

definition other_flow :: flow_mod where "other_flow = (new_flow_mod (set_in_port (Some 2) match_init) 0 0 [])"

definition busy_switch :: switch where
  "busy_switch = learning_switch\<lparr>sw_table := [from_flow_mod 0 0 other_flow], sw_next_oid := 1\<rparr>"

lemma busy_switch_reachable: "switch_reachable 1 busy_switch"
proof -
  have "rx_message 1 (h, MFlowMod other_flow) learning_switch = (Inr (), busy_switch)" for h
    using replace_run [OF switch_reachable_ok [OF learning_switch_reachable], of "fm_match other_flow" "Some 32768"]
    by (simp add: rx_message_def rx_flow_mod_def flow_mod_add_def sm_run insert_flow_def other_flow_def new_flow_mod_def bits_set_def
        set_connection_def two_port_fields busy_switch_def learning_switch_def from_flow_mod_def add_entry_before)
  then show ?thesis by (intro reachable_step [OF learning_switch_reachable] step_message) blast
qed

theorem switch_invariant_witness:
  "\<exists>s i. rx_packet 1 1 1 None busy_switch = (Inr (), s) \<and> oids (sw_table s) = [0] \<and> 0 < sw_next_oid s \<and>
     i < length (sw_packet_buffer s) \<and> sw_packet_buffer s ! i = Some (1, 1) \<and> 1 < length (sw_packets s) \<and> length (sw_packet_buffer s) \<le> 2"
proof -
  note f = two_port_fields two_ports busy_switch_def learning_switch_def set_connection_def sm_run
  have more: "sw_miss_send_len two_port_switch = 64"
    by (simp add: two_port_switch_def add_port_def small_switch_def blank_switch_def sm_run send_port_status_def send_def plain_port_def)
  have s: "sw_connected busy_switch" "length (sw_packet_buffer busy_switch) < sw_max_buffers busy_switch" "map_of (sw_ports busy_switch) 1 = Some (plain_port 1)"
    "\<not> not_received (sw_config_flags busy_switch) (plain_port 1) (sw_packets busy_switch ! 1)" "\<not> bits_set (pp_config (plain_port 1)) OFPPC_NO_PACKET_IN"
    "eth_pack (lib_little (sw_lib busy_switch)) (sw_packets busy_switch ! 1) = Inr ([2, 0, 0, 0, 0, 9] @ [2, 0, 0, 0, 0, 7] @ [9, 0] @ [1, 2, 3])"
    "length ([2, 0, 0, 0, 0, 9] @ [2, 0, 0, 0, 0, 7] @ [9, 0] @ [1, 2, 3] :: bytes) < 65000"
    "length ([2, 0, 0, 0, 0, 9] @ [2, 0, 0, 0, 0, 7] @ [9, 0] @ [1, 2, 3] :: bytes) \<le> unat (sw_miss_send_len busy_switch)"
    by (simp_all add: f more not_received_def bits_set_def plain_port_def fragment_dropped_def host_frame_bytes)
  have e: "entry_for (sw_packets busy_switch ! 1) 1 (sw_table busy_switch) = None"
    by (simp add: f table_run host_frame_fields l2_view_def other_flow_def new_flow_mod_def from_flow_mod_def)
  obtain st i b h where run: "rx_packet 1 1 1 None busy_switch = (Inr (), busy_switch\<lparr>sw_port_stats := st, sw_lookup_count := sw_lookup_count busy_switch + 1,
      sw_packet_buffer := b, sw_sent := h\<rparr>)" "i - 1 < length b" "b ! (i - 1) = Some (1, 1)"
    unfolding One_nat_def rx_packet.simps(2)
    using table_miss_run [OF switch_reachable_ok [OF busy_switch_reachable] s e, of "\<lambda>r p. rx_packet 0 r p None"] by auto
  have "switch_reachable 1 (snd (rx_packet 1 1 1 None busy_switch))"
    by (rule reachable_step [OF busy_switch_reachable step_packet_again [OF _ surjective_pairing]]) (simp add: f)
  note inv = switch_invariant [OF this, unfolded run(1) snd_conv, simplified]
  have "sw_max_buffers busy_switch = 2" by (simp add: f)
  with inv have inv: "length b \<le> 2" "\<forall>r p. Some (r, p) \<in> set b \<longrightarrow> r < length (sw_packets busy_switch)"
      "\<forall>e\<in>set (sw_table busy_switch). te_oid e < sw_next_oid busy_switch"
    by auto
  have "Some (1, 1) \<in> set b" using run(2,3) nth_mem by metis
  then have "1 < length (sw_packets busy_switch)" using inv(2) by blast
  moreover have "oids (sw_table busy_switch) = [0]" by (simp add: busy_switch_def from_flow_mod_def oids_def)
  moreover from this inv(3) have "0 < sw_next_oid busy_switch" by (auto simp: oids_def map_eq_Cons_conv)
  ultimately show ?thesis using run inv(1) by (intro exI [of _ "snd (rx_packet 1 1 1 None busy_switch)"] exI [of _ "i - 1"]) simp
qed

end
