(* ===== verification/L3_Learning.thy ===== *)
theory L3_Learning
  imports L2_Learning
begin

text \<open>
  The layer 3 learning switch (\<open>pox/pox/forwarding/l3_learning.py\<close>): what is known of hosts, the packets that wait in
  the buffers of the switches, and the ARP requests that are outstanding.  One handler runs at one time \<open>now\<close>, in
  nanoseconds; messages are recorded in \<open>l3_sent\<close> with the datapath after \<open>pack\<close> has accepted them.  The handlers are
  then joined to the software switch.
\<close>

section \<open>State\<close>

record l3_entry =
  en_timeout :: nat
  en_port :: "16 word"
  en_mac :: eth_addr

type_synonym waiting = "nat \<times> 32 word \<times> 16 word"

record l3 =
  l3_fakeways :: "ip_addr list"
  l3_arp_for_unknowns :: bool
  l3_wide :: bool
  l3_outstanding :: "(64 word \<times> ip_addr, nat) dict"
  l3_lost :: "(64 word \<times> ip_addr, waiting list) dict"
  l3_arp :: "(64 word, (ip_addr, l3_entry) dict) dict"
  l3_conns :: "64 word list"
  l3_sent :: "(64 word \<times> of_body) list"

type_synonym 'a l3m = "(l3, 'a) sm"

definition new_l3 :: "ip_addr list \<Rightarrow> bool \<Rightarrow> bool \<Rightarrow> 64 word list \<Rightarrow> l3" where
  "new_l3 fakeways arp_for_unknowns wide conns = \<lparr>l3_fakeways = fakeways, l3_arp_for_unknowns = arp_for_unknowns, l3_wide = wide,
     l3_outstanding = [], l3_lost = [], l3_arp = [], l3_conns = conns, l3_sent = []\<rparr>"

definition FLOW_IDLE_TIMEOUT :: "16 word" where "FLOW_IDLE_TIMEOUT = 10"
definition ARP_TIMEOUT :: nat where "ARP_TIMEOUT = 60 * 2 * seconds"
definition MAX_BUFFERED_PER_IP :: nat where "MAX_BUFFERED_PER_IP = 5"
definition MAX_BUFFER_TIME :: nat where "MAX_BUFFER_TIME = 5 * seconds"

definition new_entry_at :: "nat \<Rightarrow> 16 word \<Rightarrow> eth_addr \<Rightarrow> l3_entry" where
  "new_entry_at now port mac = \<lparr>en_timeout = now + ARP_TIMEOUT, en_port = port, en_mac = mac\<rparr>"

definition entry_expired :: "nat \<Rightarrow> l3_entry \<Rightarrow> bool" where
  "entry_expired now e \<longleftrightarrow> en_port e \<noteq> OFPP_NONE \<and> en_timeout e < now"

text \<open>The lower 48 bits of a datapath number as an Ethernet address.\<close>

definition dpid_to_mac :: "64 word \<Rightarrow> eth_addr" where "dpid_to_mac dpid = drop 2 (pack_Q dpid)"

section \<open>Messages\<close>

definition l3_send :: "64 word \<Rightarrow> of_body \<Rightarrow> unit l3m" where
  "l3_send dpid b = sthen (slift (rbind (msg_pack (\<lparr>hdr_version = OFP_VERSION, hdr_xid = 0\<rparr>, b)) (\<lambda>_. Inr ())))
     (smod (\<lambda>s. s\<lparr>l3_sent := l3_sent s @ [(dpid, b)]\<rparr>))"

text \<open>\<open>core.openflow.sendToDPID\<close>.\<close>

definition send_to_dpid :: "64 word \<Rightarrow> of_body \<Rightarrow> unit l3m" where
  "send_to_dpid dpid b = sbind (sget l3_conns) (\<lambda>c. if dpid \<in> set c then l3_send dpid b else sret ())"

definition buffer_out :: "32 word \<Rightarrow> 16 word \<Rightarrow> action list \<Rightarrow> packet_out" where
  "buffer_out b inport as = (new_packet_out as)\<lparr>po_buffer_id := b, po_in_port := inport\<rparr>"

section \<open>Waiting packets\<close>

definition drop_waiting :: "64 word \<times> ip_addr \<Rightarrow> waiting \<Rightarrow> l3 \<Rightarrow> l3" where
  "drop_waiting k w s =
     (case map_of (l3_lost s) k of None \<Rightarrow> s | Some v \<Rightarrow> s\<lparr>l3_lost := d_set k (remove1 w v) (l3_lost s)\<rparr>)"

definition handle_expiration :: "nat \<Rightarrow> unit l3m" where
  "handle_expiration now = sbind (sget l3_lost) (\<lambda>lost.
     sthen (sfor lost (\<lambda>(k, v). sfor v (\<lambda>(expires_at, b, inport).
        if expires_at < now
        then sthen (smod (drop_waiting k (expires_at, b, inport))) (send_to_dpid (fst k) (MPacketOut (buffer_out b inport [])))
        else sret ())))
     (smod (\<lambda>s. s\<lparr>l3_lost := filter (\<lambda>(_, v). v \<noteq> []) (l3_lost s)\<rparr>)))"

definition send_lost_buffers :: "64 word \<Rightarrow> ip_addr \<Rightarrow> eth_addr \<Rightarrow> 16 word \<Rightarrow> unit l3m" where
  "send_lost_buffers dpid ip mac port = sbind (sget (\<lambda>s. map_of (l3_lost s) (dpid, ip))) (\<lambda>bucket.
     case bucket of
       None \<Rightarrow> sret ()
     | Some v \<Rightarrow>
         sthen (smod (\<lambda>s. s\<lparr>l3_lost := d_del (dpid, ip) (l3_lost s)\<rparr>))
           (sfor v (\<lambda>(_, b, inport). send_to_dpid dpid (MPacketOut (buffer_out b inport [ActDlAddr SetDst mac, ActOutput port 0xffff])))))"

text \<open>A packet waits in a bucket of at most five; the oldest goes first.\<close>

definition keep_waiting :: "nat \<Rightarrow> 64 word \<Rightarrow> ip_addr \<Rightarrow> 32 word \<Rightarrow> 16 word \<Rightarrow> l3 \<Rightarrow> l3" where
  "keep_waiting now dpid ip b inport s =
     (let bucket = (case map_of (l3_lost s) (dpid, ip) of None \<Rightarrow> [] | Some v \<Rightarrow> v) @ [(now + MAX_BUFFER_TIME, b, inport)] in
      s\<lparr>l3_lost := d_set (dpid, ip) (drop (length bucket - MAX_BUFFERED_PER_IP) bucket) (l3_lost s)\<rparr>)"

section \<open>Learning and forwarding\<close>

definition l3_known :: "64 word \<Rightarrow> l3 \<Rightarrow> (ip_addr, l3_entry) dict" where
  "l3_known dpid s = (case map_of (l3_arp s) dpid of None \<Rightarrow> [] | Some t \<Rightarrow> t)"

definition new_datapath :: "nat \<Rightarrow> 64 word \<Rightarrow> l3 \<Rightarrow> l3" where
  "new_datapath now dpid s =
     (if map_of (l3_arp s) dpid \<noteq> None then s
      else s\<lparr>l3_arp := d_set dpid (fold (\<lambda>ip. d_set ip (new_entry_at now OFPP_NONE (dpid_to_mac dpid))) (l3_fakeways s) []) (l3_arp s)\<rparr>)"

text \<open>In wide mode the flows to a host that has moved are removed.\<close>

definition forget_flows :: "ip_addr \<Rightarrow> flow_mod" where
  "forget_flows ip = (new_flow_mod (put_nw_dst (Some (ip, 32)) (set_dl_type (Some 0x0800) match_init)) 0 0 [])\<lparr>fm_command := 3\<rparr>"

definition l3_learn :: "nat \<Rightarrow> 64 word \<Rightarrow> ip_addr \<Rightarrow> 16 word \<Rightarrow> eth_addr \<Rightarrow> unit l3m" where
  "l3_learn now dpid ip inport mac = sbind (sget (\<lambda>s. (map_of (l3_known dpid s) ip, l3_wide s))) (\<lambda>(e, wide).
     sthen (case e of
              Some e \<Rightarrow> if (en_port e, en_mac e) \<noteq> (inport, mac) \<and> wide then l3_send dpid (MFlowMod (forget_flows ip)) else sret ()
            | None \<Rightarrow> sret ())
       (smod (\<lambda>s. s\<lparr>l3_arp := d_set dpid (d_set ip (new_entry_at now inport mac) (l3_known dpid s)) (l3_arp s)\<rparr>)))"

definition route_flow :: "bool \<Rightarrow> ethernet \<Rightarrow> ip_addr \<Rightarrow> packet_in \<Rightarrow> l3_entry \<Rightarrow> flow_mod" where
  "route_flow wide packet dst m e =
     (new_flow_mod (if wide then put_nw_dst (Some (dst, 32)) (set_dl_type (Some (eth_type packet)) match_init)
                    else match_from_packet packet (Some (pi_in_port m)) False) FLOW_IDLE_TIMEOUT 0
        [ActDlAddr SetDst (en_mac e), ActOutput (en_port e) 0xffff])\<lparr>fm_buffer_id := pi_buffer_id m\<rparr>"

definition arp_frame :: "arp \<Rightarrow> eth_addr \<Rightarrow> eth_addr \<Rightarrow> 16 word \<Rightarrow> ethernet" where
  "arp_frame a src dst ty = \<lparr>eth_meta = \<lparr>m_parsed = False, m_raw = None\<rparr>, eth_dst = dst, eth_src = src, eth_type = ty,
     eth_next = PArp \<lparr>m_parsed = False, m_raw = None\<rparr> a (PBytes [])\<rparr>"

definition arp_request :: "ethernet \<Rightarrow> ip_addr \<Rightarrow> ip_addr \<Rightarrow> ethernet" where
  "arp_request packet src dst = arp_frame (default_arp\<lparr>arp_hwlen := 6, arp_opcode := 1, arp_hwdst := ETH_BROADCAST, arp_protodst := dst,
     arp_hwsrc := eth_src packet, arp_protosrc := src\<rparr>) (eth_src packet) ETH_BROADCAST 0x0806"

definition arp_reply :: "64 word \<Rightarrow> ethernet \<Rightarrow> arp \<Rightarrow> l3_entry \<Rightarrow> ethernet" where
  "arp_reply dpid packet a e = arp_frame (default_arp\<lparr>arp_hwtype := arp_hwtype a, arp_prototype := arp_prototype a, arp_hwlen := arp_hwlen a,
     arp_protolen := arp_protolen a, arp_opcode := 2, arp_hwdst := arp_hwsrc a, arp_protodst := arp_protosrc a,
     arp_protosrc := arp_protodst a, arp_hwsrc := en_mac e\<rparr>) (dpid_to_mac dpid) (arp_hwsrc a) (eth_type packet)"

definition send_frame :: "packet_lib \<Rightarrow> 64 word \<Rightarrow> 16 word \<Rightarrow> 16 word \<Rightarrow> ethernet \<Rightarrow> unit l3m" where
  "send_frame L dpid inport out e = sbind (slift (eth_pack (lib_little L) e)) (\<lambda>d.
     l3_send dpid (MPacketOut ((new_packet_out [ActOutput out 0xffff])\<lparr>po_data := d, po_in_port := inport\<rparr>)))"

definition l3_ip :: "packet_lib \<Rightarrow> nat \<Rightarrow> 64 word \<Rightarrow> packet_in \<Rightarrow> ethernet \<Rightarrow> ipv4 \<Rightarrow> unit l3m" where
  "l3_ip L now dpid m packet ip =
     (let inport = pi_in_port m; dst = ip_dstip ip in
      sthen (send_lost_buffers dpid (ip_srcip ip) (eth_src packet) inport)
      (sthen (l3_learn now dpid (ip_srcip ip) inport (eth_src packet))
      (sbind (sget id) (\<lambda>s.
        case map_of (l3_known dpid s) dst of
          Some e \<Rightarrow> if en_port e = inport then sret () else l3_send dpid (MFlowMod (route_flow (l3_wide s) packet dst m e))
        | None \<Rightarrow>
            if \<not> l3_arp_for_unknowns s then sret ()
            else
              sthen (smod (keep_waiting now dpid dst (pi_buffer_id m) inport))
              (sthen (smod (\<lambda>s. s\<lparr>l3_outstanding := filter (\<lambda>(_, v). now < v) (l3_outstanding s)\<rparr>))
              (sbind (sget (\<lambda>s. map_of (l3_outstanding s) (dpid, dst))) (\<lambda>o'.
                if o' \<noteq> None then sret ()
                else sthen (smod (\<lambda>s. s\<lparr>l3_outstanding := d_set (dpid, dst) (now + 4 * seconds) (l3_outstanding s)\<rparr>))
                       (send_frame L dpid inport OFPP_FLOOD (arp_request packet (ip_srcip ip) dst)))))))))"

definition l3_flood :: "64 word \<Rightarrow> packet_in \<Rightarrow> unit l3m" where
  "l3_flood dpid m = sbind (slift (resend m ((new_packet_out [ActOutput OFPP_FLOOD 0xffff])\<lparr>po_in_port := pi_in_port m\<rparr>))) (\<lambda>po.
     l3_send dpid (MPacketOut po))"

definition l3_arp_packet :: "packet_lib \<Rightarrow> nat \<Rightarrow> 64 word \<Rightarrow> packet_in \<Rightarrow> ethernet \<Rightarrow> arp \<Rightarrow> unit l3m" where
  "l3_arp_packet L now dpid m packet a =
     (if arp_prototype a = 0x0800 \<and> arp_hwtype a = 1 \<and> arp_protosrc a \<noteq> 0 then
        sthen (l3_learn now dpid (arp_protosrc a) (pi_in_port m) (eth_src packet))
        (sthen (send_lost_buffers dpid (arp_protosrc a) (eth_src packet) (pi_in_port m))
        (sbind (sget (\<lambda>s. map_of (l3_known dpid s) (arp_protodst a))) (\<lambda>e.
          case e of
            Some e \<Rightarrow>
              if arp_opcode a = 1 \<and> \<not> entry_expired now e then send_frame L dpid (pi_in_port m) OFPP_IN_PORT (arp_reply dpid packet a e)
              else l3_flood dpid m
          | None \<Rightarrow> l3_flood dpid m)))
      else l3_flood dpid m)"

definition l3_packet_in :: "packet_lib \<Rightarrow> nat \<Rightarrow> 64 word \<Rightarrow> packet_in \<Rightarrow> unit l3m" where
  "l3_packet_in L now dpid m =
     (let packet = eth_parse L (pi_data m) in
      if \<not> m_parsed (eth_meta packet) then sret ()
      else sthen (smod (new_datapath now dpid))
        (if eth_type packet = LLDP_TYPE then sret ()
         else case eth_next packet of
           PIpv4 _ ip _ \<Rightarrow> l3_ip L now dpid m packet ip
         | PArp _ a _ \<Rightarrow> l3_arp_packet L now dpid m packet a
         | _ \<Rightarrow> sret ()))"

section \<open>Who waits\<close>

text \<open>
  Packets wait only for addresses that their datapath does not know, at most five for each.  Between learning an
  address and sending what waits for it, that address is excepted.
\<close>

definition waits_ok :: "(64 word \<times> ip_addr) option \<Rightarrow> l3 \<Rightarrow> bool" where
  "waits_ok but s \<longleftrightarrow> d_ok (l3_lost s) \<and>
     (\<forall>d i v. map_of (l3_lost s) (d, i) = Some v \<longrightarrow> length v \<le> MAX_BUFFERED_PER_IP \<and> map_of (l3_arp s) d \<noteq> None \<and>
        (but = Some (d, i) \<or> map_of (l3_known d s) i = None))"

lemma waitsI:
  assumes "d_ok (l3_lost s)"
    and "\<And>d i v. map_of (l3_lost s) (d, i) = Some v \<Longrightarrow> length v \<le> MAX_BUFFERED_PER_IP"
    and "\<And>d i v. map_of (l3_lost s) (d, i) = Some v \<Longrightarrow> map_of (l3_arp s) d \<noteq> None"
    and "\<And>d i v. map_of (l3_lost s) (d, i) = Some v \<Longrightarrow> but \<noteq> Some (d, i) \<Longrightarrow> map_of (l3_known d s) i = None"
  shows "waits_ok but s"
  unfolding waits_ok_def
proof (intro conjI allI impI)
  fix d i v assume v: "map_of (l3_lost s) (d, i) = Some v"
  show "but = Some (d, i) \<or> map_of (l3_known d s) i = None" using assms(4) [OF v] by (cases "but = Some (d, i)") simp_all
qed (use assms(1-3) in blast)+

lemma waitsD:
  assumes "waits_ok but s"
  shows "d_ok (l3_lost s)" "map_of (l3_lost s) (d, i) = Some v \<Longrightarrow> length v \<le> MAX_BUFFERED_PER_IP"
    "map_of (l3_lost s) (d, i) = Some v \<Longrightarrow> map_of (l3_arp s) d \<noteq> None"
    "map_of (l3_lost s) (d, i) = Some v \<Longrightarrow> but \<noteq> Some (d, i) \<Longrightarrow> map_of (l3_known d s) i = None"
  using assms unfolding waits_ok_def by blast+

lemma waits_ok_cong: "l3_lost s' = l3_lost s \<Longrightarrow> l3_arp s' = l3_arp s \<Longrightarrow> waits_ok b s \<Longrightarrow> waits_ok b s'"
  by (simp add: waits_ok_def l3_known_def)

lemma l3_send_keeps [keep]: "keeps (waits_ok b) (l3_send dpid x)" "keeps (waits_ok b) (send_to_dpid dpid x)"
  unfolding send_to_dpid_def l3_send_def by (auto intro!: keep keeps_smod elim: waits_ok_cong [rotated 2])

lemma waits_fewer:
  assumes "waits_ok b s" "d_ok d" "\<And>k v. map_of d k = Some v \<Longrightarrow> \<exists>v'. map_of (l3_lost s) k = Some v' \<and> length v \<le> length v'"
  shows "waits_ok b (s\<lparr>l3_lost := d\<rparr>)"
proof -
  have sub: "\<exists>v'. map_of (l3_lost s) (dp, i) = Some v' \<and> length v \<le> length v'" if "map_of (l3_lost (s\<lparr>l3_lost := d\<rparr>)) (dp, i) = Some v" for dp i v
    using assms(3) that by simp
  have kn: "l3_known dp (s\<lparr>l3_lost := d\<rparr>) = l3_known dp s" for dp by (simp add: l3_known_def)
  show ?thesis
  proof (rule waitsI)
    fix dp i v assume "map_of (l3_lost (s\<lparr>l3_lost := d\<rparr>)) (dp, i) = Some v"
    then obtain v' where v': "map_of (l3_lost s) (dp, i) = Some v'" "length v \<le> length v'" using sub by blast
    show "length v \<le> MAX_BUFFERED_PER_IP" using v'(2) waitsD(2) [OF assms(1) v'(1)] by simp
    show "map_of (l3_arp (s\<lparr>l3_lost := d\<rparr>)) dp \<noteq> None" using waitsD(3) [OF assms(1) v'(1)] by simp
    show "map_of (l3_known dp (s\<lparr>l3_lost := d\<rparr>)) i = None" if "b \<noteq> Some (dp, i)"
      unfolding kn using waitsD(4) [OF assms(1) v'(1) that] .
  qed (simp add: assms(2))
qed

lemma drop_waiting_ok: "waits_ok b s \<Longrightarrow> waits_ok b (drop_waiting k w s)"
proof -
  assume ok: "waits_ok b s"
  show ?thesis
  proof (cases "map_of (l3_lost s) k")
    case (Some v)
    have "waits_ok b (s\<lparr>l3_lost := d_set k (remove1 w v) (l3_lost s)\<rparr>)"
      using ok Some by (intro waits_fewer) (auto simp: waits_ok_def map_of_d_set d_ok_d_set length_remove1 split: if_splits)
    with Some show ?thesis by (simp add: drop_waiting_def)
  qed (simp add: drop_waiting_def ok)
qed

lemma map_of_filter_dict: "d_ok d \<Longrightarrow> map_of (filter P d) k = Some v \<Longrightarrow> map_of d k = Some v"
  by (auto simp: d_ok_def dest!: map_of_SomeD intro: map_of_is_SomeI)

lemma d_ok_filter: "d_ok d \<Longrightarrow> d_ok (filter P d)"
  by (simp add: d_ok_def distinct_map_filter)

lemma expiration_keeps [keep]: "keeps (waits_ok b) (handle_expiration now)"
  unfolding handle_expiration_def
  by (intro keep keeps_smod drop_waiting_ok waits_fewer) (auto simp: waits_ok_def d_ok_filter dest: map_of_filter_dict)

lemma new_datapath_ok: "waits_ok b s \<Longrightarrow> waits_ok b (new_datapath now dpid s)"
proof -
  assume ok: "waits_ok b s"
  show ?thesis
  proof (cases "map_of (l3_arp s) dpid")
    case None
    have lost: "l3_lost (new_datapath now dpid s) = l3_lost s" by (simp add: new_datapath_def)
    have other: "map_of (l3_arp (new_datapath now dpid s)) d = map_of (l3_arp s) d" if "map_of (l3_arp s) d \<noteq> None" for d
      using that None by (auto simp: new_datapath_def map_of_d_set)
    show ?thesis
    proof (rule waitsI)
      fix d i v assume v: "map_of (l3_lost (new_datapath now dpid s)) (d, i) = Some v"
      note d = waitsD(2-4) [OF ok, folded lost, OF v]
      show "length v \<le> MAX_BUFFERED_PER_IP" "map_of (l3_arp (new_datapath now dpid s)) d \<noteq> None" using d other by auto
      show "map_of (l3_known d (new_datapath now dpid s)) i = None" if "b \<noteq> Some (d, i)"
        using d(3) that other [of d] d(2) by (simp add: l3_known_def)
    qed (use waitsD(1) [OF ok] lost in simp)
  qed (simp add: new_datapath_def ok)
qed

lemma send_lost_ok:
  assumes "waits_ok (Some (dpid, ip)) s"
  shows "waits_ok None (snd (send_lost_buffers dpid ip mac port s))"
proof (cases "map_of (l3_lost s) (dpid, ip)")
  case None
  have "waits_ok None s"
  proof (rule waitsI)
    fix d i v assume v: "map_of (l3_lost s) (d, i) = Some v"
    then have "(d, i) \<noteq> (dpid, ip)" using None by auto
    then have "Some (dpid, ip) \<noteq> Some (d, i)" by auto
    then show "map_of (l3_known d s) i = None" by (rule waitsD(4) [OF assms v])
  qed (use waitsD(1-3) [OF assms] in blast)+
  then show ?thesis using None by (simp add: send_lost_buffers_def sm_run)
next
  case (Some v)
  let ?s = "s\<lparr>l3_lost := d_del (dpid, ip) (l3_lost s)\<rparr>"
  have "waits_ok None ?s"
    by (rule waitsI) (use waitsD [OF assms] in \<open>auto simp: map_of_d_del d_ok_d_del l3_known_def split: if_splits\<close>)
  moreover have "keeps (waits_ok None) (sfor v (\<lambda>(_, b, inport). send_to_dpid dpid (MPacketOut (buffer_out b inport [ActDlAddr SetDst mac, ActOutput port 0xffff]))))"
    by (intro keep)
  ultimately show ?thesis by (simp add: send_lost_buffers_def sm_run Some keeps_at)
qed

lemma send_lost_gone: "map_of (l3_lost (snd (send_lost_buffers dpid ip mac port s))) (dpid, ip) = None"
proof (cases "map_of (l3_lost s) (dpid, ip)")
  case (Some v)
  have "keeps (\<lambda>s. map_of (l3_lost s) (dpid, ip) = None) (sfor v (\<lambda>(_, b, inport). send_to_dpid dpid (MPacketOut (buffer_out b inport [ActDlAddr SetDst mac, ActOutput port 0xffff]))))"
    unfolding send_to_dpid_def l3_send_def by (intro keep keeps_smod) simp
  then show ?thesis using keeps_at [where s = "s\<lparr>l3_lost := d_del (dpid, ip) (l3_lost s)\<rparr>"]
    by (fastforce simp: send_lost_buffers_def sm_run Some map_of_d_del)
qed (simp add: send_lost_buffers_def sm_run)

lemma l3_learn_ok: "waits_ok None s \<Longrightarrow> waits_ok (Some (dpid, ip)) (snd (l3_learn now dpid ip inport mac s))"
proof -
  assume "waits_ok None s"
  then have ok: "waits_ok (Some (dpid, ip)) s" by (simp add: waits_ok_def)
  have "keeps (waits_ok (Some (dpid, ip))) (smod (\<lambda>s. s\<lparr>l3_arp := d_set dpid (d_set ip (new_entry_at now inport mac) (l3_known dpid s)) (l3_arp s)\<rparr>))"
  proof (rule keeps_smod)
    show "waits_ok (Some (dpid, ip)) (s\<lparr>l3_arp := d_set dpid (d_set ip (new_entry_at now inport mac) (l3_known dpid s)) (l3_arp s)\<rparr>)"
      if "waits_ok (Some (dpid, ip)) s" for s
      by (rule waitsI; insert waitsD [OF that]) (auto simp: map_of_d_set l3_known_def split: if_splits)
  qed
  then have "keeps (waits_ok (Some (dpid, ip))) (l3_learn now dpid ip inport mac)"
    unfolding l3_learn_def by (intro keep)
  then show ?thesis using ok by (rule keeps_at)
qed

lemma learn_known: "l3_lost (snd (l3_learn now dpid ip inport mac s)) = l3_lost s"
  by (simp add: l3_learn_def l3_send_def sbind_def sget_def sthen_def smod_def slift_def sret_def split: option.split sum.split prod.split)

lemma settled_ok: "waits_ok (Some k) s \<Longrightarrow> map_of (l3_lost s) k = None \<Longrightarrow> waits_ok None s"
proof (rule waitsI)
  fix d i v assume ok: "waits_ok (Some k) s" and k: "map_of (l3_lost s) k = None" and v: "map_of (l3_lost s) (d, i) = Some v"
  have "Some k \<noteq> Some (d, i)" using k v by auto
  then show "map_of (l3_known d s) i = None" by (rule waitsD(4) [OF ok v])
qed (use waitsD(1-3) in blast)+

lemma frame_keeps [keep]: "keeps (waits_ok b) (send_frame L dpid inport out e)" "keeps (waits_ok b) (l3_flood dpid m)"
  unfolding send_frame_def l3_flood_def by (intro keep)+

lemma keep_waiting_ok:
  assumes "waits_ok None s" "map_of (l3_arp s) dpid \<noteq> None" "map_of (l3_known dpid s) ip = None"
  shows "waits_ok None (keep_waiting now dpid ip b inport s)"
proof (rule waitsI)
  let ?s = "keep_waiting now dpid ip b inport s"
  fix d i v assume v: "map_of (l3_lost ?s) (d, i) = Some v"
  have same: "l3_arp ?s = l3_arp s" "l3_known d ?s = l3_known d s" by (simp_all add: keep_waiting_def Let_def l3_known_def)
  consider "(d, i) = (dpid, ip)" | v' where "map_of (l3_lost s) (d, i) = Some v'" "v' = v"
    using v by (auto simp: keep_waiting_def Let_def map_of_d_set split: if_splits)
  then have "length v \<le> MAX_BUFFERED_PER_IP \<and> map_of (l3_arp s) d \<noteq> None \<and> map_of (l3_known d s) i = None"
  proof cases
    case 1
    then show ?thesis using assms(2,3) v by (auto simp: keep_waiting_def Let_def map_of_d_set)
  next
    case 2
    then show ?thesis using waitsD(2-4) [OF assms(1) 2(1)] by simp
  qed
  then show "length v \<le> MAX_BUFFERED_PER_IP" "map_of (l3_arp ?s) d \<noteq> None" "map_of (l3_known d ?s) i = None" using same by simp_all
qed (use waitsD(1) [OF assms(1)] in \<open>simp add: keep_waiting_def Let_def d_ok_d_set\<close>)

text \<open>The invariant while a packet of one datapath is handled.\<close>

definition serving :: "64 word \<Rightarrow> l3 \<Rightarrow> bool" where
  "serving dpid s \<longleftrightarrow> waits_ok None s \<and> map_of (l3_arp s) dpid \<noteq> None"

lemma arp_stays [keep]:
  "keeps (\<lambda>s. map_of (l3_arp s) d \<noteq> None) (l3_send dpid x)" "keeps (\<lambda>s. map_of (l3_arp s) d \<noteq> None) (send_to_dpid dpid x)"
  unfolding send_to_dpid_def l3_send_def by (intro keep keeps_smod; simp)+

lemma arp_stays_more [keep]:
  "keeps (\<lambda>s. map_of (l3_arp s) d \<noteq> None) (send_lost_buffers dpid ip mac port)"
  "keeps (\<lambda>s. map_of (l3_arp s) d \<noteq> None) (l3_learn now dpid ip inport mac)"
  "keeps (\<lambda>s. map_of (l3_arp s) d \<noteq> None) (send_frame L dpid inport out e)"
  "keeps (\<lambda>s. map_of (l3_arp s) d \<noteq> None) (l3_flood dpid m)"
  unfolding send_lost_buffers_def l3_learn_def send_frame_def l3_flood_def
  by (intro keep keeps_smod; simp add: map_of_d_set)+

lemma keeps_both: "keeps P m \<Longrightarrow> keeps Q m \<Longrightarrow> keeps (\<lambda>s. P s \<and> Q s) m"
  by (simp add: keeps_def)

lemma serving_sends [keep]:
  "keeps (serving d) (l3_send dpid x)" "keeps (serving d) (send_frame L dpid inport out e)" "keeps (serving d) (l3_flood dpid m)"
  unfolding serving_def by (intro keeps_both keep)+

text \<open>Learning an address and sending what waits for it, in the one or the other order.\<close>

lemma learn_raises: "l3_learn now dpid ip inport mac s = (Inl x, s') \<Longrightarrow> s' = s"
  by (auto simp: l3_learn_def l3_send_def sbind_def sget_def sthen_def smod_def slift_def sret_def split: option.splits sum.splits prod.splits if_splits)

lemma learn_then_send: "keeps (waits_ok None) (sthen (l3_learn now dpid ip inport mac) (send_lost_buffers dpid ip mac inport))"
  unfolding keeps_def
proof (intro allI impI)
  fix s assume s: "waits_ok None s"
  obtain r s' where l: "l3_learn now dpid ip inport mac s = (r, s')" by fastforce
  show "waits_ok None (snd (sthen (l3_learn now dpid ip inport mac) (send_lost_buffers dpid ip mac inport) s))"
  proof (cases r)
    case (Inl x)
    then have "s' = s" using learn_raises l by simp
    then show ?thesis using l s Inl by (simp add: sthen_def sbind_def)
  next
    case (Inr u)
    have "waits_ok (Some (dpid, ip)) s'" using l3_learn_ok [OF s, of dpid ip now inport mac] l by simp
    then show ?thesis using send_lost_ok l Inr by (simp add: sthen_def sbind_def)
  qed
qed

lemma send_then_learn: "keeps (waits_ok None) (sthen (send_lost_buffers dpid ip mac inport) (l3_learn now dpid ip inport mac))"
  unfolding keeps_def
proof (intro allI impI)
  fix s assume s: "waits_ok None s"
  then have "waits_ok (Some (dpid, ip)) s" by (simp add: waits_ok_def)
  then have 1: "waits_ok None (snd (send_lost_buffers dpid ip mac inport s))" by (rule send_lost_ok)
  obtain r s' where l: "send_lost_buffers dpid ip mac inport s = (r, s')" by fastforce
  have "map_of (l3_lost s') (dpid, ip) = None" using send_lost_gone [of dpid ip mac inport s] l by simp
  moreover have "waits_ok (Some (dpid, ip)) (snd (l3_learn now dpid ip inport mac s'))" using 1 l by (intro l3_learn_ok) simp
  ultimately have "waits_ok None (snd (l3_learn now dpid ip inport mac s'))" by (intro settled_ok) (simp_all add: learn_known)
  then show "waits_ok None (snd (sthen (send_lost_buffers dpid ip mac inport) (l3_learn now dpid ip inport mac) s))"
    using 1 l by (simp add: sthen_def sbind_def split: sum.split)
qed

lemma both_orders [keep]:
  "keeps (serving d) (sthen (l3_learn now dpid ip inport mac) (send_lost_buffers dpid ip mac inport))"
  "keeps (serving d) (sthen (send_lost_buffers dpid ip mac inport) (l3_learn now dpid ip inport mac))"
  unfolding serving_def by (intro keeps_both keep learn_then_send send_then_learn)+

lemma serving_outstanding [keep]: "keeps (serving d) (smod (\<lambda>s. s\<lparr>l3_outstanding := f s\<rparr>))"
  by (intro keeps_smod) (auto simp: serving_def elim!: waits_ok_cong [rotated 2])

lemma serving_waiting:
  "serving dpid s \<Longrightarrow> map_of (l3_known dpid s) ip = None \<Longrightarrow> serving dpid (keep_waiting now dpid ip b inport s)"
  using keep_waiting_ok by (auto simp: serving_def) (simp add: keep_waiting_def Let_def)

lemma l3_ip_keeps [keep]: "keeps (serving dpid) (l3_ip L now dpid m packet ip)"
proof -
  let ?tail = "sthen (smod (\<lambda>s. s\<lparr>l3_outstanding := filter (\<lambda>(_, v). now < v) (l3_outstanding s)\<rparr>))
              (sbind (sget (\<lambda>s. map_of (l3_outstanding s) (dpid, ip_dstip ip))) (\<lambda>o'.
                if o' \<noteq> None then sret ()
                else sthen (smod (\<lambda>s. s\<lparr>l3_outstanding := d_set (dpid, ip_dstip ip) (now + 4 * seconds) (l3_outstanding s)\<rparr>))
                       (send_frame L dpid (pi_in_port m) OFPP_FLOOD (arp_request packet (ip_srcip ip) (ip_dstip ip)))))"
  have tail: "keeps (serving dpid) ?tail" by (intro keep)
  have "serving dpid (snd (sthen (smod (keep_waiting now dpid (ip_dstip ip) (pi_buffer_id m) (pi_in_port m))) ?tail s))"
    if "serving dpid s" "map_of (l3_known dpid s) (ip_dstip ip) = None" for s
    using serving_waiting [OF that] keeps_at [OF tail] by (simp add: sm_run)
  then show ?thesis
    unfolding l3_ip_def Let_def sthen_regroup [of "send_lost_buffers dpid (ip_srcip ip) (eth_src packet) (pi_in_port m)"]
    by (intro keeps_sthen both_orders keeps_get)
      (simp add: keeps_at [OF serving_sends(1)] keeps_at [OF keeps_basic(1)] split: option.split)
qed

lemma l3_arp_packet_keeps [keep]: "keeps (serving dpid) (l3_arp_packet L now dpid m packet a)"
  unfolding l3_arp_packet_def sthen_regroup [of "l3_learn now dpid (arp_protosrc a) (pi_in_port m) (eth_src packet)"]
  by (intro keep)

lemma l3_packet_in_keeps: "keeps (waits_ok None) (l3_packet_in L now dpid m)"
proof -
  have new: "serving dpid (new_datapath now dpid s)" if "waits_ok None s" for s
    using new_datapath_ok [OF that] by (auto simp: serving_def new_datapath_def map_of_d_set)
  have k: "keeps (serving dpid) (if c then sret () else case n of PIpv4 x ip y \<Rightarrow> l3_ip L now dpid m p ip
         | PArp x a y \<Rightarrow> l3_arp_packet L now dpid m p a | _ \<Rightarrow> sret ())" for c n p
    by (auto intro!: keep split: payload.split)
  have "waits_ok None (snd ((if c then sret () else case n of PIpv4 x ip y \<Rightarrow> l3_ip L now dpid m p ip
         | PArp x a y \<Rightarrow> l3_arp_packet L now dpid m p a | _ \<Rightarrow> sret ()) (new_datapath now dpid s)))" if "waits_ok None s" for c n p s
    by (rule conjunct1 [OF keeps_at [OF k new [OF that], unfolded serving_def]])
  then show ?thesis by (simp add: l3_packet_in_def Let_def keeps_def sm_run)
qed

text \<open>Everything that happens to the component; switches connect and leave at any time.\<close>

inductive l3_step :: "packet_lib \<Rightarrow> l3 \<Rightarrow> l3 \<Rightarrow> bool" for L :: packet_lib where
  l3_packet: "l3_packet_in L now dpid m s = (r, s') \<Longrightarrow> l3_step L s s'"
| l3_timer: "handle_expiration now s = (r, s') \<Longrightarrow> l3_step L s s'"
| l3_switches: "l3_step L s (s\<lparr>l3_conns := c\<rparr>)"

definition l3_reachable :: "packet_lib \<Rightarrow> l3 \<Rightarrow> bool" where
  "l3_reachable L s \<longleftrightarrow> (\<exists>fakeways unknowns wide c. (l3_step L)\<^sup>*\<^sup>* (new_l3 fakeways unknowns wide c) s)"

lemma l3_step_ok: "l3_step L s s' \<Longrightarrow> waits_ok None s \<Longrightarrow> waits_ok None s'"
proof (induction rule: l3_step.induct)
  case (l3_packet now dpid m s r s')
  then show ?case using keepsD [OF l3_packet_in_keeps] by blast
next
  case (l3_timer now s r s')
  then show ?case using keepsD [OF expiration_keeps] by blast
qed (auto elim: waits_ok_cong [rotated 2])

lemma l3_reachable_ok: "l3_reachable L s \<Longrightarrow> waits_ok None s"
proof -
  have "(l3_step L)\<^sup>*\<^sup>* s0 s \<Longrightarrow> waits_ok None s0 \<Longrightarrow> waits_ok None s" for s0
    by (induction rule: rtranclp_induct) (simp_all add: l3_step_ok)
  moreover have "waits_ok None (new_l3 f u w c)" for f u w c by (simp add: waits_ok_def new_l3_def d_ok_def)
  ultimately show "l3_reachable L s \<Longrightarrow> waits_ok None s" by (auto simp: l3_reachable_def)
qed

section \<open>A host is found\<close>

text \<open>The messages that take the waiting packets to a host.\<close>

definition deliveries :: "eth_addr \<Rightarrow> 16 word \<Rightarrow> waiting list \<Rightarrow> of_body list" where
  "deliveries mac port v = map (\<lambda>(_, b, inport). MPacketOut (buffer_out b inport [ActDlAddr SetDst mac, ActOutput port 0xffff])) v"

lemma buffer_out_packs: "length mac = 6 \<Longrightarrow> packs (MPacketOut (buffer_out b p [ActDlAddr SetDst mac, ActOutput q x]))"
  by (simp add: packs_def msg_pack_def body_validate_def buffer_out_def new_packet_out_def header_pack_def pack_nat_H_def pack_actions_def
      act_pack_def packet_out_len_def packet_out_bytes_def)

lemma l3_send_run: "packs b \<Longrightarrow> l3_send dpid b s = (Inr (), s\<lparr>l3_sent := l3_sent s @ [(dpid, b)]\<rparr>)"
  by (auto simp: l3_send_def sm_run packs_def)

lemma deliveries_run:
  "dpid \<in> set (l3_conns s) \<Longrightarrow> length mac = 6 \<Longrightarrow>
   sfor v (\<lambda>(_, b, inport). send_to_dpid dpid (MPacketOut (buffer_out b inport [ActDlAddr SetDst mac, ActOutput port 0xffff]))) s =
      (Inr (), s\<lparr>l3_sent := l3_sent s @ map (Pair dpid) (deliveries mac port v)\<rparr>)"
  by (induction v arbitrary: s) (auto simp: sm_run send_to_dpid_def l3_send_run buffer_out_packs deliveries_def)

lemma send_lost_run:
  assumes "map_of (l3_lost s) (dpid, ip) = Some v" "dpid \<in> set (l3_conns s)" "length mac = 6"
  shows "send_lost_buffers dpid ip mac port s =
    (Inr (), s\<lparr>l3_lost := d_del (dpid, ip) (l3_lost s), l3_sent := l3_sent s @ map (Pair dpid) (deliveries mac port v)\<rparr>)"
  using assms(1) deliveries_run [of dpid "s\<lparr>l3_lost := d_del (dpid, ip) (l3_lost s)\<rparr>" mac v port] assms(2,3)
  by (simp add: send_lost_buffers_def sm_run)

text \<open>
  C7. Packets wait only for hosts that their switch does not know, at most five for each host, whatever packets,
  timers, connections and failures of \<open>pack\<close> came before.
\<close>

theorem waiting_unknown:
  assumes "l3_reachable L s" "map_of (l3_lost s) (dpid, ip) = Some v"
  shows "length v \<le> 5 \<and> map_of (l3_known dpid s) ip = None"
  using waitsD(2,4) [OF l3_reachable_ok [OF assms(1)] assms(2)] by (simp add: MAX_BUFFERED_PER_IP_def)

lemma parsed_source:
  assumes "m_parsed (eth_meta (eth_parse L d))"
  shows "length (eth_src (eth_parse L d)) = 6"
  using assms by (auto simp: eth_parse_def py_slice_def split: if_splits)

text \<open>What the answer to an ARP packet cannot undo.\<close>

definition found_so_far :: "64 word \<Rightarrow> ip_addr \<Rightarrow> l3_entry \<Rightarrow> (64 word \<times> of_body) list \<Rightarrow> l3 \<Rightarrow> bool" where
  "found_so_far dpid ip e ms s \<longleftrightarrow> map_of (l3_lost s) (dpid, ip) = None \<and> map_of (l3_known dpid s) ip = Some e \<and> (\<exists>rest. l3_sent s = ms @ rest)"

lemma found_keeps [keep]:
  "keeps (found_so_far dpid ip e ms) (l3_send d x)"
  "keeps (found_so_far dpid ip e ms) (send_frame L d inport out f)"
  "keeps (found_so_far dpid ip e ms) (l3_flood d m)"
  unfolding send_frame_def l3_flood_def l3_send_def
  by (intro keep keeps_smod; force simp: found_so_far_def l3_known_def)+

lemma learn_new_run:
  "map_of (l3_known dpid s) ip = None \<Longrightarrow> l3_learn now dpid ip inport mac s =
     (Inr (), s\<lparr>l3_arp := d_set dpid (d_set ip (new_entry_at now inport mac) (l3_known dpid s)) (l3_arp s)\<rparr>)"
  by (simp add: l3_learn_def sm_run)

text \<open>
  C6. When the host answers: an ARP packet from an address for which packets wait makes the component send each of
  them, in the order in which they came, to the port and the Ethernet address of the answer, before anything else;
  then nothing waits for that address and it is known there.
\<close>

theorem host_found:
  assumes s: "l3_reachable L s" "dpid \<in> set (l3_conns s)" "map_of (l3_lost s) (dpid, arp_protosrc a) = Some v"
    and e: "eth_parse L (pi_data m) = e" "m_parsed (eth_meta e)" "eth_type e \<noteq> LLDP_TYPE" "eth_next e = PArp mt a n"
    and a: "arp_prototype a = 0x0800" "arp_hwtype a = 1" "arp_protosrc a \<noteq> 0"
  shows "\<exists>r s' rest. l3_packet_in L now dpid m s = (r, s') \<and>
    l3_sent s' = l3_sent s @ map (Pair dpid) (deliveries (eth_src e) (pi_in_port m) v) @ rest \<and>
    map_of (l3_lost s') (dpid, arp_protosrc a) = None \<and>
    map_of (l3_known dpid s') (arp_protosrc a) = Some (new_entry_at now (pi_in_port m) (eth_src e))"
proof -
  let ?ip = "arp_protosrc a" and ?p = "pi_in_port m"
  note ok = waitsD(3,4) [OF l3_reachable_ok [OF s(1)] s(3)]
  have new: "new_datapath now dpid s = s" using ok(1) by (simp add: new_datapath_def)
  have len: "length (eth_src e) = 6" using parsed_source [of L "pi_data m"] e(1,2) by simp
  define s1 where "s1 = s\<lparr>l3_arp := d_set dpid (d_set ?ip (new_entry_at now ?p (eth_src e)) (l3_known dpid s)) (l3_arp s)\<rparr>"
  have l: "l3_learn now dpid ?ip ?p (eth_src e) s = (Inr (), s1)" using learn_new_run ok(2) by (simp add: s1_def)
  define s2 where "s2 = s1\<lparr>l3_lost := d_del (dpid, ?ip) (l3_lost s), l3_sent := l3_sent s @ map (Pair dpid) (deliveries (eth_src e) ?p v)\<rparr>"
  have d: "send_lost_buffers dpid ?ip (eth_src e) ?p s1 = (Inr (), s2)"
    using send_lost_run [of s1 dpid ?ip v "eth_src e" ?p] s(2,3) len by (simp add: s1_def s2_def)
  let ?found = "found_so_far dpid ?ip (new_entry_at now ?p (eth_src e)) (l3_sent s @ map (Pair dpid) (deliveries (eth_src e) ?p v))"
  have found: "?found s2"
    by (simp add: found_so_far_def s2_def s1_def map_of_d_del map_of_d_set l3_known_def)
  define answer where "answer y = (case y of
          Some z \<Rightarrow>
            if arp_opcode a = 1 \<and> \<not> entry_expired now z then send_frame L dpid ?p OFPP_IN_PORT (arp_reply dpid e a z) else l3_flood dpid m
          | None \<Rightarrow> l3_flood dpid m)" for y
  have keep_it: "keeps ?found (answer y)" for y unfolding answer_def by (intro keep)
  have "l3_packet_in L now dpid m s = answer (map_of (l3_known dpid s2) (arp_protodst a)) s2"
    using e a by (simp add: l3_packet_in_def Let_def sm_run new l3_arp_packet_def l d answer_def)
  moreover have "?found (snd (answer (map_of (l3_known dpid s2) (arp_protodst a)) s2))"
    by (rule keeps_at [OF keep_it found])
  ultimately have "?found (snd (l3_packet_in L now dpid m s))" by simp
  then show ?thesis by (cases "l3_packet_in L now dpid m s") (auto simp: found_so_far_def)
qed

section \<open>A concrete run\<close>

text \<open>A host asks for an unknown one, which then answers an ARP request.\<close>

definition host_query :: packet_in where
  "host_query = \<lparr>pi_in_port = 1, pi_buffer_id = 7, pi_reason = 0, pi_data = [2, 0, 0, 0, 0, 9, 2, 0, 0, 0, 0, 7, 8, 0] @
     [0x45, 0, 0, 20, 0, 0, 0, 0, 64, 99, 0, 0, 10, 0, 0, 1, 10, 0, 0, 2], pi_total_len = None\<rparr>"

definition host_answer :: packet_in where
  "host_answer = \<lparr>pi_in_port = 2, pi_buffer_id = 8, pi_reason = 0, pi_data = [2, 0, 0, 0, 0, 7, 2, 0, 0, 0, 0, 9, 8, 6] @
     [0, 1, 8, 0, 6, 4, 0, 2, 2, 0, 0, 0, 0, 9, 10, 0, 0, 2, 2, 0, 0, 0, 0, 7, 10, 0, 0, 1], pi_total_len = None\<rparr>"

definition l3_waiting :: l3 where
  "l3_waiting = snd (l3_packet_in no_lib 0 1 host_query (new_l3 [] True False [1]))"

lemma l3_waiting_run:
  "map_of (l3_lost l3_waiting) (1, 0x0a000002) = Some [(5000000000, 7, 1)]" "l3_conns l3_waiting = [1]"
  by code_simp+

lemma l3_waiting_reachable: "l3_reachable no_lib l3_waiting"
  unfolding l3_reachable_def l3_waiting_def by (blast intro: l3_packet [OF surjective_pairing])

theorem waiting_unknown_witness: "map_of (l3_known 1 l3_waiting) 0x0a000002 = None"
  using waiting_unknown [OF l3_waiting_reachable l3_waiting_run(1)] by simp

theorem host_found_witness:
  "\<exists>s' rest. snd (l3_packet_in no_lib 1 1 host_answer l3_waiting) = s' \<and>
    l3_sent s' = l3_sent l3_waiting @ [(1, MPacketOut (buffer_out 7 1 [ActDlAddr SetDst [2, 0, 0, 0, 0, 9], ActOutput 2 0xffff]))] @ rest"
proof -
  let ?e = "eth_parse no_lib (pi_data host_answer)"
  have "m_parsed (eth_meta ?e) \<and> eth_type ?e = 0x0806 \<and> eth_src ?e = [2, 0, 0, 0, 0, 9]" by code_simp
  then have e: "m_parsed (eth_meta ?e)" "eth_type ?e \<noteq> LLDP_TYPE" "eth_src ?e = [2, 0, 0, 0, 0, 9]" by (simp_all add: LLDP_TYPE_def)
  have "case eth_next ?e of PArp m a n \<Rightarrow> arp_prototype a = 0x0800 \<and> arp_hwtype a = 1 \<and> arp_protosrc a = 0x0a000002 | _ \<Rightarrow> False"
    by code_simp
  then obtain mt a n where a: "eth_next ?e = PArp mt a n" "arp_prototype a = 0x0800" "arp_hwtype a = 1" "arp_protosrc a = 0x0a000002"
    by (auto split: payload.splits)
  have w: "1 \<in> set (l3_conns l3_waiting)" "map_of (l3_lost l3_waiting) (1, arp_protosrc a) = Some [(5000000000, 7, 1)]" "arp_protosrc a \<noteq> 0"
    using l3_waiting_run a(4) by simp_all
  have "pi_in_port host_answer = 2" by (simp add: host_answer_def)
  then show ?thesis
    using host_found [OF l3_waiting_reachable w(1,2) refl e(1,2) a(1-3) w(3), of 1] e(3) by (auto simp: deliveries_def)
qed

end
