(* ===== verification/DHCP.thy ===== *)
theory DHCP
  imports L3_Learning
begin

text \<open>
  DHCP messages (\<open>pox/pox/lib/packet/dhcp.py\<close>) and the pool of addresses (\<open>SimpleAddressPool\<close> of
  \<open>pox/pox/proto/dhcpd.py\<close>).  The packet code was written for the byte strings of Python 2: applied to the \<open>bytes\<close> of
  Python 3, \<open>ord\<close> of an element and adding a \<open>chr\<close> raise \<open>TypeError\<close>; \<open>py_ord\<close> and \<open>plus_chr\<close> say so.
\<close>

section \<open>Messages\<close>

datatype dhcp_option = OptRaw bytes bool | OptType byte | OptIp ip_addr | OptIps "ip_addr list" | OptSeconds "32 word" | OptParams "byte list"

record dhcp =
  dh_parsed :: bool
  dh_op :: byte
  dh_htype :: byte
  dh_hlen :: byte
  dh_hops :: byte
  dh_xid :: "32 word"
  dh_secs :: "16 word"
  dh_flags :: "16 word"
  dh_ciaddr :: ip_addr
  dh_yiaddr :: ip_addr
  dh_siaddr :: ip_addr
  dh_giaddr :: ip_addr
  dh_chaddr :: "bytes option"
  dh_sname :: bytes
  dh_file :: bytes
  dh_magic :: bytes
  dh_options :: "(byte, dhcp_option) dict option"
  dh_dirty :: bool
  dh_raw_options :: bytes

definition DHCP_MAGIC :: bytes where "DHCP_MAGIC = [0x63, 0x82, 0x53, 0x63]"

text \<open>A new message; one that is parsed has no \<open>options\<close> before \<open>parseOptions\<close>.\<close>

definition new_dhcp :: dhcp where
  "new_dhcp = \<lparr>dh_parsed = False, dh_op = 0, dh_htype = 0, dh_hlen = 0, dh_hops = 0, dh_xid = 0, dh_secs = 0, dh_flags = 0,
     dh_ciaddr = 0, dh_yiaddr = 0, dh_siaddr = 0, dh_giaddr = 0, dh_chaddr = None, dh_sname = [], dh_file = [], dh_magic = DHCP_MAGIC,
     dh_options = Some [], dh_dirty = False, dh_raw_options = []\<rparr>"

definition py_ord :: "byte \<Rightarrow> nat result" where "py_ord x = Inl TypeError"
definition plus_chr :: "bytes \<Rightarrow> nat \<Rightarrow> bytes result" where "plus_chr b k = Inl TypeError"

text \<open>\<open>parseOptionSegment\<close> from an offset on; an option that comes twice is appended.\<close>

function option_segment :: "bytes \<Rightarrow> nat \<Rightarrow> (byte, bytes) dict \<Rightarrow> (byte, bytes) dict result" where
  "option_segment b ofs opts =
     (if length b \<le> ofs then Inr opts
      else rbind (py_ord (b ! ofs)) (\<lambda>opt.
        if opt = 255 then Inr opts
        else if opt = 0 then option_segment b (ofs + 1) opts
        else if length b \<le> ofs + 1 then Inr opts
        else rbind (py_ord (b ! (ofs + 1))) (\<lambda>n.
          if length b < ofs + 2 + n then Inr opts
          else let k = word_of_nat opt; v = py_slice (ofs + 2) (ofs + 2 + n) b in
            option_segment b (ofs + 2 + n) (d_set k (case map_of opts k of None \<Rightarrow> v | Some u \<Rightarrow> u @ v) opts))))"
  by pat_completeness auto
termination by (relation "measure (\<lambda>(b, ofs, opts). length b - ofs)") auto

declare option_segment.simps [simp del]

text \<open>\<open>parseOptions\<close>.  The overload option is a byte string and never equal to a number.\<close>

definition parse_options :: "bytes \<Rightarrow> (byte, bytes) dict result" where
  "parse_options raw = option_segment raw 0 []"

text \<open>The values of options; an option that its class refuses is kept as it is, marked as bad.\<close>

definition ip_list :: "bytes \<Rightarrow> ip_addr list" where
  "ip_list d = map (\<lambda>i. u32_at d (4 * i)) [0..<length d div 4]"

definition unpack_option :: "byte \<Rightarrow> bytes \<Rightarrow> dhcp_option result" where
  "unpack_option k d =
     (if k = 53 then (if length d \<noteq> 1 then Inl RuntimeError else rbind (py_ord (d ! 0)) (\<lambda>t. Inr (OptType (word_of_nat t))))
      else if k \<in> {1, 28, 50, 54} then (if length d \<noteq> 4 then Inl RuntimeError else Inr (OptIp (u32_at d 0)))
      else if k \<in> {3, 4, 6} then (if length d mod 4 \<noteq> 0 then Inl RuntimeError else Inr (OptIps (ip_list d)))
      else if k \<in> {51, 58, 59} then (if length d \<noteq> 4 then Inl RuntimeError else Inr (OptSeconds (u32_at d 0)))
      else if k = 52 then (if length d \<noteq> 1 then Inl RuntimeError else rbind (py_ord (d ! 0)) (\<lambda>t. Inr (OptRaw d False)))
      else if k = 55 then (if d = [] then Inr (OptParams []) else Inl TypeError)
      else Inr (OptRaw d False))"

definition unpack_options :: "(byte, bytes) dict \<Rightarrow> (byte, dhcp_option) dict" where
  "unpack_options opts = map (\<lambda>(k, d). (k, case unpack_option k d of Inr v \<Rightarrow> v | Inl _ \<Rightarrow> OptRaw d True)) opts"

definition dhcp_parse :: "bytes \<Rightarrow> dhcp result" where
  "dhcp_parse raw =
     (let m0 = new_dhcp\<lparr>dh_options := None\<rparr> in
      if length raw < 240 then Inr m0
      else
        let hlen = raw ! 2;
            m = m0\<lparr>dh_op := raw ! 0, dh_htype := raw ! 1, dh_hlen := hlen, dh_hops := raw ! 3, dh_xid := u32_at raw 4,
              dh_secs := u16_at raw 8, dh_flags := u16_at raw 10, dh_ciaddr := u32_at raw 12, dh_yiaddr := u32_at raw 16,
              dh_siaddr := u32_at raw 20, dh_giaddr := u32_at raw 24,
              dh_chaddr := Some (if hlen = 6 then py_slice 28 34 raw else py_slice 28 44 raw),
              dh_sname := py_slice 44 108 raw, dh_file := py_slice 102 236 raw, dh_magic := py_slice 236 240 raw, dh_parsed := True\<rparr>
        in if 16 < hlen \<or> dh_magic m \<noteq> DHCP_MAGIC then Inr m
           else rbind (parse_options (drop 240 raw)) (\<lambda>opts.
             Inr (m\<lparr>dh_raw_options := drop 240 raw, dh_options := Some (unpack_options opts), dh_dirty := opts \<noteq> []\<rparr>)))"

section \<open>Packing\<close>

text \<open>What \<open>pack\<close> of an option gives; the message type and the overload option give a \<open>str\<close>.\<close>

datatype packed = PackedBytes bytes | PackedStr byte

definition option_bytes :: "dhcp_option \<Rightarrow> packed result" where
  "option_bytes v =
     (case v of
        OptRaw d _ \<Rightarrow> Inr (PackedBytes d)
      | OptType t \<Rightarrow> Inr (PackedStr t)
      | OptIp a \<Rightarrow> Inr (PackedBytes (pack_L a))
      | OptIps as \<Rightarrow> Inr (PackedBytes (concat (map pack_L as)))
      | OptSeconds n \<Rightarrow> Inr (PackedBytes (pack_L n))
      | OptParams ps \<Rightarrow> if ps = [] then Inr (PackedBytes []) else Inl TypeError)"

definition add_part :: "byte \<Rightarrow> packed \<Rightarrow> bytes result" where
  "add_part k p = rbind (plus_chr [] (unat k)) (\<lambda>o1.
     rbind (plus_chr o1 (case p of PackedBytes v \<Rightarrow> length v | PackedStr _ \<Rightarrow> 1)) (\<lambda>o2.
     case p of
       PackedStr _ \<Rightarrow> Inl TypeError
     | PackedBytes v \<Rightarrow> if odd (length (o2 @ v)) then plus_chr (o2 @ v) 0 else Inr (o2 @ v)))"

fun chunks :: "nat \<Rightarrow> bytes \<Rightarrow> bytes list" where
  "chunks 0 v = []"
| "chunks (Suc n) v = (if v = [] then [] else take 255 v # chunks n (drop 255 v))"

definition option_parts :: "packed \<Rightarrow> packed list" where
  "option_parts p = (case p of
     PackedBytes d \<Rightarrow> if 255 < length d then map PackedBytes (chunks (length d) d) else [p]
   | PackedStr _ \<Rightarrow> [p])"

fun pack_options :: "bytes \<Rightarrow> (byte, dhcp_option) dict \<Rightarrow> bytes result" where
  "pack_options b [] = plus_chr b 255"
| "pack_options b ((k, v) # opts) =
     (if k = 255 \<or> k = 0 then pack_options b opts
      else rbind (option_bytes v) (\<lambda>d. rbind (enc_all (add_part k) (option_parts d)) (\<lambda>parts. pack_options (b @ parts) opts)))"

definition add_option :: "byte \<Rightarrow> dhcp_option \<Rightarrow> dhcp \<Rightarrow> dhcp" where
  "add_option k v m =
     (case dh_options m of
        None \<Rightarrow> m
      | Some opts \<Rightarrow> m\<lparr>dh_options := Some (d_set k v opts), dh_dirty := dh_dirty m \<or> map_of opts k \<noteq> Some v\<rparr>)"

definition fmt_s :: "nat \<Rightarrow> bytes \<Rightarrow> bytes" where "fmt_s n b = take n (b @ pad n)"

definition dhcp_hdr :: "dhcp \<Rightarrow> bytes result" where
  "dhcp_hdr m =
     rbind (case dh_options m of
        None \<Rightarrow> Inl AttributeError
      | Some opts \<Rightarrow> if dh_dirty m then pack_options [] opts else Inr (dh_raw_options m)) (\<lambda>opts.
     let chaddr = (case dh_chaddr m of None \<Rightarrow> [] | Some a \<Rightarrow> a) in
     Inr ([dh_op m, dh_htype m, dh_hlen m, dh_hops m] @ pack_L (dh_xid m) @ pack_H (dh_secs m) @ pack_H (dh_flags m) @
       pack_L (dh_ciaddr m) @ pack_L (dh_yiaddr m) @ pack_L (dh_siaddr m) @ pack_L (dh_giaddr m) @
       fmt_s 16 chaddr @ fmt_s 64 (dh_sname m) @ fmt_s 128 (dh_file m) @ fmt_s 4 (dh_magic m) @ opts))"

text \<open>Parsing a message with options and packing one that has been given options raise.\<close>

lemma option_segment_raises: "ofs < length b \<Longrightarrow> option_segment b ofs opts = Inl TypeError"
  by (simp add: option_segment.simps py_ord_def)

lemma pack_options_raise: "pack_options b opts = Inl TypeError"
proof (induction b opts rule: pack_options.induct)
  case (2 b k v opts)
  have "option_bytes v = Inl TypeError" if "option_bytes v = Inl x" for x using that by (cases v) (auto simp: option_bytes_def split: if_splits)
  moreover have "enc_all (add_part k) ps = Inl TypeError" if "ps \<noteq> []" for ps using that by (cases ps) (simp_all add: add_part_def plus_chr_def)
  moreover have "option_parts d \<noteq> []" for d
  proof -
    have "chunks (length b) b \<noteq> []" if "255 < length b" for b using that by (cases b) auto
    then show ?thesis by (simp add: option_parts_def split: packed.split)
  qed
  ultimately show ?case using 2 by (auto simp: rbind_def split: sum.split)
qed (simp add: plus_chr_def)

section \<open>The pool of addresses\<close>

record ip_pool =
  pl_first :: int
  pl_last :: int
  pl_network_size :: nat
  pl_network :: ip_addr
  pl_removed :: "ip_addr list"

definition host_size :: "ip_pool \<Rightarrow> nat" where "host_size p = 32 - pl_network_size p"
definition pool_count :: "ip_pool \<Rightarrow> int" where "pool_count p = pl_last p - pl_first p + 1"
definition pool_size :: "ip_pool \<Rightarrow> int" where "pool_size p = pool_count p - int (length (pl_removed p))"
definition subnet_mask :: "ip_pool \<Rightarrow> ip_addr" where
  "subnet_mask p = word_of_int (push_bit (host_size p) (2 ^ pl_network_size p - 1))"

text \<open>\<open>__contains__\<close>: an address of the range that has not been taken out.\<close>

definition pool_contains :: "ip_addr \<Rightarrow> ip_pool \<Rightarrow> bool" where
  "pool_contains a p \<longleftrightarrow>
     (let n = uint a; mask = 2 ^ host_size p - 1 in
      a \<notin> set (pl_removed p) \<and> (n AND mask) OR uint (pl_network p) = n \<and> n AND mask \<noteq> mask \<and>
      pl_first p \<le> n AND mask \<and> n AND mask \<le> pl_last p)"

definition pool_init :: "ip_addr \<times> nat \<Rightarrow> int \<Rightarrow> int option \<Rightarrow> int option \<Rightarrow> ip_pool result" where
  "pool_init net low high n =
     (let size = snd net;
          top = (case high of Some l \<Rightarrow> l | None \<Rightarrow> (case n of Some c \<Rightarrow> low + c - 1 | None \<Rightarrow> 2 ^ (32 - size) - 2));
          p = \<lparr>pl_first = low, pl_last = top, pl_network_size = size, pl_network = fst net, pl_removed = []\<rparr>
      in if pool_count p \<le> 0 then Inl RuntimeError
         else if low = 0 then Inl RuntimeError
         else if \<not> pool_contains (word_of_int (top OR uint (fst net))) p then Inl RuntimeError
         else Inr p)"

definition pool_append :: "ip_addr \<Rightarrow> ip_pool \<Rightarrow> ip_pool result" where
  "pool_append a p = (if a \<notin> set (pl_removed p) then Inl RuntimeError else Inr (p\<lparr>pl_removed := remove1 a (pl_removed p)\<rparr>))"

definition pool_remove :: "ip_addr \<Rightarrow> ip_pool \<Rightarrow> ip_pool result" where
  "pool_remove a p = (if pool_contains a p then Inr (p\<lparr>pl_removed := a # pl_removed p\<rparr>) else Inl RuntimeError)"

text \<open>\<open>__getitem__\<close>: the search starts behind as many addresses as have been taken out and goes round.\<close>

definition pool_addr :: "ip_pool \<Rightarrow> int \<Rightarrow> ip_addr" where
  "pool_addr p c = word_of_int (c OR uint (pl_network p))"

definition pool_next :: "ip_pool \<Rightarrow> int \<Rightarrow> int" where
  "pool_next p c = (if pl_last p < c + 1 then c + 1 - pool_count p else c + 1)"

partial_function (option) pool_start :: "ip_pool \<Rightarrow> int \<Rightarrow> int option" where
  "pool_start p c = (if pl_last p < c then pool_start p (c - pool_count p) else Some c)"

partial_function (option) pool_scan :: "ip_pool \<Rightarrow> int \<Rightarrow> int \<Rightarrow> ip_addr result option" where
  "pool_scan p index c =
     (if pool_addr p c \<notin> set (pl_removed p) then
        (if \<not> pool_contains (pool_addr p c) p then Some (Inl AssertionError)
         else if index - 1 < 0 then Some (Inr (pool_addr p c))
         else pool_scan p (index - 1) (pool_next p c))
      else pool_scan p index (pool_next p c))"

definition pool_getitem :: "ip_pool \<Rightarrow> int \<Rightarrow> ip_addr result option" where
  "pool_getitem p index =
     (if index < 0 then Some (Inl RuntimeError)
      else if pool_size p \<le> index then Some (Inl IndexError)
      else (case pool_start p (pl_first p + int (length (pl_removed p))) of None \<Rightarrow> None | Some c \<Rightarrow> pool_scan p index c))"

section \<open>What a pool is\<close>

text \<open>The range lies inside the subnet, and only addresses of the range have been taken out.\<close>

definition pool_ok :: "ip_pool \<Rightarrow> bool" where
  "pool_ok p \<longleftrightarrow> take_bit (host_size p) (uint (pl_network p)) = 0 \<and> 0 < pl_first p \<and> pl_first p \<le> pl_last p \<and>
     pl_last p < 2 ^ host_size p - 1 \<and> distinct (pl_removed p) \<and> set (pl_removed p) \<subseteq> pool_addr p ` {pl_first p..pl_last p}"

lemma and_mask: "n AND (2 ^ h - 1) = take_bit h n" for n :: int
  by (simp add: take_bit_eq_mask mask_eq_exp_minus_1)

lemma pool_addr_uint:
  assumes "pool_ok p" "c \<in> {pl_first p..pl_last p}"
  shows "uint (pool_addr p c) = c OR uint (pl_network p)" "take_bit (host_size p) (uint (pool_addr p c)) = c"
proof -
  have "host_size p \<le> 32" by (simp add: host_size_def)
  then have h: "(2 :: int) ^ host_size p \<le> 2 ^ 32" by (intro power_increasing) simp_all
  have c: "take_bit (host_size p) c = c" "take_bit 32 c = c"
    using assms h by (auto simp: pool_ok_def intro!: take_bit_int_eq_self)
  have "take_bit 32 (uint (pl_network p)) = uint (pl_network p)" using uint_lt2p [of "pl_network p"] by (intro take_bit_int_eq_self) simp_all
  then show u: "uint (pool_addr p c) = c OR uint (pl_network p)" using c(2) by (simp add: pool_addr_def uint_word_of_int_eq take_bit_or)
  show "take_bit (host_size p) (uint (pool_addr p c)) = c" unfolding u using c(1) assms(1) by (simp add: take_bit_or pool_ok_def)
qed

lemma pool_contains_addr:
  assumes "pool_ok p" "c \<in> {pl_first p..pl_last p}"
  shows "pool_contains (pool_addr p c) p \<longleftrightarrow> pool_addr p c \<notin> set (pl_removed p)"
  using pool_addr_uint [OF assms] assms by (simp add: pool_contains_def Let_def and_mask pool_ok_def)

lemma contained_in_range:
  assumes "pool_contains a p"
  shows "a \<notin> set (pl_removed p) \<and> (\<exists>c\<in>{pl_first p..pl_last p}. a = pool_addr p c)"
proof -
  let ?c = "take_bit (host_size p) (uint a)"
  have "?c OR uint (pl_network p) = uint a" "?c \<in> {pl_first p..pl_last p}" "a \<notin> set (pl_removed p)"
    using assms by (simp_all add: pool_contains_def Let_def and_mask)
  moreover from this have "a = pool_addr p ?c" by (simp add: pool_addr_def)
  ultimately show ?thesis by blast
qed

lemma pool_set: "pool_ok p \<Longrightarrow> {a. pool_contains a p} = pool_addr p ` {pl_first p..pl_last p} - set (pl_removed p)"
  using contained_in_range pool_contains_addr by blast

lemma pool_addr_inj: "pool_ok p \<Longrightarrow> inj_on (pool_addr p) {pl_first p..pl_last p}"
  by (rule inj_on_inverseI [of _ "\<lambda>a. take_bit (host_size p) (uint a)"]) (rule pool_addr_uint)

lemma pool_size_card:
  assumes "pool_ok p"
  shows "pool_size p = int (card {a. pool_contains a p})"
proof -
  let ?R = "pool_addr p ` {pl_first p..pl_last p}"
  have "card ?R = nat (pool_count p)" using card_image [OF pool_addr_inj [OF assms]] by (simp add: pool_count_def)
  moreover have sub: "set (pl_removed p) \<subseteq> ?R" "card (set (pl_removed p)) = length (pl_removed p)"
    using assms by (simp_all add: pool_ok_def distinct_card)
  moreover have "card (?R - set (pl_removed p)) = card ?R - card (set (pl_removed p))"
    using sub(1) by (intro card_Diff_subset) auto
  moreover have "card (set (pl_removed p)) \<le> card ?R" using sub(1) by (intro card_mono) auto
  moreover have "0 < pool_count p" using assms by (simp add: pool_ok_def pool_count_def)
  ultimately show ?thesis by (simp add: pool_set [OF assms] pool_size_def)
qed

lemma pool_start_range:
  assumes "0 < pool_count p" "pl_first p \<le> c"
  shows "\<exists>c'. pool_start p c = Some c' \<and> c' \<in> {pl_first p..pl_last p}"
  using assms(2)
proof (induction "nat (c - pl_last p)" arbitrary: c rule: less_induct)
  case less
  show ?case
  proof (cases "pl_last p < c")
    case True
    then have "nat (c - pool_count p - pl_last p) < nat (c - pl_last p)" "pl_first p \<le> c - pool_count p"
      using assms(1) by (simp_all add: pool_count_def)
    then show ?thesis using less.hyps [of "c - pool_count p"] True by (simp add: pool_start.simps [of p c])
  next
    case False
    then show ?thesis using less.prems by (simp add: pool_start.simps [of p c])
  qed
qed

text \<open>The search, from wherever it starts, gets nearer to an address that is left.\<close>

lemma pool_next_range: "c \<in> {pl_first p..pl_last p} \<Longrightarrow> pool_next p c \<in> {pl_first p..pl_last p}"
  by (auto simp: pool_next_def pool_count_def)

lemma pool_scan_finds:
  assumes ok: "pool_ok p" and j: "j \<in> {pl_first p..pl_last p}" "pool_addr p j \<notin> set (pl_removed p)"
    and c: "c \<in> {pl_first p..pl_last p}"
  shows "\<exists>a. pool_scan p 0 c = Some (Inr a) \<and> pool_contains a p"
  using c
proof (induction "nat ((j - c) mod pool_count p)" arbitrary: c rule: less_induct)
  case less
  have pos: "0 < pool_count p" using ok by (simp add: pool_ok_def pool_count_def)
  show ?case
  proof (cases "pool_addr p c \<in> set (pl_removed p)")
    case False
    then show ?thesis using pool_contains_addr [OF ok less.prems] by (simp add: pool_scan.simps [of p 0 c])
  next
    case True
    then have "c \<noteq> j" using j(2) by auto
    have d: "(j - pool_next p c) mod pool_count p = (j - c - 1) mod pool_count p"
    proof (cases "pl_last p < c + 1")
      case True
      then have "j - pool_next p c = (j - c - 1) + pool_count p" by (simp add: pool_next_def)
      then show ?thesis by (simp only: mod_add_self2)
    qed (simp add: pool_next_def algebra_simps)
    have "(j - c) mod pool_count p \<noteq> 0"
    proof
      assume "(j - c) mod pool_count p = 0"
      then obtain k where "j - c = pool_count p * k" by blast
      moreover have "\<bar>j - c\<bar> < pool_count p" using j(1) less.prems by (auto simp: pool_count_def)
      ultimately have "k = 0" using pos by (simp add: abs_mult)
      with \<open>j - c = pool_count p * k\<close> \<open>c \<noteq> j\<close> show False by simp
    qed
    then have "(j - c - 1) mod pool_count p = (j - c) mod pool_count p - 1"
      using mod_diff_left_eq [of "j - c" "pool_count p" 1] pos_mod_sign [OF pos, of "j - c"] pos_mod_bound [OF pos, of "j - c"]
      by (simp add: mod_pos_pos_trivial)
    then have "nat ((j - pool_next p c) mod pool_count p) < nat ((j - c) mod pool_count p)"
      using d \<open>(j - c) mod pool_count p \<noteq> 0\<close> pos_mod_sign [OF pos, of "j - c"] by linarith
    then show ?thesis using less.hyps pool_next_range [OF less.prems] True by (simp add: pool_scan.simps [of p 0 c])
  qed
qed

lemma pool_first_free:
  assumes ok: "pool_ok p" and n: "0 < pool_size p"
  shows "\<exists>a. pool_getitem p 0 = Some (Inr a) \<and> pool_contains a p"
proof -
  have "{a. pool_contains a p} \<noteq> {}"
  proof
    assume "{a. pool_contains a p} = {}"
    then show False using pool_size_card [OF ok] n by simp
  qed
  then obtain j where j: "j \<in> {pl_first p..pl_last p}" "pool_addr p j \<notin> set (pl_removed p)" using contained_in_range by blast
  obtain c where "pool_start p (pl_first p + int (length (pl_removed p))) = Some c" "c \<in> {pl_first p..pl_last p}"
    using pool_start_range [of p "pl_first p + int (length (pl_removed p))"] ok by (auto simp: pool_ok_def pool_count_def)
  then show ?thesis using pool_scan_finds [OF ok j, of c] n by (simp add: pool_getitem_def)
qed

text \<open>A pool that \<open>__init__\<close> accepts is one, when the network has no host bits and the range fits into it.\<close>

lemma pool_init_ok:
  assumes "pool_init net low high n = Inr p" "take_bit (32 - snd net) (uint (fst net)) = 0" "0 < low" "pl_last p < 2 ^ (32 - snd net)"
  shows "pool_ok p"
proof -
  let ?h = "32 - snd net" and ?a = "word_of_int (pl_last p OR uint (fst net)) :: ip_addr"
  have p: "pl_first p = low" "pl_network_size p = snd net" "pl_network p = fst net" "pl_removed p = []" "low \<le> pl_last p" "pool_contains ?a p"
    using assms(1) by (auto simp: pool_init_def Let_def pool_count_def split: if_splits)
  then have top: "take_bit ?h (pl_last p) = pl_last p" using assms(3,4) by (intro take_bit_int_eq_self) simp_all
  have "take_bit ?h (uint ?a) = take_bit ?h (pl_last p OR uint (fst net))"
    by (simp add: uint_word_of_int_eq take_bit_take_bit min_def)
  then have "take_bit ?h (uint ?a) = pl_last p" using top assms(2) by (simp add: take_bit_or)
  then have "pl_last p \<noteq> 2 ^ ?h - 1" using p(6) p(2) by (simp add: pool_contains_def Let_def and_mask host_size_def)
  then show ?thesis using p assms(2-4) by (simp add: pool_ok_def host_size_def)
qed

text \<open>
  C35. The length of a pool is the number of its addresses.  While there is one, the search for the first comes back, from
  wherever its heuristic starts, with an address of the pool; it raises \<open>IndexError\<close> exactly when the pool is empty.
\<close>

theorem pool_search:
  assumes "pool_init net low high n = Inr p0" "take_bit (32 - snd net) (uint (fst net)) = 0" "0 < low" "pl_last p0 < 2 ^ (32 - snd net)"
    and "p = p0\<lparr>pl_removed := as\<rparr>" "distinct as" "\<forall>a\<in>set as. pool_contains a p0"
  shows "pool_size p = int (card {a. pool_contains a p}) \<and>
    (if {a. pool_contains a p} = {} then pool_getitem p 0 = Some (Inl IndexError) else \<exists>a. pool_getitem p 0 = Some (Inr a) \<and> pool_contains a p)"
proof -
  have p0: "pool_ok p0" by (rule pool_init_ok [OF assms(1-4)])
  have "set as \<subseteq> pool_addr p0 ` {pl_first p0..pl_last p0}" using assms(7) contained_in_range by blast
  then have p: "pool_ok p" using p0 assms(5,6) by (simp add: pool_ok_def host_size_def pool_addr_def)
  have size: "pool_size p = int (card {a. pool_contains a p})" by (rule pool_size_card [OF p])
  have "finite {a. pool_contains a p}" unfolding pool_set [OF p] by simp
  then show ?thesis using size pool_first_free [OF p] by (auto simp: pool_getitem_def card_gt_0_iff)
qed

text \<open>All addresses of \<open>192.168.0.0/24\<close>.\<close>

definition home_pool :: ip_pool where
  "home_pool = \<lparr>pl_first = 1, pl_last = 254, pl_network_size = 24, pl_network = 0xC0A80000, pl_removed = []\<rparr>"

lemma home_pool_init: "pool_init (0xC0A80000, 24) 1 None None = Inr home_pool"
  by code_simp

lemma pool_search_witness:
  "\<exists>a. pool_getitem (home_pool\<lparr>pl_removed := [0xC0A80002, 0xC0A80001]\<rparr>) 0 = Some (Inr a) \<and>
    pool_contains a (home_pool\<lparr>pl_removed := [0xC0A80002, 0xC0A80001]\<rparr>)"
proof -
  let ?p = "home_pool\<lparr>pl_removed := [0xC0A80002, 0xC0A80001]\<rparr>"
  have "\<forall>a\<in>set [0xC0A80002, 0xC0A80001]. pool_contains a home_pool" "pool_contains 0xC0A80003 ?p" by code_simp+
  moreover have "take_bit (32 - snd (0xC0A80000 :: ip_addr, 24 :: nat)) (uint (fst (0xC0A80000 :: ip_addr, 24 :: nat))) = 0"
    "pl_last home_pool < 2 ^ (32 - snd (0xC0A80000 :: ip_addr, 24 :: nat))" by (simp_all add: take_bit_eq_mod home_pool_def)
  ultimately have "if {a. pool_contains a ?p} = {} then pool_getitem ?p 0 = Some (Inl IndexError)
      else \<exists>a. pool_getitem ?p 0 = Some (Inr a) \<and> pool_contains a ?p" and "{a. pool_contains a ?p} \<noteq> {}"
    using pool_search [OF home_pool_init _ _ _ refl, of "[0xC0A80002, 0xC0A80001]"] by auto
  then show ?thesis by (simp del: Collect_empty_eq)
qed

lemma pool_remove_ok:
  assumes "pool_ok p" "pool_contains a p"
  shows "pool_remove a p = Inr (p\<lparr>pl_removed := a # pl_removed p\<rparr>)" "pool_ok (p\<lparr>pl_removed := a # pl_removed p\<rparr>)"
    "pool_contains b (p\<lparr>pl_removed := a # pl_removed p\<rparr>) \<longleftrightarrow> pool_contains b p \<and> b \<noteq> a"
  using assms contained_in_range [OF assms(2)]
  by (auto simp: pool_remove_def pool_ok_def pool_contains_def host_size_def pool_addr_def Let_def)

lemma pool_append_ok:
  assumes "pool_ok p" "pool_append a p = Inr p'"
  shows "pool_ok p'" "pool_contains b p' \<longleftrightarrow> pool_contains b p \<or> b = a"
proof -
  have a: "a \<in> set (pl_removed p)" "p' = p\<lparr>pl_removed := remove1 a (pl_removed p)\<rparr>"
    using assms(2) by (auto simp: pool_append_def split: if_splits)
  have d: "distinct (pl_removed p)" "set (pl_removed p) \<subseteq> pool_addr p ` {pl_first p..pl_last p}" using assms(1) by (simp_all add: pool_ok_def)
  show ok: "pool_ok p'" using assms(1) a(2) d by (auto simp: pool_ok_def host_size_def pool_addr_def dest: in_mono notin_set_remove1)
  have "pool_addr p' = pool_addr p" "pl_first p' = pl_first p" "pl_last p' = pl_last p" by (auto simp: a(2) pool_addr_def)
  then have "{b. pool_contains b p'} = insert a {b. pool_contains b p}"
    unfolding pool_set [OF ok] pool_set [OF assms(1)] using a d by auto
  then show "pool_contains b p' \<longleftrightarrow> pool_contains b p \<or> b = a" by blast
qed

end
