(* ===== verification/DHCP_Server.thy ===== *)
theory DHCP_Server
  imports DHCP
begin

text \<open>
  The DHCP server (\<open>pox/pox/proto/dhcpd.py\<close>): the handlers of discover, request and release over a
  \<open>SimpleAddressPool\<close>, from the DHCP message of a packet-in on.  \<open>naks\<close> says which leases a listener of \<open>DHCPLease\<close>
  refuses; the messages sent are recorded in \<open>dd_sent\<close>.
\<close>

section \<open>State and events\<close>

record dhcpd =
  dd_ip_addr :: ip_addr
  dd_router_addr :: "ip_addr option"
  dd_dns_addr :: "ip_addr option"
  dd_subnet :: ip_addr
  dd_lease_time :: "32 word"
  dd_pool :: ip_pool
  dd_offers :: "(eth_addr, ip_addr) dict"
  dd_leases :: "(eth_addr, ip_addr) dict"
  dd_sent :: "(64 word \<times> packet_out) list"

record dhcp_event =
  de_dpid :: "64 word"
  de_port :: "16 word"
  de_src :: eth_addr
  de_srcip :: ip_addr

type_synonym 'a dd = "(dhcpd, 'a) sm"

text \<open>\<open>__init__\<close> with a pool: the own address is taken out of it.\<close>

definition new_dhcpd :: "ip_addr \<Rightarrow> ip_addr option \<Rightarrow> ip_addr option \<Rightarrow> ip_pool \<Rightarrow> dhcpd result" where
  "new_dhcpd ip router dns pool =
     (let d = \<lparr>dd_ip_addr = ip, dd_router_addr = router, dd_dns_addr = dns, dd_subnet = subnet_mask pool, dd_lease_time = 3600,
         dd_pool = pool, dd_offers = [], dd_leases = [], dd_sent = []\<rparr>
      in if pool_contains ip pool then rbind (pool_remove ip pool) (\<lambda>q. Inr (d\<lparr>dd_pool := q\<rparr>)) else Inr d)"

section \<open>Replies\<close>

definition reply_message :: "dhcp_event \<Rightarrow> dhcp \<Rightarrow> ip_addr \<Rightarrow> dhcp \<Rightarrow> dhcp" where
  "reply_message ev orig ip msg =
     add_option 54 (OptIp ip) (msg\<lparr>dh_op := 2, dh_chaddr := Some (de_src ev), dh_htype := 1, dh_hlen := 6, dh_xid := dh_xid orig\<rparr>)"

definition reply_frame :: "dhcp_event \<Rightarrow> dhcp \<Rightarrow> ip_addr \<Rightarrow> dhcp \<Rightarrow> ethernet" where
  "reply_frame ev orig ip msg =
     (let new = \<lparr>m_parsed = False, m_raw = None\<rparr>; broadcast = (dh_flags orig AND 0x8000 \<noteq> 0) in
      \<lparr>eth_meta = new, eth_dst = (if broadcast then ETH_BROADCAST else de_src ev), eth_src = dpid_to_mac (de_dpid ev), eth_type = 0x0800,
       eth_next = PIpv4 new ((default_ipv4 0)\<lparr>ip_srcip := ip, ip_dstip := (if broadcast then 0xffffffff else de_srcip ev), ip_protocol := 17\<rparr>)
         (PUdp new \<lparr>udp_srcport = 67, udp_dstport = 68, udp_len = 8, udp_csum = 0\<rparr> (POther ODhcp False (dhcp_hdr msg) None))\<rparr>)"

definition dd_reply :: "packet_lib \<Rightarrow> dhcp_event \<Rightarrow> dhcp \<Rightarrow> dhcp \<Rightarrow> unit dd" where
  "dd_reply L ev orig msg = sbind (sget dd_ip_addr) (\<lambda>ip.
     sbind (slift (eth_pack (lib_little L) (reply_frame ev orig ip (reply_message ev orig ip msg)))) (\<lambda>d.
       smod (\<lambda>s. s\<lparr>dd_sent := dd_sent s @ [(de_dpid ev, (new_packet_out [ActOutput (de_port ev) 0xffff])\<lparr>po_data := d\<rparr>)]\<rparr>)))"

definition dd_nak :: "packet_lib \<Rightarrow> dhcp_event \<Rightarrow> dhcp \<Rightarrow> unit dd" where
  "dd_nak L ev orig = sbind (sget dd_ip_addr) (\<lambda>ip. dd_reply L ev orig ((add_option 53 (OptType 6) new_dhcp)\<lparr>dh_siaddr := ip\<rparr>))"

definition dd_fill :: "byte list \<Rightarrow> dhcpd \<Rightarrow> dhcp \<Rightarrow> dhcp" where
  "dd_fill wanted s m =
     (let m1 = (if 1 \<in> set wanted then add_option 1 (OptIp (dd_subnet s)) m else m);
          m2 = (case dd_router_addr s of Some r \<Rightarrow> if 3 \<in> set wanted then add_option 3 (OptIps [r]) m1 else m1 | None \<Rightarrow> m1);
          m3 = (case dd_dns_addr s of Some r \<Rightarrow> if 6 \<in> set wanted then add_option 6 (OptIps [r]) m2 else m2 | None \<Rightarrow> m2)
      in add_option 51 (OptSeconds (dd_lease_time s)) m3)"

text \<open>The options of a message.  What the parser puts under a code is of the class of the code or raw, and a raw option has
  neither \<open>addr\<close> nor \<open>options\<close> nor \<open>type\<close>.\<close>

definition option_of :: "byte \<Rightarrow> dhcp \<Rightarrow> dhcp_option option result" where
  "option_of k p = (case dh_options p of None \<Rightarrow> Inl AttributeError | Some opts \<Rightarrow> Inr (map_of opts k))"

definition requested_ip :: "dhcp \<Rightarrow> ip_addr option result" where
  "requested_ip p = rbind (option_of 50 p) (\<lambda>v.
     case v of None \<Rightarrow> Inr None | Some (OptIp a) \<Rightarrow> Inr (Some a) | Some _ \<Rightarrow> Inl AttributeError)"

definition wanted_options :: "dhcp \<Rightarrow> byte list result" where
  "wanted_options p = rbind (option_of 55 p) (\<lambda>v.
     case v of None \<Rightarrow> Inr [] | Some (OptParams l) \<Rightarrow> Inr l | Some _ \<Rightarrow> Inl AttributeError)"

definition dd_grant :: "packet_lib \<Rightarrow> dhcp_event \<Rightarrow> dhcp \<Rightarrow> byte \<Rightarrow> ip_addr \<Rightarrow> unit dd" where
  "dd_grant L ev p ty a = sbind (slift (wanted_options p)) (\<lambda>wanted. sbind (sget id) (\<lambda>s.
     dd_reply L ev p (dd_fill wanted s ((add_option 53 (OptType ty) new_dhcp)\<lparr>dh_yiaddr := a, dh_siaddr := dd_ip_addr s\<rparr>))))"

section \<open>The handlers\<close>

definition to_pool :: "ip_addr \<Rightarrow> unit dd" where
  "to_pool a = sbind (sget dd_pool) (\<lambda>p. sbind (slift (pool_append a p)) (\<lambda>q. smod (\<lambda>s. s\<lparr>dd_pool := q\<rparr>)))"

definition from_pool :: "ip_addr \<Rightarrow> unit dd" where
  "from_pool a = sbind (sget dd_pool) (\<lambda>p. sbind (slift (pool_remove a p)) (\<lambda>q. smod (\<lambda>s. s\<lparr>dd_pool := q\<rparr>)))"

definition exec_release :: "dhcp_event \<Rightarrow> dhcp \<Rightarrow> unit dd" where
  "exec_release ev p =
     (if dh_chaddr p \<noteq> Some (de_src ev) then sret ()
      else sbind (sget (\<lambda>s. map_of (dd_leases s) (de_src ev))) (\<lambda>l.
        if l \<noteq> Some (dh_ciaddr p) then sret ()
        else sthen (smod (\<lambda>s. s\<lparr>dd_leases := d_del (de_src ev) (dd_leases s)\<rparr>)) (to_pool (dh_ciaddr p))))"

text \<open>The three places from which a request can be served.\<close>

definition from_leases :: "eth_addr \<Rightarrow> ip_addr \<Rightarrow> bool dd" where
  "from_leases src wanted = sbind (sget (\<lambda>s. map_of (dd_leases s) src)) (\<lambda>l.
     case l of
       None \<Rightarrow> sret False
     | Some a \<Rightarrow> if wanted \<noteq> a then sthen (to_pool a) (sthen (smod (\<lambda>s. s\<lparr>dd_leases := d_del src (dd_leases s)\<rparr>)) (sret False))
                 else sret True)"

definition from_offers :: "eth_addr \<Rightarrow> ip_addr \<Rightarrow> bool dd" where
  "from_offers src wanted = sbind (sget (\<lambda>s. map_of (dd_offers s) src)) (\<lambda>l.
     case l of
       None \<Rightarrow> sret False
     | Some a \<Rightarrow> if wanted \<noteq> a then sthen (to_pool a) (sthen (smod (\<lambda>s. s\<lparr>dd_offers := d_del src (dd_offers s)\<rparr>)) (sret False))
                 else sret True)"

definition from_free :: "ip_addr \<Rightarrow> bool dd" where
  "from_free wanted = sbind (sget dd_pool) (\<lambda>p. if pool_contains wanted p then sthen (from_pool wanted) (sret True) else sret False)"

definition exec_request :: "packet_lib \<Rightarrow> (eth_addr \<Rightarrow> ip_addr \<Rightarrow> bool) \<Rightarrow> dhcp_event \<Rightarrow> dhcp \<Rightarrow> unit dd" where
  "exec_request L naks ev p = sbind (slift (requested_ip p)) (\<lambda>w.
     case w of
       None \<Rightarrow> sret ()
     | Some wanted \<Rightarrow>
         let src = de_src ev in
         sbind (from_leases src wanted) (\<lambda>got1.
         sbind (if got1 then sret True else from_offers src wanted) (\<lambda>got2.
         sbind (if got2 then sret True else from_free wanted) (\<lambda>got.
           if \<not> got then dd_nak L ev p
           else sthen (smod (\<lambda>s. s\<lparr>dd_leases := d_set src wanted (dd_leases s)\<rparr>))
             (if naks src wanted then dd_nak L ev p else dd_grant L ev p 5 wanted)))))"

definition new_offer :: "dhcp \<Rightarrow> ip_pool \<Rightarrow> ip_addr result" where
  "new_offer p pool = rbind (case pool_getitem pool 0 of None \<Rightarrow> Inl RecursionError | Some r \<Rightarrow> r) (\<lambda>a.
     rbind (requested_ip p) (\<lambda>w. case w of Some b \<Rightarrow> Inr (if pool_contains b pool then b else a) | None \<Rightarrow> Inr a))"

definition exec_discover :: "packet_lib \<Rightarrow> dhcp_event \<Rightarrow> dhcp \<Rightarrow> unit dd" where
  "exec_discover L ev p = sbind (sget id) (\<lambda>s.
     let src = de_src ev in
     case map_of (dd_leases s) src of
       Some a \<Rightarrow> sthen (smod (\<lambda>s. s\<lparr>dd_leases := d_del src (dd_leases s), dd_offers := d_set src a (dd_offers s)\<rparr>)) (dd_grant L ev p 2 a)
     | None \<Rightarrow>
         (case map_of (dd_offers s) src of
            Some a \<Rightarrow> dd_grant L ev p 2 a
          | None \<Rightarrow>
              if pool_size (dd_pool s) = 0 then dd_nak L ev p
              else sbind (slift (new_offer p (dd_pool s))) (\<lambda>a.
                sthen (from_pool a) (sthen (smod (\<lambda>s. s\<lparr>dd_offers := d_set src a (dd_offers s)\<rparr>)) (dd_grant L ev p 2 a)))))"

definition dhcp_dispatch :: "packet_lib \<Rightarrow> (eth_addr \<Rightarrow> ip_addr \<Rightarrow> bool) \<Rightarrow> dhcp_event \<Rightarrow> dhcp \<Rightarrow> unit dd" where
  "dhcp_dispatch L naks ev p =
     (if \<not> dh_parsed p \<or> dh_op p \<noteq> 1 then sret ()
      else sbind (slift (option_of 53 p)) (\<lambda>t.
        case t of
          None \<Rightarrow> sret ()
        | Some (OptType ty) \<Rightarrow>
            if ty = 1 then exec_discover L ev p else if ty = 3 then exec_request L naks ev p
            else if ty = 7 then exec_release ev p else sret ()
        | Some _ \<Rightarrow> sraise AttributeError))"

section \<open>Every reply raises\<close>

definition outgoing :: "dhcp \<Rightarrow> bool" where "outgoing m \<longleftrightarrow> dh_options m \<noteq> None \<and> dh_dirty m"

lemma outgoing_add [simp]: "outgoing m \<Longrightarrow> outgoing (add_option k v m)" "outgoing (add_option k v new_dhcp)"
  by (auto simp: outgoing_def add_option_def new_dhcp_def)

lemma outgoing_fields [simp]: "outgoing (m\<lparr>dh_siaddr := a\<rparr>) = outgoing m" "outgoing (m\<lparr>dh_yiaddr := a\<rparr>) = outgoing m"
  "outgoing (m\<lparr>dh_op := b, dh_chaddr := c, dh_htype := d, dh_hlen := e, dh_xid := f\<rparr>) = outgoing m"
  by (simp_all add: outgoing_def)

lemma reply_raises: "outgoing msg \<Longrightarrow> dd_reply L ev orig msg s = (Inl TypeError, s)"
proof -
  assume "outgoing msg"
  then have "outgoing (reply_message ev orig (dd_ip_addr s) msg)" by (simp add: reply_message_def)
  then have "dhcp_hdr (reply_message ev orig (dd_ip_addr s) msg) = Inl TypeError"
    by (auto simp: dhcp_hdr_def outgoing_def pack_options_raise)
  then have "eth_pack (lib_little L) (reply_frame ev orig (dd_ip_addr s) (reply_message ev orig (dd_ip_addr s) msg)) = Inl TypeError"
    by (simp add: reply_frame_def Let_def eth_pack_def unparsed_raw_def pack_payload.simps)
  then show ?thesis by (simp add: dd_reply_def sm_run)
qed

lemma nak_raises: "dd_nak L ev orig s = (Inl TypeError, s)"
  by (simp add: dd_nak_def sm_run reply_raises)

lemma fill_outgoing: "outgoing m \<Longrightarrow> outgoing (dd_fill w s m)"
  by (simp add: dd_fill_def Let_def split: option.split)

lemma grant_raises: "\<exists>x. dd_grant L ev p ty a s = (Inl x, s)"
  by (cases "wanted_options p") (simp_all add: dd_grant_def sm_run reply_raises fill_outgoing)

section \<open>Addresses stay in their range\<close>

definition range_of :: "ip_pool \<Rightarrow> ip_addr set" where "range_of p = pool_addr p ` {pl_first p..pl_last p}"

definition held :: "dhcpd \<Rightarrow> ip_addr set" where
  "held s = ran (map_of (dd_leases s)) \<union> ran (map_of (dd_offers s))"

definition dd_ok :: "ip_addr set \<Rightarrow> ip_addr \<Rightarrow> dhcpd \<Rightarrow> bool" where
  "dd_ok R own s \<longleftrightarrow> dd_ip_addr s = own \<and> pool_ok (dd_pool s) \<and> range_of (dd_pool s) = R \<and>
     \<not> pool_contains own (dd_pool s) \<and> held s \<subseteq> R - {own}"

lemma grant_keeps [keep]: "keeps (dd_ok R own) (dd_grant L ev p ty a)" "keeps (dd_ok R own) (dd_nak L ev p)"
  using grant_raises nak_raises by (simp_all add: keeps_def) (metis snd_conv)

lemma to_pool_keeps: "a \<noteq> own \<Longrightarrow> keeps (dd_ok R own) (to_pool a)"
  unfolding keeps_def
proof (intro allI impI)
  fix s assume a: "a \<noteq> own" and ok: "dd_ok R own s"
  show "dd_ok R own (snd (to_pool a s))"
  proof (cases "pool_append a (dd_pool s)")
    case (Inr q)
    have p: "pool_ok (dd_pool s)" using ok by (simp add: dd_ok_def)
    have "range_of q = range_of (dd_pool s)"
      using Inr by (auto simp: pool_append_def range_of_def pool_addr_def split: if_splits)
    then show ?thesis using ok a pool_append_ok [OF p Inr] by (simp add: to_pool_def sm_run Inr dd_ok_def held_def)
  qed (simp add: to_pool_def sm_run ok)
qed

lemma from_pool_keeps: "keeps (dd_ok R own) (from_pool a)"
  unfolding keeps_def
proof (intro allI impI)
  fix s assume ok: "dd_ok R own s"
  show "dd_ok R own (snd (from_pool a s))"
  proof (cases "pool_contains a (dd_pool s)")
    case True
    have p: "pool_ok (dd_pool s)" using ok by (simp add: dd_ok_def)
    show ?thesis using ok pool_remove_ok [OF p True]
      by (simp add: from_pool_def sm_run dd_ok_def held_def) (simp add: range_of_def pool_addr_def)
  qed (simp add: from_pool_def pool_remove_def sm_run ok)
qed

lemma pool_member: "dd_ok R own s \<Longrightarrow> pool_contains a (dd_pool s) \<Longrightarrow> a \<in> R - {own}"
  using contained_in_range by (auto simp: dd_ok_def range_of_def)

lemma held_set:
  "held (s\<lparr>dd_leases := d_set k a (dd_leases s)\<rparr>) \<subseteq> insert a (held s)" "held (s\<lparr>dd_offers := d_set k a (dd_offers s)\<rparr>) \<subseteq> insert a (held s)"
  "held (s\<lparr>dd_leases := d_del k (dd_leases s)\<rparr>) \<subseteq> held s" "held (s\<lparr>dd_offers := d_del k (dd_offers s)\<rparr>) \<subseteq> held s"
  by (auto simp: held_def map_of_d_set map_of_d_del ran_def split: if_splits)

lemma leased_held: "map_of (dd_leases s) k = Some a \<Longrightarrow> a \<in> held s" "map_of (dd_offers s) k = Some a \<Longrightarrow> a \<in> held s"
  by (auto simp: held_def ran_def)

lemma record_keeps:
  "a \<in> R - {own} \<Longrightarrow> keeps (dd_ok R own) (smod (\<lambda>s. s\<lparr>dd_leases := d_set k a (dd_leases s)\<rparr>))"
  "a \<in> R - {own} \<Longrightarrow> keeps (dd_ok R own) (smod (\<lambda>s. s\<lparr>dd_offers := d_set k a (dd_offers s)\<rparr>))"
  "keeps (dd_ok R own) (smod (\<lambda>s. s\<lparr>dd_leases := d_del k (dd_leases s)\<rparr>))"
  "keeps (dd_ok R own) (smod (\<lambda>s. s\<lparr>dd_offers := d_del k (dd_offers s)\<rparr>))"
  by (intro keeps_smod; (use held_set in \<open>fastforce simp: dd_ok_def\<close>))+

text \<open>A place that serves a request only with an address of the range.\<close>

definition serves :: "ip_addr set \<Rightarrow> ip_addr \<Rightarrow> ip_addr \<Rightarrow> bool dd \<Rightarrow> bool" where
  "serves R own wanted m \<longleftrightarrow> keeps (dd_ok R own) m \<and> (\<forall>s s'. dd_ok R own s \<longrightarrow> m s = (Inr True, s') \<longrightarrow> wanted \<in> R - {own})"

lemma serves_or_else:
  assumes "serves R own w m" "serves R own w n"
  shows "serves R own w (sbind m (\<lambda>g. if g then sret True else n))"
  unfolding serves_def
proof (intro conjI allI impI)
  show "keeps (dd_ok R own) (sbind m (\<lambda>g. if g then sret True else n))"
    using assms by (intro keep) (simp_all add: serves_def)
  fix s s' assume s: "dd_ok R own s" and run: "sbind m (\<lambda>g. if g then sret True else n) s = (Inr True, s')"
  obtain x s1 where m: "m s = (x, s1)" by fastforce
  have s1: "dd_ok R own s1" using assms(1) s m keepsD by (fastforce simp: serves_def)
  show "w \<in> R - {own}"
  proof (cases x)
    case (Inr g)
    then show ?thesis using run m s s1 assms by (cases g) (auto simp: serves_def sbind_def)
  qed (use run m in \<open>simp add: sbind_def\<close>)
qed

lemma places_serve:
  "serves R own w (from_leases src w)" "serves R own w (from_offers src w)" "serves R own w (from_free w)"
proof -
  have away: "keeps (dd_ok R own) (sthen (to_pool a) (sthen (smod (\<lambda>s. s\<lparr>dd_leases := d_del src (dd_leases s)\<rparr>)) (sret False)))"
    "keeps (dd_ok R own) (sthen (to_pool a) (sthen (smod (\<lambda>s. s\<lparr>dd_offers := d_del src (dd_offers s)\<rparr>)) (sret False)))" if "a \<noteq> own" for a
    by (intro keep to_pool_keeps record_keeps that)+
  have h: "a \<in> R - {own}" if "dd_ok R own s" "a \<in> held s" for a s using that by (auto simp: dd_ok_def)
  have no: "sthen x (sthen y (sret False)) s \<noteq> (Inr True, s')" for x :: "unit dd" and y :: "unit dd" and s s'
    by (auto simp: sthen_def sbind_def sret_def split: sum.splits prod.splits)
  show "serves R own w (from_leases src w)"
    unfolding serves_def
  proof (intro conjI allI impI)
    show "keeps (dd_ok R own) (from_leases src w)"
      unfolding from_leases_def
      by (rule keeps_get) (use away(1) h leased_held(1) in \<open>fastforce simp: keeps_def sm_run split: option.split\<close>)
    show "w \<in> R - {own}" if "dd_ok R own s" "from_leases src w s = (Inr True, s')" for s s'
      using that h leased_held(1) [of s src] no by (auto simp: from_leases_def sm_run split: option.splits if_splits)
  qed
  show "serves R own w (from_offers src w)"
    unfolding serves_def
  proof (intro conjI allI impI)
    show "keeps (dd_ok R own) (from_offers src w)"
      unfolding from_offers_def
      by (rule keeps_get) (use away(2) h leased_held(2) in \<open>fastforce simp: keeps_def sm_run split: option.split\<close>)
    show "w \<in> R - {own}" if "dd_ok R own s" "from_offers src w s = (Inr True, s')" for s s'
      using that h leased_held(2) [of s src] no by (auto simp: from_offers_def sm_run split: option.splits if_splits)
  qed
  show "serves R own w (from_free w)"
    unfolding serves_def
  proof (intro conjI allI impI)
    show "keeps (dd_ok R own) (from_free w)" unfolding from_free_def by (intro keep from_pool_keeps)
    show "w \<in> R - {own}" if "dd_ok R own s" "from_free w s = (Inr True, s')" for s s'
      using that pool_member by (auto simp: from_free_def sm_run split: if_splits)
  qed
qed

lemma request_keeps [keep]: "keeps (dd_ok R own) (exec_request L naks ev p)"
proof -
  have "keeps (dd_ok R own) (sbind (sbind (sbind (from_leases src w) (\<lambda>g. if g then sret True else from_offers src w))
      (\<lambda>g. if g then sret True else from_free w)) (\<lambda>got. if \<not> got then dd_nak L ev p
           else sthen (smod (\<lambda>s. s\<lparr>dd_leases := d_set src w (dd_leases s)\<rparr>)) (if naks src w then dd_nak L ev p else dd_grant L ev p 5 w)))" for src w
  proof -
    let ?m = "sbind (sbind (from_leases src w) (\<lambda>g. if g then sret True else from_offers src w)) (\<lambda>g. if g then sret True else from_free w)"
    have m: "serves R own w ?m" by (intro serves_or_else places_serve)
    show ?thesis
      unfolding keeps_def
    proof (intro allI impI)
      fix s assume s: "dd_ok R own s"
      obtain x s1 where run: "?m s = (x, s1)" by fastforce
      have s1: "dd_ok R own s1" using m s run keepsD by (fastforce simp: serves_def)
      show "dd_ok R own (snd (sbind ?m (\<lambda>got. if \<not> got then dd_nak L ev p
           else sthen (smod (\<lambda>s. s\<lparr>dd_leases := d_set src w (dd_leases s)\<rparr>)) (if naks src w then dd_nak L ev p else dd_grant L ev p 5 w)) s))"
      proof (cases x)
        case (Inr got)
        have "keeps (dd_ok R own) (sthen (smod (\<lambda>s. s\<lparr>dd_leases := d_set src w (dd_leases s)\<rparr>))
            (if naks src w then dd_nak L ev p else dd_grant L ev p 5 w))" if got
          using m s run Inr that by (intro keep record_keeps) (auto simp: serves_def)
        then show ?thesis using run Inr s1 grant_keeps(2) by (auto simp: sbind_def keeps_def)
      qed (use run s1 in \<open>simp add: sbind_def\<close>)
    qed
  qed
  note whole = this
  have regroup: "sbind (sbind m f) g = sbind m (\<lambda>x. sbind (f x) g)" for m :: "bool dd" and f and g :: "bool \<Rightarrow> unit dd"
    by (auto simp: sbind_def fun_eq_iff split: prod.split sum.split)
  show ?thesis
    unfolding exec_request_def Let_def
    by (intro keeps_sbind keeps_basic keeps_option whole [unfolded regroup])
qed

lemma discover_keeps [keep]: "keeps (dd_ok R own) (exec_discover L ev p)"
  unfolding exec_discover_def Let_def
proof (rule keeps_get, unfold id_apply)
  fix s assume s: "dd_ok R own s"
  show "dd_ok R own (snd ((case map_of (dd_leases s) (de_src ev) of
       Some a \<Rightarrow> sthen (smod (\<lambda>s. s\<lparr>dd_leases := d_del (de_src ev) (dd_leases s), dd_offers := d_set (de_src ev) a (dd_offers s)\<rparr>)) (dd_grant L ev p 2 a)
     | None \<Rightarrow>
         (case map_of (dd_offers s) (de_src ev) of
            Some a \<Rightarrow> dd_grant L ev p 2 a
          | None \<Rightarrow>
              if pool_size (dd_pool s) = 0 then dd_nak L ev p
              else sbind (slift (new_offer p (dd_pool s))) (\<lambda>a.
                sthen (from_pool a) (sthen (smod (\<lambda>s. s\<lparr>dd_offers := d_set (de_src ev) a (dd_offers s)\<rparr>)) (dd_grant L ev p 2 a))))) s))"
  proof (cases "map_of (dd_leases s) (de_src ev)")
    case (Some a)
    then have "a \<in> R - {own}" using leased_held(1) s by (fastforce simp: dd_ok_def)
    then have "dd_ok R own (s\<lparr>dd_leases := d_del (de_src ev) (dd_leases s), dd_offers := d_set (de_src ev) a (dd_offers s)\<rparr>)"
      using keeps_at [OF record_keeps(2), of a R own "s\<lparr>dd_leases := d_del (de_src ev) (dd_leases s)\<rparr>"] keeps_at [OF record_keeps(3) s]
      by (simp add: sm_run)
    then show ?thesis using keeps_at [OF grant_keeps(1)] by (simp add: Some sm_run)
  next
    case None
    show ?thesis
    proof (cases "new_offer p (dd_pool s)")
      case (Inr a)
      show ?thesis
      proof (cases "pool_contains a (dd_pool s)")
        case True
        have "a \<in> R - {own}" using pool_member [OF s True] .
        then have "keeps (dd_ok R own) (sthen (from_pool a) (sthen (smod (\<lambda>s. s\<lparr>dd_offers := d_set (de_src ev) a (dd_offers s)\<rparr>)) (dd_grant L ev p 2 a)))"
          by (intro keep from_pool_keeps record_keeps)
        then show ?thesis using s keeps_at [OF grant_keeps(1) s] keeps_at [OF grant_keeps(2) s]
          by (auto simp: None Inr sm_run keeps_def split: option.split)
      next
        case False
        then have "from_pool a s = (Inl RuntimeError, s)" by (simp add: from_pool_def pool_remove_def sm_run)
        then show ?thesis using s keeps_at [OF grant_keeps(1) s] keeps_at [OF grant_keeps(2) s]
          by (auto simp: None Inr sm_run split: option.split)
      qed
    next
      case (Inl x)
      then show ?thesis using s keeps_at [OF grant_keeps(1) s] keeps_at [OF grant_keeps(2) s]
        by (auto simp: None sm_run split: option.split)
    qed
  qed
qed

lemma release_keeps [keep]: "keeps (dd_ok R own) (exec_release ev p)"
proof -
  have "dd_ok R own (snd (sthen (smod (\<lambda>s. s\<lparr>dd_leases := d_del (de_src ev) (dd_leases s)\<rparr>)) (to_pool a) s))"
    if s: "dd_ok R own s" and a: "map_of (dd_leases s) (de_src ev) = Some a" for s a
  proof -
    have "a \<noteq> own" using s leased_held(1) [OF a] by (auto simp: dd_ok_def)
    then have "keeps (dd_ok R own) (sthen (smod (\<lambda>s. s\<lparr>dd_leases := d_del (de_src ev) (dd_leases s)\<rparr>)) (to_pool a))"
      by (intro keep to_pool_keeps record_keeps)
    then show ?thesis using s by (rule keeps_at)
  qed
  then show ?thesis
    unfolding exec_release_def by (intro keep keeps_get) (auto simp: sm_run)
qed

lemma dispatch_keeps: "keeps (dd_ok R own) (dhcp_dispatch L naks ev p)"
  unfolding dhcp_dispatch_def by (intro keep) (auto intro!: keep split: dhcp_option.split)

text \<open>All messages, whatever the listeners say, from a new server on.\<close>

inductive dhcp_run :: "packet_lib \<Rightarrow> dhcpd \<Rightarrow> dhcpd \<Rightarrow> bool" for L :: packet_lib where
  dhcp_start: "dhcp_run L s s"
| dhcp_more: "dhcp_run L s s' \<Longrightarrow> dhcp_dispatch L naks ev p s' = (r, s'') \<Longrightarrow> dhcp_run L s s''"

lemma new_dhcpd_ok:
  assumes "pool_ok p" "new_dhcpd ip router dns p = Inr s"
  shows "dd_ok (range_of p) ip s"
proof (cases "pool_contains ip p")
  case True
  let ?q = "p\<lparr>pl_removed := ip # pl_removed p\<rparr>"
  note q = pool_remove_ok [OF assms(1) True]
  have "range_of ?q = range_of p" by (simp add: range_of_def pool_addr_def)
  moreover have "dd_pool s = ?q" "dd_ip_addr s = ip" "held s = {}"
    using assms(2) True q(1) by (auto simp: new_dhcpd_def Let_def held_def)
  ultimately show ?thesis using q(2,3) by (simp add: dd_ok_def)
qed (use assms in \<open>auto simp: new_dhcpd_def Let_def dd_ok_def held_def\<close>)

lemma dhcp_run_ok: "dhcp_run L s s' \<Longrightarrow> dd_ok R own s \<Longrightarrow> dd_ok R own s'"
proof (induction rule: dhcp_run.induct)
  case (dhcp_more s s' naks ev p r s'')
  then show ?case using keepsD [OF dispatch_keeps _ dhcp_more.hyps(2), of R own] by blast
qed

text \<open>
  C34. Whatever messages a DHCP server has taken, and whatever its listeners answered: an address that it has leased or
  offered lies in the configured range of its subnet, is not the broadcast address of the subnet, and is not the
  server's own.
\<close>

theorem leased_in_range:
  assumes "pool_ok p" "new_dhcpd ip router dns p = Inr s0" "dhcp_run L s0 s"
    and "map_of (dd_leases s) c = Some a \<or> map_of (dd_offers s) c = Some a"
  shows "a \<noteq> ip \<and> (\<exists>h. pl_first p \<le> h \<and> h \<le> pl_last p \<and> uint a = h OR uint (pl_network p) \<and>
    take_bit (host_size p) (uint a) = h \<and> h < 2 ^ host_size p - 1)"
proof -
  have ok: "dd_ok (range_of p) ip s" using dhcp_run_ok [OF assms(3) new_dhcpd_ok [OF assms(1,2)]] .
  have "a \<in> held s" using assms(4) leased_held by blast
  then have "a \<noteq> ip" "a \<in> range_of p" using ok by (auto simp: dd_ok_def)
  then obtain h where h: "h \<in> {pl_first p..pl_last p}" "a = pool_addr p h" by (auto simp: range_of_def)
  then show ?thesis using pool_addr_uint [OF assms(1) h(1)] assms(1) \<open>a \<noteq> ip\<close>
    by (intro conjI exI [of _ h]) (auto simp: pool_ok_def)
qed

text \<open>A server for \<open>192.168.0.0/24\<close> and a request for \<open>192.168.0.5\<close>.\<close>

definition home_server :: dhcpd where
  "home_server = \<lparr>dd_ip_addr = 0xC0A800FE, dd_router_addr = None, dd_dns_addr = None, dd_subnet = 0xFFFFFF00, dd_lease_time = 3600,
     dd_pool = home_pool\<lparr>pl_removed := [0xC0A800FE]\<rparr>, dd_offers = [], dd_leases = [], dd_sent = []\<rparr>"

lemma home_started: "new_dhcpd 0xC0A800FE None None home_pool = Inr home_server"
  by code_simp

lemma home_pool_ok: "pool_ok home_pool"
  by (simp add: home_pool_def pool_ok_def host_size_def take_bit_eq_mod)

section \<open>One address, two clients\<close>

definition client_message :: "byte \<Rightarrow> ip_addr option \<Rightarrow> dhcp" where
  "client_message ty w = new_dhcp\<lparr>dh_parsed := True, dh_op := 1,
     dh_options := Some ((53, OptType ty) # (case w of None \<Rightarrow> [] | Some a \<Rightarrow> [(50, OptIp a)]))\<rparr>"

definition release_message :: "eth_addr \<Rightarrow> ip_addr \<Rightarrow> dhcp" where
  "release_message c a = (client_message 7 None)\<lparr>dh_chaddr := Some c, dh_ciaddr := a\<rparr>"

definition client_event :: "64 word \<Rightarrow> 16 word \<Rightarrow> eth_addr \<Rightarrow> dhcp_event" where
  "client_event dpid port c = \<lparr>de_dpid = dpid, de_port = port, de_src = c, de_srcip = 0\<rparr>"

definition after_messages :: "packet_lib \<Rightarrow> (eth_addr \<Rightarrow> ip_addr \<Rightarrow> bool) \<Rightarrow> (dhcp_event \<times> dhcp) list \<Rightarrow> dhcpd \<Rightarrow> dhcpd" where
  "after_messages L naks ms s = fold (\<lambda>(ev, p) s. snd (dhcp_dispatch L naks ev p s)) ms s"

lemmas client_simps = client_message_def release_message_def client_event_def dhcp_dispatch_def option_of_def new_dhcp_def

lemma snd_grant: "snd (dd_grant L ev p ty a s) = s" "snd (dd_nak L ev p s) = s"
  using grant_raises [of L ev p ty a s] nak_raises [of L ev p s] by auto

lemma discover_new:
  assumes "pool_ok (dd_pool s)" "pool_contains x (dd_pool s)" "map_of (dd_leases s) c = None" "map_of (dd_offers s) c = None"
  shows "snd (dhcp_dispatch L naks (client_event d q c) (client_message 1 (Some x)) s) =
    s\<lparr>dd_pool := (dd_pool s)\<lparr>pl_removed := x # pl_removed (dd_pool s)\<rparr>, dd_offers := d_set c x (dd_offers s)\<rparr>"
proof -
  have "pool_size (dd_pool s) = int (card {a. pool_contains a (dd_pool s)})" by (rule pool_size_card [OF assms(1)])
  moreover have "finite {a. pool_contains a (dd_pool s)}" unfolding pool_set [OF assms(1)] by simp
  ultimately have n: "0 < pool_size (dd_pool s)" using assms(2) card_gt_0_iff [of "{a. pool_contains a (dd_pool s)}"] by auto
  obtain y where "pool_getitem (dd_pool s) 0 = Some (Inr y)" using pool_first_free [OF assms(1) n] by blast
  then have "new_offer (client_message 1 (Some x)) (dd_pool s) = Inr x"
    using assms(2) by (simp add: new_offer_def requested_ip_def client_simps)
  moreover have "dhcp_dispatch L naks (client_event d q c) (client_message 1 (Some x)) =
      exec_discover L (client_event d q c) (client_message 1 (Some x))" by (simp add: client_simps fun_eq_iff sm_run)
  moreover have "de_src (client_event d q c) = c" by (simp add: client_event_def)
  ultimately show ?thesis
    using n pool_remove_ok(1) [OF assms(1,2)] assms(3,4)
    by (simp add: exec_discover_def Let_def sm_run from_pool_def snd_grant)
qed

lemma request_dispatch:
  "dhcp_dispatch L naks (client_event d q c) (client_message 3 (Some x)) = exec_request L naks (client_event d q c) (client_message 3 (Some x))"
  "requested_ip (client_message 3 (Some x)) = Inr (Some x)" "de_src (client_event d q c) = c"
  by (simp_all add: client_simps fun_eq_iff sm_run requested_ip_def)

lemma places_run:
  "map_of (dd_leases s) c = None \<Longrightarrow> from_leases c x s = (Inr False, s)"
  "map_of (dd_offers s) c = None \<Longrightarrow> from_offers c x s = (Inr False, s)"
  "map_of (dd_offers s) c = Some x \<Longrightarrow> from_offers c x s = (Inr True, s)"
  by (simp_all add: from_leases_def from_offers_def sm_run)

lemma from_free_run:
  assumes "pool_ok (dd_pool s)" "pool_contains x (dd_pool s)"
  shows "from_free x s = (Inr True, s\<lparr>dd_pool := (dd_pool s)\<lparr>pl_removed := x # pl_removed (dd_pool s)\<rparr>\<rparr>)"
  using assms pool_remove_ok(1) [OF assms] by (simp add: from_free_def from_pool_def sm_run)

lemma granted_or_refused:
  "snd (sthen m (if naks c x then dd_nak L ev p else dd_grant L ev p ty x) s) = snd (m s)"
  by (auto simp: sthen_def sbind_def snd_grant split: prod.split sum.split)

lemma request_run:
  assumes "map_of (dd_leases s) c = None"
    and "sbind (from_offers c x) (\<lambda>g. if g then sret True else from_free x) s = (Inr True, s')"
  shows "snd (dhcp_dispatch L naks (client_event d q c) (client_message 3 (Some x)) s) = s'\<lparr>dd_leases := d_set c x (dd_leases s')\<rparr>"
proof -
  have "sbind (from_offers c x) (\<lambda>g. sbind (if g then sret True else from_free x) k) s = k True s'" for k :: "bool \<Rightarrow> unit dd"
    using assms(2) by (auto simp: sbind_def split: prod.splits sum.splits)
  moreover have skip: "sbind (slift (Inr v)) f s = f v s" "sbind (from_leases c x) g s = g False s"
    for v :: "ip_addr option" and f :: "_ \<Rightarrow> unit dd" and g :: "_ \<Rightarrow> unit dd"
    by (simp_all add: sbind_def slift_def places_run(1) [OF assms(1)])
  ultimately show ?thesis
    unfolding request_dispatch(1)
    by (simp add: exec_request_def Let_def request_dispatch(2,3) skip granted_or_refused smod_def del: if_split)
qed

lemma request_offered:
  assumes "map_of (dd_leases s) c = None" "map_of (dd_offers s) c = Some x"
  shows "snd (dhcp_dispatch L naks (client_event d q c) (client_message 3 (Some x)) s) = s\<lparr>dd_leases := d_set c x (dd_leases s)\<rparr>"
  by (rule request_run [OF assms(1)]) (simp add: sbind_def places_run(3) [OF assms(2)] sret_def)

lemma request_free:
  assumes "map_of (dd_leases s) c = None" "map_of (dd_offers s) c = None" "pool_ok (dd_pool s)" "pool_contains x (dd_pool s)"
  shows "snd (dhcp_dispatch L naks (client_event d q c) (client_message 3 (Some x)) s) =
    s\<lparr>dd_pool := (dd_pool s)\<lparr>pl_removed := x # pl_removed (dd_pool s)\<rparr>, dd_leases := d_set c x (dd_leases s)\<rparr>"
  using request_run [OF assms(1), of x] assms(2) by (simp add: sbind_def places_run from_free_run [OF assms(3,4)])

lemma release_leased:
  assumes "map_of (dd_leases s) c = Some x" "pool_append x (dd_pool s) = Inr p"
  shows "snd (dhcp_dispatch L naks (client_event d q c) (release_message c x) s) = s\<lparr>dd_leases := d_del c (dd_leases s), dd_pool := p\<rparr>"
  using assms by (simp add: client_simps sm_run exec_release_def to_pool_def)

text \<open>
  An offer is not forgotten when it is accepted.  So a client can take an address, give it back and, when another
  client has leased it in the meantime, take it again: the server has leased one address to two clients, and every
  message was in order.
\<close>

theorem address_leased_twice:
  assumes "pool_ok (dd_pool s)" "pool_contains x (dd_pool s)" "a \<noteq> b"
    and "map_of (dd_leases s) a = None" "map_of (dd_offers s) a = None" "map_of (dd_leases s) b = None" "map_of (dd_offers s) b = None"
  shows "let s' = after_messages L naks
      [(client_event d q a, client_message 1 (Some x)), (client_event d q a, client_message 3 (Some x)),
       (client_event d q a, release_message a x), (client_event d q b, client_message 3 (Some x)),
       (client_event d q a, client_message 3 (Some x))] s
    in map_of (dd_leases s') a = Some x \<and> map_of (dd_leases s') b = Some x"
proof -
  let ?p = "(dd_pool s)\<lparr>pl_removed := x # pl_removed (dd_pool s)\<rparr>"
  have p: "pool_ok ?p" by (rule pool_remove_ok(2) [OF assms(1,2)])
  define s1 where "s1 = s\<lparr>dd_pool := ?p, dd_offers := d_set a x (dd_offers s)\<rparr>"
  define s2 where "s2 = s1\<lparr>dd_leases := d_set a x (dd_leases s1)\<rparr>"
  have 1: "snd (dhcp_dispatch L naks (client_event d q a) (client_message 1 (Some x)) s) = s1"
    using discover_new [OF assms(1,2,4,5)] by (simp add: s1_def)
  have 2: "snd (dhcp_dispatch L naks (client_event d q a) (client_message 3 (Some x)) s1) = s2"
    using request_offered [of s1 a x] assms(4) by (simp add: s1_def s2_def map_of_d_set)
  have ap: "pool_append x ?p = Inr (dd_pool s)" by (simp add: pool_append_def)
  define s3 where "s3 = s2\<lparr>dd_leases := d_del a (dd_leases s2), dd_pool := dd_pool s\<rparr>"
  have 3: "snd (dhcp_dispatch L naks (client_event d q a) (release_message a x) s2) = s3"
    using release_leased [of s2 a x "dd_pool s"] ap by (simp add: s3_def s2_def s1_def map_of_d_set)
  define s4 where "s4 = s3\<lparr>dd_pool := ?p, dd_leases := d_set b x (dd_leases s3)\<rparr>"
  have 4: "snd (dhcp_dispatch L naks (client_event d q b) (client_message 3 (Some x)) s3) = s4"
    using request_free [of s3 b x] assms by (simp add: s4_def s3_def s2_def s1_def map_of_d_set map_of_d_del)
  have 5: "snd (dhcp_dispatch L naks (client_event d q a) (client_message 3 (Some x)) s4) = s4\<lparr>dd_leases := d_set a x (dd_leases s4)\<rparr>"
    using request_offered [of s4 a x] assms(3) by (simp add: s4_def s3_def s2_def s1_def map_of_d_set map_of_d_del)
  show ?thesis
    using assms(3) by (simp add: after_messages_def 1 2 3 4 5) (simp add: s4_def map_of_d_set)
qed

text \<open>The two properties on the server above.\<close>

lemma home_server_free: "pool_ok (dd_pool home_server)" "pool_contains 0xC0A80005 (dd_pool home_server)"
proof -
  have "dd_pool home_server = home_pool\<lparr>pl_removed := 0xC0A800FE # pl_removed home_pool\<rparr>" by (simp add: home_server_def home_pool_def)
  moreover have "pool_contains 0xC0A800FE home_pool" by code_simp
  ultimately show "pool_ok (dd_pool home_server)" using pool_remove_ok(2) [OF home_pool_ok] by simp
  show "pool_contains 0xC0A80005 (dd_pool home_server)" by code_simp
qed

lemma leased_in_range_witness:
  "\<exists>s. dhcp_run no_lib home_server s \<and> map_of (dd_leases s) [2, 0, 0, 0, 0, 7] = Some 0xC0A80005 \<and> (0xC0A80005 :: ip_addr) \<noteq> 0xC0A800FE \<and>
    (\<exists>h. pl_first home_pool \<le> h \<and> h \<le> pl_last home_pool \<and> uint (0xC0A80005 :: ip_addr) = h OR uint (pl_network home_pool) \<and>
      take_bit (host_size home_pool) (uint (0xC0A80005 :: ip_addr)) = h \<and> h < 2 ^ host_size home_pool - 1)"
proof -
  let ?c = "[2, 0, 0, 0, 0, 7] :: eth_addr" and ?a = "0xC0A80005 :: ip_addr"
  obtain r s where s: "dhcp_dispatch no_lib (\<lambda>c a. False) (client_event 1 1 ?c) (client_message 3 (Some ?a)) home_server = (r, s)" by fastforce
  have run: "dhcp_run no_lib home_server s" by (rule dhcp_more [OF dhcp_start s])
  have "map_of (dd_leases s) ?c = Some ?a"
    using request_free [of home_server ?c ?a no_lib "\<lambda>c a. False" 1 1] home_server_free s by (simp add: home_server_def map_of_d_set)
  then show ?thesis using run leased_in_range [OF home_pool_ok home_started run, of ?c ?a] by blast
qed

lemma address_leased_twice_witness:
  "\<exists>ms s'. s' = after_messages no_lib (\<lambda>c a. False) ms home_server \<and> length ms = 5 \<and>
    map_of (dd_leases s') [2, 0, 0, 0, 0, 7] = Some 0xC0A80005 \<and> map_of (dd_leases s') [2, 0, 0, 0, 0, 8] = Some 0xC0A80005"
proof -
  have none: "map_of (dd_leases home_server) c = None" "map_of (dd_offers home_server) c = None" for c by (simp_all add: home_server_def)
  show ?thesis
    using address_leased_twice [OF home_server_free _ none none, of "[2, 0, 0, 0, 0, 7]" "[2, 0, 0, 0, 0, 8]" no_lib "\<lambda>c a. False" 1 1]
    unfolding Let_def by (intro exI conjI) (auto simp: numeral_eq_Suc)
qed

text \<open>No message makes the server send anything: the packets it builds can not be packed.\<close>

lemma grant_no_send [keep]: "keeps (\<lambda>s. dd_sent s = ms) (dd_grant L ev p ty a)" "keeps (\<lambda>s. dd_sent s = ms) (dd_nak L ev p)"
  by (simp_all add: keeps_def snd_grant)

lemma dispatch_no_send: "keeps (\<lambda>s. dd_sent s = ms) (dhcp_dispatch L naks ev p)"
  unfolding dhcp_dispatch_def exec_discover_def exec_request_def exec_release_def from_leases_def from_offers_def from_free_def
    to_pool_def from_pool_def Let_def
  by (intro keep) (auto intro!: keep keeps_smod split: dhcp_option.split option.split)

lemma server_never_answers: "dhcp_run L s s' \<Longrightarrow> dd_sent s' = dd_sent s"
proof (induction rule: dhcp_run.induct)
  case (dhcp_more s s' naks ev p r s'')
  then show ?case using keepsD [OF dispatch_no_send _ dhcp_more.hyps(2), of "dd_sent s'"] by simp
qed simp

end
