(* ===== verification/Revent.thy ===== *)
theory Revent
  imports Prelude
begin

text \<open>
  The event system (\<open>pox/pox/lib/revent/revent.py\<close>): an \<open>EventMixin\<close> with its lists of listeners, and \<open>raiseEvent\<close>.  The
  lists are mutable objects that \<open>raiseEvent\<close> iterates over while handlers may append to them, so they live in a heap
  of lists and the dictionary holds their addresses.  Handlers are numbers; what a call of one does, to the listeners,
  to the event and to the rest of the world \<open>'w\<close>, is an argument.
\<close>

section \<open>State\<close>

text \<open>The type of an event: a class, by identity and name, or a string.\<close>

datatype ev_type = EvClass nat string | EvName string

record listener =
  ln_priority :: int
  ln_handler :: nat
  ln_once :: bool
  ln_eid :: nat

record mixin =
  mx_me :: nat
  mx_events :: "ev_type list option"
  mx_heap :: "listener list list"
  mx_handlers :: "(ev_type, nat) dict"
  mx_prioritized :: "ev_type set"
  mx_next_eid :: nat

text \<open>\<open>None\<close> as set of events stands for \<open>True\<close>: all events are acceptable.\<close>

definition new_mixin :: "nat \<Rightarrow> ev_type list option \<Rightarrow> nat \<Rightarrow> mixin" where
  "new_mixin me evs n = \<lparr>mx_me = me, mx_events = evs, mx_heap = [], mx_handlers = [], mx_prioritized = {}, mx_next_eid = n\<rparr>"

definition listeners_of :: "mixin \<Rightarrow> ev_type \<Rightarrow> listener list" where
  "listeners_of s t = (case map_of (mx_handlers s) t of None \<Rightarrow> [] | Some a \<Rightarrow> mx_heap s ! a)"

definition acceptable :: "mixin \<Rightarrow> ev_type \<Rightarrow> bool" where
  "acceptable s t \<longleftrightarrow> (case mx_events s of None \<Rightarrow> True | Some evs \<Rightarrow> t \<in> set evs)"

section \<open>Adding listeners\<close>

text \<open>\<open>byName\<close>: the first class of that name; a string among the events is no class and \<open>issubclass\<close> raises.\<close>

fun event_named :: "ev_type \<Rightarrow> ev_type list \<Rightarrow> ev_type option result" where
  "event_named t [] = Inr None"
| "event_named t (EvName _ # es) = Inl TypeError"
| "event_named t (EvClass k m # es) = (if EvName m = t then Inr (Some (EvClass k m)) else event_named t es)"

definition find_event :: "mixin \<Rightarrow> ev_type \<Rightarrow> bool \<Rightarrow> ev_type result" where
  "find_event s t by_name =
     (if acceptable s t then Inr t
      else case (by_name, mx_events s) of
        (True, Some evs) \<Rightarrow> rbind (event_named t evs) (\<lambda>found. case found of None \<Rightarrow> Inl ReventError | Some e \<Rightarrow> Inr e)
      | _ \<Rightarrow> Inl ReventError)"

definition new_list :: "ev_type \<Rightarrow> listener list \<Rightarrow> mixin \<Rightarrow> mixin" where
  "new_list t l s = s\<lparr>mx_heap := mx_heap s @ [l], mx_handlers := d_set t (length (mx_heap s)) (mx_handlers s)\<rparr>"

text \<open>\<open>sort\<close> with \<open>reverse\<close> keeps the order of equal keys.\<close>

definition by_priority :: "listener list \<Rightarrow> listener list" where
  "by_priority = sort_key (\<lambda>e. - ln_priority e)"

definition add_entry_to :: "ev_type \<Rightarrow> nat \<Rightarrow> nat \<Rightarrow> bool \<Rightarrow> int \<Rightarrow> mixin \<Rightarrow> mixin" where
  "add_entry_to t a h once prio s =
     (let eid = mx_next_eid s + 1;
          l = mx_heap s ! a @ [\<lparr>ln_priority = prio, ln_handler = h, ln_once = once, ln_eid = eid\<rparr>];
          s1 = s\<lparr>mx_next_eid := eid\<rparr>
      in if prio \<noteq> 0 \<or> t \<in> mx_prioritized s
         then s1\<lparr>mx_prioritized := insert t (mx_prioritized s), mx_heap := (mx_heap s)[a := by_priority l]\<rparr>
         else s1\<lparr>mx_heap := (mx_heap s)[a := l]\<rparr>)"

definition add_listener :: "ev_type \<Rightarrow> nat \<Rightarrow> bool \<Rightarrow> int \<Rightarrow> bool \<Rightarrow> (mixin, ev_type \<times> nat) sm" where
  "add_listener t0 h once prio by_name = sbind (sget id) (\<lambda>s0. sbind (slift (find_event s0 t0 by_name)) (\<lambda>t.
     sthen (if map_of (mx_handlers s0) t = None then smod (new_list t []) else sret ())
       (sbind (sget (\<lambda>s. the (map_of (mx_handlers s) t))) (\<lambda>a.
         sthen (smod (add_entry_to t a h once prio)) (sbind (sget mx_next_eid) (\<lambda>eid. sret (t, eid)))))))"

section \<open>Removing listeners\<close>

datatype which_listener = ByPair ev_type nat | ByEid nat | ByHandler nat

definition drop_from :: "(listener \<Rightarrow> bool) \<Rightarrow> ev_type \<Rightarrow> (mixin, bool) sm" where
  "drop_from P t = sbind (sget (\<lambda>s. map_of (mx_handlers s) t)) (\<lambda>v.
     case v of
       None \<Rightarrow> sraise KeyError
     | Some a \<Rightarrow> sbind (sget (\<lambda>s. mx_heap s ! a)) (\<lambda>l.
         sthen (smod (new_list t (filter (\<lambda>e. \<not> P e) l))) (sret (length (filter (\<lambda>e. \<not> P e) l) \<noteq> length l))))"

fun drop_everywhere :: "(listener \<Rightarrow> bool) \<Rightarrow> ev_type list \<Rightarrow> (mixin, bool) sm" where
  "drop_everywhere P [] = sret False"
| "drop_everywhere P (t # ts) = sbind (drop_from P t) (\<lambda>a. sbind (drop_everywhere P ts) (\<lambda>b. sret (a \<or> b)))"

text \<open>An identifier together with an event type reads a local variable before it is set.\<close>

definition remove_listener :: "which_listener \<Rightarrow> ev_type option \<Rightarrow> (mixin, bool) sm" where
  "remove_listener w ty =
     (case w of
        ByPair t eid \<Rightarrow> drop_from (\<lambda>e. ln_eid e = eid) (case ty of None \<Rightarrow> t | Some t' \<Rightarrow> t')
      | ByEid eid \<Rightarrow>
          (case ty of
             None \<Rightarrow> sbind (sget (\<lambda>s. map fst (mx_handlers s))) (drop_everywhere (\<lambda>e. ln_eid e = eid))
           | Some t \<Rightarrow> sraise NameError)
      | ByHandler h \<Rightarrow>
          (case ty of
             None \<Rightarrow> sbind (sget (\<lambda>s. map fst (mx_handlers s))) (drop_everywhere (\<lambda>e. ln_handler e = h))
           | Some t \<Rightarrow> drop_from (\<lambda>e. ln_handler e = h) t))"

fun remove_listeners :: "which_listener list \<Rightarrow> (mixin, bool) sm" where
  "remove_listeners [] = sret False"
| "remove_listeners (w # ws) = sbind (remove_listener w None) (\<lambda>a. sbind (remove_listeners ws) (\<lambda>b. sret (a \<or> b)))"

definition clear_handlers :: "(mixin, unit) sm" where
  "clear_handlers = smod (\<lambda>s. s\<lparr>mx_handlers := []\<rparr>)"

definition listener_count :: "mixin \<Rightarrow> nat" where
  "listener_count s = sum_list (map (\<lambda>(t, a). length (mx_heap s ! a)) (mx_handlers s))"

section \<open>Raising events\<close>

record event =
  ev_type :: ev_type
  ev_halt :: bool
  ev_source :: "nat option"

text \<open>What a handler returns.\<close>

datatype answer_of = RvNone | RvFalse | RvTrue | RvTuple "bool list" | RvOther

type_synonym 'w raising = "'w \<times> mixin \<times> event"
type_synonym 'w handlers = "nat \<Rightarrow> ('w raising, answer_of) sm"

definition on_mixin :: "(mixin, 'a) sm \<Rightarrow> ('w raising, 'a) sm" where
  "on_mixin m = (\<lambda>(w, s, ev). case m s of (r, s') \<Rightarrow> (r, (w, s', ev)))"

definition set_halt :: "('w raising, bool) sm" where
  "set_halt = (\<lambda>(w, s, ev). (Inr True, (w, s, ev\<lparr>ev_halt := True\<rparr>)))"

text \<open>What follows the call of a handler; the result says whether the loop is left.\<close>

definition after_call :: "listener \<Rightarrow> answer_of \<Rightarrow> ('w raising, bool) sm" where
  "after_call e rv =
     (let remove = on_mixin (remove_listener (ByEid (ln_eid e)) None);
          halted = sget (\<lambda>(w, s, ev). ev_halt ev)
      in sthen (if ln_once e then remove else sret False)
        (case rv of
           RvNone \<Rightarrow> sret False
         | RvFalse \<Rightarrow> sthen remove halted
         | RvTrue \<Rightarrow> set_halt
         | RvTuple bs \<Rightarrow>
             sthen (if 2 \<le> length bs \<and> bs ! 1 then remove else sret False)
               (if 1 \<le> length bs \<and> bs ! 0 \<or> bs = [] then set_halt else halted)
         | RvOther \<Rightarrow> halted))"

definition one_call :: "'w handlers \<Rightarrow> listener \<Rightarrow> ('w raising, bool) sm" where
  "one_call call e = sbind (call (ln_handler e)) (after_call e)"

text \<open>The loop over the list at address \<open>a\<close>, as it is when its element \<open>i\<close> is asked for.\<close>

partial_function (option) raise_loop :: "'w handlers \<Rightarrow> nat \<times> nat \<Rightarrow> 'w raising \<Rightarrow> (unit result \<times> 'w raising) option" where
  "raise_loop call pos st =
     (if length (mx_heap (fst (snd st)) ! fst pos) \<le> snd pos then Some (Inr (), st)
      else
        (case one_call call (mx_heap (fst (snd st)) ! fst pos ! snd pos) st of
           (Inl x, st') \<Rightarrow> Some (Inl x, st')
         | (Inr left, st') \<Rightarrow> if left then Some (Inr (), st') else raise_loop call (fst pos, Suc (snd pos)) st'))"

text \<open>\<open>raiseEvent\<close> with an instance, and with a class, which is instantiated when there are listeners.\<close>

definition raiseEvent :: "'w handlers \<Rightarrow> 'w raising \<Rightarrow> (unit result \<times> 'w raising) option" where
  "raiseEvent call = (\<lambda>(w, s, ev).
     let ev1 = (if ev_source ev = None then ev\<lparr>ev_source := Some (mx_me s)\<rparr> else ev) in
     if \<not> acceptable s (ev_type ev) then Some (Inl ReventError, (w, s, ev1))
     else case map_of (mx_handlers s) (ev_type ev) of
       None \<Rightarrow> Some (Inr (), (w, s, ev1))
     | Some a \<Rightarrow> raise_loop call (a, 0) (w, s, ev1))"

definition new_event :: "ev_type \<Rightarrow> event" where
  "new_event t = \<lparr>ev_type = t, ev_halt = False, ev_source = None\<rparr>"

definition raise_class :: "'w handlers \<Rightarrow> ev_type \<Rightarrow> 'w \<times> mixin \<Rightarrow> (event option result \<times> 'w \<times> mixin) option" where
  "raise_class call t = (\<lambda>(w, s).
     if listeners_of s t = [] then Some (Inr None, w, s)
     else case raiseEvent call (w, s, new_event t) of
       None \<Rightarrow> None
     | Some (Inl x, w', s', ev) \<Rightarrow> Some (Inl x, w', s')
     | Some (Inr _, w', s', ev) \<Rightarrow> Some (Inr (Some ev), w', s'))"

text \<open>\<open>raiseEventNoErrors\<close>: only errors of the event system itself come through.\<close>

definition raise_no_errors :: "'w handlers \<Rightarrow> 'w raising \<Rightarrow> (event option result \<times> 'w raising) option" where
  "raise_no_errors call st =
     (case raiseEvent call st of
        None \<Rightarrow> None
      | Some (Inl x, st') \<Rightarrow> Some (if x = ReventError then Inl ReventError else Inr None, st')
      | Some (Inr _, st') \<Rightarrow> Some (Inr (Some (snd (snd st'))), st'))"

section \<open>Binding by name\<close>

definition method_prefix :: "string \<Rightarrow> string" where
  "method_prefix p = ''_handle'' @ (if p \<noteq> [] \<and> hd p \<noteq> CHR ''_'' then CHR ''_'' # p else p) @ ''_''"

fun event_name :: "ev_type \<Rightarrow> string" where
  "event_name (EvClass k n) = n"
| "event_name (EvName n) = n"

fun bind_methods :: "string \<Rightarrow> (string, ev_type) dict \<Rightarrow> int \<Rightarrow> (string \<times> bool \<times> nat) list \<Rightarrow> (mixin, (ev_type \<times> nat) list) sm" where
  "bind_methods pre evs prio [] = sret []"
| "bind_methods pre evs prio ((m, callable, h) # ms) =
     (case (if callable \<and> take (length pre) m = pre then map_of evs (drop (length pre) m) else None) of
        None \<Rightarrow> bind_methods pre evs prio ms
      | Some t \<Rightarrow> sbind (add_listener t h False prio False) (\<lambda>l. sbind (bind_methods pre evs prio ms) (\<lambda>ls. sret (l # ls))))"

definition auto_bind :: "(string \<times> bool \<times> nat) list \<Rightarrow> string \<Rightarrow> int \<Rightarrow> (mixin, (ev_type \<times> nat) list) sm" where
  "auto_bind methods p prio = sbind (sget mx_events) (\<lambda>evs.
     case evs of
       None \<Rightarrow> sraise TypeError
     | Some es \<Rightarrow> bind_methods (method_prefix p) (fold (\<lambda>e d. d_set (event_name e) e d) es []) prio methods)"

section \<open>The order of the listeners\<close>

definition before :: "listener \<Rightarrow> listener \<Rightarrow> bool" where
  "before e f \<longleftrightarrow> ln_priority f < ln_priority e \<or> ln_priority e = ln_priority f \<and> ln_eid e < ln_eid f"

definition in_order :: "listener list \<Rightarrow> bool" where "in_order l \<longleftrightarrow> sorted_wrt before l"

definition mx_ok :: "mixin \<Rightarrow> bool" where
  "mx_ok s \<longleftrightarrow> inj_on (\<lambda>t. the (map_of (mx_handlers s) t)) (dom (map_of (mx_handlers s))) \<and>
     (\<forall>t a. map_of (mx_handlers s) t = Some a \<longrightarrow> a < length (mx_heap s)) \<and>
     (\<forall>t u e f. e \<in> set (listeners_of s t) \<longrightarrow> f \<in> set (listeners_of s u) \<longrightarrow> ln_eid e = ln_eid f \<longrightarrow> t = u) \<and>
     (\<forall>t. in_order (listeners_of s t) \<and> distinct (map ln_eid (listeners_of s t)) \<and>
       (\<forall>e\<in>set (listeners_of s t). ln_eid e \<le> mx_next_eid s \<and> (t \<notin> mx_prioritized s \<longrightarrow> ln_priority e = 0)))"

lemma in_order_iff:
  "in_order l \<longleftrightarrow> sorted (map (\<lambda>e. - ln_priority e) l) \<and>
     (\<forall>k. sorted_wrt (\<lambda>e f. ln_eid e < ln_eid f) (filter (\<lambda>e. - ln_priority e = k) l))"
proof (induction l)
  case (Cons e l)
  have "(\<forall>f\<in>set l. before e f) \<longleftrightarrow> (\<forall>f\<in>set l. - ln_priority e \<le> - ln_priority f) \<and>
      (\<forall>f\<in>set (filter (\<lambda>f. - ln_priority f = - ln_priority e) l). ln_eid e < ln_eid f)"
    by (auto simp: before_def)
  then show ?case using Cons by (auto simp: in_order_def)
qed (simp add: in_order_def)

lemma by_priority_in_order:
  assumes "in_order l" "\<forall>f\<in>set l. ln_eid f < ln_eid e"
  shows "in_order (by_priority (l @ [e]))"
  unfolding in_order_iff by_priority_def sort_key_stable
  using assms(2) assms(1) [unfolded in_order_iff] by (auto simp: sorted_wrt_append)

lemma append_in_order:
  assumes "in_order l" "\<forall>f\<in>set l. ln_eid f < ln_eid e \<and> ln_priority f = 0" "ln_priority e = 0"
  shows "in_order (l @ [e])"
  using assms by (auto simp: in_order_def sorted_wrt_append before_def)

lemma in_order_filter: "in_order l \<Longrightarrow> in_order (filter P l)"
  by (simp add: in_order_def sorted_wrt_filter)

lemma listeners_new_list:
  "mx_ok s \<Longrightarrow> listeners_of (new_list t l s) t' = (if t' = t then l else listeners_of s t')"
  by (auto simp: listeners_of_def new_list_def map_of_d_set nth_append mx_ok_def split: option.split)

lemma new_list_ok:
  assumes ok: "mx_ok s" and l: "in_order l" "distinct (map ln_eid l)" "set l \<subseteq> set (listeners_of s t)"
  shows "mx_ok (new_list t l s)"
proof -
  have f: "mx_handlers (new_list t l s) = d_set t (length (mx_heap s)) (mx_handlers s)" "mx_heap (new_list t l s) = mx_heap s @ [l]"
    "mx_next_eid (new_list t l s) = mx_next_eid s" "mx_prioritized (new_list t l s) = mx_prioritized s" by (simp_all add: new_list_def)
  have lt: "a < length (mx_heap s)" if "map_of (mx_handlers s) u = Some a" for u a using ok that by (auto simp: mx_ok_def)
  have "inj_on (\<lambda>u. the (map_of (mx_handlers (new_list t l s)) u)) (dom (map_of (mx_handlers (new_list t l s))))"
    using ok lt unfolding f map_of_d_set by (auto simp: mx_ok_def inj_on_def dom_def) (metis less_irrefl)+
  moreover have "a < length (mx_heap (new_list t l s))" if "map_of (mx_handlers (new_list t l s)) u = Some a" for u a
    using that lt unfolding f map_of_d_set by (auto split: if_splits intro: less_SucI)
  moreover have sub: "set (listeners_of (new_list t l s) u) \<subseteq> set (listeners_of s u)" for u
    using l(3) by (simp add: listeners_new_list [OF ok])
  have "in_order (listeners_of (new_list t l s) u) \<and> distinct (map ln_eid (listeners_of (new_list t l s) u))" for u
    using ok l by (simp add: listeners_new_list [OF ok] mx_ok_def)
  moreover have "\<forall>e\<in>set (listeners_of s u). ln_eid e \<le> mx_next_eid s \<and> (u \<notin> mx_prioritized s \<longrightarrow> ln_priority e = 0)" for u
    using ok by (simp add: mx_ok_def)
  moreover have "\<forall>t u e f. e \<in> set (listeners_of s t) \<longrightarrow> f \<in> set (listeners_of s u) \<longrightarrow> ln_eid e = ln_eid f \<longrightarrow> t = u"
    using ok by (simp add: mx_ok_def)
  ultimately show ?thesis
    unfolding mx_ok_def [of "new_list t l s"] f(3,4) using sub by (meson subsetD)
qed

lemma set_by_priority [simp]: "set (by_priority l) = set l"
  by (simp add: by_priority_def)

lemma distinct_by_priority: "distinct (map g (by_priority l)) = distinct (map g l)"
  by (simp add: distinct_map) (simp add: by_priority_def)

lemma add_entry_ok:
  assumes ok: "mx_ok s" and a: "map_of (mx_handlers s) t = Some a"
  shows "mx_ok (add_entry_to t a h once prio s)"
proof -
  let ?e = "\<lparr>ln_priority = prio, ln_handler = h, ln_once = once, ln_eid = mx_next_eid s + 1\<rparr>"
  let ?l = "listeners_of s t" and ?s = "add_entry_to t a h once prio s"
  have l: "mx_heap s ! a = ?l" "a < length (mx_heap s)" using ok a by (simp_all add: listeners_of_def mx_ok_def)
  have old: "in_order ?l" "\<And>f. f \<in> set ?l \<Longrightarrow> ln_eid f \<le> mx_next_eid s \<and> (t \<notin> mx_prioritized s \<longrightarrow> ln_priority f = 0)"
    using ok by (auto simp: mx_ok_def)
  have eq: "mx_handlers ?s = mx_handlers s" "length (mx_heap ?s) = length (mx_heap s)" "mx_next_eid ?s = mx_next_eid s + 1"
    "mx_prioritized s \<subseteq> mx_prioritized ?s" "t \<notin> mx_prioritized ?s \<Longrightarrow> t \<notin> mx_prioritized s \<and> prio = 0"
    "u \<noteq> t \<Longrightarrow> u \<in> mx_prioritized ?s \<longleftrightarrow> u \<in> mx_prioritized s" for u
    by (auto simp: add_entry_to_def Let_def split: if_splits)
  have new: "listeners_of ?s t = (if prio \<noteq> 0 \<or> t \<in> mx_prioritized s then by_priority (?l @ [?e]) else ?l @ [?e])"
    using l a by (auto simp: listeners_of_def add_entry_to_def Let_def)
  have others: "listeners_of ?s u = listeners_of s u" if "u \<noteq> t" for u
  proof -
    have "map_of (mx_handlers s) u \<noteq> Some a"
      using ok a that unfolding mx_ok_def inj_on_def by (metis domI option.sel)
    then show ?thesis using eq(1) by (auto simp: listeners_of_def add_entry_to_def Let_def split: option.split)
  qed
  have fresh: "\<forall>f\<in>set ?l. ln_eid f < ln_eid ?e" using old(2) by (auto simp: less_Suc_eq_le)
  have "in_order (listeners_of ?s t)"
    unfolding new using by_priority_in_order [OF old(1) fresh] append_in_order [OF old(1), of ?e] old(2) fresh by auto
  moreover have "\<forall>e\<in>set (listeners_of ?s t). ln_eid e \<le> mx_next_eid ?s \<and> (t \<notin> mx_prioritized ?s \<longrightarrow> ln_priority e = 0)"
    unfolding new eq(3) using old(2) eq(5) by (auto intro: le_SucI)
  moreover have "in_order (listeners_of ?s u) \<and> (\<forall>e\<in>set (listeners_of ?s u). ln_eid e \<le> mx_next_eid ?s \<and>
      (u \<notin> mx_prioritized ?s \<longrightarrow> ln_priority e = 0))" if "u \<noteq> t" for u
  proof -
    have "in_order (listeners_of s u)" "\<forall>e\<in>set (listeners_of s u). ln_eid e \<le> mx_next_eid s \<and> (u \<notin> mx_prioritized s \<longrightarrow> ln_priority e = 0)"
      using ok by (simp_all add: mx_ok_def)
    then show ?thesis unfolding others [OF that] eq(3) eq(6) [OF that] by auto
  qed
  ultimately have ordered: "\<forall>u. in_order (listeners_of ?s u) \<and>
      (\<forall>e\<in>set (listeners_of ?s u). ln_eid e \<le> mx_next_eid ?s \<and> (u \<notin> mx_prioritized ?s \<longrightarrow> ln_priority e = 0))"
    by metis
  have ids: "distinct (map ln_eid (listeners_of s u))"
    "f \<in> set (listeners_of s u) \<Longrightarrow> g \<in> set (listeners_of s v) \<Longrightarrow> ln_eid f = ln_eid g \<Longrightarrow> u = v"
    "f \<in> set (listeners_of s u) \<Longrightarrow> ln_eid f \<noteq> mx_next_eid s + 1" for u v f g
    using ok unfolding mx_ok_def by (blast, blast, fastforce)
  have mem: "f \<in> set (listeners_of ?s u) \<longleftrightarrow> f \<in> set (listeners_of s u) \<or> u = t \<and> f = ?e" for u f
    using others [of u] by (cases "u = t") (auto simp: new)
  have "distinct (map ln_eid (listeners_of ?s t))"
  proof -
    have "distinct (map ln_eid (?l @ [?e]))" using ids(1) [of t] ids(3) [of _ t] by fastforce
    then show ?thesis unfolding new by (auto simp: distinct_by_priority simp del: map_append)
  qed
  then have "distinct (map ln_eid (listeners_of ?s u))" for u using others [of u] ids(1) [of u] by (cases "u = t") simp_all
  moreover have "u = v" if "f \<in> set (listeners_of ?s u)" "g \<in> set (listeners_of ?s v)" "ln_eid f = ln_eid g" for u v f g
    using that ids(2) [of f u g v] ids(3) [of f u] ids(3) [of g v] unfolding mem by auto
  ultimately show ?thesis using ok ordered unfolding mx_ok_def [of ?s] eq(1,2) by (auto simp: mx_ok_def)
qed

lemma add_listener_keeps [keep]: "keeps mx_ok (add_listener t h once prio by_name)"
proof -
  have "mx_ok (snd (add_listener t h once prio by_name s))" if ok: "mx_ok s" for s
  proof (cases "find_event s t by_name")
    case (Inr u)
    let ?s1 = "if map_of (mx_handlers s) u = None then new_list u [] s else s"
    have s1: "mx_ok ?s1" using ok new_list_ok [OF ok, of "[]" u] by (simp add: in_order_def)
    obtain a where a: "map_of (mx_handlers ?s1) u = Some a" by (cases "map_of (mx_handlers s) u") (auto simp: new_list_def map_of_d_set)
    have "snd (add_listener t h once prio by_name s) = add_entry_to u a h once prio ?s1"
      using a by (cases "map_of (mx_handlers s) u") (auto simp: add_listener_def sm_run Inr)
    then show ?thesis using add_entry_ok [OF s1 a] by simp
  qed (simp add: add_listener_def sm_run ok)
  then show ?thesis by (simp add: keeps_def)
qed

text \<open>Removal: the listeners of the types concerned are filtered into new lists, the old lists stay as they are.\<close>

definition filtered :: "(listener \<Rightarrow> bool) \<Rightarrow> ev_type set \<Rightarrow> mixin \<Rightarrow> mixin \<Rightarrow> bool" where
  "filtered P T s s' \<longleftrightarrow> mx_ok s' \<and> mx_events s' = mx_events s \<and> mx_next_eid s' = mx_next_eid s \<and>
     map fst (mx_handlers s') = map fst (mx_handlers s) \<and>
     (\<forall>t. listeners_of s' t = (if t \<in> T then filter (\<lambda>e. \<not> P e) (listeners_of s t) else listeners_of s t)) \<and>
     length (mx_heap s) \<le> length (mx_heap s') \<and> (\<forall>a<length (mx_heap s). mx_heap s' ! a = mx_heap s ! a)"

lemma d_set_present: "map_of d k \<noteq> None \<Longrightarrow> map fst (d_set k v d) = map fst d"
  by (induction k v d rule: d_set.induct) (auto split: if_splits)

lemma drop_from_run:
  assumes ok: "mx_ok s" and t: "map_of (mx_handlers s) t \<noteq> None"
  shows "\<exists>b s'. drop_from P t s = (Inr b, s') \<and> filtered P {t} s s'"
proof -
  obtain a where a: "map_of (mx_handlers s) t = Some a" using t by blast
  let ?l = "filter (\<lambda>e. \<not> P e) (listeners_of s t)"
  have l: "mx_heap s ! a = listeners_of s t" using a by (simp add: listeners_of_def)
  have "mx_ok (new_list t ?l s)" using ok by (intro new_list_ok) (auto simp: mx_ok_def in_order_filter distinct_map_filter)
  moreover have "drop_from P t s = (Inr (length ?l \<noteq> length (listeners_of s t)), new_list t ?l s)"
    by (simp add: drop_from_def sm_run a l)
  ultimately show ?thesis
    using d_set_present [OF t] by (auto simp: filtered_def listeners_new_list [OF ok]) (simp_all add: new_list_def nth_append)
qed

lemma filtered_trans:
  assumes "filtered P T s s'" "filtered P U s' s''"
  shows "filtered P (T \<union> U) s s''"
proof -
  have "mx_ok s''" "mx_events s'' = mx_events s" "mx_next_eid s'' = mx_next_eid s" "map fst (mx_handlers s'') = map fst (mx_handlers s)"
    "length (mx_heap s) \<le> length (mx_heap s'')" "\<forall>a<length (mx_heap s). mx_heap s'' ! a = mx_heap s ! a"
    using assms by (simp_all add: filtered_def)
  moreover have "listeners_of s'' t = (if t \<in> T \<union> U then filter (\<lambda>e. \<not> P e) (listeners_of s t) else listeners_of s t)" for t
    using assms by (simp add: filtered_def)
  ultimately show ?thesis by (simp add: filtered_def)
qed

lemma drop_everywhere_run:
  "mx_ok s \<Longrightarrow> set ts \<subseteq> set (map fst (mx_handlers s)) \<Longrightarrow> \<exists>b s'. drop_everywhere P ts s = (Inr b, s') \<and> filtered P (set ts) s s'"
proof (induction ts arbitrary: s)
  case (Cons t ts)
  have "map_of (mx_handlers s) t \<noteq> None" using Cons.prems(2) by (simp add: map_of_eq_None_iff)
  then obtain b s1 where 1: "drop_from P t s = (Inr b, s1)" "filtered P {t} s s1" using drop_from_run Cons.prems(1) by blast
  obtain c s2 where 2: "drop_everywhere P ts s1 = (Inr c, s2)" "filtered P (set ts) s1 s2"
  proof -
    have "mx_ok s1" "set ts \<subseteq> set (map fst (mx_handlers s1))" using Cons.prems(2) 1(2) by (simp_all add: filtered_def del: set_map)
    then show thesis using Cons.IH that by blast
  qed
  show ?case using filtered_trans [OF 1(2) 2(2)] by (auto simp: sm_run 1(1) 2(1))
qed (auto simp: filtered_def sm_run)

text \<open>A type without a list has no listeners.\<close>

lemma remove_eid_run:
  assumes "mx_ok s"
  shows "\<exists>b s'. remove_listener (ByEid n) None s = (Inr b, s') \<and> filtered (\<lambda>e. ln_eid e = n) UNIV s s'"
proof -
  obtain b s' where r: "drop_everywhere (\<lambda>e. ln_eid e = n) (map fst (mx_handlers s)) s = (Inr b, s')"
    "filtered (\<lambda>e. ln_eid e = n) (set (map fst (mx_handlers s))) s s'" using drop_everywhere_run [OF assms] by blast
  have "listeners_of s t = []" if "t \<notin> set (map fst (mx_handlers s))" for t
    using that by (simp add: listeners_of_def map_of_eq_None_iff [symmetric])
  then have "filtered (\<lambda>e. ln_eid e = n) UNIV s s'" using r(2) by (auto simp: filtered_def)
  then show ?thesis using r(1) by (simp add: remove_listener_def sm_run)
qed

lemma remove_listener_keeps [keep]: "keeps mx_ok (remove_listener w ty)"
proof -
  have one: "mx_ok (snd (drop_from P t s))" if "mx_ok s" for P t s
  proof (cases "map_of (mx_handlers s) t = None")
    case False
    then show ?thesis using drop_from_run [OF that, of t P] by (auto simp: filtered_def)
  qed (simp add: drop_from_def sm_run that)
  have all: "mx_ok (snd (drop_everywhere P (map fst (mx_handlers s)) s))" if "mx_ok s" for P s
    using drop_everywhere_run [OF that, of "map fst (mx_handlers s)" P] by (auto simp: filtered_def)
  show ?thesis
    using one all by (auto simp: keeps_def remove_listener_def sm_run split: which_listener.split option.split)
qed

section \<open>The order is kept whatever the handlers do\<close>

definition mx_fine :: "'w raising \<Rightarrow> bool" where "mx_fine st \<longleftrightarrow> mx_ok (fst (snd st))"

lemma on_mixin_keeps [keep]: "keeps mx_ok m \<Longrightarrow> keeps mx_fine (on_mixin m)"
  unfolding keeps_def
proof (intro allI impI)
  fix st :: "'b raising" assume m: "\<forall>s. mx_ok s \<longrightarrow> mx_ok (snd (m s))" and st: "mx_fine st"
  obtain w s ev where eq: "st = (w, s, ev)" by (cases st) auto
  show "mx_fine (snd (on_mixin m st))" using m st by (simp add: eq on_mixin_def mx_fine_def split: prod.split) (metis snd_conv)
qed

lemma set_halt_keeps [keep]: "keeps mx_fine set_halt"
  by (auto simp: keeps_def set_halt_def mx_fine_def)

lemma one_call_keeps:
  assumes "keeps mx_fine (call (ln_handler e))"
  shows "keeps mx_fine (one_call call e)"
  unfolding one_call_def after_call_def Let_def
  by (intro keep assms) (auto intro!: keep split: answer_of.split)

lemma raise_loop_keeps:
  fixes call :: "'w handlers"
  assumes "\<And>h. keeps mx_fine (call h)" "raise_loop call pos st = Some y" "mx_fine st"
  shows "mx_fine (snd y)"
proof -
  have "(\<forall>h. keeps mx_fine (call h)) \<longrightarrow> mx_fine st \<longrightarrow> mx_fine (snd y)"
  proof (rule raise_loop.raw_induct [OF _ assms(2)], intro impI)
    fix loop :: "'w handlers \<Rightarrow> nat \<times> nat \<Rightarrow> 'w raising \<Rightarrow> (unit result \<times> 'w raising) option"
      and c :: "'w handlers" and p and st :: "'w raising" and z
    let ?e = "mx_heap (fst (snd st)) ! fst p ! snd p"
    assume IH: "\<And>c p st y. loop c p st = Some y \<Longrightarrow> (\<forall>h. keeps mx_fine (c h)) \<longrightarrow> mx_fine st \<longrightarrow> mx_fine (snd y)"
      and run: "(if length (mx_heap (fst (snd st)) ! fst p) \<le> snd p then Some (Inr (), st)
        else case one_call c ?e st of (Inl x, st') \<Rightarrow> Some (Inl x, st')
          | (Inr left, st') \<Rightarrow> if left then Some (Inr (), st') else loop c (fst p, Suc (snd p)) st') = Some z"
      and c: "\<forall>h. keeps mx_fine (c h)" and st: "mx_fine st"
    obtain x st' where one: "one_call c ?e st = (x, st')" by (rule prod.exhaust)
    have "mx_fine st'" by (rule keepsD [OF one_call_keeps st one]) (use c in blast)
    then show "mx_fine (snd z)" using run one IH c st by (auto split: if_splits sum.splits)
  qed
  then show ?thesis using assms(1,3) by blast
qed

inductive mixin_run :: "'w \<times> mixin \<Rightarrow> 'w \<times> mixin \<Rightarrow> bool" where
  mx_start: "mixin_run ws ws"
| mx_world: "mixin_run ws (w, s) \<Longrightarrow> mixin_run ws (w', s)"
| mx_other_ids: "mixin_run ws (w, s) \<Longrightarrow> mixin_run ws (w, s\<lparr>mx_next_eid := mx_next_eid s + k\<rparr>)"
| mx_add: "mixin_run ws (w, s) \<Longrightarrow> add_listener t h once prio by_name s = (r, s') \<Longrightarrow> mixin_run ws (w, s')"
| mx_remove: "mixin_run ws (w, s) \<Longrightarrow> remove_listener which ty s = (r, s') \<Longrightarrow> mixin_run ws (w, s')"
| mx_clear: "mixin_run ws (w, s) \<Longrightarrow> clear_handlers s = (r, s') \<Longrightarrow> mixin_run ws (w, s')"
| mx_raise: "mixin_run ws (w, s) \<Longrightarrow> (\<And>h w s ev r w' s' ev'. call h (w, s, ev) = (r, (w', s', ev')) \<Longrightarrow> mixin_run (w, s) (w', s')) \<Longrightarrow>
    raiseEvent call (w, s, ev) = Some (r, (w', s', ev')) \<Longrightarrow> mixin_run ws (w', s')"

lemma new_mixin_ok: "mx_ok (new_mixin me evs n)"
  by (simp add: mx_ok_def new_mixin_def listeners_of_def in_order_def)

lemma more_ids_ok: "mx_ok s \<Longrightarrow> mx_ok (s\<lparr>mx_next_eid := mx_next_eid s + k\<rparr>)"
proof -
  have "listeners_of (s\<lparr>mx_next_eid := mx_next_eid s + k\<rparr>) = listeners_of s" by (simp add: listeners_of_def fun_eq_iff split: option.split)
  then show "mx_ok s \<Longrightarrow> mx_ok (s\<lparr>mx_next_eid := mx_next_eid s + k\<rparr>)"
    unfolding mx_ok_def by (simp add: trans_le_add1)
qed

lemma clear_handlers_ok: "mx_ok (s\<lparr>mx_handlers := []\<rparr>)"
  by (simp add: mx_ok_def listeners_of_def in_order_def)

lemma mixin_run_ok: "mixin_run ws ws' \<Longrightarrow> mx_ok (snd ws) \<Longrightarrow> mx_ok (snd ws')"
proof (induction rule: mixin_run.induct)
  case (mx_other_ids ws w s k)
  then show ?case using more_ids_ok by simp
next
  case (mx_add ws w s t h once prio by_name r s')
  then show ?case using keepsD [OF add_listener_keeps _ mx_add.hyps(2)] by simp
next
  case (mx_remove ws w s which ty r s')
  then show ?case using keepsD [OF remove_listener_keeps _ mx_remove.hyps(2)] by simp
next
  case (mx_clear ws w s r s')
  then show ?case using clear_handlers_ok by (auto simp: clear_handlers_def sm_run)
next
  case (mx_raise ws w s call ev r w' s' ev')
  have kept: "keeps mx_fine (call h)" for h
    unfolding keeps_def
  proof (intro allI impI)
    fix st :: "'a raising" assume "mx_fine st"
    moreover obtain w1 s1 ev1 where "st = (w1, s1, ev1)" by (cases st) auto
    moreover obtain r w2 s2 ev2 where "call h st = (r, (w2, s2, ev2))" by (cases "call h st") auto
    ultimately show "mx_fine (snd (call h st))" using mx_raise.IH(2) [of h w1 s1 ev1 r w2 s2 ev2] by (simp add: mx_fine_def)
  qed
  have s: "mx_ok s" using mx_raise by simp
  define ev1 where "ev1 = (if ev_source ev = None then ev\<lparr>ev_source := Some (mx_me s)\<rparr> else ev)"
  consider "s' = s" | a where "raise_loop call (a, 0) (w, s, ev1) = Some (r, (w', s', ev'))"
    using mx_raise.hyps(3) by (auto simp: raiseEvent_def Let_def ev1_def split: if_splits option.splits)
  then show ?case
  proof cases
    case (2 a)
    then show ?thesis using raise_loop_keeps [OF kept 2] s by (simp add: mx_fine_def)
  qed (use s in simp)
qed simp_all

text \<open>
  C13. Whatever was added and removed, and whatever handlers did while events were raised: the listeners of every type of
  event stand in the order of decreasing priority and, among equal priorities, in the order in which they came.
\<close>

theorem listeners_in_order:
  assumes "mixin_run (w, new_mixin me evs n) (w', s)" "i < j" "j < length (listeners_of s t)"
  shows "ln_priority (listeners_of s t ! j) < ln_priority (listeners_of s t ! i) \<or>
    ln_priority (listeners_of s t ! i) = ln_priority (listeners_of s t ! j) \<and> ln_eid (listeners_of s t ! i) < ln_eid (listeners_of s t ! j)"
proof -
  have "mx_ok s" using mixin_run_ok [OF assms(1)] new_mixin_ok by simp
  then have "in_order (listeners_of s t)" by (simp add: mx_ok_def)
  then show ?thesis using assms(2,3) by (simp add: in_order_def before_def sorted_wrt_iff_nth_less)
qed

section \<open>Which handlers are called\<close>

text \<open>Handlers that only note that they were called; \<open>rv\<close> says what they return.\<close>

definition noting :: "(nat \<Rightarrow> answer_of) \<Rightarrow> nat list handlers" where
  "noting rv = (\<lambda>h (w, s, ev). (Inr (rv h), (w @ [h], s, ev)))"

definition stops :: "(nat \<Rightarrow> answer_of) \<Rightarrow> listener \<Rightarrow> bool" where
  "stops rv e = (case rv (ln_handler e) of RvTrue \<Rightarrow> True | RvTuple bs \<Rightarrow> bs = [] \<or> bs ! 0 | _ \<Rightarrow> False)"

definition leaves :: "(nat \<Rightarrow> answer_of) \<Rightarrow> listener \<Rightarrow> bool" where
  "leaves rv e = (ln_once e \<or> (case rv (ln_handler e) of RvFalse \<Rightarrow> True | RvTuple bs \<Rightarrow> 2 \<le> length bs \<and> bs ! 1 | _ \<Rightarrow> False))"

fun called :: "(nat \<Rightarrow> answer_of) \<Rightarrow> listener list \<Rightarrow> listener list" where
  "called rv [] = []"
| "called rv (e # l) = e # (if stops rv e then [] else called rv l)"

abbreviation gone :: "(nat \<Rightarrow> answer_of) \<Rightarrow> listener list \<Rightarrow> listener \<Rightarrow> bool" where
  "gone rv l f \<equiv> \<exists>e\<in>set (called rv l). leaves rv e \<and> ln_eid f = ln_eid e"

lemma filtered_and:
  assumes "filtered P UNIV s s'" "filtered Q UNIV s' s''"
  shows "filtered (\<lambda>e. P e \<or> Q e) UNIV s s''"
proof -
  have "filter (\<lambda>e. \<not> Q e) (filter (\<lambda>e. \<not> P e) l) = filter (\<lambda>e. \<not> (P e \<or> Q e)) l" for l :: "listener list"
    by (simp add: conj_comms cong: conj_cong)
  then show ?thesis using assms unfolding filtered_def by auto
qed

lemma filtered_nothing: "mx_ok s \<Longrightarrow> filtered (\<lambda>e. False) UNIV s s"
  by (simp add: filtered_def)

lemma maybe_remove:
  assumes "mx_ok s"
  shows "\<exists>b s'. (if c then on_mixin (remove_listener (ByEid n) None) else sret False) (w, s, ev) = (Inr b, (w, s', ev)) \<and>
    filtered (\<lambda>f. c \<and> ln_eid f = n) UNIV s s'"
  using remove_eid_run [OF assms, of n] filtered_nothing [OF assms] by (cases c) (auto simp: on_mixin_def sm_run)

lemma after_noting:
  assumes "mx_ok s" "\<not> ev_halt ev"
  shows "\<exists>s'. one_call (noting rv) e (w, s, ev) = (Inr (stops rv e), (w @ [ln_handler e], s', if stops rv e then ev\<lparr>ev_halt := True\<rparr> else ev)) \<and>
    filtered (\<lambda>f. leaves rv e \<and> ln_eid f = ln_eid e) UNIV s s'"
proof -
  let ?c2 = "case rv (ln_handler e) of RvFalse \<Rightarrow> True | RvTuple bs \<Rightarrow> 2 \<le> length bs \<and> bs ! 1 | _ \<Rightarrow> False"
  let ?w = "w @ [ln_handler e]"
  obtain b1 s1 where 1: "(if ln_once e then on_mixin (remove_listener (ByEid (ln_eid e)) None) else sret False) (?w, s, ev) = (Inr b1, (?w, s1, ev))"
    "filtered (\<lambda>f. ln_once e \<and> ln_eid f = ln_eid e) UNIV s s1" using maybe_remove [OF assms(1), of "ln_once e" "ln_eid e" ?w ev] by blast
  have s1: "mx_ok s1" using 1(2) by (simp add: filtered_def)
  obtain b2 s2 where 2: "(if ?c2 then on_mixin (remove_listener (ByEid (ln_eid e)) None) else sret False) (?w, s1, ev) = (Inr b2, (?w, s2, ev))"
    "filtered (\<lambda>f. ?c2 \<and> ln_eid f = ln_eid e) UNIV s1 s2" using maybe_remove [OF s1, of ?c2 "ln_eid e" ?w ev] by blast
  have "(case rv (ln_handler e) of
           RvNone \<Rightarrow> sret False
         | RvFalse \<Rightarrow> sthen (on_mixin (remove_listener (ByEid (ln_eid e)) None)) (sget (\<lambda>(w, s, ev). ev_halt ev))
         | RvTrue \<Rightarrow> set_halt
         | RvTuple bs \<Rightarrow>
             sthen (if 2 \<le> length bs \<and> bs ! 1 then on_mixin (remove_listener (ByEid (ln_eid e)) None) else sret False)
               (if 1 \<le> length bs \<and> bs ! 0 \<or> bs = [] then set_halt else sget (\<lambda>(w, s, ev). ev_halt ev))
         | RvOther \<Rightarrow> sget (\<lambda>(w, s, ev). ev_halt ev)) (?w, s1, ev) =
      (Inr (stops rv e), (?w, s2, if stops rv e then ev\<lparr>ev_halt := True\<rparr> else ev))"
    using 2(1) assms(2)
    by (cases "rv (ln_handler e)") (auto simp: sm_run set_halt_def stops_def Suc_le_eq split: if_splits)
  then have "one_call (noting rv) e (w, s, ev) = (Inr (stops rv e), (?w, s2, if stops rv e then ev\<lparr>ev_halt := True\<rparr> else ev))"
    using 1(1) by (simp add: one_call_def noting_def after_call_def Let_def sbind_def sthen_def)
  moreover have "filtered (\<lambda>f. leaves rv e \<and> ln_eid f = ln_eid e) UNIV s s2"
    using filtered_and [OF 1(2) 2(2)] by (simp add: leaves_def conj_disj_distribR)
  ultimately show ?thesis by blast
qed

lemma raise_loop_noting:
  assumes "mx_ok s" "\<not> ev_halt ev" "a < length (mx_heap s)" "drop i (mx_heap s ! a) = l" "i \<le> length (mx_heap s ! a)"
  shows "\<exists>s'. raise_loop (noting rv) (a, i) (w, s, ev) =
      Some (Inr (), (w @ map ln_handler (called rv l), s', ev\<lparr>ev_halt := \<exists>e\<in>set l. stops rv e\<rparr>)) \<and> filtered (gone rv l) UNIV s s'"
  using assms
proof (induction l arbitrary: i w s)
  case Nil
  have "ev\<lparr>ev_halt := False\<rparr> = ev" using Nil.prems(2) by (cases ev) simp
  then show ?case using Nil.prems filtered_nothing [of s] by (simp add: raise_loop.simps [of _ "(a, i)"])
next
  case (Cons e l)
  have i: "i < length (mx_heap s ! a)" "mx_heap s ! a ! i = e" "drop (Suc i) (mx_heap s ! a) = l"
  proof -
    have "length (drop i (mx_heap s ! a)) = Suc (length l)" by (simp only: Cons.prems(4)) simp
    then show i: "i < length (mx_heap s ! a)" by simp
    show "mx_heap s ! a ! i = e" using hd_drop_conv_nth [OF i] Cons.prems(4) by simp
    show "drop (Suc i) (mx_heap s ! a) = l" using arg_cong [OF Cons.prems(4), of tl] by (simp add: drop_Suc tl_drop)
  qed
  obtain s1 where 1: "one_call (noting rv) e (w, s, ev) = (Inr (stops rv e), (w @ [ln_handler e], s1, if stops rv e then ev\<lparr>ev_halt := True\<rparr> else ev))"
    "filtered (\<lambda>f. leaves rv e \<and> ln_eid f = ln_eid e) UNIV s s1" using after_noting [OF Cons.prems(1,2)] by blast
  have s1: "mx_ok s1" "a < length (mx_heap s1)" "mx_heap s1 ! a = mx_heap s ! a" using 1(2) Cons.prems(3) by (auto simp: filtered_def)
  show ?case
  proof (cases "stops rv e")
    case True
    then show ?thesis using 1 i by (simp add: raise_loop.simps [of _ "(a, i)"])
  next
    case False
    obtain s2 where 2: "raise_loop (noting rv) (a, Suc i) (w @ [ln_handler e], s1, ev) =
        Some (Inr (), ((w @ [ln_handler e]) @ map ln_handler (called rv l), s2, ev\<lparr>ev_halt := \<exists>e\<in>set l. stops rv e\<rparr>))" "filtered (gone rv l) UNIV s1 s2"
    proof -
      have "drop (Suc i) (mx_heap s1 ! a) = l" "Suc i \<le> length (mx_heap s1 ! a)" using i s1(3) by simp_all
      then show thesis using Cons.IH [OF s1(1) Cons.prems(2) s1(2), of "Suc i" "w @ [ln_handler e]"] that by blast
    qed
    have "(\<lambda>f. leaves rv e \<and> ln_eid f = ln_eid e \<or> gone rv l f) = gone rv (e # l)" using False by auto
    then show ?thesis using 1(1) 2(1) False i filtered_and [OF 1(2) 2(2)] by (simp add: raise_loop.simps [of _ "(a, i)"])
  qed
qed

text \<open>
  C12. Raising an event calls its listeners in their order, by priority and then by age, up to and including the first that
  says halt, and no other.  Afterwards exactly those among the called ones that were registered for one call or asked to
  be removed are gone, listeners of other events are untouched, and the event is marked as halted if and only if one
  of them halted it.
\<close>

theorem raise_calls_in_order:
  assumes "mixin_run (w0, new_mixin me evs n) (w, s)" "acceptable s (ev_type ev)" "\<not> ev_halt ev"
  shows "\<exists>s' ev'. raiseEvent (noting rv) (w, s, ev) =
      Some (Inr (), (w @ map ln_handler (called rv (listeners_of s (ev_type ev))), s', ev')) \<and>
    listeners_of s' (ev_type ev) =
      filter (\<lambda>e. \<not> (e \<in> set (called rv (listeners_of s (ev_type ev))) \<and> leaves rv e)) (listeners_of s (ev_type ev)) \<and>
    (\<forall>u. u \<noteq> ev_type ev \<longrightarrow> listeners_of s' u = listeners_of s u) \<and>
    ev_halt ev' = (\<exists>e\<in>set (listeners_of s (ev_type ev)). stops rv e)"
proof -
  let ?t = "ev_type ev"
  let ?l = "listeners_of s ?t"
  define ev1 where "ev1 = (if ev_source ev = None then ev\<lparr>ev_source := Some (mx_me s)\<rparr> else ev)"
  have ok: "mx_ok s" using mixin_run_ok [OF assms(1)] new_mixin_ok by simp
  have halt: "\<not> ev_halt ev1" using assms(3) by (simp add: ev1_def)
  have sub: "set (called rv m) \<subseteq> set m" for m by (induction m) auto
  obtain s' ev' where run: "raiseEvent (noting rv) (w, s, ev) = Some (Inr (), (w @ map ln_handler (called rv ?l), s', ev'))"
    "filtered (gone rv ?l) UNIV s s'" "ev_halt ev' = (\<exists>e\<in>set ?l. stops rv e)"
  proof (cases "map_of (mx_handlers s) ?t")
    case None
    then have "?l = []" by (simp add: listeners_of_def)
    then show thesis
      using that [of s ev1] filtered_nothing [OF ok] None assms(2) halt by (simp add: raiseEvent_def ev1_def)
  next
    case (Some a)
    have "a < length (mx_heap s)" using ok Some by (simp add: mx_ok_def)
    moreover have "drop 0 (mx_heap s ! a) = ?l" by (simp add: listeners_of_def Some)
    ultimately obtain s' where "raise_loop (noting rv) (a, 0) (w, s, ev1) =
        Some (Inr (), (w @ map ln_handler (called rv ?l), s', ev1\<lparr>ev_halt := \<exists>e\<in>set ?l. stops rv e\<rparr>))" "filtered (gone rv ?l) UNIV s s'"
      using raise_loop_noting [OF ok halt, of a 0 ?l rv w] by blast
    then show thesis
      using that [of s' "ev1\<lparr>ev_halt := \<exists>e\<in>set ?l. stops rv e\<rparr>"] Some assms(2) by (simp add: raiseEvent_def ev1_def Let_def)
  qed
  have ids: "e = f" if "e \<in> set (listeners_of s u)" "f \<in> set ?l" "ln_eid e = ln_eid f" for e f u
  proof -
    have "u = ?t" using ok that unfolding mx_ok_def by blast
    moreover have "distinct (map ln_eid ?l)" using ok by (simp add: mx_ok_def)
    ultimately show ?thesis using that by (auto simp: distinct_map inj_on_def)
  qed
  have left: "listeners_of s' u = filter (\<lambda>e. \<not> (e \<in> set (called rv ?l) \<and> leaves rv e)) (listeners_of s u)" for u
  proof -
    have "gone rv ?l f \<longleftrightarrow> f \<in> set (called rv ?l) \<and> leaves rv f" if "f \<in> set (listeners_of s u)" for f
      using ids [OF that] sub [of ?l] by blast
    then have "filter (\<lambda>f. \<not> gone rv ?l f) (listeners_of s u) = filter (\<lambda>e. \<not> (e \<in> set (called rv ?l) \<and> leaves rv e)) (listeners_of s u)"
      by (intro filter_cong) simp_all
    then show ?thesis using run(2) by (simp add: filtered_def)
  qed
  have "listeners_of s' u = listeners_of s u" if "u \<noteq> ?t" for u
  proof -
    have "e \<notin> set ?l" if "e \<in> set (listeners_of s u)" for e using ok \<open>u \<noteq> ?t\<close> that unfolding mx_ok_def by blast
    then show ?thesis unfolding left using sub [of ?l] by (intro filter_True) blast
  qed
  then show ?thesis using run(1,3) left by blast
qed

section \<open>A list that grows while it is walked\<close>

text \<open>A handler that adds a listener of a higher priority than its own whenever it is called.\<close>

definition recruiting :: "'w handlers" where
  "recruiting = (\<lambda>h (w, s, ev).
     if h = 0 then (case add_listener (ev_type ev) 1 False 1 False s of (Inl x, s') \<Rightarrow> (Inl x, (w, s', ev)) | (Inr _, s') \<Rightarrow> (Inr RvNone, (w, s', ev)))
     else (Inr RvNone, (w, s, ev)))"

lemma by_priority_recruit:
  assumes "\<forall>e\<in>set xs. ln_priority e = 1" "ln_priority entry = 0" "ln_priority new = 1"
  shows "by_priority (xs @ [entry, new]) = xs @ [new, entry]"
  using assms(1)
proof (induction xs)
  case (Cons x xs)
  then have "by_priority (xs @ [entry, new]) = xs @ [new, entry]" by simp
  moreover have "insort_key (\<lambda>e. - ln_priority e) x (xs @ [new, entry]) = x # xs @ [new, entry]"
    using Cons.prems assms(2,3) by (cases xs) simp_all
  ultimately show ?case by (simp add: by_priority_def)
qed (simp add: by_priority_def assms)

text \<open>
  C14. \<open>raiseEvent\<close> walks over the list itself and not over a copy of it: when a handler adds a listener of higher priority
  for the event that it handles, the list is sorted under the loop and the loop meets the same handler again.  A handler
  that does so every time makes \<open>raiseEvent\<close> run for ever.
\<close>

theorem raise_never_returns:
  fixes w :: 'w
  assumes "map_of (mx_handlers s) (ev_type ev) = Some a" "a < length (mx_heap s)" "acceptable s (ev_type ev)"
    and "mx_heap s ! a = [entry]" "ln_handler entry = 0" "ln_priority entry = 0" "\<not> ln_once entry"
  shows "raiseEvent recruiting (w, s, ev) = None"
proof -
  let ?inv = "\<lambda>p (st :: 'w raising). fst p = a \<and> ev_type (snd (snd st)) = ev_type ev \<and> map_of (mx_handlers (fst (snd st))) (ev_type ev) = Some a \<and>
    a < length (mx_heap (fst (snd st))) \<and> acceptable (fst (snd st)) (ev_type ev) \<and>
    (\<exists>xs. mx_heap (fst (snd st)) ! a = xs @ [entry] \<and> length xs = snd p \<and> (\<forall>e\<in>set xs. ln_priority e = 1))"
  have loop: False if "raise_loop recruiting p st = Some y" "?inv p st" for p and st :: "'w raising" and y
  proof -
    have "(recruiting :: 'w handlers) = recruiting \<longrightarrow> ?inv p st \<longrightarrow> False"
    proof (rule raise_loop.raw_induct [OF _ that(1), where P = "\<lambda>(c :: 'w handlers) p st y. c = recruiting \<longrightarrow> ?inv p st \<longrightarrow> False"], intro impI)
      fix loop :: "'w handlers \<Rightarrow> nat \<times> nat \<Rightarrow> 'w raising \<Rightarrow> (unit result \<times> 'w raising) option"
        and c :: "'w handlers" and p and st :: "'w raising" and z
      assume IH: "\<And>c p st y. loop c p st = Some y \<Longrightarrow> c = recruiting \<longrightarrow> ?inv p st \<longrightarrow> False"
        and run: "(if length (mx_heap (fst (snd st)) ! fst p) \<le> snd p then Some (Inr (), st)
          else case one_call c (mx_heap (fst (snd st)) ! fst p ! snd p) st of (Inl x, st') \<Rightarrow> Some (Inl x, st')
            | (Inr left, st') \<Rightarrow> if left then Some (Inr (), st') else loop c (fst p, Suc (snd p)) st') = Some z"
        and c: "c = recruiting" and inv: "?inv p st"
      obtain w s ev2 where st: "st = (w, s, ev2)" by (cases st) auto
      obtain xs where xs: "mx_heap s ! a = xs @ [entry]" "length xs = snd p" "\<forall>e\<in>set xs. ln_priority e = 1" using inv st by auto
      let ?new = "\<lparr>ln_priority = 1, ln_handler = 1, ln_once = False, ln_eid = mx_next_eid s + 1\<rparr>"
      define s' where "s' = add_entry_to (ev_type ev) a 1 False 1 s"
      have "add_listener (ev_type ev) 1 False 1 False s = (Inr (ev_type ev, mx_next_eid s'), s')"
        using inv st by (simp add: add_listener_def sm_run find_event_def s'_def)
      then have call: "one_call recruiting entry st = (Inr False, (w, s', ev2))"
        using inv st assms(5,7) by (simp add: one_call_def recruiting_def after_call_def Let_def sbind_def sm_run)
      have "mx_heap s' ! a = by_priority (xs @ [entry, ?new])" using inv st xs by (simp add: s'_def add_entry_to_def Let_def)
      then have "mx_heap s' ! a = (xs @ [?new]) @ [entry]" using by_priority_recruit [OF xs(3) assms(6), of ?new] by simp
      moreover have "\<forall>e\<in>set (xs @ [?new]). ln_priority e = 1" "length (xs @ [?new]) = Suc (snd p)" using xs by auto
      moreover have "mx_handlers s' = mx_handlers s" "length (mx_heap s') = length (mx_heap s)" "acceptable s' (ev_type ev) = acceptable s (ev_type ev)"
        by (simp_all add: s'_def add_entry_to_def Let_def acceptable_def)
      ultimately have "?inv (fst p, Suc (snd p)) (w, s', ev2)" using inv st by (auto intro!: exI [of _ "xs @ [?new]"])
      moreover have "loop recruiting (fst p, Suc (snd p)) (w, s', ev2) = Some z"
        using run inv st xs call unfolding c by (auto simp: nth_append)
      ultimately show False using IH by blast
    qed
    then show False using that(2) by blast
  qed
  have "raise_loop recruiting (a, 0) (w, s, ev2) = None" if "ev_type ev2 = ev_type ev" for ev2
    using loop [of "(a, 0)" "(w, s, ev2)"] assms(1-4) that by (cases "raise_loop recruiting (a, 0) (w, s, ev2)") auto
  then show ?thesis using assms(1,3) by (simp add: raiseEvent_def Let_def)
qed

section \<open>Three listeners\<close>

definition tick :: ev_type where "tick = EvClass 1 ''Tick''"

definition three :: mixin where
  "three = snd (add_listener tick 7 False 0 False (snd (add_listener tick 8 True 5 False (snd (add_listener tick 9 False 0 False
     (new_mixin 0 (Some [tick]) 0))))))"

lemma three_run: "mixin_run ([], new_mixin 0 (Some [tick]) 0) (w :: nat list, three)"
proof -
  have step: "mixin_run ws (w, s) \<Longrightarrow> mixin_run ws (w, snd (add_listener t h once prio b s))" for ws :: "nat list \<times> mixin" and w s t h once prio b
    by (rule mx_add [of ws w s t h once prio b "fst (add_listener t h once prio b s)"]) simp_all
  show ?thesis unfolding three_def by (rule step [OF step [OF step [OF mx_world [where w = "[]" and w' = w, OF mx_start]]]])
qed

lemma three_listeners: "map ln_handler (listeners_of three tick) = [8, 9, 7]" "map ln_priority (listeners_of three tick) = [5, 0, 0]"
  "map ln_once (listeners_of three tick) = [True, False, False]" "acceptable three tick"
     apply code_simp
    apply code_simp
   apply code_simp
  apply code_simp
  done

lemma listeners_in_order_witness:
  "ln_priority (listeners_of three tick ! 1) = ln_priority (listeners_of three tick ! 2) \<and> ln_eid (listeners_of three tick ! 1) < ln_eid (listeners_of three tick ! 2)"
proof -
  have l: "length (listeners_of three tick) = 3" using arg_cong [OF three_listeners(1), of length] by simp
  then have "ln_priority (listeners_of three tick ! 1) = 0" "ln_priority (listeners_of three tick ! 2) = 0"
    using arg_cong [OF three_listeners(2), of "\<lambda>l. l ! 1"] arg_cong [OF three_listeners(2), of "\<lambda>l. l ! 2"] by simp_all
  then show ?thesis using listeners_in_order [OF three_run, of 1 2 tick] l by simp
qed

lemma raise_calls_in_order_witness:
  "\<exists>s' ev'. raiseEvent (noting (\<lambda>h. if h = 9 then RvTuple [True, True] else RvNone)) ([], three, new_event tick) = Some (Inr (), ([8, 9], s', ev')) \<and>
    map ln_handler (listeners_of s' tick) = [7] \<and> ev_halt ev'"
proof -
  let ?rv = "\<lambda>h :: nat. if h = 9 then RvTuple [True, True] else RvNone" and ?l = "listeners_of three tick"
  have facts: "map ln_handler (called ?rv ?l) = [8, 9]" "\<exists>e\<in>set ?l. stops ?rv e"
    "map ln_handler (filter (\<lambda>e. \<not> (e \<in> set (called ?rv ?l) \<and> leaves ?rv e)) ?l) = [7]" by code_simp+
  have t: "ev_type (new_event tick) = tick" "\<not> ev_halt (new_event tick)" by (simp_all add: new_event_def)
  show ?thesis
    using raise_calls_in_order [OF three_run _ t(2), of ?rv "[]"] three_listeners(4) facts unfolding t(1) append_Nil by metis
qed

lemma raise_never_returns_witness:
  "raiseEvent recruiting ((), snd (add_listener tick 0 False 0 False (new_mixin 0 None 0)), new_event tick) = None"
  by (rule raise_never_returns [where a = 0 and entry = "\<lparr>ln_priority = 0, ln_handler = 0, ln_once = False, ln_eid = 1\<rparr>"]) code_simp+

end
