(* ===== verification/ARP_Services.thy ===== *)
theory ARP_Services
  imports L3_Learning Controller
begin

text \<open>
  The two components that answer ARP requests: the helper for other components (\<open>pox/pox/proto/arp_helper.py\<close>), whose
  listeners say what to answer, and the responder with a table of its own (\<open>pox/pox/proto/arp_responder.py\<close>).
\<close>

section \<open>Packets\<close>

text \<open>\<open>packet.find('arp')\<close>.  No payload that the model keeps opaque contains ARP.\<close>

fun find_arp :: "payload \<Rightarrow> arp option" where
  "find_arp (PArp m a n) = (if m_parsed m then Some a else if payload_parsed n then find_arp n else None)"
| "find_arp (PVlan m h n) = (if payload_parsed n then find_arp n else None)"
| "find_arp (PIpv4 m h n) = (if payload_parsed n then find_arp n else None)"
| "find_arp (PUdp m h n) = (if payload_parsed n then find_arp n else None)"
| "find_arp (PTcp m h n) = (if payload_parsed n then find_arp n else None)"
| "find_arp (PIcmp m h n) = (if payload_parsed n then find_arp n else None)"
| "find_arp _ = None"

definition eth_find_arp :: "ethernet \<Rightarrow> arp option" where
  "eth_find_arp e = (if payload_parsed (eth_next e) then find_arp (eth_next e) else None)"

definition arp_to_controller :: flow_mod where
  "arp_to_controller = (new_flow_mod (set_dl_type (Some 0x0806) match_init) 0 0 [ActOutput OFPP_CONTROLLER 0xffff])\<lparr>fm_priority := 0x7000\<rparr>"

definition arp_out :: "bytes \<Rightarrow> 16 word \<Rightarrow> packet_out" where
  "arp_out d port = (new_packet_out [ActOutput port 0xffff])\<lparr>po_data := d\<rparr>"

section \<open>The helper\<close>

text \<open>What a MAC argument may be: an address, \<open>False\<close> for that of the switch, \<open>True\<close> for that of the port.\<close>

datatype mac_arg = MacAddr eth_addr | MacOfSwitch | MacOfPort

record arp_con =
  ac_dpid :: "64 word"
  ac_ports :: port_collection

definition mac_of :: "arp_con \<Rightarrow> 16 word \<Rightarrow> mac_arg \<Rightarrow> eth_addr result" where
  "mac_of c port m =
     (case m of
        MacAddr a \<Rightarrow> Inr a
      | MacOfSwitch \<Rightarrow> Inr (dpid_to_mac (ac_dpid c))
      | MacOfPort \<Rightarrow> rbind (pc_getitem (ac_ports c) (ByNumber port)) (\<lambda>p. Inr (pp_hw_addr p)))"

definition helper_reply :: "bool \<Rightarrow> arp_con \<Rightarrow> 16 word \<Rightarrow> arp \<Rightarrow> mac_arg \<Rightarrow> mac_arg option \<Rightarrow> packet_out result" where
  "helper_reply le c inport a mac src =
     rbind (mac_of c inport mac) (\<lambda>mac.
     rbind (case src of None \<Rightarrow> Inr mac | Some s \<Rightarrow> mac_of c inport s) (\<lambda>src.
       let r = default_arp\<lparr>arp_opcode := 2, arp_hwdst := arp_hwsrc a, arp_protodst := arp_protosrc a, arp_hwsrc := mac,
                 arp_protosrc := arp_protodst a\<rparr>
       in rbind (eth_pack le (arp_frame r src (arp_hwsrc a) 0x0806)) (\<lambda>d. Inr (arp_out d inport))))"

text \<open>The request: with \<open>True\<close> on all ports at once the code reads a name that its file does not import.\<close>

definition helper_request :: "bool \<Rightarrow> arp_con \<Rightarrow> ip_addr \<Rightarrow> 16 word \<Rightarrow> mac_arg \<Rightarrow> ip_addr option \<Rightarrow> packet_out list result" where
  "helper_request le c ip port src src_ip =
     (if src = MacOfPort \<and> port \<in> {OFPP_FLOOD, OFPP_ALL} then (if pc_keys (ac_ports c) = {} then Inr [] else Inl NameError)
      else rbind (mac_of c port src) (\<lambda>mac.
        let r = default_arp\<lparr>arp_opcode := 1, arp_hwdst := ETH_BROADCAST, arp_protodst := ip, arp_hwsrc := mac,
                  arp_protosrc := (case src_ip of None \<Rightarrow> 0 | Some i \<Rightarrow> i)\<rparr>
        in rbind (eth_pack le (arp_frame r mac ETH_BROADCAST 0x0806)) (\<lambda>d. Inr [arp_out d port])))"

record arp_helper =
  ah_install :: bool
  ah_eat :: bool
  ah_request_src :: mac_arg
  ah_reply_src :: "mac_arg option"
  ah_sent :: "(64 word \<times> of_body) list"

text \<open>What the listeners of \<open>ARPRequest\<close> leave in the event: the address to answer, who answers, and whether to eat the packet.\<close>

record arp_answer =
  aa_reply :: "mac_arg option"
  aa_from :: "mac_arg option option"
  aa_eat :: bool

definition helper_send :: "64 word \<Rightarrow> of_body \<Rightarrow> (arp_helper, unit) sm" where
  "helper_send dpid b = sthen (slift (rbind (msg_pack (\<lparr>hdr_version = OFP_VERSION, hdr_xid = 0\<rparr>, b)) (\<lambda>_. Inr ())))
     (smod (\<lambda>s. s\<lparr>ah_sent := ah_sent s @ [(dpid, b)]\<rparr>))"

definition helper_connection_up :: "64 word \<Rightarrow> (arp_helper, unit) sm" where
  "helper_connection_up dpid = sbind (sget ah_install) (\<lambda>i. if i then helper_send dpid (MFlowMod arp_to_controller) else sret ())"

text \<open>The handler; the result says whether the event is halted.\<close>

definition helper_packet_in ::
    "packet_lib \<Rightarrow> arp_con \<Rightarrow> (arp \<Rightarrow> arp_answer) \<Rightarrow> (arp \<Rightarrow> bool) \<Rightarrow> packet_in \<Rightarrow> (arp_helper, bool) sm" where
  "helper_packet_in L c on_request on_reply m = sbind (sget id) (\<lambda>h.
     case eth_find_arp (eth_parse L (pi_data m)) of
       None \<Rightarrow> sret False
     | Some a \<Rightarrow>
         if arp_prototype a \<noteq> 0x0800 \<or> arp_hwtype a \<noteq> 1 then sret False
         else if arp_opcode a = 1 then
           (case aa_reply (on_request a) of
              None \<Rightarrow> sret (ah_eat h)
            | Some mac \<Rightarrow>
                sbind (slift (helper_reply (lib_little L) c (pi_in_port m) a mac
                         (case aa_from (on_request a) of None \<Rightarrow> ah_reply_src h | Some s \<Rightarrow> s))) (\<lambda>po.
                  sthen (helper_send (ac_dpid c) (MPacketOut po)) (sret (aa_eat (on_request a)))))
         else if arp_opcode a = 2 then sret (on_reply a)
         else sret (ah_eat h))"

section \<open>The responder\<close>

record arp_entry =
  ae_timeout :: nat
  ae_static :: bool
  ae_flood :: bool
  ae_mac :: "eth_addr option"

record responder =
  ar_table :: "(ip_addr, arp_entry) dict"
  ar_failed :: "(ip_addr, nat) dict"
  ar_install :: bool
  ar_eat :: bool
  ar_learn :: bool
  ar_timeout :: nat
  ar_sent :: "(64 word \<times> of_body) list"

type_synonym 'a resp = "(responder, 'a) sm"

text \<open>An entry; \<open>None\<close> as address stands for \<open>True\<close>, the address of the switch that asks.\<close>

definition new_arp_entry :: "nat \<Rightarrow> nat \<Rightarrow> eth_addr option \<Rightarrow> bool option \<Rightarrow> bool option \<Rightarrow> arp_entry" where
  "new_arp_entry now timeout mac static flood =
     \<lparr>ae_timeout = now + timeout, ae_static = (case static of None \<Rightarrow> mac = None | Some b \<Rightarrow> b),
      ae_flood = (case flood of None \<Rightarrow> mac \<noteq> None | Some b \<Rightarrow> b), ae_mac = mac\<rparr>"

definition arp_entry_expired :: "nat \<Rightarrow> arp_entry \<Rightarrow> bool" where
  "arp_entry_expired now e \<longleftrightarrow> \<not> ae_static e \<and> ae_timeout e < now"

definition table_set :: "nat \<Rightarrow> ip_addr \<Rightarrow> eth_addr option \<Rightarrow> bool option \<Rightarrow> responder \<Rightarrow> responder" where
  "table_set now ip mac static s = s\<lparr>ar_table := d_set ip (new_arp_entry now (ar_timeout s) mac static None) (ar_table s)\<rparr>"

definition responder_expire :: "nat \<Rightarrow> responder \<Rightarrow> responder" where
  "responder_expire now s = s\<lparr>ar_table := filter (\<lambda>(k, e). \<not> arp_entry_expired now e) (ar_table s),
     ar_failed := filter (\<lambda>(k, t). \<not> ar_timeout s < now - t) (ar_failed s)\<rparr>"

definition resp_send :: "64 word \<Rightarrow> of_body \<Rightarrow> unit resp" where
  "resp_send dpid b = sthen (slift (rbind (msg_pack (\<lparr>hdr_version = OFP_VERSION, hdr_xid = 0\<rparr>, b)) (\<lambda>_. Inr ())))
     (smod (\<lambda>s. s\<lparr>ar_sent := ar_sent s @ [(dpid, b)]\<rparr>))"

definition responder_connection_up :: "64 word \<Rightarrow> unit resp" where
  "responder_connection_up dpid = sbind (sget ar_install) (\<lambda>i. if i then resp_send dpid (MFlowMod arp_to_controller) else sret ())"

definition responder_learn :: "nat \<Rightarrow> arp \<Rightarrow> responder \<Rightarrow> responder" where
  "responder_learn now a s =
     (case map_of (ar_table s) (arp_protosrc a) of
        None \<Rightarrow> table_set now (arp_protosrc a) (Some (arp_hwsrc a)) None s
      | Some e \<Rightarrow>
          (case ae_mac e of
             None \<Rightarrow> s
           | Some mac \<Rightarrow>
               if mac \<noteq> arp_hwsrc a \<and> ae_static e then s
               else table_set now (arp_protosrc a) (Some (arp_hwsrc a)) None s))"

definition answer_arp :: "64 word \<Rightarrow> arp \<Rightarrow> arp_entry \<Rightarrow> arp" where
  "answer_arp dpid a e = default_arp\<lparr>arp_hwtype := arp_hwtype a, arp_prototype := arp_prototype a, arp_hwlen := arp_hwlen a,
     arp_protolen := arp_protolen a, arp_opcode := 2, arp_hwdst := arp_hwsrc a, arp_protodst := arp_protosrc a,
     arp_protosrc := arp_protodst a, arp_hwsrc := (case ae_mac e of None \<Rightarrow> dpid_to_mac dpid | Some mac \<Rightarrow> mac)\<rparr>"

text \<open>The answer to a tagged request is tagged; the tag names the type of the request's own frame again.\<close>

definition answer_frame :: "64 word \<Rightarrow> ethernet \<Rightarrow> arp \<Rightarrow> arp_entry \<Rightarrow> ethernet" where
  "answer_frame dpid packet a e =
     (let f = arp_frame (answer_arp dpid a e) (dpid_to_mac dpid) (arp_hwsrc a) (eth_type packet) in
      if eth_type packet = 0x8100 then
        (case eth_next packet of
           PVlan m v n \<Rightarrow> f\<lparr>eth_next := PVlan \<lparr>m_parsed = False, m_raw = None\<rparr>
             \<lparr>vlan_pcp = vlan_pcp v, vlan_cfi = 0, vlan_id = vlan_id v, vlan_eth_type = eth_type packet\<rparr> (eth_next f)\<rparr>
         | _ \<Rightarrow> f)
      else f)"

definition responder_flood :: "64 word \<Rightarrow> packet_in \<Rightarrow> arp \<Rightarrow> unit resp" where
  "responder_flood dpid m a = sbind (sget (\<lambda>s. map_of (ar_table s) (arp_protodst a))) (\<lambda>e.
     if (case e of None \<Rightarrow> True | Some e \<Rightarrow> ae_flood e)
     then sbind (slift (resend m (new_packet_out [ActOutput OFPP_FLOOD 0xffff]))) (\<lambda>po. resp_send dpid (MPacketOut po))
     else sret ())"

definition responder_packet_in :: "packet_lib \<Rightarrow> nat \<Rightarrow> 64 word \<Rightarrow> packet_in \<Rightarrow> bool resp" where
  "responder_packet_in L now dpid m =
     (let packet = eth_parse L (pi_data m) in
      if \<not> m_parsed (eth_meta packet) then sret False
      else case eth_find_arp packet of
        None \<Rightarrow> sret False
      | Some a \<Rightarrow>
          if arp_prototype a = 0x0800 \<and> arp_hwtype a = 1 \<and> arp_protosrc a \<noteq> 0 then
            sthen (smod (\<lambda>s. if ar_learn s then responder_learn now a s else s))
            (sbind (sget (\<lambda>s. (map_of (ar_table s) (arp_protodst a), ar_eat s))) (\<lambda>(e, eat).
              if arp_opcode a = 1 then
                (case e of
                   Some e \<Rightarrow>
                     sbind (slift (eth_pack (lib_little L) (answer_frame dpid packet a e))) (\<lambda>d.
                       sthen (resp_send dpid (MPacketOut ((arp_out d OFPP_IN_PORT)\<lparr>po_in_port := pi_in_port m\<rparr>))) (sret eat))
                 | None \<Rightarrow>
                     sthen (smod (\<lambda>s. s\<lparr>ar_failed := d_set (arp_protodst a) now (ar_failed s)\<rparr>))
                       (sthen (responder_flood dpid m a) (sret eat)))
              else sthen (responder_flood dpid m a) (sret eat)))
          else sbind (sget ar_eat) (\<lambda>eat. sthen (responder_flood dpid m a) (sret eat)))"

section \<open>What the responder answers\<close>

lemma arp_parse_parsed:
  assumes "arp_parse raw = PArp mt a n" "m_parsed mt"
  shows "arp_hwtype a = 1 \<and> arp_prototype a = 0x0800 \<and> arp_hwlen a = 6 \<and> arp_protolen a = 4 \<and> length (arp_hwsrc a) = 6 \<and> length (arp_hwdst a) = 6"
  using assms by (auto simp: arp_parse_def Let_def py_slice_def split: if_splits)

lemma arp_parse_shape: "\<exists>mt a b. arp_parse raw = PArp mt a b \<and> (b = PNone \<or> (\<exists>bs. b = PBytes bs))"
  by (auto simp: arp_parse_def Let_def)

text \<open>In an untagged ARP frame the packet that is found is the payload, and it is IPv4 over Ethernet.\<close>

lemma found_arp_fields:
  assumes "eth_type (eth_parse L raw) = 0x0806" "eth_find_arp (eth_parse L raw) = Some a"
  shows "m_parsed (eth_meta (eth_parse L raw))"
    and "arp_hwtype a = 1" "arp_prototype a = 0x0800" "arp_hwlen a = 6" "arp_protolen a = 4" "length (arp_hwsrc a) = 6"
proof -
  have len: "\<not> length raw < 14" using assms(1) by (auto simp: eth_parse_def)
  then show "m_parsed (eth_meta (eth_parse L raw))" by (simp add: eth_parse_def)
  have "eth_next (eth_parse L raw) = arp_parse (drop 14 raw)"
    using assms(1) len by (simp add: eth_parse_def parse_next.simps [of L "0x0806"])
  moreover obtain mt b n where p: "arp_parse (drop 14 raw) = PArp mt b n" "n = PNone \<or> (\<exists>bs. n = PBytes bs)" using arp_parse_shape by blast
  ultimately have "m_parsed mt" "b = a" using assms(2) by (auto simp: eth_find_arp_def payload_parsed_def split: if_splits)
  then show "arp_hwtype a = 1" "arp_prototype a = 0x0800" "arp_hwlen a = 6" "arp_protolen a = 4" "length (arp_hwsrc a) = 6"
    using arp_parse_parsed [OF p(1)] by auto
qed

lemma length_dpid_to_mac: "length (dpid_to_mac d) = 6"
  by (simp add: dpid_to_mac_def)

text \<open>
  C33. The responder answers an untagged request, from a host that has an address, for an address in its table with one packet-out, back to the port of the
  request, whose bytes parse as an ARP reply from the address that was asked for, with the Ethernet address of the
  table or the switch's own, to the host that asked.  It looks at nothing else in the entry: one whose time is over is
  answered too, until the timer that runs every five seconds takes it away, where the comment on \<open>Entry\<close> says that such
  requests are flooded.  (The answer to a tagged request names the wrong type, see \<open>answer_frame\<close>.)
\<close>

theorem arp_answered:
  assumes e: "eth_parse L (pi_data m) = e" "eth_type e = 0x0806" "eth_find_arp e = Some a" "arp_opcode a = 1" "arp_protosrc a \<noteq> 0"
    and s1: "s1 = (if ar_learn s then responder_learn now a s else s)" "map_of (ar_table s1) (arp_protodst a) = Some x"
    and mac: "mac = (case ae_mac x of None \<Rightarrow> dpid_to_mac dpid | Some mac \<Rightarrow> mac)" "length mac = 6"
  shows "\<exists>d r. responder_packet_in L now dpid m s = (Inr (ar_eat s), s1\<lparr>ar_sent := ar_sent s @ [(dpid, MPacketOut
      \<lparr>po_buffer_id = NO_BUFFER, po_in_port = pi_in_port m, po_actions = [ActOutput OFPP_IN_PORT 0xffff], po_data = d\<rparr>)]\<rparr>) \<and>
    eth_dst (eth_parse L d) = arp_hwsrc a \<and> eth_src (eth_parse L d) = dpid_to_mac dpid \<and> eth_find_arp (eth_parse L d) = Some r \<and>
    arp_opcode r = 2 \<and> arp_hwsrc r = mac \<and> arp_protosrc r = arp_protodst a \<and> arp_hwdst r = arp_hwsrc a \<and> arp_protodst r = arp_protosrc a"
proof -
  have p: "m_parsed (eth_meta e)" "arp_hwtype a = 1" "arp_prototype a = 0x0800" "arp_hwlen a = 6" "arp_protolen a = 4" "length (arp_hwsrc a) = 6"
    using found_arp_fields [of L "pi_data m" a] e by simp_all
  let ?f = "arp_frame (answer_arp dpid a x) (dpid_to_mac dpid) (arp_hwsrc a) 0x0806"
  have a: "arp_hwsrc (answer_arp dpid a x) = mac" "arp_hwdst (answer_arp dpid a x) = arp_hwsrc a" "arp_opcode (answer_arp dpid a x) = 2"
    "arp_protosrc (answer_arp dpid a x) = arp_protodst a" "arp_protodst (answer_arp dpid a x) = arp_protosrc a"
    "arp_hwtype (answer_arp dpid a x) = 1" "arp_prototype (answer_arp dpid a x) = 0x0800" "arp_hwlen (answer_arp dpid a x) = 6"
    "arp_protolen (answer_arp dpid a x) = 4"
    using mac p by (simp_all add: answer_arp_def)
  obtain d where d: "eth_pack (lib_little L) ?f = Inr d" "eth_parse L d =
    \<lparr>eth_meta = \<lparr>m_parsed = True, m_raw = Some d\<rparr>, eth_dst = arp_hwsrc a, eth_src = dpid_to_mac dpid,
     eth_type = 0x0806, eth_next = PArp \<lparr>m_parsed = True, m_raw = Some (drop 14 d)\<rparr> (answer_arp dpid a x) (PBytes [])\<rparr>"
    using arp_frame_roundtrip [of ?f _ "answer_arp dpid a x" "[]" "lib_little L" L] mac p(6) a
    by (auto simp: arp_frame_def length_dpid_to_mac)
  have "length d = 42"
    using d(1) mac p(6) a by (auto simp: eth_pack_def unparsed_raw_def arp_frame_def eth_hdr_def fmt_6s_def length_dpid_to_mac arp_hdr_def)
  then have send: "resp_send dpid (MPacketOut \<lparr>po_buffer_id = NO_BUFFER, po_in_port = pi_in_port m, po_actions = [ActOutput OFPP_IN_PORT 0xffff], po_data = d\<rparr>) s2 =
      (Inr (), s2\<lparr>ar_sent := ar_sent s2 @ [(dpid, MPacketOut \<lparr>po_buffer_id = NO_BUFFER, po_in_port = pi_in_port m, po_actions = [ActOutput OFPP_IN_PORT 0xffff], po_data = d\<rparr>)]\<rparr>)" for s2
    using packet_out_packs by (auto simp: resp_send_def sm_run packs_def)
  have keep: "ar_sent s1 = ar_sent s" "ar_eat s1 = ar_eat s"
    by (auto simp: s1(1) responder_learn_def table_set_def split: option.split)
  have "responder_packet_in L now dpid m s = (Inr (ar_eat s), s1\<lparr>ar_sent := ar_sent s @ [(dpid, MPacketOut
      \<lparr>po_buffer_id = NO_BUFFER, po_in_port = pi_in_port m, po_actions = [ActOutput OFPP_IN_PORT 0xffff], po_data = d\<rparr>)]\<rparr>)"
    using e p(1-3) s1 d(1) keep
    by (simp add: responder_packet_in_def Let_def sm_run answer_frame_def arp_out_def new_packet_out_def send flip: s1(1))
  moreover have "eth_find_arp (eth_parse L d) = Some (answer_arp dpid a x)" by (simp add: d(2) eth_find_arp_def payload_parsed_def)
  ultimately show ?thesis using d(2) a by (intro exI [of _ d] exI [of _ "answer_arp dpid a x"]) simp
qed

text \<open>
  A static entry is meant to stay.  When its own host sends an ARP packet, the entry is renewed as one that was learned;
  from then on it expires, and another host can take it over.
\<close>

lemma static_entry_lost:
  assumes "map_of (ar_table s) ip = Some x" "ae_static x" "ae_mac x = Some mac"
    and "arp_protosrc a1 = ip" "arp_hwsrc a1 = mac" "arp_protosrc a2 = ip" "arp_hwsrc a2 = mac'" "mac' \<noteq> mac"
  shows "map_of (ar_table (responder_learn t2 a2 s)) ip = Some x"
    and "map_of (ar_table (responder_learn t2 a2 (responder_learn t1 a1 s))) ip = Some (new_arp_entry t2 (ar_timeout s) (Some mac') None None)"
    and "\<not> ae_static (new_arp_entry t2 (ar_timeout s) (Some mac') None None)"
  using assms by (auto simp: responder_learn_def table_set_def new_arp_entry_def map_of_d_set)

text \<open>A host asks for \<open>10.0.0.2\<close>.\<close>

definition arp_query :: packet_in where
  "arp_query = \<lparr>pi_in_port = 3, pi_buffer_id = 8, pi_reason = 0, pi_data = replicate 6 0xff @ [2, 0, 0, 0, 0, 9, 8, 6] @
     [0, 1, 8, 0, 6, 4, 0, 1, 2, 0, 0, 0, 0, 9, 10, 0, 0, 1, 0, 0, 0, 0, 0, 0, 10, 0, 0, 2], pi_total_len = None\<rparr>"

definition query_arp :: arp where
  "query_arp = default_arp\<lparr>arp_opcode := 1, arp_hwsrc := [2, 0, 0, 0, 0, 9], arp_hwdst := [0, 0, 0, 0, 0, 0], arp_protosrc := 0x0A000001, arp_protodst := 0x0A000002\<rparr>"

definition stocked :: responder where
  "stocked = \<lparr>ar_table = [(0x0A000002, new_arp_entry 0 240 (Some [2, 0, 0, 0, 0, 7]) None None)], ar_failed = [], ar_install = True,
     ar_eat = True, ar_learn = True, ar_timeout = 240, ar_sent = []\<rparr>"

lemma query_parsed: "eth_type (eth_parse no_lib (pi_data arp_query)) = 0x0806" "eth_find_arp (eth_parse no_lib (pi_data arp_query)) = Some query_arp"
  by code_simp+

text \<open>Two seconds after its time the entry is still answered.\<close>

theorem arp_answered_witness:
  "\<exists>d r. responder_packet_in no_lib 242 1 arp_query stocked = (Inr True, (responder_learn 242 query_arp stocked)\<lparr>ar_sent := [(1, MPacketOut
      \<lparr>po_buffer_id = NO_BUFFER, po_in_port = 3, po_actions = [ActOutput OFPP_IN_PORT 0xffff], po_data = d\<rparr>)]\<rparr>) \<and>
    eth_find_arp (eth_parse no_lib d) = Some r \<and> arp_hwsrc r = [2, 0, 0, 0, 0, 7] \<and> arp_protosrc r = 0x0A000002 \<and> arp_protodst r = 0x0A000001 \<and>
    arp_entry_expired 242 (snd (hd (ar_table stocked)))"
proof -
  let ?s = "responder_learn 242 query_arp stocked" and ?e = "new_arp_entry 0 240 (Some [2, 0, 0, 0, 0, 7]) None None"
  have "map_of (ar_table ?s) (arp_protodst query_arp) = Some ?e"
    "arp_opcode query_arp = 1" "arp_protosrc query_arp = 0x0A000001" "ar_learn stocked" "arp_protodst query_arp = 0x0A000002" "ar_eat stocked" "ar_sent stocked = []"
    "ae_mac ?e = Some [2, 0, 0, 0, 0, 7]" "pi_in_port arp_query = 3" "arp_entry_expired 242 (snd (hd (ar_table stocked)))"
    by code_simp+
  then show ?thesis
    using arp_answered [OF refl query_parsed, of ?s stocked 242 ?e "[2, 0, 0, 0, 0, 7]" 1] by auto
qed

end
