(* ===== verification/NAT.thy ===== *)
theory NAT
  imports ARP_Services
begin

text \<open>
  Network address translation (\<open>pox/pox/misc/nat.py\<close>, class \<open>NAT\<close>): the choice of an outside port, the records of
  connections indexed in both directions, and the handlers.  Records and the flow modifications in them are shared
  objects, so they live in a list and the dictionaries hold their positions.  The keys are matches, compared by
  \<open>match_eq\<close>.  A packet is TCP or UDP when the chain of payloads that the packet model parses says so; TCP inside the
  payloads that it keeps opaque is not looked for.
\<close>

section \<open>State\<close>

record nat_record =
  nr_expires :: nat
  nr_real :: "16 word"
  nr_fake :: "nat option"
  nr_in_match :: ofp_match
  nr_out_match :: ofp_match
  nr_in_fm :: flow_mod
  nr_out_fm :: flow_mod

record nat_state =
  nt_inside_ip :: ip_addr
  nt_outside_ip :: ip_addr
  nt_gateway_ip :: ip_addr
  nt_dns_ip :: "ip_addr option"
  nt_outside_port :: port_index
  nt_dpid :: "64 word"
  nt_subnet :: "(ip_addr \<times> nat) option"
  nt_portno :: "16 word option"
  nt_gateway_eth :: "eth_addr option"
  nt_connection :: "arp_con option"
  nt_used_ports :: "(byte option \<times> nat) set"
  nt_records :: "nat_record list"
  nt_outgoing :: "(ofp_match \<times> nat) list"
  nt_incoming :: "(ofp_match \<times> nat) list"
  nt_sent :: "of_body list"

type_synonym 'a nt = "(nat_state, 'a) sm"

definition FLOW_TIMEOUT :: "16 word" where "FLOW_TIMEOUT = 60"
definition FLOW_MEMORY_TIMEOUT :: nat where "FLOW_MEMORY_TIMEOUT = 600"

definition new_nat :: "ip_addr \<Rightarrow> ip_addr \<Rightarrow> ip_addr \<Rightarrow> ip_addr option \<Rightarrow> port_index \<Rightarrow> 64 word \<Rightarrow> (ip_addr \<times> nat) option \<Rightarrow> nat_state" where
  "new_nat inside outside gw dns port dpid subnet = \<lparr>nt_inside_ip = inside, nt_outside_ip = outside, nt_gateway_ip = gw, nt_dns_ip = dns,
     nt_outside_port = port, nt_dpid = dpid, nt_subnet = subnet, nt_portno = None, nt_gateway_eth = None, nt_connection = None,
     nt_used_ports = {}, nt_records = [], nt_outgoing = [], nt_incoming = [], nt_sent = []\<rparr>"

text \<open>Dictionaries whose keys are matches.\<close>

definition m_get :: "ofp_match \<Rightarrow> (ofp_match \<times> 'v) list \<Rightarrow> 'v option" where
  "m_get k d = map_option snd (find (\<lambda>(k', v). match_eq k' k) d)"

fun m_set :: "ofp_match \<Rightarrow> 'v \<Rightarrow> (ofp_match \<times> 'v) list \<Rightarrow> (ofp_match \<times> 'v) list" where
  "m_set k v [] = [(k, v)]"
| "m_set k v ((k', v') # d) = (if match_eq k' k then (k', v) # d else (k', v') # m_set k v d)"

definition m_del :: "ofp_match \<Rightarrow> (ofp_match \<times> 'v) list \<Rightarrow> (ofp_match \<times> 'v) list result" where
  "m_del k d = (if m_get k d = None then Inl KeyError else Inr (filter (\<lambda>(k', v). \<not> match_eq k' k) d))"

section \<open>Choosing a port\<close>

function pick_from :: "(byte option \<times> nat) set \<Rightarrow> byte option \<Rightarrow> nat \<Rightarrow> nat \<Rightarrow> nat option" where
  "pick_from used proto port cycle =
     (if cycle < 2 then
        (if (proto, port) \<notin> used then Some port
         else if 65534 \<le> port + 1 then pick_from used proto 49152 (cycle + 1)
         else pick_from used proto (port + 1) cycle)
      else None)"
  by pat_completeness auto
termination
  by (relation "measure (\<lambda>(used, proto, port, cycle). (2 - cycle) * 70000 + (65534 - port))") auto

declare pick_from.simps [simp del]

text \<open>\<open>_pick_port\<close>; \<open>rnd\<close> is what \<open>random.randint(49152, 65534)\<close> returns.\<close>

definition pick_port :: "nat \<Rightarrow> byte option \<Rightarrow> 16 word \<Rightarrow> nat option nt" where
  "pick_port rnd proto src = sbind (sget nt_used_ports) (\<lambda>used.
     case pick_from used proto (if src < 1024 then rnd else unat src) 0 of
       None \<Rightarrow> sret None
     | Some p \<Rightarrow> sthen (smod (\<lambda>s. s\<lparr>nt_used_ports := insert (proto, p) (nt_used_ports s)\<rparr>)) (sret (Some p)))"

section \<open>Matches and packets\<close>

definition strip_match :: "ofp_match \<Rightarrow> ofp_match" where
  "strip_match x = (let pair = map_option (\<lambda>i. (i, 32)) in
     set_nw_proto (mt_nw_proto x) (set_dl_type (mt_dl_type x) (set_tp_src (mt_tp_src x) (set_tp_dst (mt_tp_dst x)
       (put_nw_src (pair (mt_nw_src x)) (put_nw_dst (pair (mt_nw_dst x)) (set_dl_src (mt_dl_src x) (set_dl_dst (mt_dl_dst x) match_init))))))))"

text \<open>The first TCP (or UDP) object of the chain: whether it is below an IPv4 header, and its ports.\<close>

fun find_l4 :: "bool \<Rightarrow> ipv4 option \<Rightarrow> payload \<Rightarrow> (ipv4 option \<times> 16 word \<times> 16 word) option" where
  "find_l4 is_tcp ip (PTcp m h n) =
     (if is_tcp \<and> m_parsed m then Some (ip, tcp_srcport h, tcp_dstport h) else if payload_parsed n then find_l4 is_tcp None n else None)"
| "find_l4 is_tcp ip (PUdp m h n) =
     (if \<not> is_tcp \<and> m_parsed m then Some (ip, udp_srcport h, udp_dstport h) else if payload_parsed n then find_l4 is_tcp None n else None)"
| "find_l4 is_tcp ip (PIpv4 m h n) = (if payload_parsed n then find_l4 is_tcp (Some h) n else None)"
| "find_l4 is_tcp ip (PVlan m h n) = (if payload_parsed n then find_l4 is_tcp None n else None)"
| "find_l4 is_tcp ip (PArp m h n) = (if payload_parsed n then find_l4 is_tcp None n else None)"
| "find_l4 is_tcp ip (PIcmp m h n) = (if payload_parsed n then find_l4 is_tcp None n else None)"
| "find_l4 is_tcp ip _ = None"

definition eth_find_l4 :: "bool \<Rightarrow> ethernet \<Rightarrow> (ipv4 option \<times> 16 word \<times> 16 word) option" where
  "eth_find_l4 is_tcp e = (if payload_parsed (eth_next e) then find_l4 is_tcp None (eth_next e) else None)"

definition nat_is_local :: "(ip_addr \<times> nat) option \<Rightarrow> ip_addr \<Rightarrow> bool" where
  "nat_is_local subnet ip \<longleftrightarrow> ip_is_multicast ip \<or>
     (case subnet of
        Some net \<Rightarrow> inNetwork ip net
      | None \<Rightarrow> inNetwork ip (0xC0A80000, 16) \<or> inNetwork ip (0x0A000000, 8) \<or> inNetwork ip (0xAC100000, 12))"

section \<open>Sending\<close>

text \<open>The messages that \<open>pack\<close> of a flow modification gives.\<close>

definition flow_bodies :: "flow_mod \<Rightarrow> of_body list" where
  "flow_bodies f = (case flow_mod_with_data f of (f', po) \<Rightarrow>
     MFlowMod f' # (case po of None \<Rightarrow> [] | Some p \<Rightarrow> [MBarrierRequest, MPacketOut p]))"

definition packs_ok :: "of_body \<Rightarrow> unit result" where
  "packs_ok b = rbind (msg_pack (\<lparr>hdr_version = OFP_VERSION, hdr_xid = 0\<rparr>, b)) (\<lambda>_. Inr ())"

definition nat_send :: "of_body list \<Rightarrow> unit nt" where
  "nat_send bs = sthen (sfor bs (\<lambda>b. slift (packs_ok b))) (smod (\<lambda>s. s\<lparr>nt_sent := nt_sent s @ bs\<rparr>))"

definition arp_for_gateway :: "bool \<Rightarrow> unit nt" where
  "arp_for_gateway le = sbind (sget id) (\<lambda>s.
     case (nt_connection s, nt_portno s) of
       (Some c, Some port) \<Rightarrow>
         sbind (slift (helper_request le c (nt_gateway_ip s) port MacOfPort (Some (nt_outside_ip s)))) (\<lambda>pos. nat_send (map MPacketOut pos))
     | _ \<Rightarrow> sraise AttributeError)"

text \<open>The Ethernet address of the outside port; \<open>None\<close> while there is no connection.\<close>

definition outside_eth :: "nat_state \<Rightarrow> eth_addr option result" where
  "outside_eth s =
     (case (nt_connection s, nt_portno s) of
        (None, _) \<Rightarrow> Inr None
      | (Some c, Some port) \<Rightarrow> rbind (pc_getitem (ac_ports c) (ByNumber port)) (\<lambda>p. Inr (Some (pp_hw_addr p)))
      | (Some c, None) \<Rightarrow> Inl IndexError)"

section \<open>Records\<close>

definition nat_flow :: "ofp_match \<Rightarrow> action list \<Rightarrow> flow_mod" where
  "nat_flow match as = (new_flow_mod match 0 FLOW_TIMEOUT as)\<lparr>fm_flags := 1\<rparr>"

text \<open>The flow for packets from outside; \<open>dns\<close> is the name server when the packet went to the name server that the NAT claims to be.\<close>

definition incoming_flow :: "nat_state \<Rightarrow> ethernet \<Rightarrow> packet_in \<Rightarrow> ofp_match \<Rightarrow> ip_addr \<Rightarrow> ip_addr option \<Rightarrow> 16 word \<Rightarrow> nat option \<Rightarrow> eth_addr \<Rightarrow> flow_mod" where
  "incoming_flow s packet m match srcip dns rport fake gw =
     (let f = set_dl_dst None (set_dl_src (Some gw) (set_tp_dst (map_option word_of_nat fake) (put_nw_dst (Some (nt_outside_ip s, 32))
                (set_in_port (nt_portno s) (match_flip match None)))))
      in nat_flow (case dns of None \<Rightarrow> f | Some d \<Rightarrow> put_nw_src (Some (d, 32)) f)
           ([ActDlAddr SetSrc (eth_dst packet), ActDlAddr SetDst (eth_src packet), ActNwAddr SetDst srcip] @
            (case dns of None \<Rightarrow> [] | Some d \<Rightarrow> [ActNwAddr SetSrc (nt_inside_ip s)]) @
            (if fake \<noteq> Some (unat rport) then [ActTpPort SetDst rport] else []) @ [ActOutput (pi_in_port m) 0xffff]))"

text \<open>The flow for packets from inside.  Without a port it can not be packed, see \<open>nat_resend\<close>.\<close>

definition outgoing_flow :: "nat_state \<Rightarrow> packet_in \<Rightarrow> ofp_match \<Rightarrow> ip_addr option \<Rightarrow> 16 word \<Rightarrow> nat option \<Rightarrow> eth_addr \<Rightarrow> eth_addr \<Rightarrow> flow_mod" where
  "outgoing_flow s m match dns rport fake outside gw =
     nat_flow (set_in_port (Some (pi_in_port m)) (match_clone match))
       ([ActDlAddr SetSrc outside, ActNwAddr SetSrc (nt_outside_ip s)] @
        (case dns of None \<Rightarrow> [] | Some d \<Rightarrow> [ActNwAddr SetDst d]) @
        (case fake of Some p \<Rightarrow> if p \<noteq> unat rport then [ActTpPort SetSrc (word_of_nat p)] else [] | None \<Rightarrow> []) @
        [ActDlAddr SetDst gw, ActOutput (the (nt_portno s)) 0xffff])"

definition new_record :: "nat \<Rightarrow> nat_state \<Rightarrow> ethernet \<Rightarrow> packet_in \<Rightarrow> ofp_match \<Rightarrow> ip_addr \<Rightarrow> ip_addr option \<Rightarrow> 16 word \<Rightarrow> nat option \<Rightarrow> eth_addr \<Rightarrow> eth_addr \<Rightarrow> nat_record" where
  "new_record now s packet m match srcip dns rport fake outside gw =
     (let inf = incoming_flow s packet m match srcip dns rport fake gw; outf = outgoing_flow s m match dns rport fake outside gw in
      \<lparr>nr_expires = now + FLOW_MEMORY_TIMEOUT, nr_real = rport, nr_fake = fake, nr_in_match = strip_match (fm_match inf),
       nr_out_match = strip_match (fm_match outf), nr_in_fm = inf, nr_out_fm = outf\<rparr>)"

text \<open>
  Both flow modifications are sent, the one for the other direction first; \<open>data\<close>, the packet, goes with one of them and
  is taken away again when they have been sent.  A port that is \<open>None\<close> is no number and \<open>pack\<close> raises.
\<close>

definition set_data :: "bool \<Rightarrow> packet_in option \<Rightarrow> nat_record \<Rightarrow> nat_record" where
  "set_data incoming d r =
     (if incoming then r\<lparr>nr_in_fm := (nr_in_fm r)\<lparr>fm_data := d\<rparr>\<rparr> else r\<lparr>nr_out_fm := (nr_out_fm r)\<lparr>fm_data := d\<rparr>\<rparr>)"

definition change_record :: "nat \<Rightarrow> (nat_record \<Rightarrow> nat_record) \<Rightarrow> unit nt" where
  "change_record i f = smod (\<lambda>s. s\<lparr>nt_records := (nt_records s)[i := f (nt_records s ! i)]\<rparr>)"

definition nat_resend :: "nat \<Rightarrow> bool \<Rightarrow> nat \<Rightarrow> packet_in \<Rightarrow> unit nt" where
  "nat_resend now incoming i m =
     sthen (change_record i (set_data incoming (Some m)))
     (sthen (change_record i (\<lambda>r. r\<lparr>nr_expires := now + FLOW_MEMORY_TIMEOUT\<rparr>))
     (sbind (sget (\<lambda>s. nt_records s ! i)) (\<lambda>r.
       sthen (if nr_fake r = None then sraise StructError
              else nat_send (if incoming then flow_bodies (nr_out_fm r) @ flow_bodies (nr_in_fm r)
                             else flow_bodies (nr_in_fm r) @ flow_bodies (nr_out_fm r)))
         (change_record i (\<lambda>r. set_data True None (set_data False None r))))))"

section \<open>Handlers\<close>

definition nat_incoming :: "nat \<Rightarrow> ethernet \<Rightarrow> packet_in \<Rightarrow> ofp_match \<Rightarrow> unit nt" where
  "nat_incoming now packet m match = sbind (sget (\<lambda>s. m_get (set_dl_dst None (match_clone match)) (nt_incoming s))) (\<lambda>i.
     case i of
       None \<Rightarrow> nat_send [MFlowMod (new_flow_mod (match_from_packet packet (Some (pi_in_port m)) False) 1 10 [])]
     | Some i \<Rightarrow> nat_resend now True i m)"

definition nat_outgoing :: "nat \<Rightarrow> nat \<Rightarrow> ethernet \<Rightarrow> packet_in \<Rightarrow> ofp_match \<Rightarrow> ip_addr \<Rightarrow> ip_addr option \<Rightarrow> 16 word \<Rightarrow> eth_addr \<Rightarrow> eth_addr \<Rightarrow> unit nt" where
  "nat_outgoing now rnd packet m match srcip dns rport outside gw = sbind (sget (\<lambda>s. m_get match (nt_outgoing s))) (\<lambda>i.
     case i of
       Some i \<Rightarrow> nat_resend now False i m
     | None \<Rightarrow>
         (case mt_tp_src match of
            None \<Rightarrow> sraise TypeError
          | Some src \<Rightarrow>
              sbind (pick_port rnd (mt_nw_proto match) src) (\<lambda>fake. sbind (sget id) (\<lambda>s.
                let r = new_record now s packet m match srcip dns rport fake outside gw; i = length (nt_records s) in
                sthen (smod (\<lambda>s. s\<lparr>nt_records := nt_records s @ [r], nt_incoming := m_set (nr_in_match r) i (nt_incoming s),
                                  nt_outgoing := m_set (nr_out_match r) i (nt_outgoing s)\<rparr>))
                  (nat_resend now False i m)))))"

definition nat_l4 :: "packet_lib \<Rightarrow> nat \<Rightarrow> nat \<Rightarrow> packet_in \<Rightarrow> ethernet \<Rightarrow> eth_addr \<Rightarrow> eth_addr \<Rightarrow> bool \<Rightarrow> ipv4 \<Rightarrow> 16 word \<Rightarrow> 16 word \<Rightarrow> unit nt" where
  "nat_l4 L now rnd m packet outside gw udp ip sport dport = sbind (sget id) (\<lambda>s.
     let incoming = (Some (pi_in_port m) = nt_portno s);
         dns = (if udp \<and> dport = 53 \<and> ip_dstip ip = nt_inside_ip s \<and> \<not> incoming then nt_dns_ip s else None);
         match = strip_match (match_from_packet packet (Some (pi_in_port m)) False)
     in if (if incoming then ip_dstip ip \<noteq> nt_outside_ip s else nat_is_local (nt_subnet s) (ip_dstip ip) \<and> dns = None) then sret ()
        else if incoming then nat_incoming now packet m match
        else nat_outgoing now rnd packet m match (ip_srcip ip) dns sport outside gw)"

definition nat_packet_in :: "packet_lib \<Rightarrow> nat \<Rightarrow> nat \<Rightarrow> packet_in \<Rightarrow> unit nt" where
  "nat_packet_in L now rnd m = sbind (sget id) (\<lambda>s. sbind (slift (outside_eth s)) (\<lambda>oe.
     case (oe, nt_gateway_eth s) of
       (None, _) \<Rightarrow> sret ()
     | (Some outside, None) \<Rightarrow> arp_for_gateway (lib_little L)
     | (Some outside, Some gw) \<Rightarrow>
         let packet = eth_parse L (pi_data m); udp = (eth_find_l4 True packet = None) in
         (case eth_find_l4 (\<not> udp) packet of
            None \<Rightarrow> sret ()
          | Some (None, _, _) \<Rightarrow> sraise AttributeError
          | Some (Some ip, sport, dport) \<Rightarrow> nat_l4 L now rnd m packet outside gw udp ip sport dport)))"

text \<open>\<open>_start\<close>, the handlers of the ARP helper's events, and the timer.\<close>

definition nat_start :: "bool \<Rightarrow> arp_con \<Rightarrow> unit nt" where
  "nat_start le c =
     sthen (smod (\<lambda>s. s\<lparr>nt_connection := Some c\<rparr>))
     (sbind (sget nt_outside_port) (\<lambda>ix. sbind (slift (pc_getitem (ac_ports c) ix)) (\<lambda>p.
       let fm = (new_flow_mod (set_in_port (Some (pp_port_no p)) match_init) 0 0 [])\<lparr>fm_priority := 1\<rparr> in
       sthen (smod (\<lambda>s. s\<lparr>nt_portno := Some (pp_port_no p)\<rparr>))
       (sthen (nat_send [MFlowMod fm])
       (sbind (sget nt_outside_ip) (\<lambda>ip.
         sthen (nat_send [MFlowMod (fm\<lparr>fm_match := put_nw_dst (Some (ip, 32)) (set_dl_type (Some 0x0800) (fm_match fm)),
                                      fm_actions := [ActOutput OFPP_CONTROLLER 0xffff], fm_priority := 2\<rparr>)])
           (arp_for_gateway le)))))))"

definition nat_connection_up :: "bool \<Rightarrow> arp_con \<Rightarrow> unit nt" where
  "nat_connection_up le c = sbind (sget nt_dpid) (\<lambda>d. if ac_dpid c \<noteq> d then sret () else nat_start le c)"

definition nat_arp_reply :: "64 word \<Rightarrow> 16 word \<Rightarrow> arp \<Rightarrow> nat_state \<Rightarrow> nat_state" where
  "nat_arp_reply dpid port a s =
     (if dpid = nt_dpid s \<and> Some port = nt_portno s \<and> arp_protosrc a = nt_gateway_ip s then s\<lparr>nt_gateway_eth := Some (arp_hwsrc a)\<rparr> else s)"

definition nat_arp_request :: "64 word \<Rightarrow> 16 word \<Rightarrow> arp \<Rightarrow> nat_state \<Rightarrow> eth_addr option result" where
  "nat_arp_request dpid port a s =
     (if dpid \<noteq> nt_dpid s then Inr None
      else if Some port = nt_portno s then (if arp_protodst a = nt_outside_ip s then outside_eth s else Inr None)
      else if arp_protodst a = nt_inside_ip s \<or> \<not> nat_is_local (nt_subnet s) (arp_protodst a) then
        (case nt_connection s of
           None \<Rightarrow> Inr None
         | Some c \<Rightarrow> rbind (pc_getitem (ac_ports c) (ByNumber port)) (\<lambda>p. Inr (Some (pp_hw_addr p))))
      else Inr None)"

definition forget_record :: "nat \<Rightarrow> unit nt" where
  "forget_record i = sbind (sget (\<lambda>s. nt_records s ! i)) (\<lambda>r.
     sbind (sget nt_outgoing) (\<lambda>d. sbind (slift (m_del (nr_out_match r) d)) (\<lambda>d'.
       sthen (smod (\<lambda>s. s\<lparr>nt_outgoing := d'\<rparr>))
     (sbind (sget nt_incoming) (\<lambda>d. sbind (slift (m_del (nr_in_match r) d)) (\<lambda>d'.
       sthen (smod (\<lambda>s. s\<lparr>nt_incoming := d'\<rparr>))
     (sbind (sget nt_used_ports) (\<lambda>used.
       case nr_fake r of
         None \<Rightarrow> sraise KeyError
       | Some p \<Rightarrow>
           if (mt_nw_proto (nr_out_match r), p) \<notin> used then sraise KeyError
           else smod (\<lambda>s. s\<lparr>nt_used_ports := used - {(mt_nw_proto (nr_out_match r), p)}\<rparr>)))))))))"

definition nat_expire :: "nat \<Rightarrow> unit nt" where
  "nat_expire now = sbind (sget (\<lambda>s. filter (\<lambda>i. nr_expires (nt_records s ! i) < now) (map snd (nt_outgoing s)))) (\<lambda>dead.
     sfor dead forget_record)"

section \<open>Reading a match after an assignment\<close>

named_theorems mt_get "attributes of a match after an assignment"

lemma mt_get_in_port [mt_get]:
  "mt_in_port (set_in_port v m) = v" "mt_dl_src (set_in_port v m) = mt_dl_src m" "mt_dl_dst (set_in_port v m) = mt_dl_dst m"
  "mt_dl_type (set_in_port v m) = mt_dl_type m" "mt_nw_proto (set_in_port v m) = mt_nw_proto m" "mt_tp_src (set_in_port v m) = mt_tp_src m"
  "mt_tp_dst (set_in_port v m) = mt_tp_dst m" "mt_nw_src (set_in_port v m) = mt_nw_src m" "mt_nw_dst (set_in_port v m) = mt_nw_dst m"
  by (cases v; simp add: mt_attrs mt_nw_src_def mt_nw_dst_def get_nw_src_def get_nw_dst_def attr_def bit_set_attr set_in_port_def Let_def; simp add: set_attr_def)+

lemma mt_get_dl_src [mt_get]:
  "mt_in_port (set_dl_src v m) = mt_in_port m" "mt_dl_src (set_dl_src v m) = v" "mt_dl_dst (set_dl_src v m) = mt_dl_dst m"
  "mt_dl_type (set_dl_src v m) = mt_dl_type m" "mt_nw_proto (set_dl_src v m) = mt_nw_proto m" "mt_tp_src (set_dl_src v m) = mt_tp_src m"
  "mt_tp_dst (set_dl_src v m) = mt_tp_dst m" "mt_nw_src (set_dl_src v m) = mt_nw_src m" "mt_nw_dst (set_dl_src v m) = mt_nw_dst m"
  by (cases v; simp add: mt_attrs mt_nw_src_def mt_nw_dst_def get_nw_src_def get_nw_dst_def attr_def bit_set_attr set_dl_src_def Let_def; simp add: set_attr_def)+

lemma mt_get_dl_dst [mt_get]:
  "mt_in_port (set_dl_dst v m) = mt_in_port m" "mt_dl_src (set_dl_dst v m) = mt_dl_src m" "mt_dl_dst (set_dl_dst v m) = v"
  "mt_dl_type (set_dl_dst v m) = mt_dl_type m" "mt_nw_proto (set_dl_dst v m) = mt_nw_proto m" "mt_tp_src (set_dl_dst v m) = mt_tp_src m"
  "mt_tp_dst (set_dl_dst v m) = mt_tp_dst m" "mt_nw_src (set_dl_dst v m) = mt_nw_src m" "mt_nw_dst (set_dl_dst v m) = mt_nw_dst m"
  by (cases v; simp add: mt_attrs mt_nw_src_def mt_nw_dst_def get_nw_src_def get_nw_dst_def attr_def bit_set_attr set_dl_dst_def Let_def; simp add: set_attr_def)+

lemma mt_get_dl_type [mt_get]:
  "mt_in_port (set_dl_type v m) = mt_in_port m" "mt_dl_src (set_dl_type v m) = mt_dl_src m" "mt_dl_dst (set_dl_type v m) = mt_dl_dst m"
  "mt_dl_type (set_dl_type v m) = v" "mt_nw_proto (set_dl_type v m) = mt_nw_proto m" "mt_tp_src (set_dl_type v m) = mt_tp_src m"
  "mt_tp_dst (set_dl_type v m) = mt_tp_dst m" "mt_nw_src (set_dl_type v m) = mt_nw_src m" "mt_nw_dst (set_dl_type v m) = mt_nw_dst m"
  by (cases v; simp add: mt_attrs mt_nw_src_def mt_nw_dst_def get_nw_src_def get_nw_dst_def attr_def bit_set_attr set_dl_type_def Let_def; simp add: set_attr_def)+

lemma mt_get_nw_proto [mt_get]:
  "mt_in_port (set_nw_proto v m) = mt_in_port m" "mt_dl_src (set_nw_proto v m) = mt_dl_src m" "mt_dl_dst (set_nw_proto v m) = mt_dl_dst m"
  "mt_dl_type (set_nw_proto v m) = mt_dl_type m" "mt_nw_proto (set_nw_proto v m) = v" "mt_tp_src (set_nw_proto v m) = mt_tp_src m"
  "mt_tp_dst (set_nw_proto v m) = mt_tp_dst m" "mt_nw_src (set_nw_proto v m) = mt_nw_src m" "mt_nw_dst (set_nw_proto v m) = mt_nw_dst m"
  by (cases v; simp add: mt_attrs mt_nw_src_def mt_nw_dst_def get_nw_src_def get_nw_dst_def attr_def bit_set_attr set_nw_proto_def Let_def; simp add: set_attr_def)+

lemma mt_get_tp_src [mt_get]:
  "mt_in_port (set_tp_src v m) = mt_in_port m" "mt_dl_src (set_tp_src v m) = mt_dl_src m" "mt_dl_dst (set_tp_src v m) = mt_dl_dst m"
  "mt_dl_type (set_tp_src v m) = mt_dl_type m" "mt_nw_proto (set_tp_src v m) = mt_nw_proto m" "mt_tp_src (set_tp_src v m) = v"
  "mt_tp_dst (set_tp_src v m) = mt_tp_dst m" "mt_nw_src (set_tp_src v m) = mt_nw_src m" "mt_nw_dst (set_tp_src v m) = mt_nw_dst m"
  by (cases v; simp add: mt_attrs mt_nw_src_def mt_nw_dst_def get_nw_src_def get_nw_dst_def attr_def bit_set_attr set_tp_src_def Let_def; simp add: set_attr_def)+

lemma mt_get_tp_dst [mt_get]:
  "mt_in_port (set_tp_dst v m) = mt_in_port m" "mt_dl_src (set_tp_dst v m) = mt_dl_src m" "mt_dl_dst (set_tp_dst v m) = mt_dl_dst m"
  "mt_dl_type (set_tp_dst v m) = mt_dl_type m" "mt_nw_proto (set_tp_dst v m) = mt_nw_proto m" "mt_tp_src (set_tp_dst v m) = mt_tp_src m"
  "mt_tp_dst (set_tp_dst v m) = v" "mt_nw_src (set_tp_dst v m) = mt_nw_src m" "mt_nw_dst (set_tp_dst v m) = mt_nw_dst m"
  by (cases v; simp add: mt_attrs mt_nw_src_def mt_nw_dst_def get_nw_src_def get_nw_dst_def attr_def bit_set_attr set_tp_dst_def Let_def; simp add: set_attr_def)+

lemma mt_get_nw_src [mt_get]:
  "mt_in_port (put_nw_src (map_option (\<lambda>i. (i, 32)) v) m) = mt_in_port m" "mt_dl_src (put_nw_src (map_option (\<lambda>i. (i, 32)) v) m) = mt_dl_src m"
  "mt_dl_dst (put_nw_src (map_option (\<lambda>i. (i, 32)) v) m) = mt_dl_dst m" "mt_dl_type (put_nw_src (map_option (\<lambda>i. (i, 32)) v) m) = mt_dl_type m"
  "mt_nw_proto (put_nw_src (map_option (\<lambda>i. (i, 32)) v) m) = mt_nw_proto m" "mt_tp_src (put_nw_src (map_option (\<lambda>i. (i, 32)) v) m) = mt_tp_src m"
  "mt_tp_dst (put_nw_src (map_option (\<lambda>i. (i, 32)) v) m) = mt_tp_dst m" "mt_nw_src (put_nw_src (map_option (\<lambda>i. (i, 32)) v) m) = v"
  "mt_nw_dst (put_nw_src (map_option (\<lambda>i. (i, 32)) v) m) = mt_nw_dst m"
  by (simp_all add: mt_attrs mt_nw_src_def mt_nw_dst_def get_nw_src_def get_nw_dst_def attr_def bit_put_nw Let_def)
    (auto simp: put_nw_src_def split: option.split)

lemma mt_get_nw_dst [mt_get]:
  "mt_in_port (put_nw_dst (map_option (\<lambda>i. (i, 32)) v) m) = mt_in_port m" "mt_dl_src (put_nw_dst (map_option (\<lambda>i. (i, 32)) v) m) = mt_dl_src m"
  "mt_dl_dst (put_nw_dst (map_option (\<lambda>i. (i, 32)) v) m) = mt_dl_dst m" "mt_dl_type (put_nw_dst (map_option (\<lambda>i. (i, 32)) v) m) = mt_dl_type m"
  "mt_nw_proto (put_nw_dst (map_option (\<lambda>i. (i, 32)) v) m) = mt_nw_proto m" "mt_tp_src (put_nw_dst (map_option (\<lambda>i. (i, 32)) v) m) = mt_tp_src m"
  "mt_tp_dst (put_nw_dst (map_option (\<lambda>i. (i, 32)) v) m) = mt_tp_dst m" "mt_nw_src (put_nw_dst (map_option (\<lambda>i. (i, 32)) v) m) = mt_nw_src m"
  "mt_nw_dst (put_nw_dst (map_option (\<lambda>i. (i, 32)) v) m) = v"
  by (simp_all add: mt_attrs mt_nw_src_def mt_nw_dst_def get_nw_src_def get_nw_dst_def attr_def bit_put_nw Let_def)
    (auto simp: put_nw_dst_def split: option.split)

lemmas mt_get_nw_some [mt_get] = mt_get_nw_src [where v = "Some x" for x, simplified] mt_get_nw_dst [where v = "Some x" for x, simplified]

lemma mt_get_clone [mt_get]:
  "mt_in_port (match_clone m) = mt_in_port m" "mt_dl_src (match_clone m) = mt_dl_src m" "mt_dl_dst (match_clone m) = mt_dl_dst m"
  "mt_dl_type (match_clone m) = mt_dl_type m" "mt_nw_proto (match_clone m) = mt_nw_proto m" "mt_tp_src (match_clone m) = mt_tp_src m"
  "mt_tp_dst (match_clone m) = mt_tp_dst m" "mt_nw_src (match_clone m) = mt_nw_src m" "mt_nw_dst (match_clone m) = mt_nw_dst m"
  by (simp_all add: match_clone_def mt_attrs mt_nw_src_def mt_nw_dst_def get_nw_src_def get_nw_dst_def attr_def wild_def Let_def)

lemma mt_get_flip [mt_get]:
  "mt_in_port (match_flip m None) = mt_in_port m" "mt_dl_src (match_flip m None) = mt_dl_dst m" "mt_dl_dst (match_flip m None) = mt_dl_src m"
  "mt_dl_type (match_flip m None) = mt_dl_type m" "mt_nw_proto (match_flip m None) = mt_nw_proto m" "mt_tp_src (match_flip m None) = mt_tp_dst m"
  "mt_tp_dst (match_flip m None) = mt_tp_src m" "mt_nw_src (match_flip m None) = mt_nw_dst m" "mt_nw_dst (match_flip m None) = mt_nw_src m"
  by (simp_all add: match_flip_def Let_def mt_get)

lemma mt_get_strip [mt_get]:
  "mt_dl_src (strip_match m) = mt_dl_src m" "mt_dl_dst (strip_match m) = mt_dl_dst m"
  "mt_dl_type (strip_match m) = mt_dl_type m" "mt_nw_proto (strip_match m) = mt_nw_proto m" "mt_tp_src (strip_match m) = mt_tp_src m"
  "mt_tp_dst (strip_match m) = mt_tp_dst m" "mt_nw_src (strip_match m) = mt_nw_src m" "mt_nw_dst (strip_match m) = mt_nw_dst m"
  by (simp_all add: strip_match_def Let_def mt_get)

lemma nw_bits_eq: "(\<And>n. 8 \<le> n \<Longrightarrow> n < 14 \<Longrightarrow> bit w n = bit w' n) \<Longrightarrow> nw_bits_src w = nw_bits_src w'"
  "(\<And>n. 14 \<le> n \<Longrightarrow> n < 20 \<Longrightarrow> bit w n = bit w' n) \<Longrightarrow> nw_bits_dst w = nw_bits_dst w'"
  by (rule bit_eqI; auto simp: nw_bits_bit)+

lemma get_nw_set [mt_get]:
  "get_nw_src (set_in_port p m) = get_nw_src m" "get_nw_dst (set_in_port p m) = get_nw_dst m"
  "get_nw_src (set_dl_src a m) = get_nw_src m" "get_nw_dst (set_dl_src a m) = get_nw_dst m"
  "get_nw_src (set_dl_dst a m) = get_nw_src m" "get_nw_dst (set_dl_dst a m) = get_nw_dst m"
  "get_nw_src (set_tp_dst p m) = get_nw_src m" "get_nw_dst (set_tp_dst p m) = get_nw_dst m"
proof -
  have h: "h_nw_src (set_attr b d put v m) = h_nw_src m \<and> h_nw_dst (set_attr b d put v m) = h_nw_dst m"
    if "\<And>x m. h_nw_src (put x m) = h_nw_src m" "\<And>x m. h_nw_dst (put x m) = h_nw_dst m" for b d and put :: "'b \<Rightarrow> ofp_match \<Rightarrow> ofp_match" and v m
    using that by (simp add: set_attr_def split: option.split)
  have same: "get_nw_src m' = get_nw_src m \<and> get_nw_dst m' = get_nw_dst m"
    if "\<And>n. 8 \<le> n \<Longrightarrow> n < 20 \<Longrightarrow> bit (mt_wildcards m') n = bit (mt_wildcards m) n" "h_nw_src m' = h_nw_src m \<and> h_nw_dst m' = h_nw_dst m" for m'
  proof -
    have "nw_bits_src (mt_wildcards m') = nw_bits_src (mt_wildcards m)" "nw_bits_dst (mt_wildcards m') = nw_bits_dst (mt_wildcards m)"
      using that(1) by (auto intro!: nw_bits_eq)
    then show ?thesis using that by (simp add: get_nw_src_def get_nw_dst_def)
  qed
  show "get_nw_src (set_in_port p m) = get_nw_src m" "get_nw_dst (set_in_port p m) = get_nw_dst m"
    "get_nw_src (set_dl_src a m) = get_nw_src m" "get_nw_dst (set_dl_src a m) = get_nw_dst m"
    "get_nw_src (set_dl_dst a m) = get_nw_src m" "get_nw_dst (set_dl_dst a m) = get_nw_dst m"
    "get_nw_src (set_tp_dst p m) = get_nw_src m" "get_nw_dst (set_tp_dst p m) = get_nw_dst m"
    using same [of "set_in_port p m"] same [of "set_dl_src a m"] same [of "set_dl_dst a m"] same [of "set_tp_dst p m"]
    by (simp_all add: mt_setters bit_set_attr h)
qed

lemma get_nw_put [mt_get]:
  "get_nw_src (put_nw_dst (Some (i, 32)) m) = get_nw_src m" "get_nw_dst (put_nw_dst (Some (i, 32)) m) = (Some i, 32)"
proof -
  let ?m = "put_nw_dst (Some (i, 32)) m"
  have b: "bit (mt_wildcards ?m) n \<longleftrightarrow> (if 14 \<le> n \<and> n < 20 then False else bit (mt_wildcards m) n)" for n
    using bit_put_nw(2) [of "Some i" m n] by simp
  have "nw_bits_src (mt_wildcards ?m) = nw_bits_src (mt_wildcards m)" by (rule nw_bits_eq) (simp add: b)
  moreover have "nw_bits_dst (mt_wildcards ?m) = 0" by (rule bit_eqI) (simp add: nw_bits_bit b)
  moreover have "h_nw_src ?m = h_nw_src m" "h_nw_dst ?m = i" by (simp_all add: put_nw_dst_def)
  ultimately show "get_nw_src ?m = get_nw_src m" "get_nw_dst ?m = (Some i, 32)" by (simp_all add: get_nw_src_def get_nw_dst_def b)
qed

section \<open>The port that is chosen\<close>

lemma pick_from_some:
  "pick_from used proto port cycle = Some p \<Longrightarrow> port < 65536 \<Longrightarrow> (proto, p) \<notin> used \<and> p < 65536 \<and> (port \<le> p \<or> 49152 \<le> p)"
proof (induction used proto port cycle rule: pick_from.induct)
  case (1 used proto port cycle)
  show ?case
  proof (cases "cycle < 2 \<and> (proto, port) \<in> used")
    case True
    then show ?thesis using 1 by (cases "65534 \<le> port + 1") (force simp: pick_from.simps [of used proto port cycle])+
  next
    case False
    then show ?thesis using 1(3,4) by (auto simp: pick_from.simps [of used proto port cycle] split: if_splits)
  qed
qed

lemma pick_from_none:
  "pick_from used proto port cycle = None \<Longrightarrow> cycle < 2 \<Longrightarrow> p < 65534 \<Longrightarrow> (if cycle = 0 then 49152 else port) \<le> p \<Longrightarrow> (proto, p) \<in> used"
proof (induction used proto port cycle rule: pick_from.induct)
  case (1 used proto port cycle)
  then have u: "(proto, port) \<in> used" by (auto simp: pick_from.simps [of used proto port cycle] split: if_splits)
  show ?case
  proof (cases "65534 \<le> port + 1")
    case True
    then have "pick_from used proto 49152 (cycle + 1) = None" using 1(3,4) u by (simp add: pick_from.simps [of used proto port cycle])
    moreover have "p = port" if "cycle \<noteq> 0" using 1(5,6) True that by simp
    ultimately show ?thesis using 1(1) [OF 1(4) _ True] 1(4-6) u True by (cases "cycle = 0") auto
  next
    case False
    then have "pick_from used proto (port + 1) cycle = None" using 1(3,4) u by (simp add: pick_from.simps [of used proto port cycle])
    then show ?thesis using 1(2) [OF 1(4) _ False] 1(4-6) u by (cases "cycle = 0"; cases "p = port") auto
  qed
qed

section \<open>Dictionaries of matches\<close>

lemma m_get_set: "m_get k' (m_set k v d) = (if match_eq k k' then Some v else m_get k' d)"
proof (induction k v d rule: m_set.induct)
  case (2 k v k1 v1 d)
  have "match_eq k1 k \<Longrightarrow> match_eq k1 k' = match_eq k k'" "\<not> match_eq k1 k \<Longrightarrow> match_eq k k' \<Longrightarrow> \<not> match_eq k1 k'"
    by (meson match_eq_sym match_eq_trans)+
  then show ?case using 2 by (auto simp: m_get_def)
qed (simp add: m_get_def)

lemma m_set_new: "m_get k d = None \<Longrightarrow> m_set k v d = d @ [(k, v)]"
  by (induction k v d rule: m_set.induct) (auto simp: m_get_def split: if_splits)

lemma m_get_del: "\<not> match_eq k' k \<Longrightarrow> m_get k' (filter (\<lambda>(k0, v). \<not> match_eq k0 k) d) = m_get k' d"
proof (induction d)
  case (Cons x d)
  obtain k0 v where x: "x = (k0, v)" by fastforce
  have "match_eq k0 k \<Longrightarrow> \<not> match_eq k0 k'" using Cons.prems match_eq_sym match_eq_trans by blast
  then show ?case using Cons by (auto simp: m_get_def x)
qed simp

lemma m_get_none: "m_get k d = None \<longleftrightarrow> (\<forall>(k', v)\<in>set d. \<not> match_eq k' k)"
  by (auto simp: m_get_def find_None_iff)

lemma match_eq_slot: "match_eq a b \<Longrightarrow> mt_nw_proto a = mt_nw_proto b \<and> mt_tp_dst a = mt_tp_dst b"
  by (simp add: match_eq_def)

section \<open>No two connections share a port\<close>

definition sig :: "nat_state \<Rightarrow> (ofp_match \<times> ofp_match \<times> nat option) list" where
  "sig s = map (\<lambda>r. (nr_in_match r, nr_out_match r, nr_fake r)) (nt_records s)"

abbreviation in_of :: "nat_state \<Rightarrow> nat \<Rightarrow> ofp_match" where "in_of s i \<equiv> fst (sig s ! i)"
abbreviation out_of :: "nat_state \<Rightarrow> nat \<Rightarrow> ofp_match" where "out_of s i \<equiv> fst (snd (sig s ! i))"
abbreviation port_of :: "nat_state \<Rightarrow> nat \<Rightarrow> nat option" where "port_of s i \<equiv> snd (snd (sig s ! i))"

definition live :: "nat_state \<Rightarrow> nat \<Rightarrow> bool" where "live s i \<longleftrightarrow> i \<in> snd ` set (nt_outgoing s)"

definition nat_ok :: "nat_state \<Rightarrow> bool" where
  "nat_ok s \<longleftrightarrow>
     (\<forall>(k, i)\<in>set (nt_outgoing s). i < length (sig s) \<and> k = out_of s i) \<and> distinct (map snd (nt_outgoing s)) \<and>
     (\<forall>i<length (sig s). mt_nw_proto (in_of s i) = mt_nw_proto (out_of s i) \<and> mt_tp_dst (in_of s i) = map_option word_of_nat (port_of s i) \<and>
        (\<forall>p. port_of s i = Some p \<longrightarrow> 1024 \<le> p \<and> p < 65536)) \<and>
     (\<forall>i p. live s i \<longrightarrow> port_of s i = Some p \<longrightarrow>
        (mt_nw_proto (out_of s i), p) \<in> nt_used_ports s \<and> m_get (in_of s i) (nt_incoming s) = Some i) \<and>
     (\<forall>i j. live s i \<longrightarrow> live s j \<longrightarrow> i \<noteq> j \<longrightarrow> \<not> match_eq (out_of s i) (out_of s j) \<and>
        (port_of s i \<noteq> None \<longrightarrow> (mt_nw_proto (out_of s i), port_of s i) \<noteq> (mt_nw_proto (out_of s j), port_of s j)))"

lemma nat_okD:
  assumes "nat_ok s"
  shows "(k, i) \<in> set (nt_outgoing s) \<Longrightarrow> i < length (sig s) \<and> k = out_of s i"
    and "distinct (map snd (nt_outgoing s))"
    and "live s i \<Longrightarrow> i < length (sig s)"
    and "i < length (sig s) \<Longrightarrow> mt_nw_proto (in_of s i) = mt_nw_proto (out_of s i) \<and> mt_tp_dst (in_of s i) = map_option word_of_nat (port_of s i)"
    and "i < length (sig s) \<Longrightarrow> port_of s i = Some p \<Longrightarrow> 1024 \<le> p \<and> p < 65536"
    and "live s i \<Longrightarrow> port_of s i = Some p \<Longrightarrow> (mt_nw_proto (out_of s i), p) \<in> nt_used_ports s \<and> m_get (in_of s i) (nt_incoming s) = Some i"
    and "live s i \<Longrightarrow> live s j \<Longrightarrow> i \<noteq> j \<Longrightarrow> \<not> match_eq (out_of s i) (out_of s j)"
    and "live s i \<Longrightarrow> live s j \<Longrightarrow> i \<noteq> j \<Longrightarrow> port_of s i = Some p \<Longrightarrow> mt_nw_proto (out_of s i) = mt_nw_proto (out_of s j) \<Longrightarrow> port_of s j \<noteq> Some p"
proof -
  have parts: "\<forall>(k, i)\<in>set (nt_outgoing s). i < length (sig s) \<and> k = out_of s i" "distinct (map snd (nt_outgoing s))"
    "\<forall>i<length (sig s). mt_nw_proto (in_of s i) = mt_nw_proto (out_of s i) \<and> mt_tp_dst (in_of s i) = map_option word_of_nat (port_of s i) \<and>
        (\<forall>p. port_of s i = Some p \<longrightarrow> 1024 \<le> p \<and> p < 65536)"
    "\<forall>i p. live s i \<longrightarrow> port_of s i = Some p \<longrightarrow> (mt_nw_proto (out_of s i), p) \<in> nt_used_ports s \<and> m_get (in_of s i) (nt_incoming s) = Some i"
    "\<forall>i j. live s i \<longrightarrow> live s j \<longrightarrow> i \<noteq> j \<longrightarrow> \<not> match_eq (out_of s i) (out_of s j) \<and>
        (port_of s i \<noteq> None \<longrightarrow> (mt_nw_proto (out_of s i), port_of s i) \<noteq> (mt_nw_proto (out_of s j), port_of s j))"
    using assms by (simp_all add: nat_ok_def)
  show "(k, i) \<in> set (nt_outgoing s) \<Longrightarrow> i < length (sig s) \<and> k = out_of s i" using parts(1) by blast
  show "distinct (map snd (nt_outgoing s))" by (rule parts(2))
  show "live s i \<Longrightarrow> i < length (sig s)" using parts(1) by (auto simp: live_def)
  show "i < length (sig s) \<Longrightarrow> mt_nw_proto (in_of s i) = mt_nw_proto (out_of s i) \<and> mt_tp_dst (in_of s i) = map_option word_of_nat (port_of s i)"
    "i < length (sig s) \<Longrightarrow> port_of s i = Some p \<Longrightarrow> 1024 \<le> p \<and> p < 65536" using parts(3) by simp_all
  show "live s i \<Longrightarrow> port_of s i = Some p \<Longrightarrow> (mt_nw_proto (out_of s i), p) \<in> nt_used_ports s \<and> m_get (in_of s i) (nt_incoming s) = Some i"
    using parts(4) by blast
  show "live s i \<Longrightarrow> live s j \<Longrightarrow> i \<noteq> j \<Longrightarrow> \<not> match_eq (out_of s i) (out_of s j)" using parts(5) by blast
  show "port_of s j \<noteq> Some p" if "live s i" "live s j" "i \<noteq> j" "port_of s i = Some p" "mt_nw_proto (out_of s i) = mt_nw_proto (out_of s j)"
    using parts(5) that by fastforce
qed

lemma nat_ok_cong:
  "sig s' = sig s \<Longrightarrow> nt_outgoing s' = nt_outgoing s \<Longrightarrow> nt_incoming s' = nt_incoming s \<Longrightarrow> nt_used_ports s' = nt_used_ports s \<Longrightarrow>
   nat_ok s' = nat_ok s"
  by (simp add: nat_ok_def live_def)

text \<open>Two live connections have matches for incoming packets that differ, when one of them has a port.\<close>

lemma in_matches_differ:
  assumes "nat_ok s" "i < length (sig s)" "j < length (sig s)" "port_of s i = Some p"
    and "match_eq (in_of s i) (in_of s j)"
  shows "mt_nw_proto (out_of s i) = mt_nw_proto (out_of s j) \<and> port_of s j = Some p"
proof -
  have eq: "mt_nw_proto (in_of s i) = mt_nw_proto (in_of s j)" "mt_tp_dst (in_of s i) = mt_tp_dst (in_of s j)"
    using match_eq_slot [OF assms(5)] by auto
  obtain q where q: "port_of s j = Some q" "word_of_nat p = (word_of_nat q :: 16 word)"
    using eq(2) nat_okD(4) [OF assms(1,2)] nat_okD(4) [OF assms(1,3)] assms(4) by (cases "port_of s j") auto
  have "p < 65536" "q < 65536" using nat_okD(5) [OF assms(1)] assms(2-4) q(1) by auto
  then have "p = q" using arg_cong [OF q(2), of unat] by (simp add: unat_of_nat)
  then show ?thesis using eq(1) q(1) nat_okD(4) [OF assms(1,2)] nat_okD(4) [OF assms(1,3)] by simp
qed

lemma nat_send_keeps [keep]: "keeps nat_ok (nat_send bs)"
  unfolding nat_send_def by (intro keep keeps_smod) (erule iffD1 [OF nat_ok_cong, rotated -1]; simp add: sig_def)

lemma arp_for_gateway_keeps [keep]: "keeps nat_ok (arp_for_gateway le)"
  unfolding arp_for_gateway_def by (intro keep)

lemma change_record_keeps:
  assumes "\<And>r. nr_in_match (f r) = nr_in_match r \<and> nr_out_match (f r) = nr_out_match r \<and> nr_fake (f r) = nr_fake r"
  shows "keeps nat_ok (change_record i f)"
proof -
  have "sig (s\<lparr>nt_records := (nt_records s)[i := f (nt_records s ! i)]\<rparr>) = sig s" for s
  proof (rule nth_equalityI)
    fix j assume "j < length (sig (s\<lparr>nt_records := (nt_records s)[i := f (nt_records s ! i)]\<rparr>))"
    then show "sig (s\<lparr>nt_records := (nt_records s)[i := f (nt_records s ! i)]\<rparr>) ! j = sig s ! j"
      using assms by (cases "j = i") (simp_all add: sig_def)
  qed (simp add: sig_def)
  then show ?thesis unfolding change_record_def by (intro keeps_smod) (erule iffD1 [OF nat_ok_cong, rotated -1]; simp)
qed

lemma nat_resend_keeps [keep]: "keeps nat_ok (nat_resend now incoming i m)"
  unfolding nat_resend_def by (intro keep change_record_keeps) (simp_all add: set_data_def)

lemma nat_incoming_keeps [keep]: "keeps nat_ok (nat_incoming now packet m match)"
  unfolding nat_incoming_def by (intro keep)

text \<open>A new connection.\<close>

lemma strip_strip: "strip_match (strip_match m) = strip_match m" "strip_match (set_in_port p (match_clone m)) = strip_match m"
  by (simp_all add: strip_match_def [of "strip_match m"] strip_match_def [of "set_in_port p (match_clone m)"] mt_get) (simp_all add: strip_match_def)

lemma new_record_matches:
  assumes "match = strip_match x"
  shows "nr_out_match (new_record now s packet m match srcip dns rport fake outside gw) = match"
    and "mt_nw_proto (nr_in_match (new_record now s packet m match srcip dns rport fake outside gw)) = mt_nw_proto match"
    and "mt_tp_dst (nr_in_match (new_record now s packet m match srcip dns rport fake outside gw)) = map_option word_of_nat fake"
    and "nr_fake (new_record now s packet m match srcip dns rport fake outside gw) = fake"
  by (simp_all add: new_record_def Let_def outgoing_flow_def incoming_flow_def nat_flow_def new_flow_mod_def assms strip_strip mt_get split: option.split)

lemma nat_ok_add:
  assumes ok: "nat_ok s" and new: "m_get (nr_out_match r) (nt_outgoing s) = None"
    and r: "mt_nw_proto (nr_in_match r) = mt_nw_proto (nr_out_match r)" "mt_tp_dst (nr_in_match r) = map_option word_of_nat (nr_fake r)"
    and p: "\<And>p. nr_fake r = Some p \<Longrightarrow> 1024 \<le> p \<and> p < 65536 \<and> (mt_nw_proto (nr_out_match r), p) \<notin> nt_used_ports s"
    and s': "s' = s\<lparr>nt_records := nt_records s @ [r], nt_incoming := m_set (nr_in_match r) (length (nt_records s)) (nt_incoming s),
                 nt_outgoing := m_set (nr_out_match r) (length (nt_records s)) (nt_outgoing s),
                 nt_used_ports := (case nr_fake r of None \<Rightarrow> nt_used_ports s | Some p \<Rightarrow> insert (mt_nw_proto (nr_out_match r), p) (nt_used_ports s))\<rparr>"
  shows "nat_ok s'"
proof -
  let ?n = "length (nt_records s)"
  have n: "?n = length (sig s)" by (simp add: sig_def)
  have sig': "sig s' = sig s @ [(nr_in_match r, nr_out_match r, nr_fake r)]" by (simp add: s' sig_def)
  have out': "nt_outgoing s' = nt_outgoing s @ [(nr_out_match r, ?n)]" using m_set_new [OF new] by (simp add: s')
  have lt: "live s i \<Longrightarrow> i < ?n" for i using nat_okD(3) [OF ok] n by simp
  have live': "live s' i \<longleftrightarrow> live s i \<or> i = ?n" for i by (auto simp: live_def out')
  have old: "sig s' ! i = sig s ! i" if "i < ?n" for i using that n by (simp add: sig' nth_append)
  have here: "sig s' ! ?n = (nr_in_match r, nr_out_match r, nr_fake r)" by (simp add: sig' n)
  have fresh: "port_of s i \<noteq> Some q \<or> mt_nw_proto (out_of s i) \<noteq> mt_nw_proto (nr_out_match r)" if "live s i" "nr_fake r = Some q" for i q
    using nat_okD(6) [OF ok that(1)] p [OF that(2)] by auto
  have keyed: "\<not> match_eq (out_of s i) (nr_out_match r)" if "live s i" for i
    using new that nat_okD(1) [OF ok] by (fastforce simp: m_get_none live_def)
  have all: "mt_nw_proto (in_of s' i) = mt_nw_proto (out_of s' i) \<and> mt_tp_dst (in_of s' i) = map_option word_of_nat (port_of s' i) \<and>
        (\<forall>q. port_of s' i = Some q \<longrightarrow> 1024 \<le> q \<and> q < 65536)" if "i < length (sig s')" for i
    using that old [of i] here r p nat_okD(4,5) [OF ok, of i] n by (cases "i = ?n") (auto simp: sig')
  have ports: "(mt_nw_proto (out_of s' i), q) \<in> nt_used_ports s' \<and> m_get (in_of s' i) (nt_incoming s') = Some i"
    if "live s' i" "port_of s' i = Some q" for i q
  proof (cases "i = ?n")
    case True
    then show ?thesis using that(2) here by (simp add: s' m_get_set)
  next
    case False
    then have i: "live s i" "i < ?n" "sig s' ! i = sig s ! i" using that(1) live' lt old by auto
    have "\<not> match_eq (nr_in_match r) (in_of s i)"
    proof
      assume "match_eq (nr_in_match r) (in_of s i)"
      then have eq: "mt_nw_proto (nr_out_match r) = mt_nw_proto (out_of s i)" "map_option word_of_nat (nr_fake r) = Some (word_of_nat q :: 16 word)"
        using match_eq_slot r nat_okD(4) [OF ok, of i] i(2,3) n that(2) by auto
      then obtain q' where q': "nr_fake r = Some q'" "word_of_nat q' = (word_of_nat q :: 16 word)" by (cases "nr_fake r") auto
      have "q < 65536" "q' < 65536" using nat_okD(5) [OF ok, of i q] i n that(2) p [OF q'(1)] by auto
      then have "q' = q" using arg_cong [OF q'(2), of unat] by (simp add: unat_of_nat)
      then show False using fresh [OF i(1) q'(1)] eq(1) that(2) i(3) by simp
    qed
    then show ?thesis using nat_okD(6) [OF ok i(1), of q] that(2) i(3) by (auto simp: s' m_get_set split: option.split)
  qed
  have apart: "\<not> match_eq (out_of s' i) (out_of s' j) \<and>
      (port_of s' i \<noteq> None \<longrightarrow> (mt_nw_proto (out_of s' i), port_of s' i) \<noteq> (mt_nw_proto (out_of s' j), port_of s' j))"
    if ij: "live s' i" "live s' j" "i \<noteq> j" for i j
  proof -
    consider "live s i" "live s j" | "live s i" "j = ?n" | "i = ?n" "live s j" using ij live' by auto
    then show ?thesis
    proof cases
      case 1
      then show ?thesis using nat_okD(7,8) [OF ok, of i j] ij(3) old lt by auto
    next
      case 2
      then show ?thesis using keyed [of i] fresh [of i] old [OF lt [OF 2(1)]] here by (cases "nr_fake r") auto
    next
      case 3
      then have "\<not> match_eq (nr_out_match r) (out_of s j)" using keyed [of j] match_eq_sym by blast
      then show ?thesis using 3 fresh [of j] old [OF lt [OF 3(2)]] here by auto
    qed
  qed
  have entries: "\<forall>(k, i)\<in>set (nt_outgoing s'). i < length (sig s') \<and> k = out_of s' i"
    using nat_okD(1) [OF ok] old here n by (fastforce simp: out' sig' nth_append)
  have "distinct (map snd (nt_outgoing s'))"
    using nat_okD(2) [OF ok] lt by (auto simp: out' live_def)
  then show ?thesis using entries all ports apart unfolding nat_ok_def by blast
qed

lemma pick_port_run:
  assumes "1024 \<le> rnd" "rnd < 65536"
  shows "\<exists>fake. pick_port rnd proto src s =
      (Inr fake, s\<lparr>nt_used_ports := case fake of None \<Rightarrow> nt_used_ports s | Some p \<Rightarrow> insert (proto, p) (nt_used_ports s)\<rparr>) \<and>
    (\<forall>p. fake = Some p \<longrightarrow> 1024 \<le> p \<and> p < 65536 \<and> (proto, p) \<notin> nt_used_ports s) \<and>
    (fake = None \<longrightarrow> (\<forall>p. 49152 \<le> p \<and> p < 65534 \<longrightarrow> (proto, p) \<in> nt_used_ports s))"
proof -
  let ?start = "if src < 1024 then rnd else unat src"
  have start: "?start < 65536" "1024 \<le> ?start"
    using assms unsigned_less [of src] by (auto simp: word_less_nat_alt)
  let ?fake = "pick_from (nt_used_ports s) proto ?start 0"
  have some: "1024 \<le> p \<and> p < 65536 \<and> (proto, p) \<notin> nt_used_ports s" if "?fake = Some p" for p
    using pick_from_some [OF that start(1)] start(2) by auto
  have none: "(proto, p) \<in> nt_used_ports s" if "?fake = None" "49152 \<le> p" "p < 65534" for p
    using pick_from_none [OF that(1) _ that(3)] that(2) by simp
  have "pick_port rnd proto src s =
      (Inr ?fake, s\<lparr>nt_used_ports := case ?fake of None \<Rightarrow> nt_used_ports s | Some p \<Rightarrow> insert (proto, p) (nt_used_ports s)\<rparr>)"
    by (cases ?fake) (simp_all add: pick_port_def sm_run)
  then show ?thesis using some none by (intro exI [of _ ?fake]) blast
qed

lemma nat_outgoing_keeps:
  assumes match: "match = strip_match x" and rnd: "1024 \<le> rnd" "rnd < 65536"
  shows "keeps nat_ok (nat_outgoing now rnd packet m match srcip dns rport outside gw)"
  unfolding keeps_def
proof (intro allI impI)
  fix s assume s: "nat_ok s"
  let ?out = "nat_outgoing now rnd packet m match srcip dns rport outside gw"
  show "nat_ok (snd (?out s))"
  proof (cases "m_get match (nt_outgoing s)")
    case (Some i)
    then show ?thesis using keeps_at [OF nat_resend_keeps s] by (simp add: nat_outgoing_def sm_run)
  next
    case None
    show ?thesis
    proof (cases "mt_tp_src match")
      case (Some src)
      obtain fake where f: "pick_port rnd (mt_nw_proto match) src s =
          (Inr fake, s\<lparr>nt_used_ports := case fake of None \<Rightarrow> nt_used_ports s | Some p \<Rightarrow> insert (mt_nw_proto match, p) (nt_used_ports s)\<rparr>)"
        "\<forall>p. fake = Some p \<longrightarrow> 1024 \<le> p \<and> p < 65536 \<and> (mt_nw_proto match, p) \<notin> nt_used_ports s"
        using pick_port_run [OF rnd] by blast
      define s1 where "s1 = s\<lparr>nt_used_ports := case fake of None \<Rightarrow> nt_used_ports s | Some p \<Rightarrow> insert (mt_nw_proto match, p) (nt_used_ports s)\<rparr>"
      define r where "r = new_record now s1 packet m match srcip dns rport fake outside gw"
      note r = new_record_matches [OF match, of now s1 packet m srcip dns rport fake outside gw, folded r_def]
      define s2 where "s2 = s1\<lparr>nt_records := nt_records s @ [r], nt_incoming := m_set (nr_in_match r) (length (nt_records s)) (nt_incoming s),
        nt_outgoing := m_set (nr_out_match r) (length (nt_records s)) (nt_outgoing s)\<rparr>"
      have "nat_ok s2"
      proof (rule nat_ok_add [OF s])
        show "m_get (nr_out_match r) (nt_outgoing s) = None" using None r(1) by simp
        show "mt_nw_proto (nr_in_match r) = mt_nw_proto (nr_out_match r)" "mt_tp_dst (nr_in_match r) = map_option word_of_nat (nr_fake r)"
          using r by simp_all
        show "1024 \<le> p \<and> p < 65536 \<and> (mt_nw_proto (nr_out_match r), p) \<notin> nt_used_ports s" if "nr_fake r = Some p" for p
          using f(2) that r by simp
      qed (cases fake; simp add: s2_def s1_def r)
      moreover have "?out s = nat_resend now False (length (nt_records s)) m s2"
        using None Some f(1) by (simp add: nat_outgoing_def sm_run Let_def sbind_def s2_def r_def flip: s1_def) (simp add: s1_def)
      ultimately show ?thesis using keeps_at [OF nat_resend_keeps] by simp
    qed (simp add: nat_outgoing_def sm_run None s)
  qed
qed

lemma nat_packet_in_keeps:
  assumes "1024 \<le> rnd" "rnd < 65536"
  shows "keeps nat_ok (nat_packet_in L now rnd m)"
proof -
  have "keeps nat_ok (nat_l4 L now rnd m packet outside gw udp ip sport dport)" for packet outside gw udp ip sport dport
    unfolding nat_l4_def Let_def by (intro keep nat_outgoing_keeps [OF refl] assms)
  then show ?thesis
    unfolding nat_packet_in_def Let_def by (intro keep) (auto intro!: keep split: option.split)
qed

text \<open>A connection that is forgotten leaves the others as they were.\<close>

lemma forget_record_ok:
  assumes ok: "nat_ok s" and i: "live s i" and run: "forget_record i s = (x, s')"
  shows "nat_ok s' \<and> nt_records s' = nt_records s \<and> (\<forall>j. j \<noteq> i \<longrightarrow> live s' j = live s j)"
proof -
  let ?r = "nt_records s ! i"
  have lt: "i < length (sig s)" "live s j \<Longrightarrow> j < length (sig s)" for j using nat_okD(3) [OF ok] i by auto
  have sg: "sig s ! i = (nr_in_match ?r, nr_out_match ?r, nr_fake ?r)" using lt(1) by (simp add: sig_def)
  obtain k where k: "(k, i) \<in> set (nt_outgoing s)" using i by (auto simp: live_def)
  then have "k = nr_out_match ?r" using nat_okD(1) [OF ok k] sg by simp
  then have "m_get (nr_out_match ?r) (nt_outgoing s) \<noteq> None" using k by (auto simp: m_get_none intro: match_eq_refl)
  define d where "d = filter (\<lambda>(k', v). \<not> match_eq k' (nr_out_match ?r)) (nt_outgoing s)"
  have del: "m_del (nr_out_match ?r) (nt_outgoing s) = Inr d"
    using \<open>m_get (nr_out_match ?r) (nt_outgoing s) \<noteq> None\<close> by (simp add: m_del_def d_def)
  have lived: "j \<in> snd ` set d \<longleftrightarrow> live s j \<and> j \<noteq> i" for j
  proof -
    have "match_eq k' (nr_out_match ?r) \<longleftrightarrow> j = i" if "(k', j) \<in> set (nt_outgoing s)" for k'
    proof -
      have "k' = out_of s j" using nat_okD(1) [OF ok that] by simp
      moreover have "live s j" using that by (force simp: live_def)
      ultimately show ?thesis using nat_okD(7) [OF ok _ i, of j] sg match_eq_refl by (cases "j = i") auto
    qed
    then show ?thesis by (auto simp: d_def live_def image_iff) (metis snd_conv)+
  qed
  define inc where "inc = filter (\<lambda>(k', v). \<not> match_eq k' (nr_in_match ?r)) (nt_incoming s)"
  have kept: "m_get (in_of s j) inc = Some j" if "live s j" "j \<noteq> i" "port_of s j = Some p" for j p
  proof -
    have "\<not> match_eq (in_of s j) (nr_in_match ?r)"
      using in_matches_differ [OF ok lt(2) [OF that(1)] lt(1) that(3)] nat_okD(8) [OF ok that(1) i that(2,3)] sg by auto
    then show ?thesis using nat_okD(6) [OF ok that(1,3)] by (simp add: inc_def m_get_del)
  qed
  have still: "nat_ok t" if t: "nt_records t = nt_records s" "nt_outgoing t = d" "nt_incoming t = nt_incoming s \<or> nt_incoming t = inc"
    "nt_used_ports t = nt_used_ports s \<or> nr_fake ?r \<noteq> None \<and> nt_used_ports t = nt_used_ports s - {(mt_nw_proto (nr_out_match ?r), the (nr_fake ?r))}" for t
  proof -
    have sig: "sig t = sig s" using t(1) by (simp add: sig_def)
    have lv: "live t j \<longleftrightarrow> live s j \<and> j \<noteq> i" for j using lived t(2) by (simp add: live_def)
    have "(k', j) \<in> set (nt_outgoing t) \<Longrightarrow> (k', j) \<in> set (nt_outgoing s)" for k' j by (auto simp: t(2) d_def)
    then have "\<forall>(k, j)\<in>set (nt_outgoing t). j < length (sig t) \<and> k = out_of t j" using nat_okD(1) [OF ok] sig by auto
    moreover have "distinct (map snd (nt_outgoing t))"
      using nat_okD(2) [OF ok] by (auto simp: t(2) d_def distinct_map_filter)
    moreover have "mt_nw_proto (in_of t j) = mt_nw_proto (out_of t j) \<and> mt_tp_dst (in_of t j) = map_option word_of_nat (port_of t j) \<and>
        (\<forall>p. port_of t j = Some p \<longrightarrow> 1024 \<le> p \<and> p < 65536)" if "j < length (sig t)" for j
      using nat_okD(4,5) [OF ok] that unfolding sig by blast
    moreover have "(mt_nw_proto (out_of t j), p) \<in> nt_used_ports t \<and> m_get (in_of t j) (nt_incoming t) = Some j"
      if "live t j" "port_of t j = Some p" for j p
    proof -
      have j: "live s j" "j \<noteq> i" "port_of s j = Some p" using that lv sig by auto
      have used: "(mt_nw_proto (out_of s j), p) \<in> nt_used_ports s" "m_get (in_of s j) (nt_incoming s) = Some j" using nat_okD(6) [OF ok j(1,3)] by auto
      have "(mt_nw_proto (out_of s j), p) \<noteq> (mt_nw_proto (nr_out_match ?r), the (nr_fake ?r))" if "nr_fake ?r \<noteq> None"
        using nat_okD(8) [OF ok j(1) i j(2,3)] sg that by auto
      then have "(mt_nw_proto (out_of s j), p) \<in> nt_used_ports t" using used(1) t(4) by blast
      moreover have "m_get (in_of s j) (nt_incoming t) = Some j" using used(2) kept [OF j] t(3) by auto
      ultimately show ?thesis unfolding sig ..
    qed
    moreover have "\<not> match_eq (out_of t a) (out_of t b) \<and>
        (port_of t a \<noteq> None \<longrightarrow> (mt_nw_proto (out_of t a), port_of t a) \<noteq> (mt_nw_proto (out_of t b), port_of t b))"
      if "live t a" "live t b" "a \<noteq> b" for a b
    proof -
      have ab: "live s a" "live s b" using that lv by auto
      show ?thesis unfolding sig using nat_okD(7) [OF ok ab that(3)] nat_okD(8) [OF ok ab that(3)] by fastforce
    qed
    ultimately show ?thesis unfolding nat_ok_def by blast
  qed
  have lv: "nt_outgoing s' = d \<Longrightarrow> \<forall>j. j \<noteq> i \<longrightarrow> live s' j = live s j" using lived by (simp add: live_def)
  let ?s1 = "s\<lparr>nt_outgoing := d\<rparr>"
  let ?s2 = "?s1\<lparr>nt_incoming := inc\<rparr>"
  have "s' \<in> {?s1, ?s2, ?s2\<lparr>nt_used_ports := nt_used_ports s - {(mt_nw_proto (nr_out_match ?r), the (nr_fake ?r))}\<rparr>} \<and>
      (s' \<in> {?s1, ?s2} \<or> nr_fake ?r \<noteq> None)"
  proof (cases "m_get (nr_in_match ?r) (nt_incoming s)")
    case None
    then have "m_del (nr_in_match ?r) (nt_incoming s) = Inl KeyError" by (simp add: m_del_def)
    then show ?thesis using run del by (simp add: forget_record_def sm_run)
  next
    case (Some y)
    then have "m_del (nr_in_match ?r) (nt_incoming s) = Inr inc" by (simp add: m_del_def inc_def)
    then show ?thesis using run del by (cases "nr_fake ?r") (auto simp: forget_record_def sm_run split: if_splits)
  qed
  then show ?thesis using still [of s'] lv by auto
qed

lemma nat_expire_keeps: "keeps nat_ok (nat_expire now)"
proof -
  have run: "nat_ok (snd (sfor is forget_record s))" if "nat_ok s" "distinct is" "\<forall>i\<in>set is. live s i" for "is" s
    using that
  proof (induction "is" arbitrary: s)
    case (Cons i "is")
    obtain x s1 where 1: "forget_record i s = (x, s1)" by fastforce
    have s1: "nat_ok s1" "\<forall>j\<in>set is. live s1 j" using forget_record_ok [OF Cons.prems(1) _ 1] Cons.prems(2,3) by auto
    then show ?case using Cons.IH [OF s1(1) _ s1(2)] Cons.prems(2) by (cases x) (simp_all add: sm_run 1)
  qed (simp add: sm_run)
  have "nat_ok (snd (nat_expire now s))" if ok: "nat_ok s" for s
  proof -
    let ?dead = "filter (\<lambda>i. nr_expires (nt_records s ! i) < now) (map snd (nt_outgoing s))"
    have "distinct ?dead" "\<forall>i\<in>set ?dead. live s i" using nat_okD(2) [OF ok] by (auto simp: live_def)
    then show ?thesis using run [OF ok] by (simp add: nat_expire_def sm_run)
  qed
  then show ?thesis by (simp add: keeps_def)
qed

section \<open>All that happens to the translation\<close>

inductive nat_run :: "packet_lib \<Rightarrow> nat_state \<Rightarrow> nat_state \<Rightarrow> bool" for L :: packet_lib where
  nat_start: "nat_run L s s"
| nat_up: "nat_run L s s' \<Longrightarrow> nat_connection_up le c s' = (r, s'') \<Longrightarrow> nat_run L s s''"
| nat_ports: "nat_run L s s' \<Longrightarrow> nat_run L s (s'\<lparr>nt_connection := c\<rparr>)"
| nat_gateway: "nat_run L s s' \<Longrightarrow> nat_run L s (nat_arp_reply dpid port a s')"
| nat_packet: "nat_run L s s' \<Longrightarrow> 49152 \<le> rnd \<Longrightarrow> rnd \<le> 65534 \<Longrightarrow> nat_packet_in L now rnd m s' = (r, s'') \<Longrightarrow> nat_run L s s''"
| nat_timer: "nat_run L s s' \<Longrightarrow> nat_expire now s' = (r, s'') \<Longrightarrow> nat_run L s s''"

lemma nat_connection_up_keeps: "keeps nat_ok (nat_connection_up le c)"
proof -
  have u: "nat_ok s \<Longrightarrow> nat_ok (s\<lparr>nt_connection := x\<rparr>)" "nat_ok s \<Longrightarrow> nat_ok (s\<lparr>nt_portno := y\<rparr>)" for s x y
    by (erule iffD1 [OF nat_ok_cong, rotated -1]; simp add: sig_def)+
  then show ?thesis unfolding nat_connection_up_def nat_start_def Let_def by (intro keep keeps_smod)
qed

lemma nat_run_ok: "nat_run L s s' \<Longrightarrow> nat_ok s \<Longrightarrow> nat_ok s'"
proof (induction rule: nat_run.induct)
  case (nat_up s s' le c r s'')
  then show ?case using keepsD [OF nat_connection_up_keeps _ nat_up.hyps(2)] by blast
next
  case (nat_ports s s' c)
  then have "nat_ok s'" by blast
  then show ?case by (rule iffD1 [OF nat_ok_cong, rotated -1]) (simp_all add: sig_def)
next
  case (nat_gateway s s' dpid port a)
  then have "nat_ok s'" by blast
  then show ?case by (rule iffD1 [OF nat_ok_cong, rotated -1]) (simp_all add: sig_def nat_arp_reply_def)
next
  case (nat_packet s s' rnd now m r s'')
  then show ?case using keepsD [OF nat_packet_in_keeps _ nat_packet.hyps(4)] by simp
next
  case (nat_timer s s' now r s'')
  then show ?case using keepsD [OF nat_expire_keeps _ nat_timer.hyps(2)] by blast
qed

lemma new_nat_ok: "nat_ok (new_nat inside outside gw dns port dpid subnet)"
  by (simp add: nat_ok_def new_nat_def live_def sig_def)

section \<open>A new connection, run\<close>

lemma bit_strip: "bit (mt_wildcards (strip_match m)) n \<longleftrightarrow>
   (if n = 2 then mt_dl_src m = None else if n = 3 then mt_dl_dst m = None else if n = 4 then mt_dl_type m = None
    else if n = 5 then mt_nw_proto m = None else if n = 6 then mt_tp_src m = None else if n = 7 then mt_tp_dst m = None
    else if 8 \<le> n \<and> n < 14 then mt_nw_src m = None \<and> n = 13 else if 14 \<le> n \<and> n < 20 then mt_nw_dst m = None \<and> n = 19
    else bit (mt_wildcards match_init) n)"
  unfolding strip_match_def Let_def mt_setters bit_set_attr bit_put_nw by auto

lemma other_attrs:
  "bit (mt_wildcards m) 0 = bit (mt_wildcards m') 0 \<Longrightarrow> h_in_port m = h_in_port m' \<Longrightarrow> mt_in_port m = mt_in_port m'"
  "bit (mt_wildcards m) 1 = bit (mt_wildcards m') 1 \<Longrightarrow> h_dl_vlan m = h_dl_vlan m' \<Longrightarrow> mt_dl_vlan m = mt_dl_vlan m'"
  "bit (mt_wildcards m) 20 = bit (mt_wildcards m') 20 \<Longrightarrow> h_dl_vlan_pcp m = h_dl_vlan_pcp m' \<Longrightarrow> mt_dl_vlan_pcp m = mt_dl_vlan_pcp m'"
  "bit (mt_wildcards m) 21 = bit (mt_wildcards m') 21 \<Longrightarrow> h_nw_tos m = h_nw_tos m' \<Longrightarrow> mt_nw_tos m = mt_nw_tos m'"
  by (simp_all add: mt_attrs attr_def)

lemma strip_h: 
  "h_in_port (strip_match m) = 0" "h_dl_vlan (strip_match m) = 0" "h_dl_vlan_pcp (strip_match m) = 0" "h_nw_tos (strip_match m) = 0"
  unfolding strip_match_def Let_def mt_setters set_attr_def put_nw_src_def put_nw_dst_def by (simp_all add: match_init_def split: option.split)

lemma without_dl_dst: "h_in_port (set_dl_dst v m) = h_in_port m" "h_dl_vlan (set_dl_dst v m) = h_dl_vlan m"
   "h_dl_vlan_pcp (set_dl_dst v m) = h_dl_vlan_pcp m" "h_nw_tos (set_dl_dst v m) = h_nw_tos m"
   "bit (mt_wildcards (set_dl_dst v m)) n \<longleftrightarrow> (if n = 3 then v = None else bit (mt_wildcards m) n)"
  by (simp_all add: set_dl_dst_def bit_set_attr) (simp_all add: set_attr_def split: option.split)

lemma key_found:
  assumes "mt_dl_src x = mt_dl_src y" "mt_dl_dst y = None" "mt_dl_type x = mt_dl_type y" "mt_nw_proto x = mt_nw_proto y" "mt_tp_src x = mt_tp_src y"
    "mt_tp_dst x = mt_tp_dst y" "mt_nw_src x = mt_nw_src y" "mt_nw_dst x = mt_nw_dst y"
  shows "match_eq (strip_match y) (set_dl_dst None (match_clone (strip_match x)))"
proof -
  let ?a = "strip_match y" and ?b = "set_dl_dst None (match_clone (strip_match x))"
  have c: "h_in_port (match_clone m) = h_in_port m" "h_dl_vlan (match_clone m) = h_dl_vlan m" "h_dl_vlan_pcp (match_clone m) = h_dl_vlan_pcp m"
    "h_nw_tos (match_clone m) = h_nw_tos m" "mt_wildcards (match_clone m) = mt_wildcards m" for m by (simp_all add: match_clone_def)
  have b: "bit (mt_wildcards ?a) n = bit (mt_wildcards ?b) n" for n using assms by (simp add: without_dl_dst c bit_strip)
  then have "mt_wildcards ?a = mt_wildcards ?b" by (auto intro: bit_eqI)
  moreover have "mt_in_port ?a = mt_in_port ?b" "mt_dl_vlan ?a = mt_dl_vlan ?b" "mt_dl_vlan_pcp ?a = mt_dl_vlan_pcp ?b" "mt_nw_tos ?a = mt_nw_tos ?b"
    by (intro other_attrs b; simp add: strip_h without_dl_dst c)+
  ultimately show ?thesis using assms by (simp add: match_eq_def mt_get)
qed

text \<open>Flow modifications with few actions pack, and so does a packet that goes with one.\<close>

lemma actions_pack: "\<forall>a\<in>set as. act_len a < 65536 \<Longrightarrow> \<exists>bs. pack_actions as = Inr bs"
  unfolding pack_actions_def by (induction as) (auto simp: act_pack_def Let_def pack_nat_H_def)

lemma flow_mod_packs_ok: "\<forall>a\<in>set (fm_actions f). act_len a < 65536 \<Longrightarrow> flow_mod_len f < 65536 \<Longrightarrow> packs_ok (MFlowMod f) = Inr ()"
  using actions_pack [of "fm_actions f"]
  by (auto simp: packs_ok_def msg_pack_def body_validate_def header_pack_def pack_nat_H_def flow_mod_bytes_def)

lemma table_out_packs_ok: "length d + 24 < 65536 \<Longrightarrow>
  packs_ok (MPacketOut \<lparr>po_buffer_id = NO_BUFFER, po_in_port = ip, po_actions = [ActOutput OFPP_TABLE 0xffff], po_data = d\<rparr>) = Inr ()"
  by (simp add: packs_ok_def msg_pack_def body_validate_def header_pack_def pack_nat_H_def packet_out_len_def packet_out_bytes_def
      pack_actions_def act_pack_def OFPP_TABLE_def OFPP_CONTROLLER_def)

lemma barrier_packs_ok: "packs_ok MBarrierRequest = Inr ()"
  by (simp add: packs_ok_def msg_pack_def body_validate_def header_pack_def pack_nat_H_def)

lemma flow_bodies_pack:
  assumes "\<forall>a\<in>set (fm_actions f). act_len a < 65536" "flow_mod_len f < 65536" "fm_data f = None \<or> (\<exists>m. fm_data f = Some m \<and> length (pi_data m) + 24 < 65536)"
  shows "\<forall>b\<in>set (flow_bodies f). packs_ok b = Inr ()"
proof -
  have "packs_ok (MFlowMod (f\<lparr>fm_buffer_id := x, fm_data := None\<rparr>)) = Inr ()" for x
    by (rule flow_mod_packs_ok) (use assms(1,2) in \<open>simp_all add: flow_mod_len_def\<close>)
  moreover have "packs_ok (MFlowMod (f\<lparr>fm_data := None\<rparr>)) = Inr ()"
    by (rule flow_mod_packs_ok) (use assms(1,2) in \<open>simp_all add: flow_mod_len_def\<close>)
  ultimately show ?thesis
    using assms(3) flow_mod_packs_ok [OF assms(1,2)] by (auto simp: flow_bodies_def flow_mod_with_data_def table_out_packs_ok barrier_packs_ok split: if_splits)
qed

lemma nat_flows_pack:
  "\<forall>b\<in>set (flow_bodies (incoming_flow s packet m match srcip dns rport fake gw)). packs_ok b = Inr ()"
  "length (pi_data m') + 24 < 65536 \<Longrightarrow> \<forall>b\<in>set (flow_bodies ((outgoing_flow s m match dns rport fake outside gw)\<lparr>fm_data := Some m'\<rparr>)). packs_ok b = Inr ()"
  by (rule flow_bodies_pack;
      auto simp: incoming_flow_def outgoing_flow_def nat_flow_def new_flow_mod_def flow_mod_len_def Let_def split: option.splits)+

lemma nat_send_packed: "\<forall>b\<in>set bs. packs_ok b = Inr () \<Longrightarrow> nat_send bs s = (Inr (), s\<lparr>nt_sent := nt_sent s @ bs\<rparr>)"
proof -
  assume "\<forall>b\<in>set bs. packs_ok b = Inr ()"
  then have "sfor bs (\<lambda>b. slift (packs_ok b)) s = (Inr (), s)" by (induction bs) (simp_all add: sm_run)
  then show ?thesis by (simp add: nat_send_def sm_run)
qed

text \<open>What sending a record again changes: its flow modifications are sent, its time runs anew, its matches and port stay.\<close>

lemma nat_resend_run:
  assumes i: "i < length (nt_records s)" "nr_fake (nt_records s ! i) \<noteq> None"
    and pack: "\<forall>b\<in>set (flow_bodies (nr_in_fm (nt_records s ! i))). packs_ok b = Inr ()"
      "\<forall>b\<in>set (flow_bodies ((nr_out_fm (nt_records s ! i))\<lparr>fm_data := Some m\<rparr>)). packs_ok b = Inr ()"
  shows "\<exists>s'. nat_resend now False i m s = (Inr (), s') \<and> nt_outgoing s' = nt_outgoing s \<and> nt_incoming s' = nt_incoming s \<and>
    length (nt_records s') = length (nt_records s) \<and> nr_fake (nt_records s' ! i) = nr_fake (nt_records s ! i) \<and>
    nt_sent s' = nt_sent s @ flow_bodies (nr_in_fm (nt_records s ! i)) @ flow_bodies ((nr_out_fm (nt_records s ! i))\<lparr>fm_data := Some m\<rparr>)"
proof -
  define r where "r = (nt_records s ! i)\<lparr>nr_out_fm := (nr_out_fm (nt_records s ! i))\<lparr>fm_data := Some m\<rparr>, nr_expires := now + FLOW_MEMORY_TIMEOUT\<rparr>"
  define s1 where "s1 = s\<lparr>nt_records := (nt_records s)[i := r]\<rparr>"
  let ?bs = "flow_bodies (nr_in_fm r) @ flow_bodies (nr_out_fm r)"
  have "nat_resend now False i m s = sthen (nat_send ?bs) (change_record i (\<lambda>r. set_data True None (set_data False None r))) s1"
    using i by (cases "nr_fake (nt_records s ! i)") (simp_all add: nat_resend_def change_record_def sm_run s1_def r_def set_data_def)
  moreover have "nat_send ?bs s1 = (Inr (), s1\<lparr>nt_sent := nt_sent s1 @ ?bs\<rparr>)"
    by (rule nat_send_packed) (use pack in \<open>auto simp: r_def\<close>)
  ultimately show ?thesis using i by (auto simp: sm_run change_record_def s1_def set_data_def r_def)
qed

lemma pick_port_free:
  assumes "49152 \<le> rnd" "rnd \<le> 65534" "49152 \<le> q" "q < 65534" "(proto, q) \<notin> nt_used_ports s"
  shows "\<exists>p. pick_port rnd proto src s = (Inr (Some p), s\<lparr>nt_used_ports := insert (proto, p) (nt_used_ports s)\<rparr>) \<and>
    1024 \<le> p \<and> p < 65536 \<and> (proto, p) \<notin> nt_used_ports s"
proof -
  have r: "1024 \<le> rnd" "rnd < 65536" using assms(1,2) by simp_all
  obtain f where f: "pick_port rnd proto src s =
      (Inr f, s\<lparr>nt_used_ports := case f of None \<Rightarrow> nt_used_ports s | Some p \<Rightarrow> insert (proto, p) (nt_used_ports s)\<rparr>)"
    "\<forall>p. f = Some p \<longrightarrow> 1024 \<le> p \<and> p < 65536 \<and> (proto, p) \<notin> nt_used_ports s"
    "f = None \<longrightarrow> (\<forall>p. 49152 \<le> p \<and> p < 65534 \<longrightarrow> (proto, p) \<in> nt_used_ports s)"
    using pick_port_run [OF r, of proto src s] by blast
  have "f \<noteq> None" using f(3) assms(3-5) by blast
  then obtain p where "f = Some p" by blast
  then show ?thesis using f(1,2) by simp
qed

text \<open>The name server of a question that goes to the address that the translation claims to be one.\<close>

definition asks_dns :: "nat_state \<Rightarrow> bool \<Rightarrow> ipv4 \<Rightarrow> 16 word \<Rightarrow> ip_addr option" where
  "asks_dns s tcp ip dport = (if \<not> tcp \<and> dport = 53 \<and> ip_dstip ip = nt_inside_ip s then nt_dns_ip s else None)"

lemma nat_new_connection:
  assumes "outside_eth s = Inr (Some outside)" "nt_gateway_eth s = Some gw" "Some (pi_in_port m) \<noteq> nt_portno s"
    and "packet = eth_parse L (pi_data m)" "eth_find_l4 tcp packet = Some (Some ip, sport, dport)" "tcp \<or> eth_find_l4 True packet = None"
    and "dns = asks_dns s tcp ip dport" "\<not> nat_is_local (nt_subnet s) (ip_dstip ip) \<or> dns \<noteq> None"
    and "match = strip_match (match_from_packet packet (Some (pi_in_port m)) False)" "m_get match (nt_outgoing s) = None" "mt_tp_src match = Some src"
    and "49152 \<le> rnd" "rnd \<le> 65534" "49152 \<le> q" "q < 65534" "(mt_nw_proto match, q) \<notin> nt_used_ports s"
    and "length (pi_data m) + 24 < 65536"
  shows "\<exists>p s'. let inf = incoming_flow s packet m match (ip_srcip ip) dns sport (Some p) gw; outf = outgoing_flow s m match dns sport (Some p) outside gw in
    nat_packet_in L now rnd m s = (Inr (), s') \<and>
    nt_outgoing s' = nt_outgoing s @ [(match, length (nt_records s))] \<and> nr_fake (nt_records s' ! length (nt_records s)) = Some p \<and>
    1024 \<le> p \<and> p < 65536 \<and> (mt_nw_proto match, p) \<notin> nt_used_ports s \<and>
    nt_incoming s' = m_set (strip_match (fm_match inf)) (length (nt_records s)) (nt_incoming s) \<and>
    nt_sent s' = nt_sent s @ flow_bodies inf @ flow_bodies (outf\<lparr>fm_data := Some m\<rparr>)"
proof -
  have "nat_packet_in L now rnd m s = nat_l4 L now rnd m packet outside gw (eth_find_l4 True packet = None) ip sport dport s"
    using assms(1,2,5,6) by (cases tcp) (simp_all add: nat_packet_in_def sm_run Let_def flip: assms(4))
  also have "\<dots> = nat_outgoing now rnd packet m match (ip_srcip ip) dns sport outside gw s"
    using assms(3,5-9) by (cases tcp) (auto simp: nat_l4_def asks_dns_def sm_run Let_def)
  finally have run: "nat_packet_in L now rnd m s = nat_outgoing now rnd packet m match (ip_srcip ip) dns sport outside gw s" .
  obtain p where p: "pick_port rnd (mt_nw_proto match) src s = (Inr (Some p), s\<lparr>nt_used_ports := insert (mt_nw_proto match, p) (nt_used_ports s)\<rparr>)"
    "1024 \<le> p" "p < 65536" "(mt_nw_proto match, p) \<notin> nt_used_ports s"
    using pick_port_free [OF assms(12-16)] by blast
  define s1 where "s1 = s\<lparr>nt_used_ports := insert (mt_nw_proto match, p) (nt_used_ports s)\<rparr>"
  define r where "r = new_record now s1 packet m match (ip_srcip ip) dns sport (Some p) outside gw"
  let ?i = "length (nt_records s)"
  have flows: "nr_in_fm r = incoming_flow s packet m match (ip_srcip ip) dns sport (Some p) gw" "nr_out_fm r = outgoing_flow s m match dns sport (Some p) outside gw"
    "nr_in_match r = strip_match (fm_match (nr_in_fm r))" "nr_fake r = Some p"
    by (cases dns; simp add: r_def new_record_def Let_def incoming_flow_def outgoing_flow_def s1_def)+
  have out: "nr_out_match r = match" unfolding r_def by (rule new_record_matches(1) [OF assms(9)])
  define s2 where "s2 = s1\<lparr>nt_records := nt_records s1 @ [r], nt_incoming := m_set (nr_in_match r) ?i (nt_incoming s1), nt_outgoing := m_set match ?i (nt_outgoing s1)\<rparr>"
  have resend: "nat_packet_in L now rnd m s = nat_resend now False ?i m s2"
    using run assms(10,11) p(1) out by (simp add: nat_outgoing_def sm_run Let_def s1_def r_def s2_def)
  have s2: "?i < length (nt_records s2)" "nt_records s2 ! ?i = r" "nt_outgoing s2 = nt_outgoing s @ [(match, ?i)]"
    "nt_incoming s2 = m_set (nr_in_match r) ?i (nt_incoming s)" "nt_sent s2 = nt_sent s"
    using m_set_new [OF assms(10)] by (simp_all add: s2_def s1_def)
  obtain s' where result: "nat_resend now False ?i m s2 = (Inr (), s')" "nt_outgoing s' = nt_outgoing s2" "nt_incoming s' = nt_incoming s2"
    "nr_fake (nt_records s' ! ?i) = Some p" "nt_sent s' = nt_sent s2 @ flow_bodies (nr_in_fm r) @ flow_bodies ((nr_out_fm r)\<lparr>fm_data := Some m\<rparr>)"
    using nat_resend_run [OF s2(1), of m now] nat_flows_pack(1) nat_flows_pack(2) [OF assms(17)] by (auto simp: s2(2) flows(1,2,4))
  show ?thesis using result p(2-4) flows s2 resend by (intro exI [of _ p] exI [of _ s']) (simp add: Let_def)
qed

text \<open>What the start of the translation sets, whether or not its messages can be sent.\<close>

lemma nat_start_state:
  assumes "pc_getitem (ac_ports c) (nt_outside_port s) = Inr p"
  shows "\<exists>x. snd (nat_start le c s) = s\<lparr>nt_connection := Some c, nt_portno := Some (pp_port_no p), nt_sent := x\<rparr>"
proof -
  let ?P = "\<lambda>s'. \<exists>x. s' = s\<lparr>nt_connection := Some c, nt_portno := Some (pp_port_no p), nt_sent := x\<rparr>"
  have send: "keeps ?P (nat_send bs)" for bs
    unfolding nat_send_def by (intro keep keeps_smod) auto
  have "keeps ?P (arp_for_gateway le)" unfolding arp_for_gateway_def by (intro keep send)
  then have "keeps ?P (sthen (nat_send bs) (sbind (sget nt_outside_ip) (\<lambda>ip. sthen (nat_send (bs' ip)) (arp_for_gateway le))))" for bs bs'
    by (intro keep send)
  note rest = keeps_at [OF this, of "s\<lparr>nt_connection := Some c, nt_portno := Some (pp_port_no p)\<rparr>"]
  have "?P (s\<lparr>nt_connection := Some c, nt_portno := Some (pp_port_no p)\<rparr>)" by (intro exI [of _ "nt_sent s"]) simp
  then show ?thesis using assms rest by (simp add: nat_start_def sm_run Let_def)
qed

section \<open>An example\<close>

text \<open>A host inside asks a time server.\<close>

definition inside_packet :: packet_in where
  "inside_packet = \<lparr>pi_in_port = 2, pi_buffer_id = 8, pi_reason = 0, pi_data = [2, 0, 0, 0, 0, 2] @ [2, 0, 0, 0, 0, 9] @ [8, 0] @
     [69, 0, 0, 28, 0, 0, 0, 0, 64, 17, 0, 0, 10, 0, 0, 9, 8, 8, 8, 8] @ [19, 136, 0, 123, 0, 8, 0, 0], pi_total_len = None\<rparr>"

definition nat_switch :: arp_con where
  "nat_switch = \<lparr>ac_dpid = 7, ac_ports = Ports (map (\<lambda>n. \<lparr>pp_port_no = word_of_nat n, pp_hw_addr = [2, 0, 0, 0, 0, word_of_nat n], pp_name = [], pp_config = 0,
     pp_state = 0, pp_curr = 0, pp_advertised = 0, pp_supported = 0, pp_peer = 0\<rparr>) [1, 2]) {} None\<rparr>"

definition nat_gateway_reply :: arp where
  "nat_gateway_reply = default_arp\<lparr>arp_opcode := 2, arp_hwsrc := [2, 0, 0, 0, 0, 99], arp_protosrc := 0xC6336401\<rparr>"

definition before_packet :: nat_state where
  "before_packet = nat_arp_reply 7 1 nat_gateway_reply
     (snd (nat_connection_up True nat_switch (new_nat 0x0A000001 0xC6336402 0xC6336401 None (ByNumber 1) 7 None)))"

definition after_packet :: nat_state where
  "after_packet = snd (nat_packet_in no_lib 5 50000 inside_packet before_packet)"

lemma after_packet_run: "nat_run no_lib (new_nat 0x0A000001 0xC6336402 0xC6336401 None (ByNumber 1) 7 None) after_packet"
  unfolding after_packet_def before_packet_def
  by (intro nat_packet [OF _ _ _ surjective_pairing] nat_gateway nat_up [OF nat_start surjective_pairing]) simp_all

lemma before_packet_state:
  "outside_eth before_packet = Inr (Some [2, 0, 0, 0, 0, 1])" "nt_gateway_eth before_packet = Some [2, 0, 0, 0, 0, 99]" "nt_portno before_packet = Some 1"
  "nt_subnet before_packet = None" "nt_outgoing before_packet = []" "nt_used_ports before_packet = {}" "nt_records before_packet = []"
proof -
  let ?s = "new_nat 0x0A000001 0xC6336402 0xC6336401 None (ByNumber 1) 7 None"
  obtain p where p: "pc_getitem (ac_ports nat_switch) (ByNumber 1) = Inr p" "pp_port_no p = 1" "pp_hw_addr p = [2, 0, 0, 0, 0, 1]"
    by (simp add: nat_switch_def)
  obtain x where "snd (nat_connection_up True nat_switch ?s) = ?s\<lparr>nt_connection := Some nat_switch, nt_portno := Some 1, nt_sent := x\<rparr>"
    using nat_start_state [of nat_switch ?s p True] p(1,2) by (auto simp: nat_connection_up_def sm_run new_nat_def nat_switch_def)
  then show "outside_eth before_packet = Inr (Some [2, 0, 0, 0, 0, 1])" "nt_gateway_eth before_packet = Some [2, 0, 0, 0, 0, 99]"
    "nt_portno before_packet = Some 1" "nt_subnet before_packet = None" "nt_outgoing before_packet = []" "nt_used_ports before_packet = {}"
    "nt_records before_packet = []"
    using p by (simp_all add: before_packet_def nat_arp_reply_def new_nat_def nat_gateway_reply_def outside_eth_def)
qed

lemma inside_packet_parsed:
  "eth_find_l4 True (eth_parse no_lib (pi_data inside_packet)) = None"
  "mt_tp_src (match_from_packet (eth_parse no_lib (pi_data inside_packet)) (Some (pi_in_port inside_packet)) False) = Some 5000"
  "map_option (map_prod (map_option ip_dstip) id) (eth_find_l4 False (eth_parse no_lib (pi_data inside_packet))) = Some (Some 0x08080808, 5000, 123)"
  "\<not> nat_is_local None 0x08080808" "pi_in_port inside_packet = 2"
  by code_simp+

lemma inside_packet_short: "length (pi_data inside_packet) + 24 < 65536"
  by (simp add: inside_packet_def)


section \<open>Ports and replies\<close>

text \<open>
  C31. Whatever packets, replies, reconnections and expiries there were: two connections that the translation keeps do not
  share an outside port of the same protocol, every outside port is one that it may use, and the match for incoming
  packets of a connection finds its own record.
\<close>

theorem no_shared_port:
  assumes "nat_run L (new_nat inside outside gw dns port dpid subnet) s"
    and "(k, i) \<in> set (nt_outgoing s)" "nr_fake (nt_records s ! i) = Some p"
  shows "1024 \<le> p \<and> p < 65536 \<and> m_get (nr_in_match (nt_records s ! i)) (nt_incoming s) = Some i \<and>
    (\<forall>(k', j)\<in>set (nt_outgoing s). j \<noteq> i \<longrightarrow> mt_nw_proto k' = mt_nw_proto k \<longrightarrow> nr_fake (nt_records s ! j) \<noteq> Some p)"
proof -
  have ok: "nat_ok s" by (rule nat_run_ok [OF assms(1) new_nat_ok])
  have sig: "sig s ! j = (nr_in_match (nt_records s ! j), nr_out_match (nt_records s ! j), nr_fake (nt_records s ! j))"
    if "j < length (sig s)" for j using that by (simp add: sig_def)
  have live: "live s j" if "(k', j) \<in> set (nt_outgoing s)" for k' j using that by (force simp: live_def)
  have i: "i < length (sig s)" "k = out_of s i" using nat_okD(1) [OF ok assms(2)] by auto
  have p: "port_of s i = Some p" using sig [OF i(1)] assms(3) by simp
  have "nr_fake (nt_records s ! j) \<noteq> Some p" if "(k', j) \<in> set (nt_outgoing s)" "j \<noteq> i" "mt_nw_proto k' = mt_nw_proto k" for k' j
  proof -
    have j: "j < length (sig s)" "k' = out_of s j" using nat_okD(1) [OF ok that(1)] by auto
    show ?thesis using nat_okD(8) [OF ok live [OF assms(2)] live [OF that(1)] that(2) [symmetric] p] that(3) i(2) j sig by simp
  qed
  then show ?thesis using nat_okD(5) [OF ok i(1) p] nat_okD(6) [OF ok live [OF assms(2)] p] sig [OF i(1)] by auto
qed

theorem no_shared_port_witness: "\<exists>p. nr_fake (nt_records after_packet ! 0) = Some p \<and> 1024 \<le> p \<and> m_get (nr_in_match (nt_records after_packet ! 0)) (nt_incoming after_packet) = Some 0"
proof -
  obtain ip where ip: "eth_find_l4 False (eth_parse no_lib (pi_data inside_packet)) = Some (Some ip, 5000, 123)" "ip_dstip ip = 0x08080808"
    using inside_packet_parsed(3) by auto
  obtain k p where p: "nt_outgoing after_packet = [(k, 0)]" "nr_fake (nt_records after_packet ! 0) = Some p"
    using nat_new_connection [where tcp = False and q = 50000 and L = no_lib, OF before_packet_state(1,2) _ refl ip(1) _ refl _ refl _ trans [OF mt_get_strip(5) inside_packet_parsed(2)] _ _ _ _ _ inside_packet_short, of 50000 5]
    by (auto simp: before_packet_state inside_packet_parsed ip(2) m_get_def Let_def after_packet_def)
  then show ?thesis using no_shared_port [OF after_packet_run, of k 0 p] by simp
qed

text \<open>
  C32. The first packet of a connection from inside, to an address that is not local or to the name server that the
  translation claims to be: once the address of the gateway is known, while a port is free and the packet is not too long to be packed again, a record is made for it
  with an outside port, and both flows are sent, the one for the other direction first.  From then on the match of every reply, which
  comes from the gateway and the same server (the real one, for a name server) and port to the outside address and port,
  finds the record.  The flow for replies sends them back to the address and the port that the packet came from, as replies of
  the address that was asked; the other flow sends packets to the gateway from the outside address and port.
\<close>

theorem reply_finds_connection:
  assumes "outside_eth s = Inr (Some outside)" "nt_gateway_eth s = Some gw" "nt_portno s = Some port" "pi_in_port m \<noteq> port"
    and "packet = eth_parse L (pi_data m)" "eth_find_l4 tcp packet = Some (Some ip, sport, dport)" "tcp \<or> eth_find_l4 True packet = None"
    and "dns = asks_dns s tcp ip dport" "\<not> nat_is_local (nt_subnet s) (ip_dstip ip) \<or> dns \<noteq> None"
    and "match = strip_match (match_from_packet packet (Some (pi_in_port m)) False)" "m_get match (nt_outgoing s) = None" "mt_tp_src match = Some src"
    and "49152 \<le> rnd" "rnd \<le> 65534" "49152 \<le> q" "q < 65534" "(mt_nw_proto match, q) \<notin> nt_used_ports s"
    and "length (pi_data m) + 24 < 65536"
  shows "\<exists>p s'. let i = length (nt_records s); inf = incoming_flow s packet m match (ip_srcip ip) dns sport (Some p) gw;
      outf = outgoing_flow s m match dns sport (Some p) outside gw in
    nat_packet_in L now rnd m s = (Inr (), s') \<and>
    nt_outgoing s' = nt_outgoing s @ [(match, i)] \<and> nr_fake (nt_records s' ! i) = Some p \<and> 1024 \<le> p \<and> p < 65536 \<and>
    (mt_nw_proto match, p) \<notin> nt_used_ports s \<and>
    nt_sent s' = nt_sent s @ [MFlowMod inf] @ flow_bodies (outf\<lparr>fm_data := Some m\<rparr>) \<and>
    (\<forall>y. mt_dl_src y = Some gw \<longrightarrow> mt_dl_type y = mt_dl_type match \<longrightarrow> mt_nw_proto y = mt_nw_proto match \<longrightarrow>
       mt_nw_src y = (case dns of None \<Rightarrow> mt_nw_dst match | Some d \<Rightarrow> Some d) \<longrightarrow> mt_nw_dst y = Some (nt_outside_ip s) \<longrightarrow>
       mt_tp_src y = mt_tp_dst match \<longrightarrow> mt_tp_dst y = Some (word_of_nat p) \<longrightarrow>
       m_get (set_dl_dst None (match_clone (strip_match y))) (nt_incoming s') = Some i) \<and>
    fm_actions inf = [ActDlAddr SetSrc (eth_dst packet), ActDlAddr SetDst (eth_src packet), ActNwAddr SetDst (ip_srcip ip)] @
      (if dns = None then [] else [ActNwAddr SetSrc (nt_inside_ip s)]) @
      (if p \<noteq> unat sport then [ActTpPort SetDst sport] else []) @ [ActOutput (pi_in_port m) 0xffff] \<and>
    fm_actions outf = [ActDlAddr SetSrc outside, ActNwAddr SetSrc (nt_outside_ip s)] @ (case dns of None \<Rightarrow> [] | Some d \<Rightarrow> [ActNwAddr SetDst d]) @
      (if p \<noteq> unat sport then [ActTpPort SetSrc (word_of_nat p)] else []) @ [ActDlAddr SetDst gw, ActOutput port 0xffff]"
proof -
  let ?i = "length (nt_records s)"
  have port: "Some (pi_in_port m) \<noteq> nt_portno s" using assms(3,4) by simp
  obtain p s' where p: "nat_packet_in L now rnd m s = (Inr (), s')" "nt_outgoing s' = nt_outgoing s @ [(match, ?i)]"
    "nr_fake (nt_records s' ! ?i) = Some p" "1024 \<le> p" "p < 65536" "(mt_nw_proto match, p) \<notin> nt_used_ports s"
    "nt_incoming s' = m_set (strip_match (fm_match (incoming_flow s packet m match (ip_srcip ip) dns sport (Some p) gw))) ?i (nt_incoming s)"
    "nt_sent s' = nt_sent s @ flow_bodies (incoming_flow s packet m match (ip_srcip ip) dns sport (Some p) gw) @
       flow_bodies ((outgoing_flow s m match dns sport (Some p) outside gw)\<lparr>fm_data := Some m\<rparr>)"
    using nat_new_connection [OF assms(1,2) port assms(5-18)] unfolding Let_def by blast
  have "m_get (set_dl_dst None (match_clone (strip_match y))) (nt_incoming s') = Some ?i"
    if "mt_dl_src y = Some gw" "mt_dl_type y = mt_dl_type match" "mt_nw_proto y = mt_nw_proto match"
      "mt_nw_src y = (case dns of None \<Rightarrow> mt_nw_dst match | Some d \<Rightarrow> Some d)"
      "mt_nw_dst y = Some (nt_outside_ip s)" "mt_tp_src y = mt_tp_dst match" "mt_tp_dst y = Some (word_of_nat p)" for y
  proof -
    have "match_eq (strip_match (fm_match (incoming_flow s packet m match (ip_srcip ip) dns sport (Some p) gw))) (set_dl_dst None (match_clone (strip_match y)))"
      by (rule key_found; cases dns) (simp_all add: that incoming_flow_def Let_def nat_flow_def new_flow_mod_def mt_get)
    then show ?thesis using p(7) by (simp add: m_get_set)
  qed
  moreover have "flow_bodies (incoming_flow s packet m match (ip_srcip ip) dns sport (Some p) gw) = [MFlowMod (incoming_flow s packet m match (ip_srcip ip) dns sport (Some p) gw)]"
    by (simp add: incoming_flow_def Let_def nat_flow_def new_flow_mod_def flow_bodies_def flow_mod_with_data_def)
  moreover have "fm_actions (incoming_flow s packet m match (ip_srcip ip) dns sport (Some p) gw) =
      [ActDlAddr SetSrc (eth_dst packet), ActDlAddr SetDst (eth_src packet), ActNwAddr SetDst (ip_srcip ip)] @
      (if dns = None then [] else [ActNwAddr SetSrc (nt_inside_ip s)]) @
      (if p \<noteq> unat sport then [ActTpPort SetDst sport] else []) @ [ActOutput (pi_in_port m) 0xffff]"
    by (simp add: incoming_flow_def Let_def nat_flow_def new_flow_mod_def split: option.split)
  moreover have "fm_actions (outgoing_flow s m match dns sport (Some p) outside gw) =
      [ActDlAddr SetSrc outside, ActNwAddr SetSrc (nt_outside_ip s)] @ (case dns of None \<Rightarrow> [] | Some d \<Rightarrow> [ActNwAddr SetDst d]) @
      (if p \<noteq> unat sport then [ActTpPort SetSrc (word_of_nat p)] else []) @ [ActDlAddr SetDst gw, ActOutput port 0xffff]"
    by (simp add: outgoing_flow_def nat_flow_def new_flow_mod_def assms(3))
  ultimately show ?thesis using p by (intro exI [of _ p] exI [of _ s']) (simp add: Let_def)
qed

theorem reply_finds_connection_witness:
  "\<exists>k p inf outf. nt_outgoing after_packet = [(k, 0)] \<and> nr_fake (nt_records after_packet ! 0) = Some p \<and> 1024 \<le> p \<and>
    nt_sent after_packet = nt_sent before_packet @ [MFlowMod inf, MFlowMod outf] \<and> fm_buffer_id outf = 8 \<and>
    last (fm_actions inf) = ActOutput 2 0xffff \<and> last (fm_actions outf) = ActOutput 1 0xffff"
proof -
  obtain ip where ip: "eth_find_l4 False (eth_parse no_lib (pi_data inside_packet)) = Some (Some ip, 5000, 123)" "ip_dstip ip = 0x08080808"
    using inside_packet_parsed(3) by auto
  have buf: "pi_buffer_id inside_packet = 8" "(8::32 word) \<noteq> NO_BUFFER" by (simp_all add: inside_packet_def NO_BUFFER_def)
  have one: "flow_bodies (f\<lparr>fm_data := Some inside_packet\<rparr>) = [MFlowMod (f\<lparr>fm_buffer_id := 8, fm_data := None\<rparr>)]" for f
    using buf by (simp add: flow_bodies_def flow_mod_with_data_def is_complete_def)
  have dns: "None = asks_dns before_packet False ip 123" by (simp add: asks_dns_def)
  show ?thesis
    using reply_finds_connection [where tcp = False and q = 50000 and L = no_lib, OF before_packet_state(1-3) _ refl ip(1) _ dns _ refl _ trans [OF mt_get_strip(5) inside_packet_parsed(2)] _ _ _ _ _ inside_packet_short, of 50000 5]
    by (auto simp: before_packet_state inside_packet_parsed ip(2) m_get_def Let_def one after_packet_def)
qed

end
