(* ===== verification/Spec2Isabelle.thy ===== *)
theory Spec2Isabelle
  imports PBFT_System Controller_System Deferred Connection Util Spanning_Tree_App DHCP_Server Revent NAT
begin

text \<open>
  A verification development for POX (\<open>src/pox\<close>), an OpenFlow 1.0 controller with a software switch, and for the
  PBFT application that runs on it (\<open>src/ext/pbft_pox_app.py\<close>).

  \<^bold>\<open>The program.\<close>  A switch (\<open>datapaths/switch.py\<close>) keeps a flow table (\<open>openflow/flow_table.py\<close>), a buffer of packets
  and a table of ports; it matches packets (\<open>lib/packet\<close>) against flows (\<open>ofp_match\<close>) and reports what it does
  not know.  A controller connection (\<open>openflow/of_01.py\<close>) shakes hands with a switch, keeps a view of its ports,
  puts statistics together and raises events.  Both speak OpenFlow 1.0 (\<open>openflow/libopenflow_01.py\<close>) over a byte
  stream.  Applications answer the events.

  \<^bold>\<open>Theories and sources.\<close>

  \<^item> \<open>Prelude\<close>: exceptions as values (\<open>result\<close>), the state and exception monad \<open>sm\<close> with the rules \<open>sm_run\<close> that run
    it and the rules \<open>keep\<close> that carry an invariant through it, dictionaries in insertion order (\<open>d_set\<close>, \<open>d_del\<close>,
    with the locale \<open>py_dict\<close>), readers and the packing of integers (\<open>_read\<close>, \<open>_unpack\<close>, \<open>_skip\<close>, \<open>_readzs\<close>, \<open>_packzs\<close>).
  \<^item> \<open>Addresses\<close> (\<open>lib/addresses.py\<close>), \<open>Util\<close> (the datapath numbers as text of \<open>lib/util.py\<close>): round trips of the
    texts, masks, classes of addresses.
  \<^item> \<open>Packet\<close> (\<open>lib/packet\<close>: \<open>ethernet\<close>, \<open>vlan\<close>, \<open>arp\<close>, \<open>ipv4\<close>, \<open>udp\<close>, \<open>tcp\<close>, \<open>icmp\<close>): headers as records, payloads as a
    datatype, parsing and packing, the Internet checksum.
  \<^item> \<open>Match\<close>, \<open>Actions\<close>, \<open>Stats\<close>, \<open>Messages\<close> (\<open>libopenflow_01.py\<close>): one record or constructor per class, \<open>..._pack\<close> or
    \<open>..._bytes\<close> and \<open>..._unpack\<close> or \<open>..._read\<close> per class; every message that packs is read back.
  \<^item> \<open>Flow_Table\<close> (\<open>flow_table.py\<close>): lookup, insertion by bisection, removal, expiry; the table is a refinement of
    a highest-priority lookup.
  \<^item> \<open>Switch\<close>, \<open>Switch_Invariant\<close>, \<open>Switch_Behaviour\<close> (\<open>switch.py\<close>): the whole message and packet interface as
    operations of the monad, the step relation \<open>switch_step\<close> with the invariant of all reachable states, and what
    the operations do: flow modifications, flooding, buffering, nesting.
  \<^item> \<open>Connection\<close> (\<open>OFConnection.read\<close> and \<open>Connection.read\<close>): the two stream readers under one interface
    \<open>frame_reader\<close>; the loops are \<open>partial_function\<close>s, so a loop that does not end is the value \<open>None\<close>.
  \<^item> \<open>Controller\<close>, \<open>Controller_Behaviour\<close> (\<open>of_01.py\<close>, \<open>openflow/__init__.py\<close>): the handshake and the established
    connection, the port collection under the interface \<open>port_table\<close>, statistics.
  \<^item> \<open>Controller_System\<close>: controller and switch joined.  \<open>Deferred\<close>: the thread that writes what a socket did not
    take, as a step relation over all interleavings.
  \<^item> \<open>LLDP\<close> (\<open>lib/packet/lldp.py\<close>, \<open>llc.py\<close>): TLVs and the LLC header.  \<open>Discovery\<close> (\<open>discovery.py\<close>): the sender of discovery
    packets as a queue that turns, and the adjacency, with the listeners of \<open>LinkEvent\<close> under the interface
    \<open>link_listener\<close>.  \<open>Spanning_Tree\<close>, \<open>Spanning_Tree_App\<close> (\<open>spanning_tree.py\<close>): culling and search, the result is a spanning
    forest; the component that sets the \<open>NO_FLOOD\<close> bits, on top of discovery.
  \<^item> \<open>L2_Learning\<close> (\<open>forwarding/l2_learning.py\<close>): the learning switch of one connection, and its flows carried out by the
    software switch.  \<open>L3_Learning\<close> (\<open>forwarding/l3_learning.py\<close>): the layer 3 learning switch, who waits for whom as an
    invariant of all sequences of packets and timers.
  \<^item> \<open>DHCP\<close> (\<open>lib/packet/dhcp.py\<close> and \<open>SimpleAddressPool\<close>), \<open>DHCP_Server\<close> (\<open>proto/dhcpd.py\<close>): the messages with their options, the
    pool whose search ends, the handlers, and the range of all addresses that are leased or offered.
  \<^item> \<open>Revent\<close> (\<open>lib/revent/revent.py\<close>): the event system; the lists of listeners are mutable objects in a heap, handlers are
    arguments that may change them while an event is raised.
  \<^item> \<open>ARP_Services\<close> (\<open>proto/arp_helper.py\<close>, \<open>arp_responder.py\<close>): who answers ARP requests and with what.  \<open>NAT\<close> (\<open>misc/nat.py\<close>):
    address translation; its records are shared objects in a list, indexed by matches in both directions, with an invariant
    of all sequences of packets, replies and expiries.
  \<^item> \<open>PBFT_App\<close> (\<open>pbft_pox_app.py\<close>): the replicated learning switch, the replica's service and the primary's handlers;
    \<open>PBFT_System\<close> joins it to the switch.

  \<^bold>\<open>Conventions.\<close>  A raise is \<open>Inl\<close> of the exception, together with the state at that moment; log output is left
  out; integers of the wire are words of their width, Python's own integers \<open>int\<close> or \<open>nat\<close>.  \<open>rx_packet\<close> enters
  itself when an action outputs to the table; its first argument is the depth that the interpreter allows, one
  level is enough unless a flow outputs to the table, and otherwise none is.  Code that is not in the repository is
  a parameter: the parsers that are not modelled and the byte order of the host (\<open>packet_lib\<close>), \<open>json.loads\<close>, the
  answers of sockets, of the consensus service and of event listeners.

  \<^bold>\<open>Not modelled.\<close>  Sockets, threads, logging, the command line, the web and messenger services, and the packet
  types, the Nicira extensions and the applications that no theory above names.
\<close>

end
